(* ===== verification/Prelude.thy ===== *)
theory Prelude
  imports Main "HOL-Library.Word" "HOL-Library.Sublist" "HOL-Library.Char_ord"
begin

unbundle bit_operations_syntax

text \<open>
  Shared vocabulary of the development: the fixed-width integers of the C++ code, the
  outcome of an operation that can return a value, return \<open>false\<close>, throw or run into
  undefined behaviour, the operations of \<open>std::string\<close> the sources use, and the generic
  lemmas on words and lists the components share.
\<close>

named_theorems cpp_defs "defining equations of the model, unfolded on demand"

type_synonym u8 = "8 word"
type_synonym u16 = "16 word"
type_synonym u32 = "32 word"
type_synonym u64 = "64 word"
type_synonym bytes = "u8 list"


section \<open>Outcomes of C++ operations\<close>

text \<open>
  \<open>Done a\<close> is a normal return, \<open>Reject\<close> a routine that returns \<open>false\<close> (its
  reference parameters are then not used by any caller), \<open>Throws\<close> a C++ exception and
  \<open>Undef\<close> behaviour the language leaves undefined (a shift by the width or more, signed
  overflow, an access outside an object).
\<close>

datatype exn = Length_error | Out_of_range

datatype 'a outcome = Done 'a | Reject | Throws exn | Undef

fun obind :: "'a outcome \<Rightarrow> ('a \<Rightarrow> 'b outcome) \<Rightarrow> 'b outcome" where
  "obind (Done a) f = f a"
| "obind Reject f = Reject"
| "obind (Throws e) f = Throws e"
| "obind Undef f = Undef"

lemma obind_cong [fundef_cong]:
  "x = y \<Longrightarrow> (\<And>a. y = Done a \<Longrightarrow> f a = g a) \<Longrightarrow> obind x f = obind y g"
  by (cases y) auto

lemma obind_Done_iff: "obind x f = Done b \<longleftrightarrow> (\<exists>a. x = Done a \<and> f a = Done b)"
  by (cases x) auto

lemma obind_DoneE [elim!]:
  assumes "obind x f = Done b"
  obtains a where "x = Done a" and "f a = Done b"
  using assms by (cases x) auto

lemma obind_Undef_iff:
  "obind x f = Undef \<longleftrightarrow> x = Undef \<or> (\<exists>a. x = Done a \<and> f a = Undef)"
  by (cases x) auto

lemma obind_assoc: "obind (obind x f) g = obind x (\<lambda>a. obind (f a) g)"
  by (cases x) auto


text \<open>
  A run that waits for ever has no result, \<open>None\<close>; otherwise it ends with an outcome.
\<close>

type_synonym 'a run = "'a outcome option"

fun rbind :: "'a run \<Rightarrow> ('a \<Rightarrow> 'b run) \<Rightarrow> 'b run" where
  "rbind None f = None"
| "rbind (Some (Done a)) f = f a"
| "rbind (Some Reject) f = Some Reject"
| "rbind (Some (Throws e)) f = Some (Throws e)"
| "rbind (Some Undef) f = Some Undef"

lemma rbind_Done_iff: "rbind x f = Some (Done b) \<longleftrightarrow> (\<exists>a. x = Some (Done a) \<and> f a = Some (Done b))"
  by (induction x f rule: rbind.induct) auto

lemma rbind_assoc: "rbind (rbind x f) g = rbind x (\<lambda>a. rbind (f a) g)"
  by (induction x f rule: rbind.induct) auto

lemma rbind_cong [fundef_cong]:
  "x = y \<Longrightarrow> (\<And>a. y = Some (Done a) \<Longrightarrow> f a = g a) \<Longrightarrow> rbind x f = rbind y g"
  by (induction y f rule: rbind.induct) auto


section \<open>Words\<close>

lemma unat_drop_bit_less:
  fixes n :: "'a::len word"
  assumes "drop_bit k n \<noteq> 0" and "0 < k"
  shows "unat (drop_bit k n) < unat n"
proof -
  have *: "unat (drop_bit k n) = unat n div 2 ^ k"
    unfolding unsigned_drop_bit_eq
    by (simp add: drop_bit_eq_div take_bit_nat_eq_self)
  then have "0 < unat n div 2 ^ k"
    using assms(1) by (metis bot_nat_0.not_eq_extremum unat_eq_0)
  then have "0 < unat n" by (cases "unat n") auto
  moreover have "1 < (2::nat) ^ k" using assms(2) by (intro one_less_power) auto
  ultimately show ?thesis unfolding * by (simp add: div_less_dividend)
qed

lemma unat_of_nat64: "n < 2 ^ 64 \<Longrightarrow> unat (of_nat n :: u64) = n"
  by (simp add: unsigned_of_nat take_bit_nat_eq_self)

lemma drop_bit_nonzero_less:
  fixes n :: "'a::len word"
  assumes "drop_bit k n \<noteq> 0"
  shows "k < LENGTH('a)"
proof (rule ccontr)
  assume "\<not> k < LENGTH('a)"
  then have "drop_bit k n = 0"
    by (intro bit_word_eqI) (simp add: bit_simps)
  with assms show False by simp
qed

lemma split_low_bits:
  fixes n :: "'a::len word"
  shows "take_bit k n OR push_bit k (drop_bit k n) = n"
proof (rule bit_word_eqI)
  fix i assume "i < LENGTH('a)"
  then show "bit (take_bit k n OR push_bit k (drop_bit k n)) i = bit n i"
    by (cases "i < k") (auto simp: bit_simps)
qed

lemma and_mask7: "(n AND 0x7F) = take_bit 7 (n :: 'a::len word)"
proof -
  have "(0x7F :: 'a word) = mask 7" by (simp add: mask_eq_exp_minus_1)
  then show ?thesis by (simp add: take_bit_eq_mask)
qed

lemma and_mask6: "(n AND 0x3F) = take_bit 6 (n :: 'a::len word)"
proof -
  have "(0x3F :: 'a word) = mask 6" by (simp add: mask_eq_exp_minus_1)
  then show ?thesis by (simp add: take_bit_eq_mask)
qed

lemma and_0x80_iff: "(b AND 0x80 = 0) \<longleftrightarrow> \<not> bit (b :: u8) 7"
proof -
  have "(0x80 :: u8) = push_bit 7 1" by simp
  then show ?thesis
    by (metis and_exp_eq_0_iff_not_bit push_bit_of_1)
qed

lemma bit_0x80 [simp]: "bit (0x80 :: 'a::len word) i \<longleftrightarrow> i = 7 \<and> 7 < LENGTH('a)"
proof -
  have *: "(0x80 :: 'a word) = push_bit 7 1" by simp
  show ?thesis unfolding * bit_push_bit_iff bit_1_iff by auto
qed

lemma bit_0x40 [simp]: "bit (0x40 :: 'a::len word) i \<longleftrightarrow> i = 6 \<and> 6 < LENGTH('a)"
proof -
  have *: "(0x40 :: 'a word) = push_bit 6 1" by simp
  show ?thesis unfolding * bit_push_bit_iff bit_1_iff by auto
qed

lemma bit_int_128 [simp]: "bit (128 :: int) i \<longleftrightarrow> i = 7"
proof -
  have *: "(128 :: int) = push_bit 7 1" by simp
  show ?thesis unfolding * bit_push_bit_iff bit_1_iff by auto
qed

lemma bit_int_64 [simp]: "bit (64 :: int) i \<longleftrightarrow> i = 6"
proof -
  have *: "(64 :: int) = push_bit 6 1" by simp
  show ?thesis unfolding * bit_push_bit_iff bit_1_iff by auto
qed

lemma and_0x40_iff: "(b AND 0x40 = 0) \<longleftrightarrow> \<not> bit (b :: u8) 6"
proof -
  have "(0x40 :: u8) = push_bit 6 1" by simp
  then show ?thesis
    by (metis and_exp_eq_0_iff_not_bit push_bit_of_1)
qed

end
