(* ===== verification/Cxx_String.thy ===== *)
theory Cxx_String
  imports Prelude "HOL-Library.List_Lexorder"
begin

text \<open>
  The operations of \<open>std::string\<close> and the C character classes the text-handling components
  use: searching, substrings with their exception, replacement, ASCII case and classes,
  decimal printing and \<open>atoi\<close>. A text is a list of characters; \<open>npos\<close> is \<open>None\<close>.
\<close>


section \<open>Searching\<close>

fun find_sub :: "'a list \<Rightarrow> 'a list \<Rightarrow> nat option" where
  "find_sub pat s =
     (if prefix pat s then Some 0
      else case s of [] \<Rightarrow> None | c # s' \<Rightarrow> map_option Suc (find_sub pat s'))"

declare find_sub.simps [simp del]

definition find_from :: "'a list \<Rightarrow> 'a list \<Rightarrow> nat \<Rightarrow> nat option" where
  "find_from str pat pos =
     (if length str < pos then None else map_option ((+) pos) (find_sub pat (drop pos str)))"

definition contains :: "'a list \<Rightarrow> 'a list \<Rightarrow> bool" where
  "contains str pat = (find_from str pat 0 \<noteq> None)"

lemma find_sub_Nil [simp]: "find_sub pat [] = (if pat = [] then Some 0 else None)"
  by (subst find_sub.simps) simp

lemma find_sub_Nil_pat [simp]: "find_sub [] s = Some 0"
  by (subst find_sub.simps) simp

lemma find_sub_Cons:
  "find_sub pat (c # s) = (if prefix pat (c # s) then Some 0 else map_option Suc (find_sub pat s))"
  by (subst find_sub.simps) simp

lemma find_sub_SomeD:
  "find_sub pat s = Some i \<Longrightarrow>
     i + length pat \<le> length s \<and> s = take i s @ pat @ drop (i + length pat) s
     \<and> (\<forall>j<i. \<not> prefix pat (drop j s))"
proof (induction s arbitrary: i)
  case (Cons c s)
  show ?case
  proof (cases "prefix pat (c # s)")
    case True
    with Cons.prems have "i = 0" by (simp add: find_sub_Cons)
    moreover have "length pat \<le> length (c # s)" using True by (rule prefix_length_le)
    ultimately show ?thesis using True by (auto simp: prefix_def)
  next
    case False
    with Cons.prems obtain k where k: "find_sub pat s = Some k" "i = Suc k"
      by (auto simp: find_sub_Cons)
    have "\<not> prefix pat (drop j (c # s))" if "j < i" for j
      using that False Cons.IH[OF k(1)] k(2) by (cases j) auto
    with Cons.IH[OF k(1)] k(2) show ?thesis by simp
  qed
qed (simp split: if_splits)

lemma find_sub_None_iff: "find_sub pat s = None \<longleftrightarrow> (\<forall>j\<le>length s. \<not> prefix pat (drop j s))"
proof (induction s)
  case (Cons c s)
  have "(\<forall>j\<le>length (c # s). \<not> prefix pat (drop j (c # s))) \<longleftrightarrow>
      \<not> prefix pat (c # s) \<and> (\<forall>j\<le>length s. \<not> prefix pat (drop j s))"
    by (auto simp: less_Suc_eq_0_disj less_Suc_eq_le[symmetric])
       (metis Suc_less_eq drop_Suc_Cons not0_implies_Suc drop0)
  with Cons show ?case by (auto simp: find_sub_Cons)
qed simp

lemma find_sub_None_sublist: "find_sub pat s = None \<longleftrightarrow> \<not> sublist pat s"
proof -
  have "sublist pat s \<longleftrightarrow> (\<exists>j\<le>length s. prefix pat (drop j s))"
  proof
    assume "sublist pat s"
    then obtain a b where "s = a @ pat @ b" by (auto simp: sublist_def)
    then show "\<exists>j\<le>length s. prefix pat (drop j s)"
      by (intro exI[of _ "length a"]) simp
  next
    assume "\<exists>j\<le>length s. prefix pat (drop j s)"
    then show "sublist pat s" by (metis append_take_drop_id prefixE sublist_def)
  qed
  then show ?thesis by (auto simp: find_sub_None_iff)
qed

lemma find_sub_first:
  assumes "\<And>j. j < length pre \<Longrightarrow> \<not> prefix pat (drop j (pre @ pat @ post))"
  shows "find_sub pat (pre @ pat @ post) = Some (length pre)"
  using assms
proof (induction pre)
  case Nil
  have "prefix pat (pat @ post)" by simp
  then show ?case by (subst find_sub.simps) simp
next
  case (Cons c pre)
  have "\<not> prefix pat (c # pre @ pat @ post)" using Cons.prems[of 0] by simp
  moreover have "find_sub pat (pre @ pat @ post) = Some (length pre)"
    using Cons.prems[of "Suc j" for j] by (intro Cons.IH) auto
  ultimately show ?case by (simp add: find_sub_Cons)
qed

lemma find_sub_char: "c \<notin> set pre \<Longrightarrow> find_sub [c] (pre @ c # post) = Some (length pre)"
  by (induction pre) (auto simp: find_sub_Cons)

lemma find_sub_char_None: "find_sub [c] s = None \<longleftrightarrow> c \<notin> set s"
  by (induction s) (auto simp: find_sub_Cons)

text \<open>A pattern whose first character does not occur before it.\<close>

lemma find_sub_head:
  "c \<notin> set pre \<Longrightarrow> find_sub (c # cs) (pre @ c # cs @ post) = Some (length pre)"
  by (induction pre) (auto simp: find_sub_Cons)

lemma find_from_0 [simp]: "find_from str pat 0 = find_sub pat str"
  by (cases "find_sub pat str") (simp_all add: find_from_def)

lemma find_from_append:
  "find_from (pre @ s) pat (length pre) = map_option ((+) (length pre)) (find_sub pat s)"
  by (simp add: find_from_def)

lemma find_from_SomeD:
  assumes "find_from str pat pos = Some i"
  shows "pos \<le> i \<and> i + length pat \<le> length str \<and> find_sub pat (drop pos str) = Some (i - pos)"
proof -
  obtain k where "find_sub pat (drop pos str) = Some k" "i = pos + k" "pos \<le> length str"
    using assms by (auto simp: find_from_def split: if_splits)
  moreover from this have "k + length pat \<le> length str - pos"
    using find_sub_SomeD[of pat "drop pos str" k] by simp
  ultimately show ?thesis by simp
qed


section \<open>Substrings and replacement\<close>

definition substr :: "'a list \<Rightarrow> nat \<Rightarrow> nat \<Rightarrow> 'a list outcome" where
  "substr str pos n =
     (if length str < pos then Throws Out_of_range else Done (take n (drop pos str)))"

definition substr_from :: "'a list \<Rightarrow> nat \<Rightarrow> 'a list outcome" where
  "substr_from str pos =
     (if length str < pos then Throws Out_of_range else Done (drop pos str))"

definition replace_at :: "'a list \<Rightarrow> nat \<Rightarrow> nat \<Rightarrow> 'a list \<Rightarrow> 'a list" where
  "replace_at str pos n des = take pos str @ des @ drop (pos + n) str"

text \<open>The characters of a C string: those before the first NUL.\<close>

definition c_str :: "string \<Rightarrow> string" where
  "c_str s = takeWhile (\<lambda>c. c \<noteq> CHR 0x00) s"

lemma c_str_id: "CHR 0x00 \<notin> set s \<Longrightarrow> c_str s = s"
  by (auto simp: c_str_def takeWhile_eq_all_conv)


section \<open>Characters\<close>

abbreviation code :: "char \<Rightarrow> nat" where
  "code c \<equiv> of_char c"

definition byte :: "char \<Rightarrow> u8" where
  "byte c = of_nat (of_char c)"

definition chr :: "u8 \<Rightarrow> char" where
  "chr w = char_of (unat w)"

lemma code_less: "code c < 256"
  by (metis mod_less_divisor of_char_mod_256 zero_less_numeral)

lemma byte_chr [simp]: "byte (chr w) = w"
proof -
  have "unat w < 256" using unsigned_less[of w, where 'a = nat] by simp
  then show ?thesis by (simp add: byte_def chr_def)
qed

lemma chr_byte [simp]: "chr (byte c) = c"
proof -
  show ?thesis using code_less[of c] by (simp add: byte_def chr_def unsigned_of_nat take_bit_nat_eq_self)
qed

lemma byte_inject [simp]: "byte a = byte b \<longleftrightarrow> a = b"
  by (metis chr_byte)

definition is_digit :: "char \<Rightarrow> bool" where
  "is_digit c \<longleftrightarrow> 48 \<le> code c \<and> code c \<le> 57"

definition is_upper :: "char \<Rightarrow> bool" where
  "is_upper c \<longleftrightarrow> 65 \<le> code c \<and> code c \<le> 90"

definition is_lower :: "char \<Rightarrow> bool" where
  "is_lower c \<longleftrightarrow> 97 \<le> code c \<and> code c \<le> 122"

definition is_alnum :: "char \<Rightarrow> bool" where
  "is_alnum c \<longleftrightarrow> is_digit c \<or> is_upper c \<or> is_lower c"

definition is_space :: "char \<Rightarrow> bool" where
  "is_space c \<longleftrightarrow> code c = 32 \<or> (9 \<le> code c \<and> code c \<le> 13)"

definition to_upper_char :: "char \<Rightarrow> char" where
  "to_upper_char c = (if is_lower c then char_of (code c - 32) else c)"

definition to_lower_char :: "char \<Rightarrow> char" where
  "to_lower_char c = (if is_upper c then char_of (code c + 32) else c)"


section \<open>Decimal numbers\<close>

fun show_nat :: "nat \<Rightarrow> string" where
  "show_nat n = (if n < 10 then [char_of (48 + n)]
                 else show_nat (n div 10) @ [char_of (48 + n mod 10)])"

declare show_nat.simps [simp del]

definition show_int :: "int \<Rightarrow> string" where
  "show_int i = (if i < 0 then CHR 0x2D # show_nat (nat (- i)) else show_nat (nat i))"

fun digits_value :: "nat \<Rightarrow> string \<Rightarrow> nat" where
  "digits_value acc [] = acc"
| "digits_value acc (c # cs) =
     (if is_digit c then digits_value (10 * acc + (code c - 48)) cs else acc)"

text \<open>
  \<open>strtoll\<close> in base ten as \<open>atoi\<close> and its relatives use it: leading white space, an optional
  sign, digits up to the first other character; the value saturates at the bounds of a
  64-bit integer. \<open>atoi\<close> converts it to \<open>int\<close>.
\<close>

definition sat64 :: "int \<Rightarrow> int" where
  "sat64 i = max (- (2 ^ 63)) (min (2 ^ 63 - 1) i)"

definition atoll :: "string \<Rightarrow> int" where
  "atoll s =
     (case dropWhile is_space (c_str s) of
        [] \<Rightarrow> 0
      | c # cs \<Rightarrow>
          if c = CHR 0x2D then sat64 (- int (digits_value 0 cs))
          else if c = CHR 0x2B then sat64 (int (digits_value 0 cs))
          else sat64 (int (digits_value 0 (c # cs))))"

definition atoi :: "string \<Rightarrow> int" where
  "atoi s = signed_take_bit 31 (atoll s)"

lemma digit_char:
  assumes "d < 10"
  shows "is_digit (char_of (48 + d))" and "code (char_of (48 + d)) = 48 + d"
  using assms by (simp_all add: is_digit_def)

lemma show_nat_digits: "c \<in> set (show_nat n) \<Longrightarrow> is_digit c"
  by (induction n rule: show_nat.induct)
     (subst (asm) show_nat.simps, auto split: if_splits simp: digit_char)

lemma show_nat_not_Nil [simp]: "show_nat n \<noteq> []"
  by (subst show_nat.simps) simp

lemma digits_value_append:
  "list_all is_digit xs \<Longrightarrow> digits_value acc (xs @ ys) = digits_value (digits_value acc xs) ys"
  by (induction xs arbitrary: acc) auto

lemma digits_value_show: "digits_value 0 (show_nat n) = n"
proof (induction n rule: show_nat.induct)
  case (1 n)
  show ?case
  proof (cases "n < 10")
    case True
    then show ?thesis by (subst show_nat.simps) (simp add: digit_char)
  next
    case False
    have "list_all is_digit (show_nat (n div 10))"
      using show_nat_digits by (auto simp: list_all_iff)
    with False 1 show ?thesis
      by (subst show_nat.simps) (simp add: digits_value_append digit_char)
  qed
qed

lemma digits_value_stop:
  "list_all is_digit xs \<Longrightarrow> (rest = [] \<or> \<not> is_digit (hd rest)) \<Longrightarrow>
   digits_value acc (xs @ rest) = digits_value acc xs"
  by (induction xs arbitrary: acc) (cases rest, auto)

lemma digit_not_special:
  "is_digit c \<Longrightarrow> c \<noteq> CHR 0x00 \<and> c \<noteq> CHR 0x2D \<and> c \<noteq> CHR 0x2B \<and> \<not> is_space c"
  by (auto simp: is_digit_def is_space_def)

text \<open>Reading back a printed number, also when other text follows it.\<close>

lemma atoll_show_nat:
  assumes "n < 2 ^ 63" and "rest = [] \<or> \<not> is_digit (hd rest)"
  shows "atoll (show_nat n @ rest) = int n"
proof -
  obtain c cs where s: "show_nat n = c # cs" by (cases "show_nat n") auto
  have d: "list_all is_digit (c # cs)" using show_nat_digits[of _ n] s by (simp add: list_all_iff)
  have nz: "\<And>x. x \<in> set (c # cs) \<Longrightarrow> x \<noteq> CHR 0x00"
    using d digit_not_special unfolding list_all_iff by blast
  have cstr: "c_str (show_nat n @ rest) = (c # cs) @ c_str rest"
    unfolding c_str_def s by (rule takeWhile_append2) (use nz in blast)
  have rest: "c_str rest = [] \<or> \<not> is_digit (hd (c_str rest))"
    using assms(2) by (cases rest) (auto simp: c_str_def is_digit_def)
  have "dropWhile is_space (c_str (show_nat n @ rest)) = c # (cs @ c_str rest)"
    unfolding cstr using d digit_not_special[of c] by simp
  moreover have "digits_value 0 (c # (cs @ c_str rest)) = n"
    using digits_value_stop[OF d rest, of 0] digits_value_show[of n] s by simp
  moreover have "sat64 (int n) = int n" using assms(1) by (simp add: sat64_def)
  ultimately show ?thesis
    unfolding atoll_def using d digit_not_special[of c] by simp
qed

lemma atoll_show_int:
  assumes "- (2 ^ 63) \<le> i" "i < 2 ^ 63"
  shows "atoll (show_int i) = i"
proof (cases "i < 0")
  case False
  with assms atoll_show_nat[of "nat i" "[]"] show ?thesis by (simp add: show_int_def)
next
  case True
  have nz: "CHR 0x00 \<notin> set (show_nat (nat (- i)))"
    using show_nat_digits digit_not_special by blast
  have "c_str (show_int i) = show_int i" using nz True by (intro c_str_id) (simp add: show_int_def)
  then show ?thesis
    using True assms digits_value_show[of "nat (- i)"]
    by (simp add: atoll_def show_int_def is_space_def sat64_def)
qed

lemma atoi_show_int: "- (2 ^ 31) \<le> i \<Longrightarrow> i < 2 ^ 31 \<Longrightarrow> atoi (show_int i) = i"
  by (simp add: atoi_def atoll_show_int signed_take_bit_int_eq_self)

section \<open>Ordered maps\<close>

text \<open>\<open>std::map::emplace\<close> keeps the entries in key order and an entry already there.\<close>

fun kv_emplace :: "string \<Rightarrow> 'a \<Rightarrow> (string \<times> 'a) list \<Rightarrow> (string \<times> 'a) list" where
  "kv_emplace k n [] = [(k, n)]"
| "kv_emplace k n ((k', n') # m) =
     (if k < k' then (k, n) # (k', n') # m
      else if k' < k then (k', n') # kv_emplace k n m
      else (k', n') # m)"


lemma kv_emplace_last:
  "(\<And>k'. k' \<in> fst ` set m \<Longrightarrow> k' < k) \<Longrightarrow> kv_emplace k n m = m @ [(k, n)]"
proof (induction m)
  case (Cons p m)
  then have "fst p < k" by simp
  then have "\<not> k < fst p" by (rule order_less_not_sym)
  with Cons \<open>fst p < k\<close> show ?case by (cases p) auto
qed simp

lemma set_kv_emplace: "set (kv_emplace k n m) \<subseteq> insert (k, n) (set m)"
  by (induction k n m rule: kv_emplace.induct) auto

lemma kv_emplace_sorted:
  "sorted_wrt (<) (map fst m) \<Longrightarrow> sorted_wrt (<) (map fst (kv_emplace k n m))"
proof (induction k n m rule: kv_emplace.induct)
  case (2 k n k' n' m)
  have sub: "x = k \<or> x \<in> fst ` set m" if "x \<in> fst ` set (kv_emplace k n m)" for x
    using that set_kv_emplace[of k n m] by force
  consider "k < k'" | "k' < k" | "k = k'" by (meson linorder_less_linear)
  then show ?case
  proof cases
    case 1
    with "2.prems" show ?thesis by (auto intro: order_less_trans)
  next
    case 2
    then have "\<not> k < k'" by (rule order_less_not_sym)
    moreover have "\<forall>x\<in>fst ` set (kv_emplace k n m). k' < x"
    proof
      fix x assume "x \<in> fst ` set (kv_emplace k n m)"
      from sub[OF this] 2 "2.prems" show "k' < x" by auto
    qed
    ultimately show ?thesis using 2 "2.IH" "2.prems" by simp
  qed (use "2.prems" in simp)
qed simp

lemma map_of_kv_emplace:
  "sorted_wrt (<) (map fst m) \<Longrightarrow>
   map_of (kv_emplace k n m) = (case map_of m k of None \<Rightarrow> (map_of m)(k \<mapsto> n) | Some _ \<Rightarrow> map_of m)"
proof (induction k n m rule: kv_emplace.induct)
  case (2 k n k' n' m)
  consider "k < k'" | "k' < k" | "k = k'" by (meson linorder_less_linear)
  then show ?case
  proof cases
    case 1
    then have "map_of m k = None" using 2(2) by (force simp: map_of_eq_None_iff)
    with 1 show ?thesis by auto
  next
    case 2
    with "2.IH" "2.prems" show ?thesis by (auto simp: fun_eq_iff split: option.splits)
  qed auto
qed simp

section \<open>Searching past text without the first character of the pattern\<close>

lemma find_sub_skip:
  "c \<notin> set pre \<Longrightarrow> find_sub (c # cs) (pre @ t) = map_option ((+) (length pre)) (find_sub (c # cs) t)"
proof (induction pre)
  case Nil
  then show ?case by (cases "find_sub (c # cs) t") auto
next
  case (Cons x pre)
  then show ?case by (cases "find_sub (c # cs) t") (auto simp: find_sub_Cons)
qed

lemma find_from_skip:
  assumes "drop pos s = pre @ (c # cs) @ post" and "c \<notin> set pre" and "pos \<le> length s"
  shows "find_from s (c # cs) pos = Some (pos + length pre)"
  using assms find_sub_head[of c pre cs post] by (simp add: find_from_def)

end
