(* ===== verification/Shine_Json.thy ===== *)
theory Shine_Json
  imports Cxx_String
begin

text \<open>
  The JSON documents of \<^verbatim>\<open>Include/util/json.hpp\<close>: the node type, the recursive-descent parser
  with its per-node decode step, the encoder, the formatter and the operations on nodes. A
  position is an index into the whole text, as in the code; \<open>operator[]\<close> of the string class
  is \<open>at\<close> and throws outside the text. The children a node shares through pointers are part
  of its value. The parser recurses on its input; the model counts its calls with a fuel, and
  \<open>Undef\<close> marks that it ran out, which is proved not to happen.
\<close>


section \<open>Nodes\<close>

datatype jtype =
    e_string | e_integer | e_float | e_boolean | e_null | e_object | e_array | e_root

datatype jstep = e_decode_key | e_decode_type | e_decode_value | e_decode_end

datatype jnode = JNode
  (decode_step: jstep) (node_type: jtype) (jkey: string) (jvalue: string)
  (kv_childs: "(string \<times> jnode) list option") (array_childs: "jnode list option")

fun set_decode_step :: "jstep \<Rightarrow> jnode \<Rightarrow> jnode" where
  "set_decode_step s (JNode _ t k v m a) = JNode s t k v m a"

fun set_type :: "jtype \<Rightarrow> jnode \<Rightarrow> jnode" where
  "set_type t (JNode s _ k v m a) = JNode s t k v m a"

fun set_key :: "string \<Rightarrow> jnode \<Rightarrow> jnode" where
  "set_key k (JNode s t _ v m a) = JNode s t k v m a"

fun set_value :: "string \<Rightarrow> jnode \<Rightarrow> jnode" where
  "set_value v (JNode s t k _ m a) = JNode s t k v m a"

fun set_kv_childs :: "(string \<times> jnode) list option \<Rightarrow> jnode \<Rightarrow> jnode" where
  "set_kv_childs m (JNode s t k v _ a) = JNode s t k v m a"

fun set_array_childs :: "jnode list option \<Rightarrow> jnode \<Rightarrow> jnode" where
  "set_array_childs a (JNode s t k v m _) = JNode s t k v m a"

text \<open>A new node: an object without key, value and children.\<close>

definition new_node :: "jstep \<Rightarrow> jnode" where
  "new_node s = JNode s e_object [] [] None None"

section \<open>The parser\<close>

definition at :: "string \<Rightarrow> nat \<Rightarrow> char outcome" where
  "at data pos = (if pos < length data then Done (data ! pos) else Throws Out_of_range)"

definition json_space :: "char \<Rightarrow> bool" where
  "json_space c \<longleftrightarrow> c = CHR 0x0D \<or> c = CHR 0x0A \<or> c = CHR 0x09 \<or> c = CHR 0x20"

definition number_char :: "char \<Rightarrow> bool" where
  "number_char c \<longleftrightarrow> is_digit c \<or> c = CHR 0x2E \<or> c = CHR 0x2D"

text \<open>
  The three skipping loops move the position over the characters of a class; \<open>Reject\<close> when
  they reach the end.
\<close>

definition skip_while :: "(char \<Rightarrow> bool) \<Rightarrow> string \<Rightarrow> nat \<Rightarrow> nat outcome" where
  "skip_while P data pos =
     (let p = pos + length (takeWhile P (drop pos data)) in
      if p < length data then Done p else Reject)"

definition skip_space :: "string \<Rightarrow> nat \<Rightarrow> nat outcome" where
  "skip_space = skip_while json_space"

definition skip_number :: "string \<Rightarrow> nat \<Rightarrow> nat outcome" where
  "skip_number = skip_while number_char"

definition find_ch :: "char \<Rightarrow> string \<Rightarrow> nat \<Rightarrow> nat outcome" where
  "find_ch ch = skip_while (\<lambda>c. c \<noteq> ch)"

text \<open>The conditions \<open>parse_number\<close> puts on the text of a number.\<close>

definition number_ok :: "string \<Rightarrow> bool" where
  "number_ok v \<longleftrightarrow>
     length (filter (\<lambda>c. c = CHR 0x2E) v) \<le> 1
     \<and> last v \<noteq> CHR 0x2E
     \<and> (CHR 0x2D \<notin> set v \<or> hd v = CHR 0x2D)
     \<and> \<not> (2 \<le> length v \<and> v ! 0 = CHR 0x2D \<and> v ! 1 = CHR 0x2E)"

definition parse_number :: "jnode \<Rightarrow> string \<Rightarrow> nat \<Rightarrow> (jnode \<times> nat) outcome" where
  "parse_number node data cost_len =
     obind (skip_number data (cost_len + 1)) (\<lambda>c.
       let v = take (c - cost_len) (drop cost_len data) in
       if number_ok v
       then Done (set_type (if CHR 0x2E \<in> set v then e_float else e_integer) (set_value v node), c)
       else Reject)"

text \<open>The end of a string: the next quote that no backslash precedes.\<close>

function string_end :: "char \<Rightarrow> string \<Rightarrow> nat \<Rightarrow> nat outcome" where
  "string_end ch data c =
     obind (find_ch ch data c) (\<lambda>p.
       if p = 0 then Throws Out_of_range
       else if data ! (p - 1) \<noteq> CHR 0x5C then Done p
       else string_end ch data (p + 1))"
  by pat_completeness auto
termination
  by (relation "measure (\<lambda>(_, data, c). length data - c)")
     (auto simp: find_ch_def skip_while_def Let_def split: if_splits)

declare string_end.simps [simp del]

definition parse_string :: "jnode \<Rightarrow> string \<Rightarrow> nat \<Rightarrow> (jnode \<times> nat) outcome" where
  "parse_string node data cost_len =
     obind (at data cost_len) (\<lambda>ch.
     obind (string_end ch data (cost_len + 1)) (\<lambda>p.
       Done (set_decode_step e_decode_end
               (set_type e_string
                 (set_value (take (p - (cost_len + 1)) (drop (cost_len + 1) data)) node)),
             p + 1)))"

definition parse_symbol ::
    "jnode \<Rightarrow> string \<Rightarrow> nat \<Rightarrow> jtype \<Rightarrow> string \<Rightarrow> (jnode \<times> nat) outcome" where
  "parse_symbol node data cost_len t symbol =
     obind (skip_space data (cost_len + length symbol)) (\<lambda>c.
     obind (at data c) (\<lambda>ch.
       if ch \<noteq> CHR '','' \<and> ch \<noteq> CHR 0x7D then Reject
       else Done (set_decode_step e_decode_end (set_value symbol (set_type t node)), c)))"

text \<open>
  \<open>decode\<close> goes through the node's steps. \<open>decode_key\<close> and \<open>decode_type\<close> are its first two
  blocks; the boolean says that the block returned.
\<close>

definition decode_key :: "jnode \<Rightarrow> string \<Rightarrow> nat \<Rightarrow> (bool \<times> jnode \<times> nat) outcome" where
  "decode_key node data cost_len =
     (if decode_step node = e_decode_key then
        obind (skip_space data cost_len) (\<lambda>c.
        obind (at data c) (\<lambda>ch.
          if ch = CHR 0x27 \<or> ch = CHR 0x22 then
            obind (find_ch ch data (c + 1)) (\<lambda>e.
              Done (False, set_decode_step e_decode_type
                (set_key (take (e - (c + 1)) (drop (c + 1) data)) node), e + 1))
          else if ch = CHR 0x7D then Done (True, node, c)
          else Reject))
      else Done (False, node, cost_len))"

definition returned :: "(jnode \<times> nat) outcome \<Rightarrow> (bool \<times> jnode \<times> nat) outcome" where
  "returned r = obind r (\<lambda>x. Done (True, x))"

definition skip_colon :: "jnode \<Rightarrow> string \<Rightarrow> nat \<Rightarrow> nat outcome" where
  "skip_colon node data c =
     (if jkey node \<noteq> [] then
        obind (at data c) (\<lambda>ch.
          if ch \<noteq> CHR '':'' then Reject else skip_space data (c + 1))
      else Done c)"

definition number_ahead :: "string \<Rightarrow> nat \<Rightarrow> char \<Rightarrow> bool outcome" where
  "number_ahead data c ch =
     (if is_digit ch then Done True
      else if ch = CHR 0x2D then obind (at data (c + 1)) (\<lambda>d. Done (is_digit d))
      else Done False)"

definition decode_value :: "jnode \<Rightarrow> string \<Rightarrow> nat \<Rightarrow> (bool \<times> jnode \<times> nat) outcome" where
  "decode_value node data c =
     obind (at data c) (\<lambda>ch.
       if ch = CHR 0x7B then
         Done (False, set_decode_step e_decode_value (set_type e_object node), c + 1)
       else if ch = CHR ''['' then
         Done (False, set_decode_step e_decode_value (set_type e_array node), c + 1)
       else
         obind (number_ahead data c ch) (\<lambda>number.
           if number then returned (parse_number node data c)
           else if ch = CHR 0x22 \<or> ch = CHR 0x27 then returned (parse_string node data c)
           else if prefix ''true'' (drop c data) then
             returned (parse_symbol node data c e_boolean ''true'')
           else if prefix ''false'' (drop c data) then
             returned (parse_symbol node data c e_boolean ''false'')
           else if prefix ''null'' (drop c data) then
             returned (parse_symbol node data c e_null ''null'')
           else Done (False, node, c)))"

definition decode_type :: "jnode \<Rightarrow> string \<Rightarrow> nat \<Rightarrow> (bool \<times> jnode \<times> nat) outcome" where
  "decode_type node data cost_len =
     (if decode_step node = e_decode_type then
        obind (skip_space data cost_len) (\<lambda>c.
        obind (skip_colon node data c) (decode_value node data))
      else Done (False, node, cost_len))"

text \<open>What \<open>parse_object\<close> does with a child it has decoded.\<close>

definition attach_child :: "jnode \<Rightarrow> jnode \<Rightarrow> jnode" where
  "attach_child sub_node node =
     (if jkey sub_node = [] then
        if jvalue sub_node \<noteq> []
           \<or> (case kv_childs sub_node of None \<Rightarrow> False | Some m \<Rightarrow> m \<noteq> [])
           \<or> (case array_childs sub_node of None \<Rightarrow> False | Some a \<Rightarrow> a \<noteq> [])
        then set_array_childs
               (Some ((case array_childs node of None \<Rightarrow> [] | Some a \<Rightarrow> a) @ [sub_node])) node
        else node
      else set_kv_childs
             (Some (kv_emplace (jkey sub_node) sub_node
                (case kv_childs node of None \<Rightarrow> [] | Some m \<Rightarrow> m))) node)"

fun json_decode :: "nat \<Rightarrow> jnode \<Rightarrow> string \<Rightarrow> nat \<Rightarrow> (jnode \<times> nat) outcome"
  and parse_object ::
    "nat \<Rightarrow> jnode \<Rightarrow> string \<Rightarrow> nat \<Rightarrow> jstep \<Rightarrow> char \<Rightarrow> (jnode \<times> nat) outcome" where
  "json_decode 0 node data cost_len = Undef"
| "json_decode (Suc fuel) node data cost_len =
     obind (decode_key node data cost_len) (\<lambda>(ret, node, c).
       if ret then Done (node, c)
       else obind (decode_type node data c) (\<lambda>(ret, node, c).
         if ret then Done (node, c)
         else if decode_step node = e_decode_value \<and> node_type node = e_object
         then parse_object fuel node data c e_decode_key CHR 0x7D
         else if decode_step node = e_decode_value \<and> node_type node = e_array
         then parse_object fuel node data c e_decode_type CHR '']''
         else Done (node, c)))"
| "parse_object 0 node data cost_len step symbol = Undef"
| "parse_object (Suc fuel) node data cost_len step symbol =
     obind (json_decode fuel (new_node step) data cost_len) (\<lambda>(sub_node, c).
     obind (skip_space data c) (\<lambda>c.
       let node = attach_child sub_node node in
       obind (at data c) (\<lambda>ch.
         if ch = symbol then Done (set_decode_step e_decode_end node, c + 1)
         else if ch = CHR '','' then parse_object fuel node data (c + 1) step symbol
         else Reject)))"

text \<open>
  \<open>json::decode\<close> parses into the root, which the constructor has set to \<open>e_decode_type\<close>. What
  follows the document is not looked at.
\<close>

definition json_fuel :: "string \<Rightarrow> nat" where
  "json_fuel data = 2 * length data + 1"

definition json_parse :: "string \<Rightarrow> jnode outcome" where
  "json_parse data =
     obind (json_decode (json_fuel data) (new_node e_decode_type) data 0) (\<lambda>(node, c). Done node)"

text \<open>
  The root as \<open>decode\<close> leaves it, also when it fails: the children attached to the root before
  the failure stay, a child that fails is local to the loop and gone. What a number that is
  refused leaves in the value of the root is not looked at by any caller.
\<close>

fun parse_object_left :: "nat \<Rightarrow> jnode \<Rightarrow> string \<Rightarrow> nat \<Rightarrow> jstep \<Rightarrow> char \<Rightarrow> jnode outcome" where
  "parse_object_left 0 node data cost_len step symbol = Undef"
| "parse_object_left (Suc fuel) node data cost_len step symbol =
     (case json_decode fuel (new_node step) data cost_len of
        Reject \<Rightarrow> Done node | Throws e \<Rightarrow> Throws e | Undef \<Rightarrow> Undef
      | Done (sub_node, c) \<Rightarrow>
          (case skip_space data c of
             Reject \<Rightarrow> Done node | Throws e \<Rightarrow> Throws e | Undef \<Rightarrow> Undef
           | Done c \<Rightarrow>
               let node = attach_child sub_node node in
               obind (at data c) (\<lambda>ch.
                 if ch = symbol then Done (set_decode_step e_decode_end node)
                 else if ch = CHR '','' then parse_object_left fuel node data (c + 1) step symbol
                 else Done node)))"

definition json_left :: "string \<Rightarrow> jnode outcome" where
  "json_left data =
     (case decode_type (new_node e_decode_type) data 0 of
        Reject \<Rightarrow> Done (new_node e_decode_type) | Throws e \<Rightarrow> Throws e | Undef \<Rightarrow> Undef
      | Done (ret, node, c) \<Rightarrow>
          if ret then Done node
          else if decode_step node = e_decode_value \<and> node_type node = e_object
          then parse_object_left (2 * length data) node data c e_decode_key CHR 0x7D
          else if decode_step node = e_decode_value \<and> node_type node = e_array
          then parse_object_left (2 * length data) node data c e_decode_type CHR '']''
          else Done node)"


section \<open>The encoder and the formatter\<close>

definition escape_char :: "char \<Rightarrow> string" where
  "escape_char c =
     (if c = CHR 0x5C then [CHR 0x5C, CHR 0x5C]
      else if c = CHR 0x22 then [CHR 0x5C, CHR 0x22]
      else if c = CHR 0x08 then [CHR 0x5C, CHR ''b'']
      else if c = CHR 0x0C then [CHR 0x5C, CHR ''f'']
      else if c = CHR 0x09 then [CHR 0x5C, CHR ''t'']
      else if c = CHR 0x0A then [CHR 0x5C, CHR ''n'']
      else if c = CHR 0x0D then [CHR 0x5C, CHR ''r'']
      else [c])"

definition encode_string :: "string \<Rightarrow> string" where
  "encode_string s = concat (map escape_char s)"

fun commas :: "string list \<Rightarrow> string" where
  "commas [] = []"
| "commas [x] = x"
| "commas (x # y # xs) = x @ '','' @ commas (y # xs)"

definition encode_key :: "string \<Rightarrow> string" where
  "encode_key k = (if k \<noteq> [] then [CHR 0x22] @ encode_string k @ [CHR 0x22, CHR '':''] else [])"

fun json_encode :: "jnode \<Rightarrow> string" where
  "json_encode (JNode s t k v m a) =
     encode_key k @
     (if t = e_string then [CHR 0x22] @ encode_string v @ [CHR 0x22]
      else if t = e_object then
        ''{'' @ (case m of None \<Rightarrow> []
                 | Some kvs \<Rightarrow> commas (map (\<lambda>kv. json_encode (snd kv)) kvs)) @ ''}''
      else if t = e_array then
        ''['' @ (case a of None \<Rightarrow> [] | Some ns \<Rightarrow> commas (map json_encode ns)) @ '']''
      else v)"

definition json_text :: "jnode \<Rightarrow> string" where
  "json_text root = json_encode (set_key [] root)"

text \<open>\<open>json::format\<close>: one line a node, the separator before every child but the first.\<close>

definition format_key :: "string \<Rightarrow> string" where
  "format_key k = (if k \<noteq> [] then [CHR 0x22] @ k @ [CHR 0x22] @ '': '' else [])"

fun json_format :: "jnode \<Rightarrow> nat \<Rightarrow> bool \<Rightarrow> string" where
  "json_format (JNode s t k v m a) indent first =
     (let sep = (if \<not> first then [CHR '','', CHR 0x0A] else []);
          pad = replicate indent CHR 0x20;
          subs = (\<lambda>xs. case xs of [] \<Rightarrow> []
                  | x # rest \<Rightarrow> x True @ concat (map (\<lambda>f. f False) rest))
      in if t = e_string then sep @ pad @ format_key k @ [CHR 0x22] @ v @ [CHR 0x22]
         else if t \<in> {e_integer, e_float, e_boolean, e_null} then sep @ pad @ format_key k @ v
         else if t = e_object then
           sep @ pad @ format_key k @ [CHR 0x7B, CHR 0x0A] @
           (case m of None \<Rightarrow> []
            | Some kvs \<Rightarrow> subs (map (\<lambda>kv. json_format (snd kv) (indent + 4)) kvs)) @
           [CHR 0x0A] @ pad @ [CHR 0x7D]
         else if t = e_array then
           sep @ pad @ format_key k @ [CHR ''['', CHR 0x0A] @
           (case a of None \<Rightarrow> []
            | Some ns \<Rightarrow> subs (map (\<lambda>n. json_format n (indent + 4)) ns)) @
           [CHR 0x0A] @ pad @ '']''
         else [])"

definition json_reformat :: "string \<Rightarrow> string outcome" where
  "json_reformat data =
     (case json_parse data of Reject \<Rightarrow> Done [] | r \<Rightarrow> obind r (\<lambda>n. Done (json_format n 0 True)))"


section \<open>Operations on nodes\<close>

text \<open>\<open>SET_TYPE\<close>: a node that changes its type loses its children and its value.\<close>

definition become :: "jtype \<Rightarrow> jnode \<Rightarrow> jnode" where
  "become t n =
     (if node_type n \<noteq> t
      then set_value [] (set_array_childs None (set_kv_childs None (set_type t n))) else n)"

definition set_null :: "jnode \<Rightarrow> jnode" where
  "set_null n = set_value ''null'' (become e_null n)"

definition set_string :: "string \<Rightarrow> jnode \<Rightarrow> jnode" where
  "set_string v n = set_value v (become e_string n)"

definition set_boolean :: "bool \<Rightarrow> jnode \<Rightarrow> jnode" where
  "set_boolean b n = set_value (if b then ''true'' else ''false'') (become e_boolean n)"

text \<open>
  \<open>set_number\<close> parses the text followed by a NUL. A text the parser refuses has been assigned
  all the same when only the checks refused it.
\<close>

definition set_number :: "string \<Rightarrow> jnode \<Rightarrow> jnode" where
  "set_number v n =
     (let tmp = v @ [CHR 0x00] in
      case skip_number tmp 1 of
        Done c \<Rightarrow>
          (case parse_number n tmp 0 of
             Done (n', _) \<Rightarrow> set_array_childs None (set_kv_childs None n')
           | _ \<Rightarrow> set_value (take c tmp) n)
      | _ \<Rightarrow> n)"

definition insert_kv_child :: "jnode \<Rightarrow> jnode \<Rightarrow> jnode" where
  "insert_kv_child child n =
     (let n = become e_object n in
      if jkey child \<noteq> []
      then set_kv_childs (Some (kv_emplace (jkey child) child
             (case kv_childs n of None \<Rightarrow> [] | Some m \<Rightarrow> m))) n
      else n)"

definition erase_kv_child :: "string \<Rightarrow> jnode \<Rightarrow> jnode" where
  "erase_kv_child k n =
     (let n = become e_object n in
      set_kv_childs (map_option (filter (\<lambda>kv. fst kv \<noteq> k)) (kv_childs n)) n)"

definition find_kv_child :: "string \<Rightarrow> jnode \<Rightarrow> jnode option" where
  "find_kv_child k n =
     (if node_type n \<noteq> e_object then None
      else case kv_childs n of None \<Rightarrow> None | Some m \<Rightarrow> map_of m k)"

definition clear_kv_childs :: "jnode \<Rightarrow> jnode" where
  "clear_kv_childs n = set_kv_childs None (become e_object n)"

definition array_items :: "jnode \<Rightarrow> jnode list" where
  "array_items n = (case array_childs n of None \<Rightarrow> [] | Some a \<Rightarrow> a)"

definition push_back_array_child :: "jnode \<Rightarrow> jnode \<Rightarrow> jnode" where
  "push_back_array_child child n =
     (let n = become e_array n in set_array_childs (Some (array_items n @ [child])) n)"

definition push_front_array_child :: "jnode \<Rightarrow> jnode \<Rightarrow> jnode" where
  "push_front_array_child child n =
     (let n = become e_array n in set_array_childs (Some (child # array_items n)) n)"

definition erase_array_child :: "nat \<Rightarrow> jnode \<Rightarrow> jnode" where
  "erase_array_child i n =
     (let n = become e_array n in
      set_array_childs (map_option (\<lambda>a. take i a @ drop (Suc i) a) (array_childs n)) n)"

definition get_array_child :: "nat \<Rightarrow> jnode \<Rightarrow> jnode option" where
  "get_array_child i n = (if i < length (array_items n) then Some (array_items n ! i) else None)"

definition clear_array_childs :: "jnode \<Rightarrow> jnode" where
  "clear_array_childs n = set_array_childs None (become e_array n)"

end
