(* ===== verification/Shine_String.thy ===== *)
theory Shine_String
  imports Cxx_String
begin

text \<open>
  The string class of \<^verbatim>\<open>Include/util/string.hpp\<close>: conversion from and to numbers, splitting,
  replacement, case, trimming, UTF-8 recognition, hexadecimal dumps, base64 and URL encoding.
  A string is a list of characters; a loop that may never end is a partial function, whose
  value is then \<open>None\<close>.
\<close>


section \<open>Numbers\<close>

text \<open>
  \<open>number_to_string\<close> prints into a buffer and drops the zeros at the end of a fraction but
  for its first digit. The digits of a floating number come from \<open>snprintf\<close>; the argument is
  what it printed, shorter than the buffer of 64.
\<close>

fun strip_zeros :: "nat \<Rightarrow> string \<Rightarrow> string" where
  "strip_zeros keep buf =
     (if keep < length buf \<and> last buf = CHR 0x30 then strip_zeros keep (butlast buf) else buf)"

declare strip_zeros.simps [simp del]

definition number_to_string :: "string \<Rightarrow> string" where
  "number_to_string printed =
     (case find_sub ''.'' printed of None \<Rightarrow> printed | Some pos \<Rightarrow> strip_zeros (pos + 2) printed)"

definition string_of_integer :: "int \<Rightarrow> string" where
  "string_of_integer v = number_to_string (show_int v)"

definition to_int16 :: "string \<Rightarrow> int" where "to_int16 s = signed_take_bit 15 (atoi s)"
definition to_uint16 :: "string \<Rightarrow> int" where "to_uint16 s = take_bit 16 (atoi s)"
definition to_int32 :: "string \<Rightarrow> int" where "to_int32 s = atoi s"
definition to_uint32 :: "string \<Rightarrow> int" where "to_uint32 s = take_bit 32 (atoi s)"
definition to_int64 :: "string \<Rightarrow> int" where "to_int64 s = atoll s"
definition to_uint64 :: "string \<Rightarrow> int" where "to_uint64 s = take_bit 64 (atoll s)"


section \<open>Splitting and replacing\<close>

partial_function (option) split_loop ::
    "string \<Rightarrow> string \<Rightarrow> nat \<Rightarrow> string list \<Rightarrow> string list option" where
  "split_loop str des begin ret =
     (case find_from str des begin of
        None \<Rightarrow> Some (ret @ [drop begin str])
      | Some e \<Rightarrow> split_loop str des (e + length des) (ret @ [take (e - begin) (drop begin str)]))"

definition split :: "string \<Rightarrow> string \<Rightarrow> string list option" where
  "split str des = split_loop str des 0 []"

definition split2 :: "string \<Rightarrow> string \<Rightarrow> string set option" where
  "split2 str des = map_option set (split_loop str des 0 [])"

partial_function (option) replace_loop :: "string \<Rightarrow> string \<Rightarrow> string \<Rightarrow> nat \<Rightarrow> string option" where
  "replace_loop str src des from =
     (case find_from str src from of
        None \<Rightarrow> Some str
      | Some pos \<Rightarrow> replace_loop (replace_at str pos (length src) des) src des (pos + length des))"

definition replace_all :: "string \<Rightarrow> string \<Rightarrow> string \<Rightarrow> string option" where
  "replace_all str src des = replace_loop str src des 0"


section \<open>Case and trimming\<close>

definition to_upper :: "string \<Rightarrow> string" where "to_upper s = map to_upper_char s"
definition to_lower :: "string \<Rightarrow> string" where "to_lower s = map to_lower_char s"

definition blank_char :: "char \<Rightarrow> bool" where
  "blank_char c \<longleftrightarrow> c \<in> set [CHR 0x20, CHR 0x0A, CHR 0x0D, CHR 0x09]"

definition trim_left :: "string \<Rightarrow> string" where
  "trim_left s = (if s \<noteq> [] then dropWhile blank_char s else s)"

definition trim_right :: "string \<Rightarrow> string" where
  "trim_right s = (if s \<noteq> [] then rev (dropWhile blank_char (rev s)) else s)"

definition trim :: "string \<Rightarrow> string" where
  "trim s = trim_right (trim_left s)"


section \<open>UTF-8\<close>

definition utf8_lead :: "nat \<Rightarrow> nat option" where
  "utf8_lead ch =
     (if 0xFC \<le> ch \<and> ch \<le> 0xFD then Some 6
      else if 0xF8 \<le> ch then Some 5
      else if 0xF0 \<le> ch then Some 4
      else if 0xE0 \<le> ch then Some 3
      else if 0xC0 \<le> ch then Some 2
      else None)"

fun utf8_loop :: "u8 list \<Rightarrow> nat \<Rightarrow> bool \<Rightarrow> bool" where
  "utf8_loop [] bytes all_ascii = (if 0 < bytes then False else \<not> all_ascii)"
| "utf8_loop (ch # str) bytes all_ascii =
     (let all_ascii = (if ch AND 0x80 \<noteq> 0 then False else all_ascii) in
      if bytes = 0
      then (if 0x80 \<le> ch
            then (case utf8_lead (unat ch) of None \<Rightarrow> False
                  | Some n \<Rightarrow> utf8_loop str (n - 1) all_ascii)
            else utf8_loop str bytes all_ascii)
      else if ch AND 0xC0 \<noteq> 0x80 then False
      else utf8_loop str (bytes - 1) all_ascii)"

definition is_utf8 :: "u8 list \<Rightarrow> bool" where
  "is_utf8 str = utf8_loop str 0 True"


section \<open>Hexadecimal dump\<close>

definition hex_digit :: "nat \<Rightarrow> char" where
  "hex_digit n = ''0123456789ABCDEF'' ! n"

fun hex_loop :: "nat \<Rightarrow> string \<Rightarrow> string \<Rightarrow> string" where
  "hex_loop i [] ret = ret"
| "hex_loop i (c # cs) ret =
     (let ret = (if 0 < i \<and> i mod 8 = 0 then ret @ '' '' else ret);
          index = code c;
          ret = ret @ [hex_digit (index div 16)] @ [hex_digit (index mod 16)] @ '' ''
      in hex_loop (Suc i) cs (if 0 < i \<and> i mod 32 = 0 then ret @ [CHR 0x0A] else ret))"

definition print_hex_string :: "string \<Rightarrow> string" where
  "print_hex_string str = hex_loop 0 str []"


section \<open>Base64\<close>

definition base64_chars :: string where
  "base64_chars = ''ABCDEFGHIJKLMNOPQRSTUVWXYZabcdefghijklmnopqrstuvwxyz0123456789+/''"

definition is_base64 :: "char \<Rightarrow> bool" where
  "is_base64 c \<longleftrightarrow> is_alnum c \<or> c = CHR 0x2B \<or> c = CHR 0x2F"

text \<open>Three bytes to four six-bit groups, and back.\<close>

definition quad :: "u8 \<Rightarrow> u8 \<Rightarrow> u8 \<Rightarrow> u8 list" where
  "quad a b c =
     [drop_bit 2 (a AND 0xFC),
      push_bit 4 (a AND 0x03) + drop_bit 4 (b AND 0xF0),
      push_bit 2 (b AND 0x0F) + drop_bit 6 (c AND 0xC0),
      c AND 0x3F]"

definition triple :: "u8 \<Rightarrow> u8 \<Rightarrow> u8 \<Rightarrow> u8 \<Rightarrow> u8 list" where
  "triple p q r s =
     [push_bit 2 p + drop_bit 4 (q AND 0x30),
      push_bit 4 (q AND 0x0F) + drop_bit 2 (r AND 0x3C),
      push_bit 6 (r AND 0x03) + s]"

fun encode_base64_loop :: "u8 list \<Rightarrow> u8 list \<Rightarrow> string \<Rightarrow> u8 list \<times> string" where
  "encode_base64_loop [] acc ret = (acc, ret)"
| "encode_base64_loop (c # cs) acc ret =
     (let acc = acc @ [c] in
      if length acc = 3
      then encode_base64_loop cs []
             (ret @ map (\<lambda>k. base64_chars ! unat k) (quad (acc ! 0) (acc ! 1) (acc ! 2)))
      else encode_base64_loop cs acc ret)"

definition encode_base64 :: "string \<Rightarrow> string" where
  "encode_base64 data =
     (let (acc, ret) = encode_base64_loop (map byte data) [] []; i = length acc in
      if i \<noteq> 0
      then let a = acc @ replicate (3 - i) 0;
               q = quad (a ! 0) (a ! 1) (a ! 2)
           in ret @ map (\<lambda>j. base64_chars ! unat (q ! j)) [0..<i + 1] @ replicate (3 - i) CHR 0x3D
      else ret)"

text \<open>\<open>base64_chars.find\<close>, converted to a byte: \<open>npos\<close> becomes 255.\<close>

definition base64_index :: "u8 \<Rightarrow> u8" where
  "base64_index c = (case find_sub [chr c] base64_chars of Some k \<Rightarrow> of_nat k | None \<Rightarrow> 255)"

fun decode_base64_loop :: "string \<Rightarrow> u8 list \<Rightarrow> u8 list \<Rightarrow> u8 list \<times> u8 list" where
  "decode_base64_loop [] acc ret = (acc, ret)"
| "decode_base64_loop (c # cs) acc ret =
     (if c \<noteq> CHR 0x3D \<and> is_base64 c
      then let acc = acc @ [byte c] in
           if length acc = 4
           then let x = map base64_index acc
                in decode_base64_loop cs [] (ret @ triple (x ! 0) (x ! 1) (x ! 2) (x ! 3))
           else decode_base64_loop cs acc ret
      else (acc, ret))"

definition decode_base64 :: "string \<Rightarrow> string" where
  "decode_base64 data =
     (let (acc, ret) = decode_base64_loop data [] []; i = length acc in
      map chr
        (if i \<noteq> 0
         then let x = map base64_index (acc @ replicate (4 - i) 0)
              in ret @ take (i - 1) (triple (x ! 0) (x ! 1) (x ! 2) (x ! 3))
         else ret))"


section \<open>URL encoding\<close>

definition shine_url_encode_table :: "string list" where
  "shine_url_encode_table = [
     ''%00'', ''%01'', ''%02'', ''%03'', ''%04'', ''%05'', ''%06'', ''%07'', ''%08'', ''%09'', ''%0A'', ''%0B'', ''%0C'', ''%0D'', ''%0E'', ''%0F'',
     ''%10'', ''%11'', ''%12'', ''%13'', ''%14'', ''%15'', ''%16'', ''%17'', ''%18'', ''%19'', ''%1A'', ''%1B'', ''%1C'', ''%1D'', ''%1E'', ''%1F'',
     ''%20'', ''!'', ''%22'', ''%23'', ''$'', ''%25'', ''&'', [CHR 0x27], ''('', '')'', ''*'', ''+'', '','', ''-'', ''.'', ''/''] @
     map (\<lambda>c. [c]) ''0123456789:;'' @ [''%3C'', ''='', ''%3E'', ''?''] @
     map (\<lambda>c. [c]) ''@ABCDEFGHIJKLMNOPQRSTUVWXYZ'' @ [''%5B'', ''%5C'', ''%5D'', ''%5E'', ''_'', ''%60''] @
     map (\<lambda>c. [c]) ''abcdefghijklmnopqrstuvwxyz'' @ [''%7B'', ''%7C'', ''%7D'', ''%7E'', ''%7F'',
     ''%80'', ''%81'', ''%82'', ''%83'', ''%84'', ''%85'', ''%86'', ''%87'', ''%88'', ''%89'', ''%8A'', ''%8B'', ''%8C'', ''%8D'', ''%8E'', ''%8F'',
     ''%90'', ''%91'', ''%92'', ''%93'', ''%94'', ''%95'', ''%96'', ''%97'', ''%98'', ''%99'', ''%9A'', ''%9B'', ''%9C'', ''%9D'', ''%9E'', ''%9F'',
     ''%A0'', ''%A1'', ''%A2'', ''%A3'', ''%A4'', ''%A5'', ''%A6'', ''%A7'', ''%A8'', ''%A9'', ''%AA'', ''%AB'', ''%AC'', ''%AD'', ''%AE'', ''%AF'',
     ''%B0'', ''%B1'', ''%B2'', ''%B3'', ''%B4'', ''%B5'', ''%B6'', ''%B7'', ''%B8'', ''%B9'', ''%BA'', ''%BB'', ''%BC'', ''%BD'', ''%BE'', ''%BF'',
     ''%C0'', ''%C1'', ''%C2'', ''%C3'', ''%C4'', ''%C5'', ''%C6'', ''%C7'', ''%C8'', ''%C9'', ''%CA'', ''%CB'', ''%CC'', ''%CD'', ''%CE'', ''%CF'',
     ''%D0'', ''%D1'', ''%D2'', ''%D3'', ''%D4'', ''%D5'', ''%D6'', ''%D7'', ''%D8'', ''%D9'', ''%DA'', ''%DB'', ''%DC'', ''%DD'', ''%DE'', ''%DF'',
     ''%E0'', ''%E1'', ''%E2'', ''%E3'', ''%E4'', ''%E5'', ''%E6'', ''%E7'', ''%E8'', ''%E9'', ''%EA'', ''%EB'', ''%EC'', ''%ED'', ''%EE'', ''%EF'',
     ''%F0'', ''%F1'', ''%F2'', ''%F3'', ''%F4'', ''%F5'', ''%F6'', ''%F7'', ''%F8'', ''%F9'', ''%FA'', ''%FB'', ''%FC'', ''%FD'', ''%FE'', ''%FF'']"

definition shine_url_decode_table :: "nat list" where
  "shine_url_decode_table = [
     0, 0, 0, 0, 0, 0, 0, 0, 0, 0, 0, 0, 0, 0, 0, 0,
     0, 0, 0, 0, 0, 0, 0, 0, 0, 0, 0, 0, 0, 0, 0, 0,
     0, 0, 0, 0, 0, 0, 0, 0, 0, 0, 0, 0, 0, 0, 0, 0,
     0, 1, 2, 3, 4, 5, 6, 7, 8, 9, 0, 0, 0, 0, 0, 0,
     0, 10, 11, 12, 13, 14, 15, 0, 0, 0, 0, 0, 0, 0, 0, 0,
     0, 0, 0, 0, 0, 0, 0, 0, 0, 0, 0, 0, 0, 0, 0, 0,
     0, 10, 11, 12, 13, 14, 15, 0, 0, 0, 0, 0, 0, 0, 0, 0,
     0, 0, 0, 0, 0, 0, 0, 0, 0, 0, 0, 0, 0, 0, 0, 0,
     0, 0, 0, 0, 0, 0, 0, 0, 0, 0, 0, 0, 0, 0, 0, 0,
     0, 0, 0, 0, 0, 0, 0, 0, 0, 0, 0, 0, 0, 0, 0, 0,
     0, 0, 0, 0, 0, 0, 0, 0, 0, 0, 0, 0, 0, 0, 0, 0,
     0, 0, 0, 0, 0, 0, 0, 0, 0, 0, 0, 0, 0, 0, 0, 0,
     0, 0, 0, 0, 0, 0, 0, 0, 0, 0, 0, 0, 0, 0, 0, 0,
     0, 0, 0, 0, 0, 0, 0, 0, 0, 0, 0, 0, 0, 0, 0, 0,
     0, 0, 0, 0, 0, 0, 0, 0, 0, 0, 0, 0, 0, 0, 0, 0,
     0, 0, 0, 0, 0, 0, 0, 0, 0, 0, 0, 0, 0, 0, 0, 0]"

definition encode_url :: "string \<Rightarrow> string" where
  "encode_url url = concat (map (\<lambda>c. shine_url_encode_table ! code c) (c_str url))"

definition url_nibbles :: "char \<Rightarrow> char \<Rightarrow> char" where
  "url_nibbles a b =
     char_of (shine_url_decode_table ! code a * 16 + shine_url_decode_table ! code b)"

fun decode_url_loop :: "string \<Rightarrow> string \<Rightarrow> string outcome" where
  "decode_url_loop ret [] = Done ret"
| "decode_url_loop ret (c # data) =
     (if c = CHR 0x25
      then (case data of
              a # b # rest \<Rightarrow>
                if is_alnum a \<and> is_alnum b then decode_url_loop (ret @ [url_nibbles a b]) rest
                else Reject
            | _ \<Rightarrow> Reject)
      else decode_url_loop (ret @ [c]) data)"

definition decode_url :: "string \<Rightarrow> string outcome" where
  "decode_url url = decode_url_loop [] (c_str url)"

end
