(* ===== verification/Shine_Json_Model.thy ===== *)
theory Shine_Json_Model
  imports Shine_Json Shine_String
begin

text \<open>
  The field models of \<^verbatim>\<open>Include/util/json.hpp\<close>: the overloads of \<open>json_encode_field\<close> and
  \<open>json_decode_field\<close> and the functions \<open>SHINE_JSON_MODEL\<close> generates. The C++ types are
  descriptors, the values of all of them one datatype: a \<open>vector\<close>, \<open>deque\<close> or \<open>list\<close> is a
  sequence of type \<open>TSeq\<close>, a \<open>forward_list\<close> one of type \<open>TFwd\<close>, a \<open>set\<close> one of type \<open>TSet\<close>,
  a \<open>map\<close> and a \<open>multimap\<close> a list of pairs in the order of the keys.
\<close>

datatype int_kind = Int16 | Uint16 | Int32 | Uint32 | Int64 | Uint64

datatype ftype =
    TBool | TInt int_kind | TStr | TChar
  | TSeq ftype | TFwd ftype | TSet ftype | TMap ftype ftype | TMulti ftype ftype
  | TStruct "(string \<times> ftype) list"

datatype jfield =
    FBool bool | FInt int | FStr string | FChar char
  | FSeq "jfield list" | FMap "(jfield \<times> jfield) list" | FMulti "(jfield \<times> jfield) list"
  | FStruct "(string \<times> jfield) list"


section \<open>Encoding\<close>

definition quoted :: "string \<Rightarrow> string" where
  "quoted s = [CHR 0x22] @ s @ [CHR 0x22]"

fun is_string_field :: "jfield \<Rightarrow> bool" where
  "is_string_field (FStr s) = True"
| "is_string_field _ = False"

text \<open>
  A container without elements, an empty string and a structure of which nothing is encoded
  have the empty text, and whoever contains them leaves them out.
\<close>

definition nonempty :: "string list \<Rightarrow> string list" where
  "nonempty = filter (\<lambda>t. t \<noteq> [])"

definition keyed_text :: "string \<Rightarrow> string \<Rightarrow> string" where
  "keyed_text k v = (if v \<noteq> [] then k @ '':'' @ v else [])"

fun encode_field :: "jfield \<Rightarrow> string" where
  "encode_field (FBool b) = (if b then ''true'' else ''false'')"
| "encode_field (FInt i) = string_of_integer i"
| "encode_field (FStr s) = (let ret = encode_string s in if ret \<noteq> [] then quoted ret else [])"
| "encode_field (FChar c) = quoted [c]"
| "encode_field (FSeq xs) =
     (if xs = [] then [] else ''['' @ commas (nonempty (map encode_field xs)) @ '']'')"
| "encode_field (FMap m) =
     (if m = [] then []
      else ''{'' @ commas (nonempty (map (\<lambda>kv. keyed_text
             (if is_string_field (fst kv) then encode_field (fst kv) else quoted (encode_field (fst kv)))
             (encode_field (snd kv))) m)) @ ''}'')"
| "encode_field (FMulti m) =
     (if m = [] then []
      else ''['' @ commas (map (\<lambda>t. ''{'' @ t @ ''}'') (nonempty (map (\<lambda>kv. keyed_text
             (if is_string_field (fst kv) then encode_field (fst kv) else quoted (encode_field (fst kv)))
             (encode_field (snd kv))) m))) @ '']'')"
| "encode_field (FStruct fs) =
     (let ret = nonempty (map (\<lambda>f. keyed_text (quoted (fst f)) (encode_field (snd f))) fs)
      in if ret \<noteq> [] then ''{'' @ commas ret @ ''}'' else [])"


section \<open>Decoding\<close>

fun decode_integer :: "int_kind \<Rightarrow> string \<Rightarrow> int" where
  "decode_integer Int16 s = to_int16 s"
| "decode_integer Uint16 s = to_uint16 s"
| "decode_integer Int32 s = to_int32 s"
| "decode_integer Uint32 s = to_uint32 s"
| "decode_integer Int64 s = to_int64 s"
| "decode_integer Uint64 s = to_uint64 s"

text \<open>
  The order of keys and elements, \<open>operator<\<close> of their type: \<open>char\<close> is signed, a text is compared by
  its bytes without sign, containers element by element (\<open>std::lexicographical_compare\<close>), the pairs
  of a map by the key and then the value. A structure has no \<open>operator<\<close>, and no program
  compares values of different types: these cases only fill the order up.
\<close>

fun lex_less :: "('a \<Rightarrow> 'a \<Rightarrow> bool) \<Rightarrow> 'a list \<Rightarrow> 'a list \<Rightarrow> bool" where
  "lex_less r xs [] = False"
| "lex_less r [] (y # ys) = True"
| "lex_less r (x # xs) (y # ys) = (r x y \<or> (\<not> r y x \<and> lex_less r xs ys))"

definition pair_less :: "('a \<Rightarrow> 'a \<Rightarrow> bool) \<Rightarrow> ('b \<Rightarrow> 'b \<Rightarrow> bool) \<Rightarrow> 'a \<times> 'b \<Rightarrow> 'a \<times> 'b \<Rightarrow> bool" where
  "pair_less r s p q = (r (fst p) (fst q) \<or> (\<not> r (fst q) (fst p) \<and> s (snd p) (snd q)))"

lemma lex_less_cong [fundef_cong]:
  assumes "xs = xs'" and "ys = ys'"
    and "\<And>x y. x \<in> set xs' \<Longrightarrow> y \<in> set ys' \<Longrightarrow> r x y = r' x y"
    and "\<And>x y. x \<in> set xs' \<Longrightarrow> y \<in> set ys' \<Longrightarrow> r y x = r' y x"
  shows "lex_less r xs ys = lex_less r' xs' ys'"
proof -
  have "lex_less r xs' ys' = lex_less r' xs' ys'"
    using assms(3,4) by (induction r xs' ys' rule: lex_less.induct) auto
  with assms(1,2) show ?thesis by simp
qed

lemma pair_less_cong [fundef_cong]:
  assumes "p = p'" and "q = q'" and "r (fst p') (fst q') = r' (fst p') (fst q')"
    and "r (fst q') (fst p') = r' (fst q') (fst p')" and "s (snd p') (snd q') = s' (snd p') (snd q')"
  shows "pair_less r s p q = pair_less r' s' p' q'"
  using assms by (simp add: pair_less_def)

fun field_rank :: "jfield \<Rightarrow> nat" where
  "field_rank (FBool b) = 0"
| "field_rank (FInt i) = 1"
| "field_rank (FStr s) = 2"
| "field_rank (FChar c) = 3"
| "field_rank (FSeq xs) = 4"
| "field_rank (FMap m) = 5"
| "field_rank (FMulti m) = 6"
| "field_rank (FStruct fs) = 7"

lemma size_field_pair:
  "p \<in> set m \<Longrightarrow> size (fst p) < Suc (size_list (size_prod size size) m)
     \<and> size (snd p) < Suc (size_list (size_prod size size) m)"
  by (induction m) auto

lemma size_field_elem: "x \<in> set xs \<Longrightarrow> size x < Suc (size_list size xs)"
  by (induction xs) auto

function (sequential) field_less :: "jfield \<Rightarrow> jfield \<Rightarrow> bool" where
  "field_less (FInt a) (FInt b) = (a < b)"
| "field_less (FStr a) (FStr b) = (a < b)"
| "field_less (FBool a) (FBool b) = (\<not> a \<and> b)"
| "field_less (FChar a) (FChar b) = (sint (byte a) < sint (byte b))"
| "field_less (FSeq xs) (FSeq ys) = lex_less field_less xs ys"
| "field_less (FMap m) (FMap m') = lex_less (pair_less field_less field_less) m m'"
| "field_less (FMulti m) (FMulti m') = lex_less (pair_less field_less field_less) m m'"
| "field_less a b = (field_rank a < field_rank b)"
  by pat_completeness auto
termination
  by (relation "measure (\<lambda>(a, b). size a + size b)")
    (auto dest!: size_field_elem size_field_pair)

fun map_emplace :: "jfield \<Rightarrow> jfield \<Rightarrow> (jfield \<times> jfield) list \<Rightarrow> (jfield \<times> jfield) list" where
  "map_emplace k v [] = [(k, v)]"
| "map_emplace k v (p # m) =
     (if field_less k (fst p) then (k, v) # p # m
      else if field_less (fst p) k then p # map_emplace k v m
      else p # m)"

fun multi_emplace :: "jfield \<Rightarrow> jfield \<Rightarrow> (jfield \<times> jfield) list \<Rightarrow> (jfield \<times> jfield) list" where
  "multi_emplace k v [] = [(k, v)]"
| "multi_emplace k v (p # m) =
     (if field_less k (fst p) then (k, v) # p # m else p # multi_emplace k v m)"

fun set_emplace :: "jfield \<Rightarrow> jfield list \<Rightarrow> jfield list" where
  "set_emplace k [] = [k]"
| "set_emplace k (x # xs) =
     (if field_less k x then k # x # xs else if field_less x k then x # set_emplace k xs else x # xs)"

text \<open>
  An object of a type as a declaration without initialiser leaves it: containers empty,
  scalars with whatever \<open>junk\<close> gives.
\<close>

fun fresh :: "(ftype \<Rightarrow> jfield) \<Rightarrow> ftype \<Rightarrow> jfield" where
  "fresh junk TStr = FStr []"
| "fresh junk (TSeq t) = FSeq []"
| "fresh junk (TFwd t) = FSeq []"
| "fresh junk (TSet t) = FSeq []"
| "fresh junk (TMap kt vt) = FMap []"
| "fresh junk (TMulti kt vt) = FMulti []"
| "fresh junk (TStruct fts) = FStruct (map (\<lambda>ft. (fst ft, fresh junk (snd ft))) fts)"
| "fresh junk t = junk t"

fun otraverse :: "('a \<Rightarrow> 'b outcome) \<Rightarrow> 'a list \<Rightarrow> 'b list outcome" where
  "otraverse f [] = Done []"
| "otraverse f (x # xs) = obind (f x) (\<lambda>y. obind (otraverse f xs) (\<lambda>ys. Done (y # ys)))"

lemma otraverse_cong [fundef_cong]:
  "xs = ys \<Longrightarrow> (\<And>x. x \<in> set ys \<Longrightarrow> f x = g x) \<Longrightarrow> otraverse f xs = otraverse g ys"
  by (induction xs arbitrary: ys) auto

definition array_list :: "jnode \<Rightarrow> jnode list" where
  "array_list n = (case array_childs n of None \<Rightarrow> [] | Some ns \<Rightarrow> ns)"

definition kv_list :: "jnode \<Rightarrow> (string \<times> jnode) list" where
  "kv_list n = (case kv_childs n of None \<Rightarrow> [] | Some kvs \<Rightarrow> kvs)"

fun old_field :: "jfield \<Rightarrow> string \<Rightarrow> jfield \<Rightarrow> jfield" where
  "old_field (FStruct fs) nm d = (case map_of fs nm of None \<Rightarrow> d | Some v \<Rightarrow> v)"
| "old_field _ nm d = d"

text \<open>A key travels as a string node of its own.\<close>

definition key_node :: "string \<Rightarrow> jnode" where
  "key_node k = set_string k (new_node e_decode_key)"

lemma size_field_type:
  "(nm, t) \<in> set fts \<Longrightarrow> size t < Suc (size_list (size_prod (\<lambda>x. 0) size) fts)"
  by (induction fts) auto

text \<open>\<open>decode_field junk t old n\<close>: the object \<open>old\<close> of type \<open>t\<close> after decoding the node into it.\<close>

function (sequential) decode_field ::
    "(ftype \<Rightarrow> jfield) \<Rightarrow> ftype \<Rightarrow> jfield \<Rightarrow> jnode \<Rightarrow> jfield outcome" where
  "decode_field junk TBool old n = Done (FBool (jvalue n = ''true''))"
| "decode_field junk (TInt k) old n = Done (FInt (decode_integer k (jvalue n)))"
| "decode_field junk TStr old n = Done (FStr (jvalue n))"
| "decode_field junk TChar old n = obind (at (jvalue n) 0) (\<lambda>c. Done (FChar c))"
| "decode_field junk (TSeq t) old n =
     obind (otraverse (\<lambda>c. decode_field junk t (fresh junk t) c) (array_list n)) (\<lambda>vs. Done (FSeq vs))"
| "decode_field junk (TFwd t) old n =
     obind (otraverse (\<lambda>c. decode_field junk t (fresh junk t) c) (array_list n))
       (\<lambda>vs. Done (FSeq (rev vs)))"
| "decode_field junk (TSet t) old n =
     obind (otraverse (\<lambda>c. decode_field junk t (fresh junk t) c) (array_list n))
       (\<lambda>vs. Done (FSeq (fold set_emplace vs [])))"
| "decode_field junk (TMap kt vt) old n =
     obind (otraverse (\<lambda>kv. obind (decode_field junk kt (fresh junk kt) (key_node (fst kv))) (\<lambda>k.
              obind (decode_field junk vt (fresh junk vt) (snd kv)) (\<lambda>v. Done (k, v)))) (kv_list n))
       (\<lambda>m. Done (FMap (fold (\<lambda>kv. map_emplace (fst kv) (snd kv)) m [])))"
| "decode_field junk (TMulti kt vt) old n =
     obind (otraverse (\<lambda>kv. obind (decode_field junk kt (fresh junk kt) (key_node (fst kv))) (\<lambda>k.
              obind (decode_field junk vt (fresh junk vt) (snd kv)) (\<lambda>v. Done (k, v))))
              (concat (map kv_list (array_list n))))
       (\<lambda>m. Done (FMulti (fold (\<lambda>kv. multi_emplace (fst kv) (snd kv)) m [])))"
| "decode_field junk (TStruct fts) old n =
     obind (otraverse (\<lambda>ft. let o' = old_field old (fst ft) (fresh junk (snd ft)) in
              case find_kv_child (fst ft) n of
                None \<Rightarrow> Done (fst ft, o')
              | Some node2 \<Rightarrow> obind (decode_field junk (snd ft) o' node2) (\<lambda>v. Done (fst ft, v))) fts)
       (\<lambda>fs. Done (FStruct fs))"
  by pat_completeness auto
termination
  by (relation "measure (\<lambda>(junk, t, old, n). size t)")
     (auto dest: size_field_type)

text \<open>\<open>json_encode\<close> and \<open>json_decode\<close> of a type declared with \<open>SHINE_JSON_MODEL\<close>.\<close>

definition model_encode :: "jfield \<Rightarrow> string" where
  "model_encode v = encode_field v"

definition model_decode :: "(ftype \<Rightarrow> jfield) \<Rightarrow> ftype \<Rightarrow> jfield \<Rightarrow> string \<Rightarrow> jfield outcome" where
  "model_decode junk t old str = obind (json_parse str) (\<lambda>node. decode_field junk t old node)"

end
