(* ===== verification/Shine_Json_Correct.thy ===== *)
theory Shine_Json_Correct
  imports Shine_Json
begin

text \<open>
  Correctness of the JSON component: the parser ends on every text, within a fuel linear in
  its length, and keeps its position inside the text; documents of the class that the format
  can carry are parsed back from their encoding; the operations on nodes.
\<close>


section \<open>The parser ends, and its position stays inside\<close>

lemma skip_while_DoneD:
  assumes "skip_while P data c = Done p"
  shows "c \<le> p \<and> p < length data \<and> \<not> P (data ! p)"
proof -
  have p: "p = c + length (takeWhile P (drop c data))" and l: "p < length data"
    using assms by (auto simp: skip_while_def Let_def split: if_splits)
  then have "length (takeWhile P (drop c data)) < length (drop c data)" by simp
  from nth_length_takeWhile[OF this] p l show ?thesis by simp
qed

lemma skip_while_not_Undef [simp]: "skip_while P data c \<noteq> Undef"
  by (simp add: skip_while_def Let_def)

lemma at_not_Undef [simp]: "at data c \<noteq> Undef"
  by (simp add: at_def)

lemma at_Done_iff [simp]: "at data c = Done ch \<longleftrightarrow> c < length data \<and> data ! c = ch"
  by (simp add: at_def)

text \<open>\<open>inside data c r\<close>: defined, and a returned position is inside and not before \<open>c\<close>.\<close>

definition inside :: "string \<Rightarrow> nat \<Rightarrow> ('a \<times> nat) outcome \<Rightarrow> bool" where
  "inside data c r \<longleftrightarrow> r \<noteq> Undef \<and> (\<forall>x c'. r = Done (x, c') \<longrightarrow> c \<le> c' \<and> c' \<le> length data)"

lemma string_end_inside:
  "string_end ch data c \<noteq> Undef \<and>
   (\<forall>p. string_end ch data c = Done p \<longrightarrow> c \<le> p \<and> p < length data)"
proof (induction ch data c rule: string_end.induct)
  case (1 ch data c)
  show ?case
  proof (cases "find_ch ch data c")
    case (Done p)
    then have "c \<le> p \<and> p < length data" by (auto simp: find_ch_def dest: skip_while_DoneD)
    moreover have "string_end ch data c = (if p = 0 then Throws Out_of_range
        else if data ! (p - 1) \<noteq> CHR 0x5C then Done p else string_end ch data (p + 1))"
      using Done by (subst string_end.simps) simp
    ultimately show ?thesis
      using 1[OF Done] by (auto split: if_splits)
  qed (subst (1 2) string_end.simps, simp add: find_ch_def)+
qed

lemma parse_number_inside: "inside data c (parse_number node data c)"
  by (auto simp: inside_def parse_number_def skip_number_def obind_Undef_iff Let_def
      split: if_splits dest: skip_while_DoneD)

lemma parse_string_inside: "inside data c (parse_string node data c)"
  using string_end_inside[of _ data "c + 1"]
  by (fastforce simp: inside_def parse_string_def obind_Undef_iff)

lemma parse_symbol_inside: "inside data c (parse_symbol node data c t s)"
  by (auto simp: inside_def parse_symbol_def skip_space_def obind_Undef_iff
      split: if_splits dest: skip_while_DoneD)

text \<open>The blocks of \<open>decode\<close>: the position, and that opening a container moves it.\<close>

lemma decode_key_inside:
  assumes "c \<le> length data"
  shows "decode_key node data c \<noteq> Undef"
    and "decode_key node data c = Done (ret, n', c') \<Longrightarrow>
         c \<le> c' \<and> c' \<le> length data \<and>
         (ret \<or> decode_step node = e_decode_type \<or> decode_step node = e_decode_key \<longrightarrow>
            ret \<or> decode_step n' = e_decode_type)"
  using assms
  by (cases node; auto simp: decode_key_def skip_space_def find_ch_def obind_Undef_iff
      split: if_splits dest!: skip_while_DoneD)+

lemma returned_inside:
  assumes "inside data y r"
  shows "returned r \<noteq> Undef"
    and "returned r = Done (b, n, z) \<Longrightarrow> b \<and> y \<le> z \<and> z \<le> length data"
  using assms by (auto simp: inside_def returned_def obind_Undef_iff)

lemmas returned_parse =
  returned_inside[OF parse_number_inside] returned_inside[OF parse_string_inside]
  returned_inside[OF parse_symbol_inside]

lemma decode_value_inside:
  shows "decode_value node data c \<noteq> Undef"
    and "decode_value node data c = Done (ret, n', c') \<Longrightarrow>
         ret \<and> c \<le> c' \<and> c' \<le> length data \<or> c' = c + 1 \<and> c' \<le> length data
         \<or> n' = node \<and> c' = c \<and> c \<le> length data"
proof -
  have "number_ahead data c ch \<noteq> Undef" for ch
    by (simp add: number_ahead_def obind_Undef_iff)
  then show "decode_value node data c \<noteq> Undef"
    using returned_parse by (auto simp: decode_value_def obind_Undef_iff split: if_splits)
  show "ret \<and> c \<le> c' \<and> c' \<le> length data \<or> c' = c + 1 \<and> c' \<le> length data
         \<or> n' = node \<and> c' = c \<and> c \<le> length data"
    if "decode_value node data c = Done (ret, n', c')"
  proof -
    from that obtain ch where ch: "c < length data" "data ! c = ch"
      by (auto simp: decode_value_def)
    show ?thesis
    proof (cases "ch = CHR 0x7B \<or> ch = CHR ''[''")
      case True
      with that ch show ?thesis by (auto simp: decode_value_def)
    next
      case False
      with that ch obtain b where "number_ahead data c ch = Done b"
        by (auto simp: decode_value_def)
      with that ch False show ?thesis
        by (simp add: decode_value_def at_def split: if_splits)
           (auto dest: returned_parse(2,4,6))
    qed
  qed
qed

lemma decode_type_inside:
  assumes "c \<le> length data" and "decode_step node = e_decode_type"
  shows "decode_type node data c \<noteq> Undef"
    and "decode_type node data c = Done (ret, n', c') \<Longrightarrow>
         c \<le> c' \<and> c' \<le> length data \<and> (ret \<or> decode_step n' \<noteq> e_decode_value \<or> c < c')"
proof -
  have colon: "skip_colon node data x \<noteq> Undef"
    "\<And>y. skip_colon node data x = Done y \<Longrightarrow> x \<le> y" for x
    by (auto simp: skip_colon_def skip_space_def obind_Undef_iff split: if_splits
        dest!: skip_while_DoneD)
  have skip: "skip_space data c \<noteq> Undef"
    "\<And>x. skip_space data c = Done x \<Longrightarrow> c \<le> x"
    by (auto simp: skip_space_def dest!: skip_while_DoneD)
  show "decode_type node data c \<noteq> Undef"
    using skip colon decode_value_inside(1) by (auto simp: decode_type_def obind_Undef_iff)
  assume "decode_type node data c = Done (ret, n', c')"
  with assms(2) obtain x y where x: "skip_space data c = Done x"
    and y: "skip_colon node data x = Done y" and v: "decode_value node data y = Done (ret, n', c')"
    by (auto simp: decode_type_def)
  with skip(2)[OF x] colon(2)[OF y] decode_value_inside(2)[OF v] assms(2)
  show "c \<le> c' \<and> c' \<le> length data \<and> (ret \<or> decode_step n' \<noteq> e_decode_value \<or> c < c')"
    by auto
qed

definition scan_steps :: "jstep set" where
  "scan_steps = {e_decode_key, e_decode_type}"

lemma scan_steps_simps [simp]:
  "e_decode_key \<in> scan_steps" "e_decode_type \<in> scan_steps"
  by (simp_all add: scan_steps_def)

lemma inside_later: "inside data c' r \<Longrightarrow> c \<le> c' \<Longrightarrow> inside data c r"
  by (auto simp: inside_def)

lemma inside_Done [simp]: "inside data c (Done (x, c')) \<longleftrightarrow> c \<le> c' \<and> c' \<le> length data"
  by (auto simp: inside_def)

lemma inside_fail [simp]: "inside data c Reject" "inside data c (Throws e)"
  by (auto simp: inside_def)

lemma inside_obind:
  assumes "r \<noteq> Undef" and "\<And>x. r = Done x \<Longrightarrow> inside data c (f x)"
  shows "inside data c (obind r f)"
  using assms by (cases r) auto

text \<open>One call of \<open>decode\<close> or of the loop of \<open>parse_object\<close>, given the calls it makes.\<close>

lemma decode_rest_inside:
  assumes parse: "\<And>node c step symbol. c \<le> length data \<Longrightarrow> step \<in> scan_steps \<Longrightarrow>
      2 * (length data - c) + 2 \<le> fuel \<Longrightarrow> inside data c (parse_object fuel node data c step symbol)"
    and c: "c \<le> length data" and n: "decode_step n1 = e_decode_type"
    and f: "2 * (length data - c) \<le> fuel"
  shows "inside data c (obind (decode_type n1 data c) (\<lambda>(ret, node, c). if ret then Done (node, c)
          else if decode_step node = e_decode_value \<and> node_type node = e_object
          then parse_object fuel node data c e_decode_key CHR 0x7D
          else if decode_step node = e_decode_value \<and> node_type node = e_array
          then parse_object fuel node data c e_decode_type CHR '']'' else Done (node, c)))"
proof (rule inside_obind[OF decode_type_inside(1)[OF c n]])
  fix r2 assume r2: "decode_type n1 data c = Done r2"
  obtain ret2 n2 c2 where p2: "r2 = (ret2, n2, c2)" by (cases r2) auto
  from decode_type_inside(2)[OF c n r2[unfolded p2]]
  have t: "c \<le> c2" "c2 \<le> length data" "ret2 \<or> decode_step n2 \<noteq> e_decode_value \<or> c < c2" by auto
  have "inside data c (parse_object fuel n2 data c2 step symbol)"
    if "step \<in> scan_steps" "c < c2" for step symbol
  proof -
    have "2 * (length data - c2) + 2 \<le> fuel" using that(2) t f by arith
    from inside_later[OF parse[OF t(2) that(1) this] t(1)] show ?thesis .
  qed
  with t show "inside data c (case r2 of (ret, node, c) \<Rightarrow> if ret then Done (node, c)
      else if decode_step node = e_decode_value \<and> node_type node = e_object
      then parse_object fuel node data c e_decode_key CHR 0x7D
      else if decode_step node = e_decode_value \<and> node_type node = e_array
      then parse_object fuel node data c e_decode_type CHR '']'' else Done (node, c))"
    by (auto simp: p2)
qed

lemma json_decode_Suc_inside:
  assumes parse: "\<And>node c step symbol. c \<le> length data \<Longrightarrow> step \<in> scan_steps \<Longrightarrow>
      2 * (length data - c) + 2 \<le> fuel \<Longrightarrow> inside data c (parse_object fuel node data c step symbol)"
    and c: "c \<le> length data" and st: "decode_step node \<in> scan_steps"
    and f: "2 * (length data - c) + 1 \<le> Suc fuel"
  shows "inside data c (json_decode (Suc fuel) node data c)"
  unfolding json_decode.simps
proof (rule inside_obind[OF decode_key_inside(1)[OF c]])
  fix r1 assume r1: "decode_key node data c = Done r1"
  obtain ret1 n1 c1 where p1: "r1 = (ret1, n1, c1)" by (cases r1) auto
  from decode_key_inside(2)[OF c r1[unfolded p1]] st
  have k: "c \<le> c1" "c1 \<le> length data" "ret1 \<or> decode_step n1 = e_decode_type"
    by (auto simp: scan_steps_def)
  show "inside data c (case r1 of (ret, node, c) \<Rightarrow> if ret then Done (node, c) else
      obind (decode_type node data c) (\<lambda>(ret, node, c). if ret then Done (node, c)
        else if decode_step node = e_decode_value \<and> node_type node = e_object
        then parse_object fuel node data c e_decode_key CHR 0x7D
        else if decode_step node = e_decode_value \<and> node_type node = e_array
        then parse_object fuel node data c e_decode_type CHR '']'' else Done (node, c)))"
  proof (cases ret1)
    case False
    with k have n1: "decode_step n1 = e_decode_type" by simp
    have "2 * (length data - c1) \<le> fuel" using k f by arith
    from inside_later[OF decode_rest_inside[OF parse k(2) n1 this] k(1)] False show ?thesis
      by (simp add: p1)
  qed (use k in \<open>simp add: p1\<close>)
qed

lemma parse_object_Suc_inside:
  assumes parse: "\<And>node c step symbol. c \<le> length data \<Longrightarrow> step \<in> scan_steps \<Longrightarrow>
      2 * (length data - c) + 2 \<le> fuel \<Longrightarrow> inside data c (parse_object fuel node data c step symbol)"
    and decode: "\<And>node c. c \<le> length data \<Longrightarrow> decode_step node \<in> scan_steps \<Longrightarrow>
      2 * (length data - c) + 1 \<le> fuel \<Longrightarrow> inside data c (json_decode fuel node data c)"
    and c: "c \<le> length data" and st: "step \<in> scan_steps"
    and f: "2 * (length data - c) + 2 \<le> Suc fuel"
  shows "inside data c (parse_object (Suc fuel) node data c step symbol)"
proof -
  have d: "inside data c (json_decode fuel (new_node step) data c)"
    using decode[OF c, of "new_node step"] st f by (simp add: new_node_def)
  then have "json_decode fuel (new_node step) data c \<noteq> Undef" by (simp add: inside_def)
  then show ?thesis
    unfolding json_decode.simps parse_object.simps
  proof (rule inside_obind)
    fix r1 assume r1: "json_decode fuel (new_node step) data c = Done r1"
    obtain sub c1 where p1: "r1 = (sub, c1)" by (cases r1) auto
    from d r1 p1 have c1: "c \<le> c1" "c1 \<le> length data" by auto
    have "inside data c (let node = attach_child sub node in obind (at data c2) (\<lambda>ch.
        if ch = symbol then Done (set_decode_step e_decode_end node, c2 + 1)
        else if ch = CHR '','' then parse_object fuel node data (c2 + 1) step symbol
        else Reject))" if "skip_space data c1 = Done c2" for c2
    proof -
      from that have c2: "c1 \<le> c2" "c2 < length data"
        by (auto simp: skip_space_def dest: skip_while_DoneD)
      have "inside data c (parse_object fuel node data (c2 + 1) step symbol)" for node
        using inside_later[OF parse[OF _ st], of "c2 + 1" c] c1 c2 f by simp
      with c1 c2 show ?thesis by (simp add: at_def Let_def)
    qed
    then show "inside data c (case r1 of (sub_node, c) \<Rightarrow> obind (skip_space data c) (\<lambda>c.
        let node = attach_child sub_node node in obind (at data c) (\<lambda>ch.
        if ch = symbol then Done (set_decode_step e_decode_end node, c + 1)
        else if ch = CHR '','' then parse_object fuel node data (c + 1) step symbol
        else Reject)))"
      unfolding p1 prod.case by (intro inside_obind) (auto simp: skip_space_def)
  qed
qed

lemma json_decode_inside_aux:
  "(\<forall>node c. c \<le> length data \<longrightarrow> decode_step node \<in> scan_steps \<longrightarrow>
      2 * (length data - c) + 1 \<le> fuel \<longrightarrow> inside data c (json_decode fuel node data c)) \<and>
   (\<forall>node c step symbol. c \<le> length data \<longrightarrow> step \<in> scan_steps \<longrightarrow>
      2 * (length data - c) + 2 \<le> fuel \<longrightarrow>
      inside data c (parse_object fuel node data c step symbol))"
proof (induction fuel)
  case (Suc fuel)
  then show ?case
    by (intro conjI allI impI json_decode_Suc_inside parse_object_Suc_inside) blast+
qed simp

lemma json_decode_inside:
  "c \<le> length data \<Longrightarrow> decode_step node \<in> scan_steps \<Longrightarrow> 2 * (length data - c) + 1 \<le> fuel \<Longrightarrow>
   inside data c (json_decode fuel node data c)"
  using json_decode_inside_aux[of data fuel] by blast

lemma json_parse_defined: "json_parse data \<noteq> Undef"
proof -
  have "inside data 0 (json_decode (json_fuel data) (new_node e_decode_type) data 0)"
    by (rule json_decode_inside) (auto simp: json_fuel_def new_node_def)
  then show ?thesis by (auto simp: json_parse_def inside_def obind_Undef_iff)
qed



section \<open>The documents the format carries\<close>

text \<open>
  A document as a value, and its node as the parser builds it: a number leaves its node at
  \<open>e_decode_type\<close>, everything else ends at \<open>e_decode_end\<close>; empty containers have no children
  allocated.
\<close>

datatype jv = JStr string | JNum string | JBool bool | JNull | JObj "(string \<times> jv) list" | JArr "jv list"

definition kv_build :: "(string \<times> 'a) list \<Rightarrow> (string \<times> 'a) list" where
  "kv_build kvs = fold (\<lambda>p. kv_emplace (fst p) (snd p)) kvs []"

lemma fold_kv_emplace_sorted:
  "sorted_wrt (<) (map fst (acc @ kvs)) \<Longrightarrow>
   fold (\<lambda>p. kv_emplace (fst p) (snd p)) kvs acc = acc @ kvs"
proof (induction kvs arbitrary: acc)
  case (Cons kv kvs)
  have "kv_emplace (fst kv) (snd kv) acc = acc @ [(fst kv, snd kv)]"
    using Cons.prems by (intro kv_emplace_last) (auto simp: sorted_wrt_append)
  with Cons.IH[where acc = "acc @ [kv]"] Cons.prems show ?case by simp
qed simp

lemma kv_emplace_not_Nil [simp]: "kv_emplace k n m \<noteq> []"
  by (cases m) (auto split: if_splits)

lemma fold_kv_emplace_not_Nil:
  "fold (\<lambda>p. kv_emplace (fst p) (snd p)) kvs acc = [] \<longleftrightarrow> kvs = [] \<and> acc = []"
  by (induction kvs arbitrary: acc) auto

lemma kv_build_Nil [simp]: "kv_build kvs = [] \<longleftrightarrow> kvs = []"
  by (simp add: kv_build_def fold_kv_emplace_not_Nil)

lemma kv_build_sorted: "sorted_wrt (<) (map fst kvs) \<Longrightarrow> kv_build kvs = kvs"
  using fold_kv_emplace_sorted[of "[]" kvs] by (simp add: kv_build_def)

fun to_node :: "string \<Rightarrow> jv \<Rightarrow> jnode" where
  "to_node k (JStr s) = JNode e_decode_end e_string k s None None"
| "to_node k (JNum s) =
     JNode e_decode_type (if CHR 0x2E \<in> set s then e_float else e_integer) k s None None"
| "to_node k (JBool b) =
     JNode e_decode_end e_boolean k (if b then ''true'' else ''false'') None None"
| "to_node k JNull = JNode e_decode_end e_null k ''null'' None None"
| "to_node k (JObj kvs) = JNode e_decode_end e_object k []
     (if kvs = [] then None else Some (kv_build (map (\<lambda>kv. (fst kv, to_node (fst kv) (snd kv))) kvs))) None"
| "to_node k (JArr vs) = JNode e_decode_end e_array k [] None
     (if vs = [] then None else Some (map (to_node []) vs))"

text \<open>
  \<open>parsable inarr v\<close>: strings and keys without characters the encoder escapes; numbers the
  parser accepts; keys not empty; inside an array no booleans and nulls, which
  the parser only takes before a comma or a closing brace, and nothing empty, which it drops. \<open>good inarr v\<close>: also the keys in order.
\<close>

definition plain :: "string \<Rightarrow> bool" where
  "plain s \<longleftrightarrow> list_all (\<lambda>c. escape_char c = [c]) s"

definition number_text :: "string \<Rightarrow> bool" where
  "number_text s \<longleftrightarrow> s \<noteq> [] \<and> list_all number_char s \<and> number_ok s \<and>
     (is_digit (hd s) \<or> hd s = CHR 0x2D \<and> 2 \<le> length s \<and> is_digit (s ! 1))"

fun good :: "bool \<Rightarrow> jv \<Rightarrow> bool" where
  "good inarr (JStr s) = (plain s \<and> (inarr \<longrightarrow> s \<noteq> []))"
| "good inarr (JNum s) = number_text s"
| "good inarr (JBool b) = (\<not> inarr)"
| "good inarr JNull = (\<not> inarr)"
| "good inarr (JObj kvs) = ((inarr \<longrightarrow> kvs \<noteq> []) \<and> sorted_wrt (<) (map fst kvs) \<and>
     list_all (\<lambda>kv. fst kv \<noteq> [] \<and> plain (fst kv) \<and> good False (snd kv)) kvs)"
| "good inarr (JArr vs) = ((inarr \<longrightarrow> vs \<noteq> []) \<and> list_all (good True) vs)"

fun parsable :: "bool \<Rightarrow> jv \<Rightarrow> bool" where
  "parsable inarr (JStr s) = (plain s \<and> (inarr \<longrightarrow> s \<noteq> []))"
| "parsable inarr (JNum s) = number_text s"
| "parsable inarr (JBool b) = (\<not> inarr)"
| "parsable inarr JNull = (\<not> inarr)"
| "parsable inarr (JObj kvs) = ((inarr \<longrightarrow> kvs \<noteq> []) \<and>
     list_all (\<lambda>kv. fst kv \<noteq> [] \<and> plain (fst kv) \<and> parsable False (snd kv)) kvs)"
| "parsable inarr (JArr vs) = ((inarr \<longrightarrow> vs \<noteq> []) \<and> list_all (parsable True) vs)"

lemma good_parsable: "good inarr v \<Longrightarrow> parsable inarr v"
  by (induction inarr v rule: good.induct) (auto simp: list_all_iff)

text \<open>The text of a value, and of a sequence of children.\<close>

fun json_body :: "jv \<Rightarrow> string" where
  "json_body (JStr s) = [CHR 0x22] @ s @ [CHR 0x22]"
| "json_body (JNum s) = s"
| "json_body (JBool b) = (if b then ''true'' else ''false'')"
| "json_body JNull = ''null''"
| "json_body (JObj kvs) = ''{'' @ commas (map (\<lambda>kv. encode_key (fst kv) @ json_body (snd kv)) kvs) @ ''}''"
| "json_body (JArr vs) = ''['' @ commas (map json_body vs) @ '']''"

lemma encode_string_plain: "plain s \<Longrightarrow> encode_string s = s"
  by (induction s) (auto simp: plain_def encode_string_def)

lemma json_encode_to_node: "good inarr v \<Longrightarrow> json_encode (to_node k v) = encode_key k @ json_body v"
proof (induction inarr v arbitrary: k rule: good.induct)
  case (5 inarr kvs)
  then have "commas (map (\<lambda>kv. json_encode (to_node (fst kv) (snd kv))) kvs)
      = commas (map (\<lambda>kv. encode_key (fst kv) @ json_body (snd kv)) kvs)"
    by (auto simp: list_all_iff intro!: arg_cong[where f = commas])
  moreover have "kv_build (map (\<lambda>kv. (fst kv, to_node (fst kv) (snd kv))) kvs)
      = map (\<lambda>kv. (fst kv, to_node (fst kv) (snd kv))) kvs"
    using 5(2) by (intro kv_build_sorted) (simp add: comp_def)
  ultimately show ?case by (simp add: comp_def)
next
  case (6 inarr vs)
  then have "commas (map (\<lambda>v. json_encode (to_node [] v)) vs) = commas (map json_body vs)"
    by (auto simp: list_all_iff encode_key_def intro!: arg_cong[where f = commas])
  then show ?case by (simp add: comp_def)
qed (auto simp: encode_string_plain)


section \<open>Parsing what the encoder writes\<close>

lemma skip_while_here:
  assumes "drop c data = x # xs" and "\<not> P x"
  shows "skip_while P data c = Done c"
proof -
  have "c < length data" using assms(1) by (metis drop_all leI list.distinct(1))
  with assms show ?thesis by (simp add: skip_while_def)
qed

lemma skip_while_past:
  assumes "drop c data = s @ x # xs" and "list_all P s" and "\<not> P x"
  shows "skip_while P data c = Done (c + length s)"
proof -
  have "length data - c = length (s @ x # xs)" using assms(1) by (metis length_drop)
  then have "c + length s < length data" by simp
  moreover have "takeWhile P (drop c data) = s"
    using assms by (simp add: takeWhile_append2 list_all_iff)
  ultimately show ?thesis by (simp add: skip_while_def)
qed

lemma at_drop: "drop c data = x # xs \<Longrightarrow> at data c = Done x"
  by (metis at_Done_iff drop_all leI list.distinct(1) nth_via_drop)

lemma plain_no_quote: "plain s \<Longrightarrow> list_all (\<lambda>c. c \<noteq> CHR 0x22) s"
  and plain_no_backslash: "plain s \<Longrightarrow> list_all (\<lambda>c. c \<noteq> CHR 0x5C) s"
  by (auto simp: plain_def list_all_iff escape_char_def)

lemma drop_app: "drop c data = s @ t \<Longrightarrow> drop (c + length s) data = t"
  by (metis add.commute append_eq_conv_conj drop_drop)

lemma drop_app1: "drop c data = x # t \<Longrightarrow> drop (Suc c) data = t"
  by (metis drop_Suc list.sel(3) tl_drop)

lemma parse_string_plain:
  assumes d: "drop c data = CHR 0x22 # s @ CHR 0x22 # post" and s: "plain s"
  shows "parse_string node data c
    = Done (set_decode_step e_decode_end (set_type e_string (set_value s node)), c + length s + 2)"
proof -
  have d1: "drop (c + 1) data = s @ CHR 0x22 # post" using drop_app1[OF d] by simp
  have f: "find_ch CHR 0x22 data (c + 1) = Done (c + 1 + length s)"
    unfolding find_ch_def by (rule skip_while_past[OF d1 plain_no_quote[OF s]]) simp
  have "data ! (c + length s) \<noteq> CHR 0x5C"
  proof (cases s rule: rev_cases)
    case Nil
    then show ?thesis using nth_via_drop[OF d] by simp
  next
    case (snoc t x)
    then have "drop (c + 1 + length t) data = x # CHR 0x22 # post"
      using drop_app[of "c + 1" data t] d1 by simp
    then have "data ! (c + length s) = x" using snoc by (metis add.assoc add.commute length_append_singleton nth_via_drop plus_1_eq_Suc)
    with plain_no_backslash[OF s] snoc show ?thesis by simp
  qed
  then have "string_end CHR 0x22 data (c + 1) = Done (c + 1 + length s)"
    using f by (subst string_end.simps) simp
  with at_drop[OF d] d1 show ?thesis by (simp add: parse_string_def del: at_Done_iff)
qed

lemma parse_number_text:
  assumes d: "drop c data = s @ x # post" and s: "number_text s" and x: "\<not> number_char x"
  shows "parse_number node data c
    = Done (set_type (if CHR 0x2E \<in> set s then e_float else e_integer) (set_value s node), c + length s)"
proof -
  obtain y t where y: "s = y # t" using s by (cases s) (auto simp: number_text_def)
  have d1: "drop (c + 1) data = t @ x # post" using drop_app1 d y by simp
  have "skip_number data (c + 1) = Done (c + 1 + length t)"
    unfolding skip_number_def using s y x
    by (intro skip_while_past[OF d1]) (auto simp: number_text_def)
  with d y s show ?thesis by (simp add: parse_number_def number_text_def)
qed

lemma parse_symbol_text:
  assumes d: "drop c data = s @ x # post" and x: "x = CHR '','' \<or> x = CHR 0x7D"
  shows "parse_symbol node data c t s
    = Done (set_decode_step e_decode_end (set_value s (set_type t node)), c + length s)"
proof -
  have d1: "drop (c + length s) data = x # post" by (rule drop_app[OF d])
  then have "skip_space data (c + length s) = Done (c + length s)"
    unfolding skip_space_def using x by (intro skip_while_here) (auto simp: json_space_def)
  with at_drop[OF d1] x show ?thesis by (auto simp: parse_symbol_def simp del: at_Done_iff)
qed


text \<open>What \<open>decode\<close> does after its second block, and the value of a child.\<close>

definition json_finish :: "nat \<Rightarrow> string \<Rightarrow> (bool \<times> jnode \<times> nat) outcome \<Rightarrow> (jnode \<times> nat) outcome" where
  "json_finish fuel data r = obind r (\<lambda>(ret, node, c). if ret then Done (node, c)
     else if decode_step node = e_decode_value \<and> node_type node = e_object
     then parse_object fuel node data c e_decode_key CHR 0x7D
     else if decode_step node = e_decode_value \<and> node_type node = e_array
     then parse_object fuel node data c e_decode_type CHR '']''
     else Done (node, c))"

lemma json_decode_finish:
  "decode_key node data c = Done (False, n', c') \<Longrightarrow>
   json_decode (Suc fuel) node data c = json_finish fuel data (decode_type n' data c')"
  by (simp add: json_finish_def)

definition keyed :: "string \<Rightarrow> jnode" where
  "keyed k = JNode e_decode_type e_object k [] None None"

definition closing :: "bool \<Rightarrow> char" where
  "closing inarr = (if inarr then CHR '']'' else CHR 0x7D)"

definition first_step :: "bool \<Rightarrow> jstep" where
  "first_step inarr = (if inarr then e_decode_type else e_decode_key)"

fun container :: "jv \<Rightarrow> bool" where
  "container (JObj kvs) = True"
| "container (JArr vs) = True"
| "container _ = False"

definition ends :: "bool \<Rightarrow> jv \<Rightarrow> string \<Rightarrow> bool" where
  "ends inarr v post \<longleftrightarrow> container v \<or>
     (\<exists>x p. post = x # p \<and> (x = CHR '','' \<or> x = closing inarr))"

text \<open>The value parser reads \<open>v\<close>: the statement proved by induction on the value.\<close>

definition parses :: "string \<Rightarrow> bool \<Rightarrow> jv \<Rightarrow> bool" where
  "parses data inarr v \<longleftrightarrow>
     (\<forall>k c post fuel. drop c data = json_body v @ post \<longrightarrow> ends inarr v post \<longrightarrow>
        2 * (length data - c) \<le> fuel \<longrightarrow>
        json_finish fuel data (decode_value (keyed k) data c) = Done (to_node k v, c + length (json_body v)))"

lemma body_first: "parsable inarr v \<Longrightarrow> \<exists>x t. json_body v = x # t \<and> \<not> json_space x"
  by (cases v) (auto simp: number_text_def is_digit_def json_space_def neq_Nil_conv)

lemma closing_not_number: "\<not> number_char (closing inarr)" "\<not> number_char CHR '',''"
  by (auto simp: closing_def number_char_def is_digit_def)

lemma parses_number:
  assumes "number_text s"
  shows "parses data inarr (JNum s)"
  unfolding parses_def
proof (intro allI impI)
  fix k c post fuel
  assume d: "drop c data = json_body (JNum s) @ post" and "ends inarr (JNum s) post"
  then obtain x p where post: "post = x # p" "x = CHR '','' \<or> x = closing inarr"
    by (auto simp: ends_def)
  obtain y t where y: "s = y # t" using assms by (cases s) (auto simp: number_text_def)
  have d0: "drop c data = y # t @ x # p" using d y post by simp
  have ahead: "number_ahead data c y = Done True"
  proof (cases "is_digit y")
    case False
    with assms y obtain z u where z: "t = z # u" "y = CHR 0x2D" "is_digit z"
      by (cases t) (auto simp: number_text_def)
    then have "at data (c + 1) = Done z" using drop_app1[OF d0] by (intro at_drop) simp
    with z False show ?thesis by (simp add: number_ahead_def del: at_Done_iff)
  qed (simp add: number_ahead_def)
  have y2: "y \<noteq> CHR 0x7B" "y \<noteq> CHR ''[''"
    using assms y by (auto simp: number_text_def is_digit_def)
  have num: "parse_number (keyed k) data c = Done (to_node k (JNum s), c + length s)"
    using parse_number_text[of c data s x p "keyed k"] d post assms closing_not_number
    by (auto simp: keyed_def)
  show "json_finish fuel data (decode_value (keyed k) data c) = Done (to_node k (JNum s), c + length (json_body (JNum s)))"
    using at_drop[OF d0] ahead y2 num
    by (simp add: json_finish_def decode_value_def returned_def del: at_Done_iff)
qed

lemma parses_string:
  assumes "plain s"
  shows "parses data inarr (JStr s)"
  unfolding parses_def
proof (intro allI impI)
  fix k c post fuel
  assume "drop c data = json_body (JStr s) @ post"
  then have d: "drop c data = CHR 0x22 # s @ CHR 0x22 # post" by simp
  from parse_string_plain[OF d assms, of "keyed k"] at_drop[OF d]
  show "json_finish fuel data (decode_value (keyed k) data c) = Done (to_node k (JStr s), c + length (json_body (JStr s)))"
    by (simp add: json_finish_def decode_value_def returned_def number_ahead_def is_digit_def keyed_def
        del: at_Done_iff)
qed

lemma parses_symbol:
  assumes "v = JNull \<or> v = JBool b"
  shows "parses data False v"
  unfolding parses_def
proof (intro allI impI)
  fix k c post fuel
  assume d: "drop c data = json_body v @ post" and "ends False v post"
  then obtain x p where post: "post = x # p" and x: "x = CHR '','' \<or> x = CHR 0x7D"
    using assms by (auto simp: ends_def closing_def)
  have sym: "parse_symbol (keyed k) data c t (json_body v)
      = Done (set_decode_step e_decode_end (set_value (json_body v) (set_type t (keyed k))), c + length (json_body v))" for t
    using parse_symbol_text[of c data "json_body v" x p "keyed k" t] d post x by simp
  have here: "at data c = Done (hd (json_body v))"
  proof (rule at_drop)
    have "json_body v \<noteq> []" using assms by (cases b) auto
    then show "drop c data = hd (json_body v) # tl (json_body v) @ post" using d by simp
  qed
  show "json_finish fuel data (decode_value (keyed k) data c) = Done (to_node k v, c + length (json_body v))"
  proof (cases "v = JNull")
    case True
    with d here sym[of e_null] show ?thesis
      by (simp add: json_finish_def decode_value_def returned_def number_ahead_def is_digit_def keyed_def
          del: at_Done_iff)
  next
    case False
    with assms have v: "v = JBool b" by simp
    with d here sym[of e_boolean] show ?thesis
      by (cases b)
         (simp_all add: json_finish_def decode_value_def returned_def number_ahead_def is_digit_def
           keyed_def del: at_Done_iff)
  qed
qed

text \<open>One child of a container, and the loop over its children.\<close>

definition good_child :: "bool \<Rightarrow> string \<times> jv \<Rightarrow> bool" where
  "good_child inarr kv \<longleftrightarrow> parsable inarr (snd kv) \<and>
     (if inarr then fst kv = [] else fst kv \<noteq> [] \<and> plain (fst kv))"

definition child_text :: "string \<times> jv \<Rightarrow> string" where
  "child_text kv = encode_key (fst kv) @ json_body (snd kv)"

definition child_node :: "string \<times> jv \<Rightarrow> jnode" where
  "child_node kv = to_node (fst kv) (snd kv)"

lemma decode_type_keyed:
  assumes d: "drop c data = (if k = [] then [] else [CHR '':'']) @ json_body v @ post"
    and v: "parsable inarr v"
  shows "decode_type (keyed k) data c = decode_value (keyed k) data (if k = [] then c else c + 1)"
proof -
  obtain y t where y: "json_body v = y # t" "\<not> json_space y" using body_first[OF v] by auto
  show ?thesis
  proof (cases "k = []")
    case True
    with d y have "skip_space data c = Done c"
      unfolding skip_space_def by (intro skip_while_here) auto
    with True show ?thesis by (simp add: decode_type_def keyed_def skip_colon_def)
  next
    case False
    with d y have d0: "drop c data = CHR '':'' # y # t @ post" by simp
    then have "skip_space data c = Done c"
      unfolding skip_space_def by (intro skip_while_here) (auto simp: json_space_def)
    moreover have "skip_space data (c + 1) = Done (c + 1)"
      unfolding skip_space_def using drop_app1[OF d0] y(2) by (intro skip_while_here) auto
    ultimately show ?thesis
      using False at_drop[OF d0]
      by (simp add: decode_type_def keyed_def skip_colon_def del: at_Done_iff)
  qed
qed

lemma decode_key_plain:
  assumes d: "drop c data = CHR 0x22 # k @ CHR 0x22 # rest" and k: "plain k"
  shows "decode_key (new_node e_decode_key) data c = Done (False, keyed k, c + length k + 2)"
proof -
  have d1: "drop (c + 1) data = k @ CHR 0x22 # rest" using drop_app1[OF d] by simp
  have "skip_space data c = Done c"
    unfolding skip_space_def by (rule skip_while_here[OF d]) (simp add: json_space_def)
  moreover have "find_ch CHR 0x22 data (c + 1) = Done (c + 1 + length k)"
    unfolding find_ch_def by (rule skip_while_past[OF d1 plain_no_quote[OF k]]) simp
  ultimately show ?thesis
    using at_drop[OF d] d1
    by (simp add: decode_key_def new_node_def keyed_def del: at_Done_iff)
qed

lemma decode_child:
  assumes p: "parses data inarr (snd kv)" and g: "good_child inarr kv"
    and d: "drop c data = child_text kv @ x # post" and x: "x = CHR '','' \<or> x = closing inarr"
    and f: "2 * (length data - c) \<le> f"
  shows "json_decode (Suc f) (new_node (first_step inarr)) data c
           = Done (child_node kv, c + length (child_text kv))"
proof -
  obtain k v where kv: "kv = (k, v)" by (cases kv)
  have v: "parsable inarr v" and e: "ends inarr v (x # post)"
    using g x kv by (auto simp: good_child_def ends_def)
  have p': "json_finish f data (decode_value (keyed k) data c') = Done (to_node k v, c' + length (json_body v))"
    if "drop c' data = json_body v @ x # post" "c \<le> c'" for c'
    using p e that f unfolding parses_def kv by auto
  show ?thesis
  proof (cases inarr)
    case True
    then have k: "k = []" using g kv by (simp add: good_child_def)
    have d0: "drop c data = json_body v @ x # post" using d k kv by (simp add: child_text_def encode_key_def)
    have "decode_key (new_node e_decode_type) data c = Done (False, keyed [], c)"
      by (simp add: decode_key_def new_node_def keyed_def)
    from json_decode_finish[OF this, of f] True k kv d0 p'[OF d0]
      decode_type_keyed[of c data "[]" v "x # post" inarr] v
    show ?thesis by (simp add: first_step_def child_node_def child_text_def encode_key_def)
  next
    case False
    then have k: "k \<noteq> []" "plain k" using g kv by (auto simp: good_child_def)
    let ?c = "c + length k + 2"
    have d0: "drop c data = CHR 0x22 # k @ CHR 0x22 # (CHR '':'' # json_body v @ x # post)"
      using d k kv by (simp add: child_text_def encode_key_def encode_string_plain)
    have d1: "drop ?c data = CHR '':'' # json_body v @ x # post"
      using drop_app1[OF drop_app[OF drop_app1[OF d0]]] by simp
    have d2: "drop (?c + 1) data = json_body v @ x # post" using drop_app1[OF d1] by simp
    from json_decode_finish[OF decode_key_plain[OF d0 k(2)], of f] False k kv p'[OF d2]
      decode_type_keyed[of ?c data k v "x # post" inarr] d1 v
    show ?thesis
      by (simp add: first_step_def child_node_def child_text_def encode_key_def encode_string_plain)
  qed
qed

lemma parse_children:
  assumes "cs \<noteq> []" and "list_all (\<lambda>kv. parses data inarr (snd kv) \<and> good_child inarr kv) cs"
    and "drop c data = commas (map child_text cs) @ closing inarr # post"
    and "2 * (length data - c) + 2 \<le> fuel"
  shows "parse_object fuel node data c (first_step inarr) (closing inarr)
    = Done (set_decode_step e_decode_end (fold (\<lambda>kv. attach_child (child_node kv)) cs node),
            c + length (commas (map child_text cs)) + 1)"
  using assms
proof (induction cs arbitrary: c node fuel)
  case (Cons kv cs)
  from Cons.prems(4) obtain f where f: "fuel = Suc (Suc f)" "2 * (length data - c) \<le> f"
    by (metis Suc_le_D add_2_eq_Suc' Suc_le_mono)
  define c1 where "c1 = c + length (child_text kv)"
  obtain x rest where x: "drop c data = child_text kv @ x # rest" "x = (if cs = [] then closing inarr else CHR '','')"
    and rest: "if cs = [] then rest = post else rest = commas (map child_text cs) @ closing inarr # post"
    using Cons.prems(3) by (cases cs) auto
  have d: "json_decode (Suc f) (new_node (first_step inarr)) data c = Done (child_node kv, c1)"
    unfolding c1_def using Cons.prems(2) x f(2) by (intro decode_child) auto
  have d1: "drop c1 data = x # rest" unfolding c1_def using x by (intro drop_app) simp
  have s: "skip_space data c1 = Done c1"
    unfolding skip_space_def using x(2)
    by (intro skip_while_here[OF d1]) (auto simp: json_space_def closing_def)
  show ?case
  proof (cases "cs = []")
    case True
    with d s at_drop[OF d1] x(2) f show ?thesis by (simp add: c1_def Let_def del: at_Done_iff)
  next
    case False
    have "drop (c1 + 1) data = commas (map child_text cs) @ closing inarr # post"
      using drop_app1[OF d1] rest False by simp
    moreover have "c1 < length data" using at_drop[OF d1] by simp
    then have "2 * (length data - (c1 + 1)) + 2 \<le> Suc f" using f(2) by (simp add: c1_def)
    ultimately have "parse_object (Suc f) (attach_child (child_node kv) node) data (c1 + 1)
        (first_step inarr) (closing inarr)
      = Done (set_decode_step e_decode_end
            (fold (\<lambda>kv. attach_child (child_node kv)) cs (attach_child (child_node kv) node)),
          c1 + 1 + length (commas (map child_text cs)) + 1)"
      using Cons.prems(2) False by (intro Cons.IH) auto
    moreover have "CHR '','' \<noteq> closing inarr" by (simp add: closing_def)
    moreover have "length (commas (map child_text (kv # cs)))
        = length (child_text kv) + 1 + length (commas (map child_text cs))"
      using False by (cases cs) auto
    ultimately show ?thesis
      using d s at_drop[OF d1] x(2) False f by (simp add: c1_def Let_def del: at_Done_iff)
  qed
qed simp

lemma parse_no_children:
  assumes "drop c data = closing inarr # post" and "2 * (length data - c) + 2 \<le> fuel"
  shows "parse_object fuel node data c (first_step inarr) (closing inarr)
    = Done (set_decode_step e_decode_end node, c + 1)"
proof -
  from assms(2) obtain f where f: "fuel = Suc (Suc f)" by (metis Suc_le_D add_2_eq_Suc' Suc_le_mono)
  have s: "skip_space data c = Done c"
    unfolding skip_space_def
    by (rule skip_while_here[OF assms(1)]) (auto simp: json_space_def closing_def)
  have "json_decode (Suc f) (new_node (first_step inarr)) data c
      = Done (new_node (first_step inarr), c)"
    using s at_drop[OF assms(1)] assms(1)
    by (cases inarr)
       (auto simp: first_step_def decode_key_def decode_type_def decode_value_def new_node_def
         skip_colon_def closing_def number_ahead_def is_digit_def simp del: at_Done_iff)
  moreover have "attach_child (new_node (first_step inarr)) node = node"
    by (simp add: attach_child_def new_node_def)
  ultimately show ?thesis
    using s at_drop[OF assms(1)] f by (simp add: Let_def del: at_Done_iff)
qed


text \<open>The children, put together again.\<close>

lemma jkey_to_node [simp]: "jkey (to_node k v) = k"
  by (cases v) auto

lemma attach_object:
  assumes "\<forall>kv\<in>set kvs. fst kv \<noteq> []" and "m = (if acc = [] then None else Some acc)"
  shows "fold (\<lambda>kv. attach_child (child_node kv)) kvs (JNode s t k v m a)
    = JNode s t k v (if acc = [] \<and> kvs = [] then None
        else Some (fold (\<lambda>p. kv_emplace (fst p) (snd p))
                    (map (\<lambda>kv. (fst kv, child_node kv)) kvs) acc)) a"
  using assms
proof (induction kvs arbitrary: acc m)
  case (Cons kv kvs)
  have "(case m of None \<Rightarrow> [] | Some m \<Rightarrow> m) = acc"
    using Cons.prems(2) by simp
  then have "attach_child (child_node kv) (JNode s t k v m a)
      = JNode s t k v (Some (kv_emplace (fst kv) (child_node kv) acc)) a"
    using Cons.prems(1) by (simp add: attach_child_def child_node_def)
  then show ?case
    using Cons.IH[where acc = "kv_emplace (fst kv) (child_node kv) acc"] Cons.prems by simp
qed auto

lemma attach_array:
  assumes "list_all (parsable True) vs" and "a = (if acc = [] then None else Some acc)"
  shows "fold (\<lambda>kv. attach_child (child_node kv)) (map (Pair []) vs) (JNode s t k v m a)
    = JNode s t k v m (if acc = [] \<and> vs = [] then None else Some (acc @ map (to_node []) vs))"
  using assms
proof (induction vs arbitrary: acc a)
  case (Cons x vs)
  have "attach_child (to_node [] x) (JNode s t k v m a)
      = JNode s t k v m (Some (acc @ [to_node [] x]))"
    using Cons.prems by (cases x) (auto simp: attach_child_def number_text_def)
  with Cons.IH[where acc = "acc @ [to_node [] x]"] Cons.prems show ?case by (simp add: child_node_def)
qed auto

lemma parses_container:
  assumes cs: "list_all (\<lambda>kv. parses data arr (snd kv) \<and> good_child arr kv) cs"
    and json_body: "json_body v = (if arr then CHR ''['' else CHR 0x7B) # commas (map child_text cs) @ [closing arr]"
    and node: "\<And>k. set_decode_step e_decode_end (fold (\<lambda>kv. attach_child (child_node kv)) cs
        (JNode e_decode_value (if arr then e_array else e_object) k [] None None)) = to_node k v"
  shows "parses data inarr v"
  unfolding parses_def
proof (intro allI impI)
  fix k c post fuel
  assume d: "drop c data = json_body v @ post" and f: "2 * (length data - c) \<le> fuel"
  let ?o = "if arr then CHR ''['' else CHR 0x7B" and ?n = "JNode e_decode_value (if arr then e_array else e_object) k [] None None"
  have d0: "drop c data = ?o # commas (map child_text cs) @ closing arr # post"
    using d json_body by simp
  have d1: "drop (c + 1) data = commas (map child_text cs) @ closing arr # post"
    using drop_app1[OF d0] by simp
  have "c < length data" using at_drop[OF d0] by simp
  then have f1: "2 * (length data - (c + 1)) + 2 \<le> fuel" using f by simp
  have "parse_object fuel ?n data (c + 1) (first_step arr) (closing arr)
      = Done (to_node k v, c + length (json_body v))"
  proof (cases "cs = []")
    case True
    with d1 f1 node[of k] json_body parse_no_children[of "c + 1" data arr post fuel ?n]
    show ?thesis by simp
  next
    case False
    with parse_children[OF False cs d1 f1, of ?n] node[of k] json_body show ?thesis by simp
  qed
  moreover have "decode_value (keyed k) data c = Done (False, ?n, c + 1)"
    using at_drop[OF d0] by (auto simp: decode_value_def keyed_def simp del: at_Done_iff)
  ultimately show "json_finish fuel data (decode_value (keyed k) data c) = Done (to_node k v, c + length (json_body v))"
    by (auto simp: json_finish_def first_step_def closing_def)
qed

lemma parsable_parses: "parsable inarr v \<Longrightarrow> parses data inarr v"
proof (induction inarr v rule: parsable.induct)
  case (5 inarr kvs)
  have "list_all (\<lambda>kv. parses data False (snd kv) \<and> good_child False kv) kvs"
    using 5 by (auto simp: list_all_iff good_child_def)
  moreover have "commas (map child_text kvs)
      = commas (map (\<lambda>kv. encode_key (fst kv) @ json_body (snd kv)) kvs)"
    unfolding child_text_def ..
  moreover have "set_decode_step e_decode_end (fold (\<lambda>kv. attach_child (child_node kv)) kvs
      (JNode e_decode_value e_object k [] None None)) = to_node k (JObj kvs)" for k
    using attach_object[of kvs None "[]"] 5(2) by (simp add: list_all_iff child_node_def kv_build_def)
  ultimately show ?case
    using parses_container[of data False kvs "JObj kvs"] by (simp add: closing_def)
next
  case (6 inarr vs)
  have "list_all (\<lambda>kv. parses data True (snd kv) \<and> good_child True kv) (map (Pair []) vs)"
    using 6 by (auto simp: list_all_iff good_child_def)
  moreover have "commas (map child_text (map (Pair []) vs)) = commas (map json_body vs)"
    by (intro arg_cong[where f = commas]) (simp add: child_text_def encode_key_def)
  moreover have "set_decode_step e_decode_end (fold (\<lambda>kv. attach_child (child_node kv))
      (map (Pair []) vs) (JNode e_decode_value e_array k [] None None)) = to_node k (JArr vs)" for k
    using attach_array[of vs None "[]"] 6(2) by auto
  ultimately show ?case
    by (intro parses_container[of data True "map (Pair []) vs"]) (simp_all add: closing_def del: map_map)
qed (auto intro: parses_string parses_number parses_symbol)

lemma body_json_parse:
  assumes "parsable False v" and "container v"
  shows "json_parse (json_body v @ rest) = Done (to_node [] v)"
proof -
  let ?d = "json_body v @ rest"
  have "decode_type (keyed []) ?d 0 = decode_value (keyed []) ?d 0"
    using decode_type_keyed[of 0 ?d "[]" v rest] assms(1) by simp
  moreover have "json_finish (2 * length ?d) ?d (decode_value (keyed []) ?d 0)
      = Done (to_node [] v, 0 + length (json_body v))"
    using parsable_parses[OF assms(1), of ?d] assms(2) unfolding parses_def
    by (auto simp: ends_def)
  moreover have "decode_key (new_node e_decode_type) ?d 0 = Done (False, keyed [], 0)"
    by (simp add: decode_key_def new_node_def keyed_def)
  ultimately show ?thesis
    using json_decode_finish[of "new_node e_decode_type" ?d 0 "keyed []" 0 "2 * length ?d"]
    by (simp add: json_parse_def json_fuel_def)
qed

lemma json_text_to_node:
  assumes "good False v"
  shows "json_text (to_node k v) = json_body v"
proof -
  have "set_key [] (to_node k v) = to_node [] v" by (cases v) auto
  then show ?thesis
    using json_encode_to_node[OF assms, of "[]"] by (simp add: json_text_def encode_key_def)
qed

text \<open>
  C19: Round trip. A document of the class the format carries, an object or an array at the
  top, is parsed back from its encoding, whatever text follows it.
\<close>

theorem json_roundtrip:
  assumes "good False v" and "container v"
  shows "json_text (to_node k v) = json_body v
    \<and> json_parse (json_text (to_node k v) @ rest) = Done (to_node [] v)"
  using json_text_to_node[OF assms(1)] body_json_parse[OF good_parsable[OF assms(1)] assms(2)] by simp

definition ex_json :: jv where
  "ex_json = JObj [(''a'', JArr [JNum ''1'', JNum ''-2.5'', JStr ''x'']), (''b'', JBool True), (''c'', JObj [])]"

theorem json_roundtrip_witness:
  "json_parse (json_text (to_node [] ex_json) @ '' tail'') = Done (to_node [] ex_json)"
proof -
  have "good False ex_json"
    by (simp add: ex_json_def plain_def escape_char_def number_text_def number_char_def number_ok_def
        is_digit_def)
  moreover have "container ex_json" by (simp add: ex_json_def)
  ultimately show ?thesis using json_roundtrip by blast
qed

section \<open>Escapes\<close>

lemma find_ch_step:
  assumes "drop c data = x # xs" and "x \<noteq> ch"
  shows "find_ch ch data c = find_ch ch data (Suc c)"
proof -
  have "drop (Suc c) data = xs" by (rule drop_app1[OF assms(1)])
  with assms show ?thesis by (simp add: find_ch_def skip_while_def)
qed

lemma string_end_step:
  assumes "drop c data = x # xs" and "x \<noteq> ch"
  shows "string_end ch data c = string_end ch data (Suc c)"
  using find_ch_step[OF assms] by (subst (1 2) string_end.simps) simp

lemma string_end_escaped_quote:
  assumes "drop c data = CHR 0x5C # ch # xs" and "ch \<noteq> CHR 0x5C"
  shows "string_end ch data c = string_end ch data (c + 2)"
proof -
  have d1: "drop (Suc c) data = ch # xs" by (rule drop_app1[OF assms(1)])
  have "find_ch ch data (Suc c) = Done (Suc c)"
    unfolding find_ch_def by (rule skip_while_here[OF d1]) simp
  moreover have "data ! c = CHR 0x5C" using assms(1) by (rule nth_via_drop)
  ultimately have "string_end ch data (Suc c) = string_end ch data (c + 2)"
    by (subst string_end.simps) simp
  with string_end_step[OF assms(1)] assms(2) show ?thesis by simp
qed

lemma escape_char_cases:
  "x \<noteq> CHR 0x5C \<Longrightarrow> escape_char x = [x] \<and> x \<noteq> CHR 0x22 \<or> x = CHR 0x22 \<or>
     (\<exists>y. escape_char x = [CHR 0x5C, y] \<and> y \<noteq> CHR 0x22 \<and> y \<noteq> CHR 0x5C)"
  by (simp add: escape_char_def)

lemma string_end_encoded:
  "drop c data = encode_string s @ CHR 0x22 # post \<Longrightarrow> CHR 0x5C \<notin> set s \<Longrightarrow> 0 < c \<Longrightarrow>
   data ! (c - 1) \<noteq> CHR 0x5C \<Longrightarrow>
   string_end CHR 0x22 data c = Done (c + length (encode_string s))"
proof (induction s arbitrary: c)
  case Nil
  then have d: "drop c data = CHR 0x22 # post" by (simp add: encode_string_def)
  have "find_ch CHR 0x22 data c = Done c"
    unfolding find_ch_def by (rule skip_while_here[OF d]) simp
  with Nil show ?case by (subst string_end.simps) (simp add: encode_string_def)
next
  case (Cons x s)
  let ?rest = "encode_string s @ CHR 0x22 # post"
  have d: "drop c data = escape_char x @ ?rest" and x: "x \<noteq> CHR 0x5C"
    using Cons.prems by (auto simp: encode_string_def)
  consider "escape_char x = [x]" "x \<noteq> CHR 0x22" | "x = CHR 0x22"
    | y where "escape_char x = [CHR 0x5C, y]" "y \<noteq> CHR 0x22" "y \<noteq> CHR 0x5C"
    using escape_char_cases[OF x] by blast
  then show ?case
  proof cases
    case 1
    with d have d0: "drop c data = x # ?rest" by simp
    have "string_end CHR 0x22 data (Suc c) = Done (Suc c + length (encode_string s))"
      using drop_app1[OF d0] Cons.prems x nth_via_drop[OF d0] by (intro Cons.IH) auto
    with string_end_step[OF d0] 1 show ?thesis by (simp add: encode_string_def)
  next
    case 2
    then have e: "escape_char x = [CHR 0x5C, CHR 0x22]" by (simp add: escape_char_def)
    with d have d0: "drop c data = CHR 0x5C # CHR 0x22 # ?rest" by simp
    have "string_end CHR 0x22 data (c + 2) = Done (c + 2 + length (encode_string s))"
      using drop_app1[OF drop_app1[OF d0]] Cons.prems nth_via_drop[OF drop_app1[OF d0]]
      by (intro Cons.IH) auto
    with string_end_escaped_quote[OF d0] e show ?thesis by (simp add: encode_string_def)
  next
    case (3 y)
    with d have d0: "drop c data = CHR 0x5C # y # ?rest" by simp
    have "string_end CHR 0x22 data (Suc (Suc c)) = Done (Suc (Suc c) + length (encode_string s))"
      using drop_app1[OF drop_app1[OF d0]] Cons.prems nth_via_drop[OF drop_app1[OF d0]] 3(3)
      by (intro Cons.IH) auto
    with string_end_step[OF d0] string_end_step[OF drop_app1[OF d0]] 3
    show ?thesis by (simp add: encode_string_def)
  qed
qed

text \<open>
  The parser finds the end of an encoded string that contains no backslash, quotes and
  control characters included, but stores the text as it was escaped: escapes are not undone.
\<close>

theorem json_string_keeps_escapes:
  assumes "CHR 0x5C \<notin> set s"
  shows "parse_string node ([CHR 0x22] @ encode_string s @ [CHR 0x22] @ post) 0
    = Done (set_decode_step e_decode_end (set_type e_string (set_value (encode_string s) node)),
            length (encode_string s) + 2)"
proof -
  let ?d = "CHR 0x22 # encode_string s @ CHR 0x22 # post"
  have "string_end CHR 0x22 ?d 1 = Done (1 + length (encode_string s))"
    using assms by (intro string_end_encoded) auto
  then show ?thesis by (simp add: parse_string_def at_def)
qed

theorem json_string_keeps_escapes_witness:
  "parse_string (new_node e_decode_type)
     ([CHR 0x22] @ encode_string [CHR ''a'', CHR 0x0A] @ [CHR 0x22] @ []) 0
   = Done (JNode e_decode_end e_string [] [CHR ''a'', CHR 0x5C, CHR ''n''] None None, 5)"
  using json_string_keeps_escapes[of "[CHR ''a'', CHR 0x0A]" "new_node e_decode_type" "[]"]
  by (simp add: encode_string_def escape_char_def new_node_def)


section \<open>The children of an object\<close>

text \<open>The map of an object: keys in order, each the key of its node.\<close>

definition kv_ok :: "(string \<times> jnode) list \<Rightarrow> bool" where
  "kv_ok m \<longleftrightarrow> sorted_wrt (<) (map fst m) \<and> (\<forall>(k, n)\<in>set m. jkey n = k \<and> k \<noteq> [])"

definition node_ok :: "jnode \<Rightarrow> bool" where
  "node_ok n \<longleftrightarrow> (case kv_childs n of None \<Rightarrow> True | Some m \<Rightarrow> kv_ok m)"

lemma kv_emplace_ok: "kv_ok m \<Longrightarrow> jkey n = k \<Longrightarrow> k \<noteq> [] \<Longrightarrow> kv_ok (kv_emplace k n m)"
  using kv_emplace_sorted[of m k n] set_kv_emplace[of k n m] by (fastforce simp: kv_ok_def)

lemma kv_childs_sets [simp]:
  "kv_childs (set_kv_childs m n) = m" "kv_childs (set_array_childs a n) = kv_childs n"
  "kv_childs (set_type t n) = kv_childs n" "kv_childs (set_value v n) = kv_childs n"
  "node_type (set_kv_childs m n) = node_type n"
  by (cases n; simp)+

lemma become_ok: "node_ok n \<Longrightarrow> node_ok (become t n)"
  by (simp add: node_ok_def become_def)

lemma node_type_become: "node_type (become t n) = t"
  by (cases n) (simp add: become_def)

text \<open>
  The children of an object stay in key order with the keys of their nodes, under the
  parser's and the user's insertions and erasures.
\<close>

theorem json_children_invariant:
  assumes "node_ok n"
  shows "node_ok (attach_child child n) \<and> node_ok (insert_kv_child child n)
    \<and> node_ok (erase_kv_child k n)
    \<and> find_kv_child k (insert_kv_child child n) =
        (if k = jkey child \<and> k \<noteq> [] \<and> find_kv_child k (become e_object n) = None then Some child
         else find_kv_child k (become e_object n))"
proof -
  let ?o = "become e_object n"
  have o: "node_ok ?o" using become_ok[OF assms] .
  have olds: "kv_ok (case kv_childs x of None \<Rightarrow> [] | Some m \<Rightarrow> m)" if "node_ok x" for x
    using that by (auto simp: node_ok_def kv_ok_def split: option.splits)
  have "node_ok (attach_child child n)"
    using assms olds[OF assms] by (auto simp: attach_child_def node_ok_def kv_emplace_ok)
  moreover have "node_ok (insert_kv_child child n)"
    using o olds[OF o] by (auto simp: insert_kv_child_def node_ok_def kv_emplace_ok Let_def)
  moreover have "node_ok (erase_kv_child k n)"
    using o by (auto simp: erase_kv_child_def node_ok_def kv_ok_def Let_def sorted_wrt_map
        sorted_wrt_filter split: option.splits)
  moreover have "find_kv_child k (insert_kv_child child n) =
      (if k = jkey child \<and> k \<noteq> [] \<and> find_kv_child k ?o = None then Some child
       else find_kv_child k ?o)"
    using olds[OF o] map_of_kv_emplace[of "case kv_childs ?o of None \<Rightarrow> [] | Some m \<Rightarrow> m" "jkey child" child]
    by (auto simp: find_kv_child_def insert_kv_child_def Let_def node_type_become kv_ok_def
        split: option.splits)
  ultimately show ?thesis by blast
qed

theorem json_children_invariant_witness:
  "find_kv_child ''a'' (insert_kv_child (to_node ''a'' JNull) (new_node e_decode_type))
     = Some (to_node ''a'' JNull)"
proof -
  have "node_ok (new_node e_decode_type)" by (simp add: node_ok_def new_node_def)
  from json_children_invariant[OF this, of "to_node ''a'' JNull" "''a''"]
  show ?thesis by (simp add: find_kv_child_def become_def new_node_def)
qed

text \<open>
  The root \<open>decode\<close> leaves: that of the document when it is parsed, some root when it is refused.
\<close>

fun left_of :: "(jnode \<times> nat) outcome \<Rightarrow> jnode outcome \<Rightarrow> bool" where
  "left_of (Done (n, c)) l = (l = Done n)"
| "left_of Reject l = (\<exists>n. l = Done n)"
| "left_of (Throws e) l = (l = Throws e)"
| "left_of Undef l = (l = Undef)"

lemma parse_object_left_of:
  "left_of (parse_object fuel node data c step symbol) (parse_object_left fuel node data c step symbol)"
proof (induction fuel arbitrary: node c)
  case (Suc fuel)
  have s: "skip_space data c \<noteq> Undef" "skip_space data c \<noteq> Throws e" for c e
    by (simp_all add: skip_space_def skip_while_def Let_def)
  have a: "at data c \<noteq> Undef" "at data c \<noteq> Reject" for c by (simp_all add: at_def)
  show ?case
  proof (cases "json_decode fuel (new_node step) data c")
    case (Done r)
    obtain sub c1 where r: "r = (sub, c1)" by (cases r)
    show ?thesis
    proof (cases "skip_space data c1")
      case sk: (Done c2)
      with Done r a[of c2] Suc show ?thesis
        by (cases "at data c2") (auto simp: Let_def simp del: at_Done_iff)
    qed (use Done r s[of c1] in auto)
  qed auto
qed simp

lemma json_left_cases:
  "json_parse data = Done n \<Longrightarrow> json_left data = Done n"
  "json_parse data = Reject \<Longrightarrow> \<exists>n. json_left data = Done n"
  "json_parse data = Throws e \<Longrightarrow> json_left data = Throws e"
  "json_left data \<noteq> Undef"
proof -
  have "decode_key (new_node e_decode_type) data 0 = Done (False, new_node e_decode_type, 0)"
    by (simp add: decode_key_def new_node_def)
  then have p: "json_parse data = obind (obind (decode_type (new_node e_decode_type) data 0)
      (\<lambda>(ret, node, c). if ret then Done (node, c)
        else if decode_step node = e_decode_value \<and> node_type node = e_object
        then parse_object (2 * length data) node data c e_decode_key CHR 0x7D
        else if decode_step node = e_decode_value \<and> node_type node = e_array
        then parse_object (2 * length data) node data c e_decode_type CHR '']''
        else Done (node, c))) (\<lambda>(node, c). Done node)"
    by (simp add: json_parse_def json_fuel_def)
  let ?po = "\<lambda>node c step symbol. parse_object (2 * length data) node data c step symbol"
  have "left_of (obind (json_parse data) (\<lambda>n. Done (n, 0))) (json_left data)"
  proof (cases "decode_type (new_node e_decode_type) data 0")
    case (Done r)
    obtain ret node c where r: "r = (ret, node, c)" by (cases r)
    have l: "left_of (obind (obind (?po node c step symbol) (\<lambda>(node, c). Done node)) (\<lambda>n. Done (n, 0)))
        (parse_object_left (2 * length data) node data c step symbol)" for step symbol
      using parse_object_left_of[of "2 * length data" node data c step symbol]
      by (cases "?po node c step symbol") auto
    show ?thesis unfolding p json_left_def Done r using l by simp
  qed (simp_all add: p json_left_def)
  then show "json_parse data = Done n \<Longrightarrow> json_left data = Done n"
    "json_parse data = Reject \<Longrightarrow> \<exists>n. json_left data = Done n"
    "json_parse data = Throws e \<Longrightarrow> json_left data = Throws e"
    "json_left data \<noteq> Undef"
    using json_parse_defined[of data] by (cases "json_parse data"; auto)+
qed

end
