(* ===== verification/Shine_String_Correct.thy ===== *)
theory Shine_String_Correct
  imports Shine_String
begin

text \<open>
  Correctness of the string class: splitting and replacing against their specification on the
  pieces between the occurrences of the separator, the round trips of base64, URL encoding and
  numbers, and the language that \<open>is_utf8\<close> accepts.
\<close>


section \<open>Splitting and replacing\<close>

text \<open>The pieces of a text between the occurrences of a separator, and their join.\<close>

function pieces :: "string \<Rightarrow> string \<Rightarrow> string list" where
  "pieces des str =
     (if des = [] then [str]
      else case find_sub des str of
             None \<Rightarrow> [str]
           | Some e \<Rightarrow> take e str # pieces des (drop (e + length des) str))"
  by pat_completeness auto
termination
  by (relation "measure (\<lambda>(_, s). length s)")
     (auto dest!: find_sub_SomeD simp: neq_Nil_conv)

declare pieces.simps [simp del]

fun join :: "string \<Rightarrow> string list \<Rightarrow> string" where
  "join des [] = []"
| "join des [p] = p"
| "join des (p # q # ps) = p @ des @ join des (q # ps)"

lemma pieces_not_Nil [simp]: "pieces des str \<noteq> []"
  by (subst pieces.simps) (simp split: option.splits)

lemma join_Cons: "ps \<noteq> [] \<Longrightarrow> join des (p # ps) = p @ des @ join des ps"
  by (cases ps) auto

lemma join_pieces: "join des (pieces des str) = str"
proof (induction des str rule: pieces.induct)
  case (1 des str)
  show ?case
  proof (cases "des = [] \<or> find_sub des str = None")
    case False
    then obtain e where e: "find_sub des str = Some e" and "des \<noteq> []" by auto
    with 1 find_sub_SomeD[OF e] show ?thesis
      by (subst pieces.simps) (simp add: join_Cons)
  qed (subst pieces.simps, auto split: option.splits)
qed

lemma not_sublist_before:
  assumes "find_sub des str = Some e" and "des \<noteq> []"
  shows "\<not> sublist des (take e str)"
proof
  assume "sublist des (take e str)"
  then obtain a b where s: "take e str = a @ des @ b" by (auto simp: sublist_def)
  then have "length a + length des \<le> e" by (metis length_append length_take add.assoc le_add1 min.bounded_iff)
  with assms(2) have "length a < e" by (cases des) auto
  moreover have "str = a @ des @ b @ drop e str" using s by (metis append.assoc append_take_drop_id)
  then have "prefix des (drop (length a) str)" by (metis append_eq_conv_conj prefixI)
  ultimately show False using find_sub_SomeD[OF assms(1)] by blast
qed

lemma pieces_free:
  "des \<noteq> [] \<Longrightarrow> p \<in> set (pieces des str) \<Longrightarrow> \<not> sublist des p"
proof (induction des str rule: pieces.induct)
  case (1 des str)
  show ?case
  proof (cases "find_sub des str")
    case None
    with 1(2,3) show ?thesis
      by (subst (asm) pieces.simps) (auto simp: find_sub_None_sublist)
  next
    case (Some e)
    then have "p = take e str \<or> p \<in> set (pieces des (drop (e + length des) str))"
      using 1(2,3) by (subst (asm) pieces.simps) auto
    with 1(1)[OF 1(2) Some 1(2)] not_sublist_before[OF Some 1(2)] show ?thesis by auto
  qed
qed

lemma split_loop_pieces:
  "des \<noteq> [] \<Longrightarrow> b \<le> length str \<Longrightarrow>
   split_loop str des b ret = Some (ret @ pieces des (drop b str))"
proof (induction "length str - b" arbitrary: b ret rule: less_induct)
  case less
  show ?case
  proof (cases "find_sub des (drop b str)")
    case None
    with less.prems show ?thesis
      by (subst split_loop.simps, subst pieces.simps) (simp add: find_from_def)
  next
    case (Some e)
    then have e: "e + length des \<le> length str - b" using find_sub_SomeD[OF Some] by simp
    with less.prems have b: "b + e + length des \<le> length str" and "0 < length des" by auto
    then have "split_loop str des (b + e + length des) (ret @ [take e (drop b str)])
        = Some ((ret @ [take e (drop b str)]) @ pieces des (drop (b + e + length des) str))"
      using less.prems by (intro less.hyps) linarith+
    with Some less.prems show ?thesis
      by (subst split_loop.simps, subst pieces.simps) (simp add: find_from_def add.commute add.left_commute)
  qed
qed

text \<open>An empty separator is found where the search begins, and the loop does not end.\<close>

lemma split_loop_empty:
  assumes "split_loop str des b ret = Some r"
  shows "\<not> (des = [] \<and> b \<le> length str)"
proof (rule split_loop.raw_induct[OF _ assms,
      where P = "\<lambda>str des b ret r. \<not> (des = [] \<and> b \<le> length str)"])
  fix loop str des b and ret r :: "string list"
  assume IH: "\<And>str des b ret r. loop str des b ret = Some r \<Longrightarrow> \<not> (des = [] \<and> b \<le> length str)"
    and body: "(case find_from str des b of None \<Rightarrow> Some (ret @ [drop b str])
      | Some e \<Rightarrow> loop str des (e + length des) (ret @ [take (e - b) (drop b str)])) = Some r"
  show "\<not> (des = [] \<and> b \<le> length str)"
  proof
    assume d: "des = [] \<and> b \<le> length str"
    with body have "loop str des b (ret @ [[]]) = Some r" by (simp add: find_from_def)
    from IH[OF this] d show False by blast
  qed
qed

lemma replace_loop_join:
  "src \<noteq> [] \<Longrightarrow>
   replace_loop (pre @ rest) src des (length pre) = Some (pre @ join des (pieces src rest))"
proof (induction "length rest" arbitrary: pre rest rule: less_induct)
  case less
  show ?case
  proof (cases "find_sub src rest")
    case None
    with less.prems show ?thesis
      by (subst replace_loop.simps, subst pieces.simps) (simp add: find_from_append)
  next
    case (Some e)
    let ?tail = "drop (e + length src) rest" and ?pre = "pre @ take e rest @ des"
    have e: "e + length src \<le> length rest" "0 < length src"
      using find_sub_SomeD[OF Some] less.prems by auto
    have "replace_loop (?pre @ ?tail) src des (length ?pre)
        = Some (?pre @ join des (pieces src ?tail))"
    proof (rule less.hyps)
      show "length ?tail < length rest" unfolding length_drop using e by linarith
    qed (rule less.prems)
    moreover have "replace_at (pre @ rest) (length pre + e) (length src) des = ?pre @ ?tail"
      by (simp add: replace_at_def)
    moreover have "length ?pre = length pre + e + length des" using e by simp
    ultimately show ?thesis
      using Some less.prems
      by (subst replace_loop.simps, subst pieces.simps) (simp add: find_from_append join_Cons add.assoc)
  qed
qed

text \<open>
  Splitting at a non-empty separator ends and returns the pieces of the text: joined with
  the separator they give the text back, and none contains the separator. With an empty
  separator the loop never ends.
\<close>

theorem split_pieces:
  "if des = [] then split str des = None
   else \<exists>ps. split str des = Some ps \<and> ps \<noteq> [] \<and> join des ps = str
          \<and> (\<forall>p\<in>set ps. \<not> sublist des p)"
proof (cases "des = []")
  case True
  then show ?thesis
    using split_loop_empty[of str des 0 "[]"] by (cases "split str des") (auto simp: split_def)
next
  case False
  then show ?thesis
    using split_loop_pieces[OF False, of 0 str "[]"] join_pieces[of des str] pieces_free[OF False]
    by (auto simp: split_def)
qed

theorem split_pieces_witness:
  "split ''a,b,,c'' '','' = Some [''a'', ''b'', [], ''c'']"
proof -
  have "split ''a,b,,c'' '','' = Some (pieces '','' ''a,b,,c'')"
    using split_loop_pieces[of "'',''" 0 "''a,b,,c''" "[]"] by (simp add: split_def)
  moreover have "pieces '','' ''a,b,,c'' = [''a'', ''b'', [], ''c'']" by code_simp
  ultimately show ?thesis using split_pieces[of "'',''" "''a,b,,c''"] by simp
qed

text \<open>
  Replacing every occurrence of a non-empty text ends, and the result is the pieces between
  the occurrences joined with the replacement; what was inserted is not searched again.
\<close>

theorem replace_all_join:
  assumes "src \<noteq> []"
  shows "replace_all str src des = Some (join des (pieces src str))"
  using replace_loop_join[OF assms, of "[]" str des] by (simp add: replace_all_def)

theorem replace_all_join_witness:
  "replace_all ''a-b--c'' ''-'' ''--'' = Some ''a--b----c''"
proof -
  have "join ''--'' (pieces ''-'' ''a-b--c'') = ''a--b----c''" by code_simp
  with replace_all_join[of "''-''" "''a-b--c''" "''--''"] show ?thesis by simp
qed


section \<open>Base64\<close>

text \<open>The masks as shifted blocks of ones, so that an identity is checked bit by bit.\<close>

lemma u8_masks:
  "(0x03 :: u8) = mask 2" "(0x0F :: u8) = mask 4" "(0x3F :: u8) = mask 6"
  "(0x30 :: u8) = push_bit 4 (mask 2)" "(0x3C :: u8) = push_bit 2 (mask 4)"
  "(0xC0 :: u8) = push_bit 6 (mask 2)" "(0xF0 :: u8) = push_bit 4 (mask 4)"
  "(0xFC :: u8) = push_bit 2 (mask 6)"
  by (simp_all add: mask_eq_exp_minus_1)

lemma quad_or:
  "quad a b c =
     [drop_bit 2 (a AND 0xFC), push_bit 4 (a AND 0x03) OR drop_bit 4 (b AND 0xF0),
      push_bit 2 (b AND 0x0F) OR drop_bit 6 (c AND 0xC0), c AND 0x3F]"
proof -
  have "push_bit 4 (a AND 0x03) AND drop_bit 4 (b AND 0xF0) = 0"
    and "push_bit 2 (b AND 0x0F) AND drop_bit 6 (c AND 0xC0) = 0"
    unfolding u8_masks by (rule bit_word_eqI; auto simp: bit_simps)+
  then show ?thesis by (simp add: quad_def disjunctive_add_eq_or)
qed

definition six :: "u8 \<Rightarrow> bool" where "six w \<longleftrightarrow> w AND 0x3F = w"

lemma triple_or:
  assumes "six s"
  shows "triple p q r s =
     [push_bit 2 p OR drop_bit 4 (q AND 0x30), push_bit 4 (q AND 0x0F) OR drop_bit 2 (r AND 0x3C),
      push_bit 6 (r AND 0x03) OR s]"
proof -
  have "push_bit 2 p AND drop_bit 4 (q AND 0x30) = 0"
    and "push_bit 4 (q AND 0x0F) AND drop_bit 2 (r AND 0x3C) = 0"
    unfolding u8_masks by (rule bit_word_eqI; auto simp: bit_simps)+
  moreover have "push_bit 6 (r AND 0x03) AND (s AND 0x3F) = 0"
    unfolding u8_masks by (rule bit_word_eqI; auto simp: bit_simps)
  ultimately show ?thesis using assms by (simp add: triple_def disjunctive_add_eq_or six_def)
qed

lemma quad_six: "list_all six (quad a b c)"
  unfolding quad_or six_def list_all_iff u8_masks
  by (simp, intro conjI; rule bit_word_eqI; auto simp: bit_simps)

lemma Suc_Suc_diff: "2 \<le> n \<Longrightarrow> Suc (Suc (n - 2)) = n"
  by simp

lemma triple_quad:
  "triple (quad a b c ! 0) (quad a b c ! 1) (quad a b c ! 2) (quad a b c ! 3) = [a, b, c]"
proof -
  have s: "six (c AND 0x3F)" by (simp add: six_def)
  have *: "triple (quad a b c ! 0) (quad a b c ! 1) (quad a b c ! 2) (quad a b c ! 3)
      = triple (drop_bit 2 (a AND 0xFC)) (push_bit 4 (a AND 0x03) OR drop_bit 4 (b AND 0xF0))
          (push_bit 2 (b AND 0x0F) OR drop_bit 6 (c AND 0xC0)) (c AND 0x3F)"
    by (simp add: quad_or)
  show ?thesis
    unfolding * triple_or[OF s] unfolding u8_masks
    by (simp, intro conjI; rule bit_word_eqI, case_tac "n < 2"; case_tac "n < 4"; case_tac "n < 6";
        auto simp: bit_simps Suc_Suc_diff)
qed

lemma six_less: "six w \<Longrightarrow> unat w < 64"
  using take_bit_nat_less_exp[of 6 "unat w"]
  by (simp add: six_def and_mask6 flip: unsigned_take_bit_eq)

lemma length_base64_chars: "length base64_chars = 64"
  by (simp add: base64_chars_def)

lemma base64_find: "map (\<lambda>c. find_sub [c] base64_chars) base64_chars = map Some [0..<64]"
  by code_simp

lemma base64_alphabet: "list_all (\<lambda>c. is_base64 c \<and> c \<noteq> CHR 0x3D) base64_chars"
  by code_simp

lemma base64_char:
  assumes "six w"
  shows "base64_index (byte (base64_chars ! unat w)) = w" "is_base64 (base64_chars ! unat w)"
    "base64_chars ! unat w \<noteq> CHR 0x3D"
proof -
  have w: "unat w < length base64_chars" using six_less[OF assms] by (simp add: length_base64_chars)
  then have "find_sub [base64_chars ! unat w] base64_chars = Some (unat w)"
    using arg_cong[OF base64_find, of "\<lambda>xs. xs ! unat w"] by (simp add: length_base64_chars)
  then show "base64_index (byte (base64_chars ! unat w)) = w" by (simp add: base64_index_def)
  show "is_base64 (base64_chars ! unat w)" "base64_chars ! unat w \<noteq> CHR 0x3D"
    using base64_alphabet nth_mem[OF w] by (auto simp: list_all_iff)
qed

abbreviation enc64 :: "u8 \<Rightarrow> char" where
  "enc64 k \<equiv> base64_chars ! unat k"

text \<open>The reference definition of base64: groups of three bytes, the last one padded.\<close>

fun b64 :: "u8 list \<Rightarrow> string" where
  "b64 (a # b # c # r) = map enc64 (quad a b c) @ b64 r"
| "b64 [a, b] = [enc64 (quad a b 0 ! 0), enc64 (quad a b 0 ! 1), enc64 (quad a b 0 ! 2), CHR 0x3D]"
| "b64 [a] = [enc64 (quad a 0 0 ! 0), enc64 (quad a 0 0 ! 1), CHR 0x3D, CHR 0x3D]"
| "b64 [] = []"

lemma quad_nth: "quad a b c = [quad a b c ! 0, quad a b c ! 1, quad a b c ! 2, quad a b c ! 3]"
  by (simp add: quad_def)

lemma length_quad [simp]: "length (quad a b c) = 4"
  by (simp add: quad_def)

lemma encode_base64_loop_b64:
  "(case encode_base64_loop xs [] ret of (acc, r) \<Rightarrow>
      if length acc \<noteq> 0
      then let a = acc @ replicate (3 - length acc) 0; q = quad (a ! 0) (a ! 1) (a ! 2)
           in r @ map (\<lambda>j. enc64 (q ! j)) [0..<length acc + 1] @ replicate (3 - length acc) CHR 0x3D
      else r) = ret @ b64 xs"
  by (induction xs arbitrary: ret rule: b64.induct)
     (simp_all add: Let_def numeral_2_eq_2 numeral_3_eq_3 upt_rec)

lemma encode_base64_b64: "encode_base64 data = b64 (map byte data)"
  using encode_base64_loop_b64[of "map byte data" "[]"]
  by (simp add: encode_base64_def Let_def split: prod.splits)

lemma quad_nth_six: "i < 4 \<Longrightarrow> six (quad a b c ! i)"
  using quad_six[of a b c] by (simp add: list_all_length)

lemma base64_step:
  "six w \<Longrightarrow> decode_base64_loop (enc64 w # cs) acc ret =
     (if length acc = 3
      then let x = map base64_index (acc @ [byte (enc64 w)])
           in decode_base64_loop cs [] (ret @ triple (x ! 0) (x ! 1) (x ! 2) (x ! 3))
      else decode_base64_loop cs (acc @ [byte (enc64 w)]) ret)"
  using base64_char[of w] by simp

lemma triple_quad_take:
  "take (Suc 0) (triple (quad a b c ! 0) (quad a b c ! Suc 0) r s) = [a]"
  "take (Suc (Suc 0)) (triple (quad a b c ! 0) (quad a b c ! Suc 0) (quad a b c ! Suc (Suc 0)) s) = [a, b]"
  using triple_quad[of a b c] by (simp_all add: triple_def numeral_2_eq_2)

lemma decode_base64_quad:
  "decode_base64_loop (map enc64 (quad a b c) @ cs) [] ret = decode_base64_loop cs [] (ret @ [a, b, c])"
proof -
  have "decode_base64_loop (map enc64 [quad a b c ! 0, quad a b c ! 1, quad a b c ! 2, quad a b c ! 3] @ cs) [] ret
      = decode_base64_loop cs [] (ret @ [a, b, c])"
    by (simp del: decode_base64_loop.simps
        add: base64_step quad_nth_six base64_char triple_quad[simplified])
  then show ?thesis by (simp only: quad_nth[symmetric])
qed

lemma decode_base64_loop_b64:
  "(case decode_base64_loop (b64 xs) [] ret of (acc, r) \<Rightarrow>
      if length acc \<noteq> 0
      then let x = map base64_index (acc @ replicate (4 - length acc) 0)
           in r @ take (length acc - 1) (triple (x ! 0) (x ! 1) (x ! 2) (x ! 3))
      else r) = ret @ xs"
proof (induction xs arbitrary: ret rule: b64.induct)
  case (1 a b c r)
  then show ?case by (simp only: b64.simps decode_base64_quad append.simps append_assoc)
next
  case (2 a b)
  show ?case
    unfolding b64.simps
    by (simp del: decode_base64_loop.simps(2)
        add: base64_step quad_nth_six base64_char triple_quad_take numeral_2_eq_2)
       (simp add: base64_char quad_nth_six triple_quad_take)
next
  case (3 a)
  show ?case
    unfolding b64.simps
    by (simp del: decode_base64_loop.simps(2)
        add: base64_step quad_nth_six base64_char triple_quad_take numeral_2_eq_2)
       (simp add: base64_char quad_nth_six triple_quad_take)
qed simp

text \<open>
  Base64 round trip. Decoding what the encoder wrote gives the text back, whatever its
  length and its bytes.
\<close>

theorem base64_roundtrip: "decode_base64 (encode_base64 data) = data"
proof -
  obtain acc r where l: "decode_base64_loop (b64 (map byte data)) [] [] = (acc, r)"
    by (cases "decode_base64_loop (b64 (map byte data)) [] []") auto
  show ?thesis
    using decode_base64_loop_b64[of "map byte data" "[]"]
    unfolding decode_base64_def encode_base64_b64 l Let_def prod.case append_Nil
    by (simp only: list.map_comp comp_def chr_byte list.map_ident)
qed

text \<open>
  The encoder, which gathers bytes in a buffer, implements base64 by groups of three, and
  its output has four characters for every three bytes begun.
\<close>

theorem base64_reference:
  "encode_base64 data = b64 (map byte data)
   \<and> length (encode_base64 data) = 4 * ((length data + 2) div 3)"
proof -
  have "length (b64 xs) = 4 * ((length xs + 2) div 3)" for xs
  proof (induction xs rule: b64.induct)
    case (1 a b c r)
    moreover have "(5 + n) div 3 = Suc (Suc (Suc n) div 3)" for n :: nat by presburger
    ultimately show ?case by simp
  qed simp_all
  then show ?thesis by (simp add: encode_base64_b64)
qed


section \<open>URL encoding\<close>

definition url_entry_ok :: "char \<Rightarrow> string \<Rightarrow> bool" where
  "url_entry_ok c e \<longleftrightarrow> e = [c] \<and> c \<noteq> CHR 0x25 \<or>
     (\<exists>a b. e = [CHR 0x25, a, b] \<and> is_alnum a \<and> is_alnum b \<and> url_nibbles a b = c)"

lemma url_hex:
  "map (\<lambda>a. shine_url_decode_table ! code a) ''0123456789ABCDEF'' = [0..<16]"
  "list_all is_alnum ''0123456789ABCDEF''"
  by (simp_all add: shine_url_decode_table_def is_alnum_def is_digit_def is_upper_def upt_rec)

lemma url_hex_digit:
  assumes "n < 16"
  shows "shine_url_decode_table ! code (hex_digit n) = n" and "is_alnum (hex_digit n)"
proof -
  have n: "n < length ''0123456789ABCDEF''" using assms by simp
  show "shine_url_decode_table ! code (hex_digit n) = n"
    using arg_cong[OF url_hex(1), of "\<lambda>xs. xs ! n"] n assms
    unfolding nth_map[OF n] hex_digit_def by simp
  show "is_alnum (hex_digit n)"
    using url_hex(2) n unfolding hex_digit_def list_all_length by blast
qed

text \<open>Every entry of the table is the character itself or its two hexadecimal digits.\<close>

lemma url_table:
  "list_all2 (\<lambda>c e. e = [c] \<and> c \<noteq> CHR 0x25 \<or>
     e = [CHR 0x25, hex_digit (code c div 16), hex_digit (code c mod 16)])
   Enum.enum shine_url_encode_table"
  by (simp add: enum_char_def shine_url_encode_table_def hex_digit_def)

lemma url_entry: "url_entry_ok c (shine_url_encode_table ! code c)"
proof -
  have "code c < length (Enum.enum :: char list)" and "Enum.enum ! code c = c"
    using code_less[of c] by (simp_all add: enum_char_unfold)
  then have "shine_url_encode_table ! code c = [c] \<and> c \<noteq> CHR 0x25 \<or>
      shine_url_encode_table ! code c
        = [CHR 0x25, hex_digit (code c div 16), hex_digit (code c mod 16)]"
    using list_all2_nthD[OF url_table, of "code c"] by simp
  moreover have "code c div 16 < 16" using code_less[of c] by (intro less_mult_imp_div_less) simp
  moreover have "code c mod 16 < 16" by simp
  moreover from this and \<open>code c div 16 < 16\<close>
  have "url_nibbles (hex_digit (code c div 16)) (hex_digit (code c mod 16)) = c"
    by (simp add: url_nibbles_def url_hex_digit div_mult_mod_eq)
  ultimately show ?thesis unfolding url_entry_ok_def using url_hex_digit(2) by blast
qed

lemma decode_url_entry:
  "url_entry_ok c e \<Longrightarrow> decode_url_loop ret (e @ data) = decode_url_loop (ret @ [c]) data"
  unfolding url_entry_ok_def by (elim disjE exE conjE; simp)

lemma decode_url_loop_encode:
  "decode_url_loop ret (concat (map (\<lambda>c. shine_url_encode_table ! code c) s)) = Done (ret @ s)"
  by (induction s arbitrary: ret) (simp_all add: decode_url_entry[OF url_entry])

lemma alnum_not_NUL: "is_alnum c \<Longrightarrow> c \<noteq> CHR 0x00"
proof
  assume "is_alnum c" and "c = CHR 0x00"
  then show False by (simp add: is_alnum_def is_digit_def is_upper_def is_lower_def)
qed

lemma url_entry_not_NUL:
  assumes "c \<noteq> CHR 0x00"
  shows "CHR 0x00 \<notin> set (shine_url_encode_table ! code c)"
proof -
  consider "shine_url_encode_table ! code c = [c]"
    | a b where "shine_url_encode_table ! code c = [CHR 0x25, a, b]" "is_alnum a" "is_alnum b"
    using url_entry[of c] unfolding url_entry_ok_def by blast
  then show ?thesis
  proof cases
    case 1
    with assms show ?thesis by simp
  next
    case (2 a b)
    with alnum_not_NUL[of a] alnum_not_NUL[of b] show ?thesis by simp
  qed
qed

text \<open>
  URL round trip. Every text without a NUL is decoded back from its URL encoding.
\<close>

theorem url_roundtrip:
  assumes "CHR 0x00 \<notin> set s"
  shows "decode_url (encode_url s) = Done s"
proof -
  have enc: "encode_url s = concat (map (\<lambda>c. shine_url_encode_table ! code c) s)"
    using assms by (simp add: encode_url_def c_str_id)
  have "CHR 0x00 \<notin> set (shine_url_encode_table ! code c)" if "c \<in> set s" for c
    using that assms by (intro url_entry_not_NUL) blast
  then have "CHR 0x00 \<notin> set (encode_url s)" unfolding enc by fastforce
  then show ?thesis
    using decode_url_loop_encode[of "[]" s]
    by (simp add: decode_url_def c_str_id enc)
qed

theorem url_roundtrip_witness: "decode_url (encode_url ''a b%c'') = Done ''a b%c''"
  by (rule url_roundtrip) simp


section \<open>UTF-8\<close>

text \<open>
  The language of texts made of ASCII bytes and of lead bytes followed by as many
  continuation bytes as they ask for.
\<close>

definition cont :: "u8 \<Rightarrow> bool" where
  "cont c \<longleftrightarrow> c AND 0xC0 = 0x80"

inductive utf8_text :: "u8 list \<Rightarrow> bool" where
  empty: "utf8_text []"
| ascii: "c < 0x80 \<Longrightarrow> utf8_text r \<Longrightarrow> utf8_text (c # r)"
| multi: "utf8_lead (unat c) = Some n \<Longrightarrow> list_all cont cs \<Longrightarrow> length cs = n - 1 \<Longrightarrow> utf8_text r \<Longrightarrow>
    utf8_text (c # cs @ r)"

inductive_cases utf8_text_ConsE: "utf8_text (c # s)"

definition utf8_tail :: "nat \<Rightarrow> u8 list \<Rightarrow> bool" where
  "utf8_tail n s \<longleftrightarrow> n \<le> length s \<and> list_all cont (take n s) \<and> utf8_text (drop n s)"

lemma utf8_tail_simps [simp]:
  "utf8_tail 0 s = utf8_text s"
  "utf8_tail (Suc n) [] = False"
  "utf8_tail (Suc n) (c # s) = (cont c \<and> utf8_tail n s)"
  by (auto simp: utf8_tail_def)

lemma utf8_lead_high: "c < 0x80 \<Longrightarrow> utf8_lead (unat c) = None" for c :: u8
  by (auto simp: utf8_lead_def word_less_nat_alt)

lemma utf8_text_Cons:
  "utf8_text (c # s) \<longleftrightarrow>
     (if c < 0x80 then utf8_text s
      else case utf8_lead (unat c) of None \<Rightarrow> False | Some n \<Rightarrow> utf8_tail (n - 1) s)"
proof
  assume "utf8_text (c # s)"
  then show "if c < 0x80 then utf8_text s
      else case utf8_lead (unat c) of None \<Rightarrow> False | Some n \<Rightarrow> utf8_tail (n - 1) s"
    by (rule utf8_text_ConsE) (auto simp: utf8_tail_def dest: utf8_lead_high)
next
  assume *: "if c < 0x80 then utf8_text s
      else case utf8_lead (unat c) of None \<Rightarrow> False | Some n \<Rightarrow> utf8_tail (n - 1) s"
  show "utf8_text (c # s)"
  proof (cases "c < 0x80")
    case False
    with * obtain n where n: "utf8_lead (unat c) = Some n" "utf8_tail (n - 1) s"
      by (auto split: option.splits)
    then show ?thesis
      using utf8_text.multi[of c n "take (n - 1) s" "drop (n - 1) s"]
      by (simp add: utf8_tail_def)
  qed (use * in \<open>simp add: utf8_text.ascii\<close>)
qed

lemma high_bit: "c AND 0x80 \<noteq> 0 \<longleftrightarrow> 0x80 \<le> c" for c :: u8
proof -
  have "bit c 7 \<longleftrightarrow> 0x80 \<le> c"
  proof -
    have "bit (unat c) 7 \<longleftrightarrow> bit c 7" by (simp add: bit_unsigned_iff)
    then have "bit c 7 \<longleftrightarrow> odd (unat c div 2 ^ 7)" unfolding bit_iff_odd by blast
    moreover have "unat c < 256" using unsigned_less[of c, where 'a = nat] by simp
    then have "unat c div 2 ^ 7 = (if 128 \<le> unat c then 1 else 0)"
      by (auto intro: div_nat_eqI)
    then have "odd (unat c div 2 ^ 7) \<longleftrightarrow> 128 \<le> unat c" by (simp split: if_splits)
    ultimately show ?thesis by (simp add: word_le_nat_alt)
  qed
  then show ?thesis by (simp add: and_0x80_iff)
qed

lemma utf8_loop_text:
  "utf8_loop s n all_ascii \<longleftrightarrow> utf8_tail n s \<and> (\<not> all_ascii \<or> (\<exists>c\<in>set s. 0x80 \<le> c))"
proof (induction s n all_ascii rule: utf8_loop.induct)
  case (1 n all_ascii)
  then show ?case by (cases n) (auto intro: utf8_text.empty)
next
  case (2 c s n all_ascii)
  then show ?case
    by (cases n) (auto simp: Let_def high_bit utf8_text_Cons cont_def not_le split: option.splits)
qed

text \<open>
  is_utf8 accepts exactly the texts of lead and continuation bytes that are not plain
  ASCII.
\<close>

theorem is_utf8_language:
  "is_utf8 s \<longleftrightarrow> utf8_text s \<and> (\<exists>c\<in>set s. 0x80 \<le> c)"
  by (simp add: is_utf8_def utf8_loop_text)


section \<open>Numbers\<close>

lemma show_int_no_dot: "CHR 0x2E \<notin> set (show_int i)"
  by (auto simp: show_int_def is_digit_def dest!: show_nat_digits)

lemma string_of_integer_show: "string_of_integer i = show_int i"
proof -
  have "find_sub ''.'' (show_int i) = None" by (simp only: find_sub_char_None show_int_no_dot not_False_eq_True)
  then show ?thesis by (simp add: string_of_integer_def number_to_string_def)
qed

lemma integer_strings:
  "(- (2 ^ 63) \<le> v \<and> v < 2 ^ 63 \<longrightarrow> to_int64 (string_of_integer v) = v)
   \<and> (- (2 ^ 31) \<le> v \<and> v < 2 ^ 31 \<longrightarrow> to_int32 (string_of_integer v) = v)
   \<and> (- (2 ^ 15) \<le> v \<and> v < 2 ^ 15 \<longrightarrow> to_int16 (string_of_integer v) = v)
   \<and> (0 \<le> v \<and> v < 2 ^ 32 \<longrightarrow> to_uint32 (string_of_integer v) = v)"
proof -
  have "to_uint32 (string_of_integer v) = v" if v: "0 \<le> v" "v < 2 ^ 32"
  proof -
    have "atoll (show_int v) = v" using v by (intro atoll_show_int) auto
    then show ?thesis
      using v by (simp add: to_uint32_def string_of_integer_show atoi_def
          take_bit_signed_take_bit take_bit_int_eq_self)
  qed
  then show ?thesis
    using atoll_show_int[of v] atoi_show_int[of v]
    by (auto simp: to_int64_def to_int32_def to_int16_def string_of_integer_show
        signed_take_bit_int_eq_self)
qed

text \<open>
  Integers survive the trip through a string, at every width the class offers.
\<close>

theorem integer_string_roundtrip:
  "(- (2 ^ 63) \<le> v \<and> v < 2 ^ 63 \<longrightarrow> to_int64 (string_of_integer v) = v)
   \<and> (- (2 ^ 31) \<le> v \<and> v < 2 ^ 31 \<longrightarrow> to_int32 (string_of_integer v) = v)
   \<and> (- (2 ^ 15) \<le> v \<and> v < 2 ^ 15 \<longrightarrow> to_int16 (string_of_integer v) = v)
   \<and> (0 \<le> v \<and> v < 2 ^ 32 \<longrightarrow> to_uint32 (string_of_integer v) = v)"
  by (rule integer_strings)

theorem integer_string_roundtrip_witness: "to_int32 (string_of_integer (-487)) = -487"
  using integer_string_roundtrip[of "-487"] by simp

end
