(* ===== verification/Shine_Json_Model_Correct.thy ===== *)
theory Shine_Json_Model_Correct
  imports Shine_Json_Model Shine_Json_Correct Shine_String_Correct
begin

text \<open>
  Correctness of the field models: what \<open>json_encode\<close> of a structure writes, \<open>json_decode\<close>
  reads back into a new object, field by field; a \<open>forward_list\<close> comes back reversed, and
  elements without a text are lost.
\<close>


section \<open>The tree of a value\<close>

fun key_text :: "jfield \<Rightarrow> string" where
  "key_text (FStr s) = s"
| "key_text _ = []"

fun tree :: "jfield \<Rightarrow> jv" where
  "tree (FBool b) = JBool b"
| "tree (FInt i) = JNum (string_of_integer i)"
| "tree (FStr s) = JStr s"
| "tree (FChar c) = JStr [c]"
| "tree (FSeq xs) = JArr (map tree xs)"
| "tree (FMap m) = JObj (map (\<lambda>kv. (key_text (fst kv), tree (snd kv))) m)"
| "tree (FMulti m) = JNull"
| "tree (FStruct fs) =
     JObj (map (\<lambda>f. (fst f, tree (snd f))) (filter (\<lambda>f. encode_field (snd f) \<noteq> []) fs))"

fun in_kind :: "int_kind \<Rightarrow> int \<Rightarrow> bool" where
  "in_kind Int16 i = (- (2 ^ 15) \<le> i \<and> i < 2 ^ 15)"
| "in_kind Uint16 i = (0 \<le> i \<and> i < 2 ^ 16)"
| "in_kind Int32 i = (- (2 ^ 31) \<le> i \<and> i < 2 ^ 31)"
| "in_kind Uint32 i = (0 \<le> i \<and> i < 2 ^ 32)"
| "in_kind Int64 i = (- (2 ^ 63) \<le> i \<and> i < 2 ^ 63)"
| "in_kind Uint64 i = (0 \<le> i \<and> i < 2 ^ 63)"

lemma size_zip_type:
  "((nm, t), f) \<in> set (zip fts fs) \<Longrightarrow> size t < Suc (size_list (size_prod (\<lambda>x. 0) size) fts)"
  by (drule set_zip_leftD) (rule size_field_type)

text \<open>
  The values the format carries: characters the encoder does not escape, elements with a text,
  no booleans in sequences, maps with string keys in order, structures with the fields of
  their type.
\<close>

function (sequential) storable :: "ftype \<Rightarrow> jfield \<Rightarrow> bool" where
  "storable TBool (FBool b) = True"
| "storable (TInt k) (FInt i) = in_kind k i"
| "storable TStr (FStr s) = plain s"
| "storable TChar (FChar c) = plain [c]"
| "storable (TSeq t) (FSeq xs) =
     (t \<noteq> TBool \<and> list_all (\<lambda>x. storable t x \<and> encode_field x \<noteq> []) xs)"
| "storable (TMap TStr vt) (FMap m) =
     (sorted_wrt (<) (map (\<lambda>kv. key_text (fst kv)) m) \<and>
      list_all (\<lambda>kv. is_string_field (fst kv) \<and> key_text (fst kv) \<noteq> [] \<and> plain (key_text (fst kv))
        \<and> storable vt (snd kv) \<and> encode_field (snd kv) \<noteq> []) m)"
| "storable (TStruct fts) (FStruct fs) =
     (map fst fts = map fst fs \<and> distinct (map fst fs) \<and>
      list_all (\<lambda>f. fst f \<noteq> [] \<and> plain (fst f)) fs \<and>
      list_all (\<lambda>(ft, f). storable (snd ft) (snd f)) (zip fts fs))"
| "storable _ _ = False"
  by pat_completeness auto
termination
  by (relation "measure (\<lambda>(t, v). size t)") (auto dest: size_zip_type)


section \<open>The text of a value\<close>

lemma is_string_fieldD: "is_string_field k \<Longrightarrow> k = FStr (key_text k)"
  by (cases k) auto

lemma integer_number_text: "number_text (string_of_integer i)"
proof -
  obtain c cs where s: "show_nat (nat (abs i)) = c # cs" by (cases "show_nat (nat (abs i))") auto
  have d: "is_digit x" if "x \<in> set (c # cs)" for x using that s show_nat_digits by metis
  then have cs: "\<forall>x\<in>set cs. is_digit x" and c: "is_digit c" by auto
  have "\<not> is_digit CHR 0x2E" "\<not> is_digit CHR 0x2D" by (simp_all add: is_digit_def)
  with cs c have n: "CHR 0x2E \<notin> set (c # cs)" "CHR 0x2D \<notin> set (c # cs)" by auto
  have "show_int i = (if i < 0 then CHR 0x2D # c # cs else c # cs)" using s by (auto simp: show_int_def abs_if)
  moreover have "list_all number_char (c # cs)" using cs c by (simp add: list_all_iff number_char_def)
  moreover have "number_char CHR 0x2D" by (simp add: number_char_def)
  moreover have "filter (\<lambda>x. x = CHR 0x2E) cs = []" "cs \<noteq> [] \<Longrightarrow> last cs \<noteq> CHR 0x2E"
    using n(1) last_in_set[of cs] by (auto simp: filter_empty_conv simp del: last_in_set)
  ultimately show ?thesis
    using n c unfolding string_of_integer_show number_text_def
    by (auto simp: number_ok_def)
qed

lemma integer_not_Nil [simp]: "string_of_integer i \<noteq> []"
  by (simp add: string_of_integer_show show_int_def)

lemma nonempty_map: "nonempty (map f xs) = map f (filter (\<lambda>x. f x \<noteq> []) xs)"
  by (induction xs) (auto simp: nonempty_def)

lemma keyed_text_Nil [simp]: "keyed_text k v = [] \<longleftrightarrow> v = []"
  by (simp add: keyed_text_def)

lemma quoted_plain: "plain k \<Longrightarrow> k \<noteq> [] \<Longrightarrow> v \<noteq> [] \<Longrightarrow> keyed_text (quoted k) v = encode_key k @ v"
  by (simp add: keyed_text_def quoted_def encode_key_def encode_string_plain)

lemma body_not_Nil: "parsable inarr v \<Longrightarrow> json_body v \<noteq> []"
  using body_first by fastforce

text \<open>The text is that of the tree, and the parser takes it.\<close>

definition written :: "bool \<Rightarrow> jfield \<Rightarrow> bool" where
  "written inarr v \<longleftrightarrow> encode_field v = json_body (tree v) \<and> parsable inarr (tree v)"

lemma storable_written:
  "storable t v \<Longrightarrow> encode_field v \<noteq> [] \<Longrightarrow> (inarr \<longrightarrow> t \<noteq> TBool) \<Longrightarrow> written inarr v"
proof (induction t v arbitrary: inarr rule: storable.induct)
  case (5 t xs)
  have xs: "\<forall>x\<in>set xs. written True x \<and> encode_field x \<noteq> []"
  proof
    fix x assume x: "x \<in> set xs"
    with 5(2) have "t \<noteq> TBool" "storable t x" "encode_field x \<noteq> []" by (auto simp: list_all_iff)
    with 5(1)[OF x, of True] show "written True x \<and> encode_field x \<noteq> []" by simp
  qed
  then have "nonempty (map encode_field xs) = map encode_field xs"
    by (auto simp: nonempty_def)
  also have "\<dots> = map json_body (map tree xs)" using xs by (auto simp: written_def)
  finally have "encode_field (FSeq xs) = json_body (tree (FSeq xs))"
    using 5(3) by (simp add: comp_def split: if_splits)
  moreover have "list_all (parsable True) (map tree xs)" using xs by (auto simp: written_def list_all_iff)
  ultimately show ?case using 5(3) by (auto simp: written_def split: if_splits)
next
  case (6 vt m)
  let ?k = "\<lambda>kv. key_text (fst kv)"
  have m: "written False (snd kv) \<and> encode_field (snd kv) \<noteq> [] \<and> is_string_field (fst kv)
      \<and> ?k kv \<noteq> [] \<and> plain (?k kv)" if "kv \<in> set m" for kv
    using 6(1)[OF that, of False] 6(2) that by (auto simp: list_all_iff)
  have t: "keyed_text (if is_string_field (fst kv) then encode_field (fst kv) else quoted (encode_field (fst kv)))
      (encode_field (snd kv)) = encode_key (?k kv) @ json_body (tree (snd kv))" if "kv \<in> set m" for kv
  proof -
    have "encode_field (fst kv) = quoted (?k kv)"
      using m[OF that] by (subst is_string_fieldD) (simp_all add: encode_string_plain Let_def)
    moreover have "json_body (tree (snd kv)) \<noteq> []" using m[OF that] by (auto simp: written_def)
    ultimately show ?thesis using m[OF that] quoted_plain by (simp add: written_def)
  qed
  have "nonempty (map (\<lambda>kv. keyed_text (if is_string_field (fst kv) then encode_field (fst kv)
        else quoted (encode_field (fst kv))) (encode_field (snd kv))) m)
      = map (\<lambda>kv. encode_key (?k kv) @ json_body (tree (snd kv))) m"
    using t m by (auto simp: nonempty_map intro!: filter_True)
  then have "encode_field (FMap m) = json_body (tree (FMap m))"
    using 6(3) by (simp add: comp_def split: if_splits)
  moreover have "parsable inarr (tree (FMap m))"
    using m 6(3) by (auto simp: list_all_iff written_def split: if_splits)
  ultimately show ?case by (simp add: written_def)
next
  case (7 fts fs)
  let ?fs = "filter (\<lambda>f. encode_field (snd f) \<noteq> []) fs"
  have f: "written False (snd f) \<and> fst f \<noteq> [] \<and> plain (fst f)" if "f \<in> set ?fs" for f
  proof -
    have fs: "map fst fts = map fst fs" "list_all (\<lambda>f. fst f \<noteq> [] \<and> plain (fst f)) fs"
      "list_all (\<lambda>(ft, f). storable (snd ft) (snd f)) (zip fts fs)"
      using 7(2) by simp_all
    have "f \<in> set fs" "length fts = length fs"
      using that arg_cong[OF fs(1), of length] by simp_all
    then obtain ft where ft: "(ft, f) \<in> set (zip fts fs)" by (blast elim: in_set_impl_in_set_zip2)
    then have "storable (snd ft) (snd f)" using fs(3) by (auto simp: list_all_iff)
    with 7(1)[OF ft refl, of False] that show ?thesis
      using fs(2) \<open>f \<in> set fs\<close> by (simp add: list_all_iff)
  qed
  have "nonempty (map (\<lambda>f. keyed_text (quoted (fst f)) (encode_field (snd f))) fs)
      = map (\<lambda>f. encode_key (fst f) @ json_body (tree (snd f))) ?fs"
    using f quoted_plain by (auto simp: nonempty_map written_def)
  then have "encode_field (FStruct fs) = json_body (tree (FStruct fs))" "?fs \<noteq> []"
    using 7(3) by (simp_all add: comp_def Let_def split: if_splits)
  moreover have "list_all (\<lambda>kv. fst kv \<noteq> [] \<and> plain (fst kv) \<and> parsable False (snd kv))
      (map (\<lambda>f. (fst f, tree (snd f))) ?fs)"
    using f by (auto simp: list_all_iff written_def)
  ultimately show ?case by (simp add: written_def)
next
  case (3 s)
  then show ?case
    by (auto simp: written_def quoted_def encode_string_plain Let_def split: if_splits)
qed (simp_all add: written_def integer_number_text quoted_def)


section \<open>Reading a value back\<close>

text \<open>A value without a text is the one a new object has.\<close>

lemma storable_fresh: "storable t v \<Longrightarrow> encode_field v = [] \<Longrightarrow> v = fresh junk t"
proof (induction t v rule: storable.induct)
  case (3 s)
  then show ?case by (auto simp: quoted_def encode_string_plain Let_def split: if_splits)
next
  case (7 fts fs)
  have fs: "map fst fts = map fst fs" "list_all (\<lambda>(ft, f). storable (snd ft) (snd f)) (zip fts fs)"
    using 7(2) by simp_all
  have none: "\<forall>f\<in>set fs. encode_field (snd f) = []"
    using 7(3) by (auto simp: nonempty_map filter_empty_conv split: if_splits)
  have "fs = map (\<lambda>ft. (fst ft, fresh junk (snd ft))) fts"
  proof (rule nth_equalityI)
    show len: "length fs = length (map (\<lambda>ft. (fst ft, fresh junk (snd ft))) fts)"
      using arg_cong[OF fs(1), of length] by simp
    fix i assume i: "i < length fs"
    then have z: "(fts ! i, fs ! i) \<in> set (zip fts fs)" using len by (auto simp: set_zip)
    moreover have "storable (snd (fts ! i)) (snd (fs ! i))"
      using fs(2) z by (auto simp: list_all_iff)
    ultimately have "snd (fs ! i) = fresh junk (snd (fts ! i))"
      using 7(1)[OF z refl] none i by simp
    moreover have "fst (fs ! i) = fst (fts ! i)"
      using arg_cong[OF fs(1), of "\<lambda>xs. xs ! i"] i len by simp
    ultimately show "fs ! i = map (\<lambda>ft. (fst ft, fresh junk (snd ft))) fts ! i"
      using i len by (simp add: prod_eq_iff)
  qed
  then show ?case by simp
qed (auto simp: quoted_def split: if_splits)

lemma otraverse_Done:
  "list_all2 (\<lambda>x y. f x = Done y) xs ys \<Longrightarrow> otraverse f xs = Done ys"
  by (induction rule: list_all2_induct) simp_all

lemma map_of_kv_fold:
  "sorted_wrt (<) (map fst acc) \<Longrightarrow>
   map_of (fold (\<lambda>p. kv_emplace (fst p) (snd p)) kvs acc) x
   = (case map_of acc x of None \<Rightarrow> map_of kvs x | Some v \<Rightarrow> Some v)"
proof (induction kvs arbitrary: acc)
  case (Cons kv kvs)
  then show ?case
    using Cons.IH[OF kv_emplace_sorted[OF Cons.prems, of "fst kv" "snd kv"]]
      map_of_kv_emplace[OF Cons.prems, of "fst kv" "snd kv"]
    by (cases kv) (auto split: option.splits)
qed (simp split: option.splits)

lemma map_of_kv_build: "map_of (kv_build kvs) = map_of kvs"
  using map_of_kv_fold[of "[]" kvs] by (auto simp: kv_build_def)

lemma map_emplace_strings:
  "sorted_wrt (<) (map (\<lambda>kv. key_text (fst kv)) (acc @ m)) \<Longrightarrow>
   list_all (\<lambda>kv. is_string_field (fst kv)) (acc @ m) \<Longrightarrow>
   fold (\<lambda>kv. map_emplace (fst kv) (snd kv)) m acc = acc @ m"
proof (induction m arbitrary: acc)
  case (Cons kv m)
  have less: "\<not> field_less (fst kv) (fst p) \<and> field_less (fst p) (fst kv)" if "p \<in> set acc" for p
  proof -
    have "key_text (fst p) < key_text (fst kv)" "is_string_field (fst p)" "is_string_field (fst kv)"
      using Cons.prems that by (auto simp: sorted_wrt_append list_all_iff)
    then show ?thesis by (cases "fst p"; cases "fst kv") (auto dest: order_less_not_sym)
  qed
  have "map_emplace (fst kv) (snd kv) acc = acc @ [kv]"
    using less by (induction acc) auto
  with Cons.IH[where acc = "acc @ [kv]"] Cons.prems show ?case by simp
qed simp

lemma decode_integer_text: "in_kind k i \<Longrightarrow> decode_integer k (string_of_integer i) = i"
proof (cases k)
  case Uint16
  moreover assume "in_kind k i"
  ultimately show ?thesis
    using atoi_show_int[of i] by (simp add: to_uint16_def string_of_integer_show take_bit_int_eq_self)
next
  case Uint64
  moreover assume "in_kind k i"
  ultimately show ?thesis
    using atoll_show_int[of i] by (simp add: to_uint64_def string_of_integer_show take_bit_int_eq_self)
qed (use integer_strings[of i] in auto)

lemma jvalue_to_node:
  "jvalue (to_node k (JBool b)) = (if b then ''true'' else ''false'')"
  "jvalue (to_node k (JStr s)) = s" "jvalue (to_node k (JNum s)) = s"
  by auto

lemma array_list_to_node [simp]: "array_list (to_node k (JArr vs)) = map (to_node []) vs"
  by (simp add: array_list_def)

lemma kv_list_to_node:
  "sorted_wrt (<) (map fst kvs) \<Longrightarrow>
   kv_list (to_node k (JObj kvs)) = map (\<lambda>kv. (fst kv, to_node (fst kv) (snd kv))) kvs"
  using kv_build_sorted[of "map (\<lambda>kv. (fst kv, to_node (fst kv) (snd kv))) kvs"]
  by (auto simp: kv_list_def comp_def)

lemma find_kv_child_to_node:
  "find_kv_child nm (to_node k (JObj kvs)) = map_option (to_node nm) (map_of kvs nm)"
proof -
  have "map_of (map (\<lambda>kv. (fst kv, to_node (fst kv) (snd kv))) kvs) nm
      = map_option (to_node nm) (map_of kvs nm)"
    by (induction kvs) auto
  then show ?thesis by (simp add: find_kv_child_def map_of_kv_build)
qed

lemma map_of_snd: "map_of (map (\<lambda>p. (fst p, f (snd p))) xs) x = map_option f (map_of xs x)"
  by (induction xs) auto

lemma storable_decoded:
  "storable t v \<Longrightarrow> encode_field v \<noteq> [] \<Longrightarrow>
   decode_field junk t (fresh junk t) (to_node k (tree v)) = Done v"
proof (induction t v arbitrary: k rule: storable.induct)
  case (5 t xs)
  have "otraverse (\<lambda>c. decode_field junk t (fresh junk t) c) (map (to_node []) (map tree xs)) = Done xs"
    using 5(1)[of _ "[]"] 5(2)
    by (intro otraverse_Done) (auto simp: list_all_iff list.rel_map intro!: list.rel_refl_strong)
  then show ?case by (simp add: array_list_def comp_def)
next
  case (6 vt m)
  let ?k = "\<lambda>kv. key_text (fst kv)"
  have m: "sorted_wrt (<) (map ?k m)" "list_all (\<lambda>kv. is_string_field (fst kv)) m"
    using 6(2) by (auto simp: list_all_iff)
  let ?d = "\<lambda>kv. obind (decode_field junk TStr (fresh junk TStr) (key_node (fst kv))) (\<lambda>k.
      obind (decode_field junk vt (fresh junk vt) (snd kv)) (\<lambda>v. Done (k, v)))"
  have one: "?d (?k kv, to_node (?k kv) (tree (snd kv))) = Done kv" if "kv \<in> set m" for kv
  proof -
    have "decode_field junk vt (fresh junk vt) (to_node (?k kv) (tree (snd kv))) = Done (snd kv)"
      using 6(1)[OF that] 6(2) that by (auto simp: list_all_iff)
    moreover have "fst kv = FStr (?k kv)" using m(2) that is_string_fieldD by (auto simp: list_all_iff)
    ultimately show ?thesis
      by (simp add: key_node_def set_string_def become_def new_node_def)
  qed
  have "kv_list (to_node k (tree (FMap m))) = map (\<lambda>kv. (?k kv, to_node (?k kv) (tree (snd kv)))) m"
    using kv_list_to_node[of "map (\<lambda>kv. (?k kv, tree (snd kv))) m" k] m(1) by (simp add: comp_def)
  moreover have "otraverse ?d (map (\<lambda>kv. (?k kv, to_node (?k kv) (tree (snd kv)))) m) = Done m"
    using one by (intro otraverse_Done) (auto simp: list.rel_map intro!: list.rel_refl_strong)
  ultimately show ?case using map_emplace_strings[of "[]" m] m by simp
next
  case (7 fts fs)
  let ?n = "to_node k (tree (FStruct fs))"
  let ?d = "\<lambda>ft. let o' = old_field (fresh junk (TStruct fts)) (fst ft) (fresh junk (snd ft)) in
      case find_kv_child (fst ft) ?n of
        None \<Rightarrow> Done (fst ft, o')
      | Some node2 \<Rightarrow> obind (decode_field junk (snd ft) o' node2) (\<lambda>v. Done (fst ft, v))"
  have fs: "map fst fts = map fst fs" "distinct (map fst fs)"
    "list_all (\<lambda>(ft, f). storable (snd ft) (snd f)) (zip fts fs)"
    using 7(2) by simp_all
  have one: "?d ft = Done f" if z: "(ft, f) \<in> set (zip fts fs)" for ft f
  proof -
    obtain i where i: "ft = fts ! i" "f = fs ! i" "i < length fts" "i < length fs"
      using z by (auto simp: set_zip)
    then have f: "f \<in> set fs" "ft \<in> set fts" "fst ft = fst f" "storable (snd ft) (snd f)"
      using z fs(3) arg_cong[OF fs(1), of "\<lambda>xs. xs ! i"] by (auto simp: list_all_iff)
    have "map_of fts (fst ft) = Some (snd ft)"
      using f(2) fs(1,2) by (metis map_of_is_SomeI prod.collapse)
    then have old: "old_field (fresh junk (TStruct fts)) (fst ft) (fresh junk (snd ft)) = fresh junk (snd ft)"
      by (simp add: map_of_snd)
    show ?thesis
    proof (cases "encode_field (snd f) = []")
      case True
      then have "map_of (map (\<lambda>f. (fst f, tree (snd f))) (filter (\<lambda>f. encode_field (snd f) \<noteq> []) fs)) (fst ft) = None"
        using f(1,3) fs(2) by (auto simp: map_of_eq_None_iff) (metis eq_key_imp_eq_value prod.collapse)
      then show ?thesis
        using old f(3) storable_fresh[OF f(4) True, of junk]
        by (simp only: tree.simps find_kv_child_to_node) (simp add: prod_eq_iff)
    next
      case False
      then have "map_of (map (\<lambda>f. (fst f, tree (snd f))) (filter (\<lambda>f. encode_field (snd f) \<noteq> []) fs)) (fst ft)
          = Some (tree (snd f))"
        using f(1,3) fs(2) by (intro map_of_is_SomeI) (auto simp: comp_def distinct_map_filter)
      then show ?thesis
        using old f(3) 7(1)[OF z refl f(4) False, of "fst ft"]
        by (simp only: tree.simps find_kv_child_to_node) (simp add: prod_eq_iff)
    qed
  qed
  have "length fts = length fs" using arg_cong[OF fs(1), of length] by simp
  then have "otraverse ?d fts = Done fs"
    using one by (intro otraverse_Done) (auto simp: list_all2_iff)
  then show ?case by simp
qed (auto simp: decode_integer_text at_def)

text \<open>A \<open>forward_list\<close> is filled at its front.\<close>

lemma forward_list_reversed:
  assumes "storable (TSeq t) (FSeq xs)"
  shows "decode_field junk (TFwd t) old (to_node k (tree (FSeq xs))) = Done (FSeq (rev xs))"
proof (cases "xs = []")
  case False
  with storable_decoded[OF assms, of junk k]
  have "obind (otraverse (\<lambda>c. decode_field junk t (fresh junk t) c) (array_list (to_node k (tree (FSeq xs)))))
      (\<lambda>vs. Done (FSeq vs)) = Done (FSeq xs)"
    by (simp del: tree.simps)
  then show ?thesis by (auto simp del: tree.simps)
qed (simp add: array_list_def)


text \<open>The type of the body a photo task sends, and a value of it.\<close>

definition ex_model_type :: ftype where
  "ex_model_type = TStruct [(''type'', TInt Int32), (''tablenum'', TInt Int32),
     (''param'', TMap TStr (TStruct [(''param'', TSeq (TSeq (TMap TStr (TInt Int32))))]))]"

definition ex_model :: jfield where
  "ex_model = FStruct [(''type'', FInt 1), (''tablenum'', FInt 2),
     (''param'', FMap [(FStr ''row'', FStruct [(''param'',
        FSeq [FSeq [FMap [(FStr ''camtype'', FInt 12)], FMap [(FStr ''camtype'', FInt (- 13))]]])])])]"


end
