(* ===== verification/Shine_Json_Types.thy ===== *)
theory Shine_Json_Types
  imports Shine_Json_Model_Correct
begin

text \<open>
  The typing of the field models: whatever document a structure is decoded from, the result has
  the fields of its type, numbers in the range of their width, sets and maps in the order of
  their keys without duplicates.
\<close>


section \<open>The types of values\<close>

fun fits :: "int_kind \<Rightarrow> int \<Rightarrow> bool" where
  "fits Uint64 i = (0 \<le> i \<and> i < 2 ^ 64)"
| "fits k i = in_kind k i"

function (sequential) has_type :: "ftype \<Rightarrow> jfield \<Rightarrow> bool" where
  "has_type TBool (FBool b) = True"
| "has_type (TInt k) (FInt i) = fits k i"
| "has_type TStr (FStr s) = True"
| "has_type TChar (FChar c) = True"
| "has_type (TSeq t) (FSeq xs) = list_all (has_type t) xs"
| "has_type (TFwd t) (FSeq xs) = list_all (has_type t) xs"
| "has_type (TSet t) (FSeq xs) = (list_all (has_type t) xs \<and> sorted_wrt field_less xs)"
| "has_type (TMap kt vt) (FMap m) =
     (list_all (\<lambda>kv. has_type kt (fst kv)) m \<and> list_all (\<lambda>kv. has_type vt (snd kv)) m
      \<and> sorted_wrt field_less (map fst m))"
| "has_type (TMulti kt vt) (FMulti m) =
     (list_all (\<lambda>kv. has_type kt (fst kv)) m \<and> list_all (\<lambda>kv. has_type vt (snd kv)) m
      \<and> sorted_wrt (\<lambda>a b. \<not> field_less b a) (map fst m))"
| "has_type (TStruct fts) (FStruct fs) =
     (map fst fts = map fst fs \<and> list_all (\<lambda>(ft, f). has_type (snd ft) (snd f)) (zip fts fs))"
| "has_type _ _ = False"
  by pat_completeness auto
termination
  by (relation "measure (\<lambda>(t, v). size t)") (auto dest: size_zip_type)

fun scalar :: "ftype \<Rightarrow> bool" where
  "scalar TBool = True"
| "scalar (TInt k) = True"
| "scalar TChar = True"
| "scalar _ = False"

lemma fresh_typed:
  assumes "\<And>t. scalar t \<Longrightarrow> has_type t (junk t)"
  shows "has_type t (fresh junk t)"
  using assms
proof (induction junk t rule: fresh.induct)
  case (7 junk fts)
  then show ?case by (auto simp: zip_map2 zip_same_conv_map list_all_iff comp_def)
qed simp_all

lemma atoll_range: "- (2 ^ 63) \<le> atoll s \<and> atoll s < 2 ^ 63"
  by (auto simp: atoll_def sat64_def split: list.split)

lemma decode_integer_range: "fits k (decode_integer k s)"
proof -
  have s: "- (2 ^ n) \<le> signed_take_bit n i \<and> signed_take_bit n i < 2 ^ n" for n and i :: int
    by (simp add: signed_take_bit_int_greater_eq_minus_exp signed_take_bit_int_less_exp)
  have u: "0 \<le> take_bit n i \<and> take_bit n i < 2 ^ n" for n and i :: int
    by simp
  show ?thesis
    using s[of 15] s[of 31] u[where n = 16] u[where n = 32] u[where n = 64] atoll_range
    by (cases k) (auto simp: to_int16_def to_uint16_def to_int32_def to_uint32_def to_int64_def
        to_uint64_def atoi_def)
qed


section \<open>Insertion keeps the order\<close>

text \<open>
  \<open>operator<\<close> is a strict weak order, as the containers need: asymmetric, and what is not below is
  transitive. The laws are stated for the six comparisons of three values, so that they pass
  through a lexicographic step, and for one value against all others, wherever in the chain it is.
\<close>

definition weak_laws :: "bool \<Rightarrow> bool \<Rightarrow> bool \<Rightarrow> bool \<Rightarrow> bool \<Rightarrow> bool \<Rightarrow> bool" where
  "weak_laws xy yx yz zy xz zx \<longleftrightarrow>
     (xy \<longrightarrow> \<not> yx) \<and> (xz \<longrightarrow> \<not> zx)
     \<and> (\<not> xy \<and> \<not> yz \<longrightarrow> \<not> xz) \<and> (\<not> xz \<and> \<not> zy \<longrightarrow> \<not> xy)
     \<and> (\<not> yx \<and> \<not> xz \<longrightarrow> \<not> yz) \<and> (\<not> zx \<and> \<not> xy \<longrightarrow> \<not> zy)
     \<and> (\<not> yz \<and> \<not> zx \<longrightarrow> \<not> yx) \<and> (\<not> zy \<and> \<not> yx \<longrightarrow> \<not> zx)"

definition weak_at :: "('a \<Rightarrow> 'a \<Rightarrow> bool) \<Rightarrow> 'a \<Rightarrow> bool" where
  "weak_at r x \<longleftrightarrow> (\<forall>y z. weak_laws (r x y) (r y x) (r y z) (r z y) (r x z) (r z x))"

lemma weak_atD: "weak_at r x \<Longrightarrow> weak_laws (r x y) (r y x) (r y z) (r z y) (r x z) (r z x)"
  by (simp add: weak_at_def)

lemma weak_laws_lex:
  "weak_laws a b c d e f \<Longrightarrow> weak_laws a' b' c' d' e' f' \<Longrightarrow>
   weak_laws (a \<or> (\<not> b \<and> a')) (b \<or> (\<not> a \<and> b')) (c \<or> (\<not> d \<and> c')) (d \<or> (\<not> c \<and> d')) (e \<or> (\<not> f \<and> e')) (f \<or> (\<not> e \<and> f'))"
  unfolding weak_laws_def by argo

lemma pair_less_weak: "weak_at r (fst p) \<Longrightarrow> weak_at s (snd p) \<Longrightarrow> weak_at (pair_less r s) p"
  unfolding weak_at_def pair_less_def by (intro allI weak_laws_lex) blast+

lemma lex_less_Nil [simp]: "lex_less r [] ys \<longleftrightarrow> ys \<noteq> []"
  by (cases ys) auto

lemma lex_less_weak: "(\<And>x. x \<in> set xs \<Longrightarrow> weak_at r x) \<Longrightarrow> weak_at (lex_less r) xs"
proof (induction xs)
  case (Cons x xs)
  have x: "weak_at r x" and xs: "weak_at (lex_less r) xs" using Cons by simp_all
  have laws: "weak_laws (lex_less r (x # xs) ys) (lex_less r ys (x # xs)) (lex_less r ys zs)
      (lex_less r zs ys) (lex_less r (x # xs) zs) (lex_less r zs (x # xs))" for ys zs
  proof (cases ys)
    case y: Nil
    show ?thesis
    proof (cases zs)
      case (Cons z zs')
      show ?thesis
        using weak_atD[OF x, of z z] weak_atD[OF xs, of zs' zs'] by (simp add: y Cons weak_laws_def)
    qed (simp add: y weak_laws_def)
  next
    case y: (Cons y ys')
    show ?thesis
    proof (cases zs)
      case Nil
      show ?thesis
        using weak_atD[OF x, of y y] weak_atD[OF xs, of ys' ys'] by (simp add: y Nil weak_laws_def)
    next
      case (Cons z zs')
      show ?thesis
        unfolding y Cons lex_less.simps by (rule weak_laws_lex) (rule weak_atD[OF x], rule weak_atD[OF xs])
    qed
  qed
  then show ?case by (simp add: weak_at_def)
qed (auto simp: weak_at_def weak_laws_def)

text \<open>Values of one constructor are compared by an order of their own, those of different ones by rank.\<close>

lemma other_rank: "field_rank a \<noteq> field_rank b \<Longrightarrow> field_less a b \<longleftrightarrow> field_rank a < field_rank b"
  by (cases a; cases b) simp_all

lemma weak_at_rank:
  assumes "\<And>y z. field_rank y = field_rank a \<Longrightarrow> field_rank z = field_rank a \<Longrightarrow>
    weak_laws (field_less a y) (field_less y a) (field_less y z) (field_less z y) (field_less a z) (field_less z a)"
  shows "weak_at field_less a"
proof -
  have "weak_laws (field_less a y) (field_less y a) (field_less y z) (field_less z y) (field_less a z) (field_less z a)" for y z
  proof (cases "field_rank y = field_rank a \<and> field_rank z = field_rank a")
    case False
    then consider "field_rank y \<noteq> field_rank a" "field_rank z \<noteq> field_rank a" "field_rank y \<noteq> field_rank z"
      | "field_rank y \<noteq> field_rank a" "field_rank z \<noteq> field_rank a" "field_rank y = field_rank z"
      | "field_rank y = field_rank a" "field_rank z \<noteq> field_rank a" | "field_rank y \<noteq> field_rank a" "field_rank z = field_rank a"
      by blast
    then show ?thesis
    proof cases
      case 1
      then show ?thesis using other_rank[of a y] other_rank[of y a] other_rank[of y z] other_rank[of z y]
          other_rank[of a z] other_rank[of z a] by (auto simp: weak_laws_def)
    next
      case 2
      then show ?thesis using other_rank[of a y] other_rank[of y a]
          other_rank[of a z] other_rank[of z a] by (auto simp: weak_laws_def)
    next
      case 3
      then show ?thesis using assms[of y y] other_rank[of y z] other_rank[of z y]
          other_rank[of a z] other_rank[of z a] by (auto simp: weak_laws_def)
    next
      case 4
      then show ?thesis using assms[of z z] other_rank[of a y] other_rank[of y a] other_rank[of y z] other_rank[of z y]
        by (auto simp: weak_laws_def)
    qed
  qed (use assms in blast)
  then show ?thesis by (simp add: weak_at_def)
qed

lemma weak_at_constr:
  assumes "\<And>y. field_rank y = field_rank (C x) \<Longrightarrow> \<exists>u. y = C u"
    and "\<And>u w. field_less (C u) (C w) \<longleftrightarrow> r u w" and "weak_at r x"
  shows "weak_at field_less (C x)"
proof (rule weak_at_rank)
  fix y z assume "field_rank y = field_rank (C x)" "field_rank z = field_rank (C x)"
  then obtain u w where "y = C u" "z = C w" using assms(1) by blast
  then show "weak_laws (field_less (C x) y) (field_less y (C x)) (field_less y z) (field_less z y)
      (field_less (C x) z) (field_less z (C x))"
    by (simp only: assms(2) weak_atD[OF assms(3)])
qed

lemma rank_cases:
  "field_rank y = 0 \<Longrightarrow> \<exists>b. y = FBool b" "field_rank y = 1 \<Longrightarrow> \<exists>i. y = FInt i"
  "field_rank y = 2 \<Longrightarrow> \<exists>s. y = FStr s" "field_rank y = 3 \<Longrightarrow> \<exists>c. y = FChar c"
  "field_rank y = 4 \<Longrightarrow> \<exists>xs. y = FSeq xs" "field_rank y = 5 \<Longrightarrow> \<exists>m. y = FMap m"
  "field_rank y = 6 \<Longrightarrow> \<exists>m. y = FMulti m" "field_rank y = 7 \<Longrightarrow> \<exists>fs. y = FStruct fs"
  by (cases y; simp)+

lemma field_less_weak: "weak_at field_less a"
proof (induction a)
  case (FSeq xs)
  then have l: "weak_at (lex_less field_less) xs"
    by (intro lex_less_weak) (force simp: fsts.simps snds.simps)+
  show ?case by (rule weak_at_constr[OF _ _ l, of FSeq]) (use rank_cases in auto)
next
  case (FMap m)
  then have l: "weak_at (lex_less (pair_less field_less field_less)) m"
    by (intro lex_less_weak pair_less_weak) (force simp: fsts.simps snds.simps)+
  show ?case by (rule weak_at_constr[OF _ _ l, of FMap]) (use rank_cases in auto)
next
  case (FMulti m)
  then have l: "weak_at (lex_less (pair_less field_less field_less)) m"
    by (intro lex_less_weak pair_less_weak) (force simp: fsts.simps snds.simps)+
  show ?case by (rule weak_at_constr[OF _ _ l, of FMulti]) (use rank_cases in auto)
next
  case (FBool b)
  have l: "weak_at (\<lambda>a b. \<not> a \<and> b) b" by (auto simp: weak_at_def weak_laws_def)
  show ?case by (rule weak_at_constr[OF _ _ l, of FBool]) (use rank_cases in auto)
next
  case (FInt b)
  have l: "weak_at ((<)) b" by (auto simp: weak_at_def weak_laws_def)
  show ?case by (rule weak_at_constr[OF _ _ l, of FInt]) (use rank_cases in auto)
next
  case (FStr b)
  have l: "weak_at ((<)) b" by (auto simp: weak_at_def weak_laws_def)
  show ?case by (rule weak_at_constr[OF _ _ l, of FStr]) (use rank_cases in auto)
next
  case (FChar b)
  have l: "weak_at (\<lambda>a b. sint (byte a) < sint (byte b)) b" by (auto simp: weak_at_def weak_laws_def)
  show ?case by (rule weak_at_constr[OF _ _ l, of FChar]) (use rank_cases in auto)
next
  case (FStruct b)
  have l: "weak_at (\<lambda>_ _. False) b" by (auto simp: weak_at_def weak_laws_def)
  show ?case by (rule weak_at_constr[OF _ _ l, of FStruct]) (use rank_cases in auto)
qed

lemma field_less_trans: "field_less a b \<Longrightarrow> field_less b c \<Longrightarrow> field_less a c"
  using weak_atD[OF field_less_weak, of a b c] by (auto simp: weak_laws_def)

lemma field_less_irrefl [simp]: "\<not> field_less a a"
  using weak_atD[OF field_less_weak, of a a a] by (auto simp: weak_laws_def)

lemma set_emplace_set: "set (set_emplace k xs) \<subseteq> insert k (set xs)"
  by (induction xs) auto

text \<open>Putting an element in front of a sorted tail, or keeping the head above what is inserted.\<close>

lemma sorted_front: "field_less k x \<Longrightarrow> sorted_wrt field_less (x # xs) \<Longrightarrow> sorted_wrt field_less (k # x # xs)"
  using field_less_trans by (auto 0 3)

lemma sorted_behind:
  "field_less x k \<Longrightarrow> sorted_wrt field_less (x # xs) \<Longrightarrow> set ys \<subseteq> insert k (set xs) \<Longrightarrow>
   sorted_wrt field_less ys \<Longrightarrow> sorted_wrt field_less (x # ys)"
  by auto

lemma set_emplace_sorted:
  "sorted_wrt field_less xs \<Longrightarrow> sorted_wrt field_less (set_emplace k xs)"
proof (induction xs)
  case (Cons x xs)
  then show ?case
    using sorted_front[of k x xs] sorted_behind[of x k xs "set_emplace k xs"] set_emplace_set[of k xs]
    by simp
qed simp

lemma map_emplace_set: "set (map_emplace k v m) \<subseteq> insert (k, v) (set m)"
  by (induction m) auto

lemma map_emplace_keys: "set (map fst (map_emplace k v m)) \<subseteq> insert k (set (map fst m))"
  using map_emplace_set[of k v m] by force

lemma map_emplace_sorted:
  "sorted_wrt field_less (map fst m) \<Longrightarrow> sorted_wrt field_less (map fst (map_emplace k v m))"
proof (induction m)
  case (Cons p m)
  then show ?case
    using sorted_front[of k "fst p" "map fst m"] map_emplace_keys[of k v m]
      sorted_behind[of "fst p" k "map fst m" "map fst (map_emplace k v m)"]
    by simp
qed simp

lemma multi_emplace_set: "set (multi_emplace k v m) = insert (k, v) (set m)"
  by (induction m) auto

lemma multi_emplace_keys: "fst ` set (multi_emplace k v m) = insert k (fst ` set m)"
  by (simp add: multi_emplace_set)

lemma multi_emplace_sorted:
  "sorted_wrt (\<lambda>a b. \<not> field_less b a) (map fst m) \<Longrightarrow>
   sorted_wrt (\<lambda>a b. \<not> field_less b a) (map fst (multi_emplace k v m))"
proof (induction m)
  case (Cons p m)
  show ?case
  proof (cases "field_less k (fst p)")
    case True
    have "\<not> field_less x k" if "x \<in> fst ` set (p # m)" for x
      using that Cons.prems True field_less_trans[of x k "fst p"] field_less_trans[of k "fst p" k] by auto
    with Cons.prems True show ?thesis by auto
  next
    case False
    with Cons show ?thesis by (simp add: multi_emplace_keys)
  qed
qed simp


section \<open>Decoding\<close>

text \<open>A structure type has each field once, in all the types it is made of.\<close>

fun struct_ok :: "ftype \<Rightarrow> bool" where
  "struct_ok (TSeq t) = struct_ok t"
| "struct_ok (TFwd t) = struct_ok t"
| "struct_ok (TSet t) = struct_ok t"
| "struct_ok (TMap kt vt) = (struct_ok kt \<and> struct_ok vt)"
| "struct_ok (TMulti kt vt) = (struct_ok kt \<and> struct_ok vt)"
| "struct_ok (TStruct fts) = (distinct (map fst fts) \<and> list_all (\<lambda>ft. struct_ok (snd ft)) fts)"
| "struct_ok _ = True"

lemma otraverse_list_all2: "otraverse f xs = Done ys \<Longrightarrow> list_all2 (\<lambda>x y. f x = Done y) xs ys"
  by (induction xs arbitrary: ys) auto

lemma otraverse_all:
  assumes "otraverse f xs = Done ys" and "\<And>x y. x \<in> set xs \<Longrightarrow> f x = Done y \<Longrightarrow> P y"
  shows "list_all P ys"
  using assms
proof (induction xs arbitrary: ys)
  case (Cons a xs)
  obtain y ys' where y: "f a = Done y" "otraverse f xs = Done ys'" "ys = y # ys'"
    using Cons.prems(1) by auto
  have "list_all P ys'" by (rule Cons.IH[OF y(2)]) (use Cons.prems(2) in auto)
  with Cons.prems(2)[of a y] y show ?case by simp
qed simp

lemma fold_set_emplace:
  "list_all P vs \<Longrightarrow> list_all P acc \<Longrightarrow> sorted_wrt field_less acc \<Longrightarrow>
   list_all P (fold set_emplace vs acc) \<and> sorted_wrt field_less (fold set_emplace vs acc)"
proof (induction vs arbitrary: acc)
  case (Cons v vs)
  then have "list_all P (set_emplace v acc)" using set_emplace_set[of v acc] by (auto simp: list_all_iff)
  with Cons show ?case by (simp add: set_emplace_sorted)
qed simp

lemma fold_map_emplace:
  "list_all P kvs \<Longrightarrow> list_all P acc \<Longrightarrow> sorted_wrt field_less (map fst acc) \<Longrightarrow>
   list_all P (fold (\<lambda>kv. map_emplace (fst kv) (snd kv)) kvs acc)
   \<and> sorted_wrt field_less (map fst (fold (\<lambda>kv. map_emplace (fst kv) (snd kv)) kvs acc))"
proof (induction kvs arbitrary: acc)
  case (Cons kv kvs)
  then have "list_all P (map_emplace (fst kv) (snd kv) acc)"
    using map_emplace_set[of "fst kv" "snd kv" acc] by (auto simp: list_all_iff)
  with Cons show ?case by (simp add: map_emplace_sorted)
qed simp

lemma fold_multi_emplace:
  "list_all P kvs \<Longrightarrow> list_all P acc \<Longrightarrow> sorted_wrt (\<lambda>a b. \<not> field_less b a) (map fst acc) \<Longrightarrow>
   list_all P (fold (\<lambda>kv. multi_emplace (fst kv) (snd kv)) kvs acc)
   \<and> sorted_wrt (\<lambda>a b. \<not> field_less b a) (map fst (fold (\<lambda>kv. multi_emplace (fst kv) (snd kv)) kvs acc))"
proof (induction kvs arbitrary: acc)
  case (Cons kv kvs)
  then have "list_all P (multi_emplace (fst kv) (snd kv) acc)"
    by (auto simp: list_all_iff multi_emplace_set)
  with Cons show ?case by (simp add: multi_emplace_sorted)
qed simp

lemma old_field_typed:
  assumes "has_type (TStruct fts) old" and "distinct (map fst fts)" and "(nm, t) \<in> set fts"
    and "has_type t d"
  shows "has_type t (old_field old nm d)"
proof -
  obtain fs where fs: "old = FStruct fs" "map fst fts = map fst fs"
    "list_all (\<lambda>(ft, f). has_type (snd ft) (snd f)) (zip fts fs)"
    using assms(1) by (cases old) auto
  show ?thesis
  proof (cases "map_of fs nm")
    case (Some v)
    then obtain i where i: "i < length fs" "fs ! i = (nm, v)"
      using map_of_SomeD in_set_conv_nth by metis
    have len: "length fts = length fs" using fs(2) map_eq_imp_length_eq by blast
    obtain j where j: "j < length fts" "fts ! j = (nm, t)" using assms(3) in_set_conv_nth by metis
    have "map fst fts ! i = map fst fts ! j" using i j len fs(2) by (metis fst_conv nth_map)
    then have "i = j" using assms(2) i(1) j(1) len by (metis length_map nth_eq_iff_index_eq)
    then have "has_type t v"
      using fs(3) i j len by (auto simp: list_all_length)
    with Some show ?thesis by (simp add: fs(1))
  qed (simp add: fs(1) assms(4))
qed

abbreviation pair_typed :: "ftype \<Rightarrow> ftype \<Rightarrow> jfield \<times> jfield \<Rightarrow> bool" where
  "pair_typed kt vt kv \<equiv> has_type kt (fst kv) \<and> has_type vt (snd kv)"

lemma pair_typed_split:
  "list_all (pair_typed kt vt) m \<longleftrightarrow>
   list_all (\<lambda>kv. has_type kt (fst kv)) m \<and> list_all (\<lambda>kv. has_type vt (snd kv)) m"
  by (induction m) auto

lemma decode_field_typed:
  assumes "\<And>t. scalar t \<Longrightarrow> has_type t (junk t)"
  shows "decode_field junk t old n = Done v \<Longrightarrow> struct_ok t \<Longrightarrow> has_type t old \<Longrightarrow> has_type t v"
  using assms
proof (induction junk t old n arbitrary: v rule: decode_field.induct)
  case (2 junk k old n)
  then show ?case using decode_integer_range by auto
next
  case (5 junk t old n)
  then obtain vs where vs: "otraverse (\<lambda>c. decode_field junk t (fresh junk t) c) (array_list n) = Done vs"
    "v = FSeq vs" by auto
  have "list_all (has_type t) vs"
    by (rule otraverse_all[OF vs(1)]) (use 5 fresh_typed[of junk t] in auto)
  then show ?case using vs(2) by simp
next
  case (6 junk t old n)
  then obtain vs where vs: "otraverse (\<lambda>c. decode_field junk t (fresh junk t) c) (array_list n) = Done vs"
    "v = FSeq (rev vs)" by auto
  have "list_all (has_type t) vs"
    by (rule otraverse_all[OF vs(1)]) (use 6 fresh_typed[of junk t] in auto)
  then show ?case using vs(2) by (simp add: list_all_rev)
next
  case (7 junk t old n)
  then obtain vs where vs: "otraverse (\<lambda>c. decode_field junk t (fresh junk t) c) (array_list n) = Done vs"
    "v = FSeq (fold set_emplace vs [])" by auto
  have "list_all (has_type t) vs"
    by (rule otraverse_all[OF vs(1)]) (use 7 fresh_typed[of junk t] in auto)
  then show ?case using fold_set_emplace[of "has_type t" vs "[]"] vs(2) by simp
next
  case (8 junk kt vt old n)
  then obtain m where m: "otraverse (\<lambda>kv. obind (decode_field junk kt (fresh junk kt) (key_node (fst kv))) (\<lambda>k.
              obind (decode_field junk vt (fresh junk vt) (snd kv)) (\<lambda>v. Done (k, v)))) (kv_list n) = Done m"
    "v = FMap (fold (\<lambda>kv. map_emplace (fst kv) (snd kv)) m [])" by auto
  have "list_all (pair_typed kt vt) m"
    by (rule otraverse_all[OF m(1)]) (use 8 fresh_typed[of junk kt] fresh_typed[of junk vt] in auto)
  then show ?case using fold_map_emplace[of "pair_typed kt vt" m "[]"] m(2) by (simp add: pair_typed_split)
next
  case (9 junk kt vt old n)
  then obtain m where m: "otraverse (\<lambda>kv. obind (decode_field junk kt (fresh junk kt) (key_node (fst kv))) (\<lambda>k.
              obind (decode_field junk vt (fresh junk vt) (snd kv)) (\<lambda>v. Done (k, v))))
              (concat (map kv_list (array_list n))) = Done m"
    "v = FMulti (fold (\<lambda>kv. multi_emplace (fst kv) (snd kv)) m [])" by auto
  have "list_all (pair_typed kt vt) m"
    by (rule otraverse_all[OF m(1)]) (use 9 fresh_typed[of junk kt] fresh_typed[of junk vt] in \<open>auto simp del: set_concat\<close>)
  then show ?case using fold_multi_emplace[of "pair_typed kt vt" m "[]"] m(2) by (simp add: pair_typed_split)
next
  case (10 junk fts old n)
  let ?f = "\<lambda>ft. let o' = old_field old (fst ft) (fresh junk (snd ft)) in
              case find_kv_child (fst ft) n of
                None \<Rightarrow> Done (fst ft, o')
              | Some node2 \<Rightarrow> obind (decode_field junk (snd ft) o' node2) (\<lambda>v. Done (fst ft, v))"
  obtain fs where fs: "otraverse ?f fts = Done fs" "v = FStruct fs" using 10(2) by auto
  have field: "fst f = fst ft \<and> has_type (snd ft) (snd f)" if "ft \<in> set fts" "?f ft = Done f" for ft f
  proof -
    have old: "has_type (snd ft) (old_field old (fst ft) (fresh junk (snd ft)))"
      using 10(3-5) that(1) by (intro old_field_typed[of fts]) (auto intro: fresh_typed)
    have "struct_ok (snd ft)" using 10(3) that(1) by (auto simp: list_all_iff)
    with old that 10(1)[OF that(1) refl] 10(5) show ?thesis
      by (auto simp: Let_def split: option.splits)
  qed
  have rel: "list_all2 (\<lambda>ft f. fst f = fst ft \<and> has_type (snd ft) (snd f)) fts fs"
    using otraverse_list_all2[OF fs(1)] by (rule list.rel_mono_strong) (use field in blast)
  then have "map fst fts = map fst fs"
    by (auto simp: list_all2_conv_all_nth intro: nth_equalityI)
  with rel show ?case unfolding fs(2)
    by (auto simp: list_all2_iff list_all_iff)
qed auto

text \<open>A member that the document does not have is the old one.\<close>

lemma otraverse_kept:
  assumes "otraverse f xs = Done ys" and "\<And>x y. x \<in> set xs \<Longrightarrow> f x = Done y \<Longrightarrow> fst y = fst x"
    and "x \<in> set xs" and "distinct (map fst xs)" and "f x = Done y"
  shows "map_of ys (fst x) = Some (snd y)"
  using assms
proof (induction xs arbitrary: ys)
  case (Cons a xs)
  obtain z zs where z: "f a = Done z" "otraverse f xs = Done zs" "ys = z # zs"
    using Cons.prems(1) by auto
  have e: "fst z = fst a" using Cons.prems(2) z(1) by simp
  show ?case
  proof (cases "x = a")
    case False
    then have i: "x \<in> set xs" using Cons.prems(3) by simp
    moreover have "fst x \<in> set (map fst xs)" using i by simp
    ultimately have x: "x \<in> set xs" "fst x \<noteq> fst a" using Cons.prems(4) by (simp, metis distinct.simps(2) list.simps(9))
    have "map_of zs (fst x) = Some (snd y)"
      by (rule Cons.IH[OF z(2)]) (use Cons.prems x in auto)
    then show ?thesis using x z e by (cases z) auto
  qed (use z e Cons.prems(5) in \<open>cases z; auto\<close>)
qed simp

lemma decode_struct_keeps:
  assumes "decode_field junk (TStruct fts) (FStruct os) n = Done v" and "distinct (map fst fts)"
    and "map fst os = map fst fts"
  shows "\<exists>fs. v = FStruct fs \<and> (\<forall>nm. find_kv_child nm n = None \<longrightarrow> map_of fs nm = map_of os nm)"
proof -
  let ?f = "\<lambda>ft. let o' = old_field (FStruct os) (fst ft) (fresh junk (snd ft)) in
              case find_kv_child (fst ft) n of
                None \<Rightarrow> Done (fst ft, o')
              | Some node2 \<Rightarrow> obind (decode_field junk (snd ft) o' node2) (\<lambda>v. Done (fst ft, v))"
  obtain fs where fs: "otraverse ?f fts = Done fs" "v = FStruct fs" using assms(1) by auto
  have nm: "fst y = fst x" if "?f x = Done y" for x y
    using that by (auto simp: Let_def split: option.splits)
  have names: "map fst fs = map fst fts"
    using otraverse_list_all2[OF fs(1)] nm by (induction rule: list_all2_induct) auto
  have "map_of fs k = map_of os k" if "find_kv_child k n = None" for k
  proof (cases "k \<in> fst ` set fts")
    case True
    then obtain t where t: "(k, t) \<in> set fts" by force
    have "?f (k, t) = Done (k, old_field (FStruct os) k (fresh junk t))" using that by simp
    then have "map_of fs k = Some (old_field (FStruct os) k (fresh junk t))"
      using otraverse_kept[OF fs(1) nm t assms(2)] by simp
    moreover have "k \<in> fst ` set os" using True assms(3) by (metis list.set_map)
    then have "map_of os k \<noteq> None" by (simp add: map_of_eq_None_iff)
    ultimately show ?thesis by auto
  next
    case False
    then have "k \<notin> fst ` set fs" "k \<notin> fst ` set os" using names assms(3) by (metis list.set_map)+
    then show ?thesis by (simp add: map_of_eq_None_iff[THEN iffD2])
  qed
  then show ?thesis using fs(2) by blast
qed

text \<open>
  C11: Decoding is type safe. Decoded from any text at all into an object of the type, whatever
  the scalars hold that C++ leaves uninitialised (\<open>junk\<close>, of their type), a structure whose fields
  have different names, in it and in all the types it is made of, has the fields of its type, each
  a value of the type of the field: integers in the range of their width, sets and maps sorted by
  \<open>operator<\<close> (lexicographic for containers) without duplicates, multimaps sorted. Members of the
  structure that the document does not have keep the value they had.
\<close>

theorem model_decode_typed:
  assumes "\<And>t. scalar t \<Longrightarrow> has_type t (junk t)" and "struct_ok t" and "has_type t old"
    and "model_decode junk t old str = Done v"
  shows "has_type t v
    \<and> (\<forall>fts. t = TStruct fts \<longrightarrow> (\<exists>os fs node. old = FStruct os \<and> v = FStruct fs \<and> json_parse str = Done node
         \<and> (\<forall>nm. find_kv_child nm node = None \<longrightarrow> map_of fs nm = map_of os nm)))"
proof -
  obtain node where n: "json_parse str = Done node" "decode_field junk t old node = Done v"
    using assms(4) by (auto simp: model_decode_def)
  have "\<exists>os fs node. old = FStruct os \<and> v = FStruct fs \<and> json_parse str = Done node
         \<and> (\<forall>nm. find_kv_child nm node = None \<longrightarrow> map_of fs nm = map_of os nm)" if t: "t = TStruct fts" for fts
  proof -
    obtain os where os: "old = FStruct os" "map fst os = map fst fts" using assms(3) t by (cases old) auto
    have "decode_field junk (TStruct fts) (FStruct os) node = Done v" using n(2) os(1) t by (simp only:)
    moreover have "distinct (map fst fts)" using assms(2) t by simp
    ultimately show ?thesis using decode_struct_keeps[of junk fts os node v] n(1) os by blast
  qed
  then show ?thesis using decode_field_typed[of junk t old node v] n(2) assms(1-3) by blast
qed

definition ex_junk :: "ftype \<Rightarrow> jfield" where
  "ex_junk t = (case t of TBool \<Rightarrow> FBool True | TInt k \<Rightarrow> FInt 7 | _ \<Rightarrow> FChar CHR ''?'')"

definition ex_type :: ftype where
  "ex_type = TStruct [(''n'', TInt Int16), (''m'', TBool), (''s'', TSet TStr)]"

definition ex_doc :: jv where
  "ex_doc = JObj [(''n'', JNum ''70000''), (''s'', JArr [JStr ''b'', JStr ''a'', JStr ''b''])]"

lemma ex_junk_typed: "scalar t \<Longrightarrow> has_type t (ex_junk t)"
proof (cases t rule: scalar.cases)
  case (2 k)
  then show ?thesis by (cases k) (simp_all add: ex_junk_def)
qed (simp_all add: ex_junk_def)

lemma ex_decoded:
  "model_decode ex_junk ex_type (fresh ex_junk ex_type) (json_body ex_doc)
   = Done (FStruct [(''n'', FInt 4464), (''m'', FBool True), (''s'', FSeq [FStr ''a'', FStr ''b''])])"
proof -
  have "good False ex_doc"
    by (simp add: ex_doc_def plain_def escape_char_def number_text_def number_char_def number_ok_def
        is_digit_def)
  then have "json_parse (json_body ex_doc) = Done (to_node [] ex_doc)"
    using body_json_parse[OF good_parsable, of ex_doc "[]"] by (simp add: ex_doc_def)
  moreover have "to_int16 ''70000'' = 4464"
    by (simp add: to_int16_def atoi_def atoll_def c_str_def is_space_def sat64_def is_digit_def)
  ultimately show ?thesis
    by (simp add: model_decode_def ex_doc_def ex_type_def ex_junk_def find_kv_child_def kv_build_def
        array_list_def)
qed

theorem model_decode_typed_witness:
  "\<exists>fs. model_decode ex_junk ex_type (fresh ex_junk ex_type) (json_body ex_doc) = Done (FStruct fs)
     \<and> has_type ex_type (FStruct fs) \<and> map_of fs ''n'' = Some (FInt 4464)
     \<and> map_of fs ''s'' = Some (FSeq [FStr ''a'', FStr ''b''])"
proof -
  have "has_type ex_type (fresh ex_junk ex_type)" by (rule fresh_typed) (rule ex_junk_typed)
  moreover have "struct_ok ex_type" by (simp add: ex_type_def)
  ultimately show ?thesis
    using model_decode_typed[of ex_junk ex_type, OF ex_junk_typed _ _ ex_decoded] ex_decoded by simp
qed

end
