(* ===== verification/Shine_Serial.thy ===== *)
theory Shine_Serial
  imports Prelude
begin

text \<open>
  The binary serialisation of \<^verbatim>\<open>Include/shine_serial/shine_serial.hpp\<close>: variable-length
  sizes (seven bits a byte), variable-length signed integers (six bits a byte, sign in bit
  six of the first byte), and the field overloads for bytes, floats, arrays, forward lists,
  sets, maps and structs. C++ overload resolution is modelled by a universe of field types
  and values; the encoder threads the output string \<open>ret\<close> as the code does, the decoder
  the position \<open>cost_len\<close>.
\<close>


section \<open>Sizes\<close>

text \<open>
  \<open>shine_serial_encode_size\<close>: the loop over \<open>len\<close>, appending to \<open>ret\<close> or inserting at
  \<open>pos\<close>. An insertion past the end throws.
\<close>

definition insert_at :: "nat \<Rightarrow> bytes \<Rightarrow> bytes \<Rightarrow> bytes outcome" where
  "insert_at pos s ret =
     (if length ret < pos then Throws Out_of_range
      else Done (take pos ret @ s @ drop pos ret))"

definition size_chunk :: "u64 \<Rightarrow> u8" where
  "size_chunk len =
     (let ch = ucast (len AND 0x7F) in if drop_bit 7 len \<noteq> 0 then ch OR 0x80 else ch)"

function shine_serial_encode_size :: "u64 \<Rightarrow> bytes \<Rightarrow> bool \<Rightarrow> nat \<Rightarrow> bytes outcome" where
  "shine_serial_encode_size len ret back pos =
     obind (if back then Done (ret @ [size_chunk len]) else insert_at pos [size_chunk len] ret)
       (\<lambda>ret'. if drop_bit 7 len = 0 then Done ret'
               else shine_serial_encode_size (drop_bit 7 len) ret' back
                      (if back then pos else Suc pos))"
  by pat_completeness auto
termination
  by (relation "measure (\<lambda>(len, _). unat len)") (auto intro: unat_drop_bit_less)

declare shine_serial_encode_size.simps [simp del]

text \<open>
  \<open>shine_serial_decode_size\<close>: byte \<open>i\<close> contributes seven bits at \<open>7 * i\<close>. Shifting a
  64-bit value by 64 or more is undefined; reading past the buffer is, too.
\<close>

function decode_size_loop :: "bytes \<Rightarrow> nat \<Rightarrow> nat \<Rightarrow> u64 \<Rightarrow> (u64 \<times> nat) outcome" where
  "decode_size_loop data cost_len i val =
     (if 64 \<le> 7 * i \<or> length data \<le> cost_len + i then Undef
      else
        let p = data ! (cost_len + i);
            val' = val OR push_bit (7 * i) (ucast (p AND 0x7F))
        in if p AND 0x80 \<noteq> 0
           then (if length data - cost_len \<le> Suc i then Reject
                 else decode_size_loop data cost_len (Suc i) val')
           else Done (val', cost_len + Suc i))"
  by pat_completeness auto
termination
  by (relation "measure (\<lambda>(_, _, i, _). 10 - i)") auto

declare decode_size_loop.simps [simp del]

definition shine_serial_decode_size :: "bytes \<Rightarrow> nat \<Rightarrow> (u64 \<times> nat) outcome" where
  "shine_serial_decode_size data cost_len =
     (if length data < cost_len + 1 then Reject else decode_size_loop data cost_len 0 0)"


section \<open>Integers\<close>

text \<open>
  A value of an integer type is its mathematical value with the type's signedness and
  width. \<open>conv s w\<close> converts a 64-bit pattern to that type, \<open>word_of_int\<close> the value to
  \<open>size_t\<close>. Negating the least value of \<open>int\<close> and the wider types overflows; \<open>short\<close>
  is promoted to \<open>int\<close> first and does not.
\<close>

definition conv :: "bool \<Rightarrow> nat \<Rightarrow> u64 \<Rightarrow> int" where
  "conv s w x = (if s then signed_take_bit (w - 1) (uint x) else take_bit w (uint x))"

definition neg_overflows :: "bool \<Rightarrow> nat \<Rightarrow> int \<Rightarrow> bool" where
  "neg_overflows s w v \<longleftrightarrow> s \<and> 32 \<le> w \<and> v = - (2 ^ (w - 1))"

definition int_chunk :: "u64 \<Rightarrow> u8" where
  "int_chunk v =
     (let ch = ucast (v AND 0x3F) in if drop_bit 6 v \<noteq> 0 then ch OR 0x80 else ch)"

function int_chunks :: "u64 \<Rightarrow> bytes" where
  "int_chunks v =
     int_chunk v # (if drop_bit 6 v \<noteq> 0 then int_chunks (drop_bit 6 v) else [])"
  by pat_completeness auto
termination
  by (relation "measure unat") (auto intro: unat_drop_bit_less)

declare int_chunks.simps [simp del]

definition shine_serial_encode_integer :: "bool \<Rightarrow> nat \<Rightarrow> int \<Rightarrow> bytes \<Rightarrow> bytes outcome" where
  "shine_serial_encode_integer s w val ret =
     (let flag = val < 0 in
      if flag \<and> neg_overflows s w val then Undef
      else
        let value = (word_of_int (if flag then - val else val) :: u64);
            size = length ret;
            ret' = ret @ int_chunks value
        in Done (if flag then ret'[size := ret' ! size OR 0x40] else ret'))"

function decode_int_loop ::
    "bool \<Rightarrow> nat \<Rightarrow> bytes \<Rightarrow> nat \<Rightarrow> nat \<Rightarrow> int \<Rightarrow> (int \<times> nat) outcome" where
  "decode_int_loop s w data cost_len i val =
     (if 64 \<le> i * 6 \<or> length data \<le> cost_len + i then Undef
      else
        let p = data ! (cost_len + i);
            val' = conv s w (word_of_int val OR push_bit (i * 6) (ucast (p AND 0x3F)))
        in if p AND 0x80 \<noteq> 0
           then (if length data - cost_len \<le> Suc i then Reject
                 else decode_int_loop s w data cost_len (Suc i) val')
           else Done (val', cost_len + Suc i))"
  by pat_completeness auto
termination
  by (relation "measure (\<lambda>(_, _, _, _, i, _). 11 - i)") auto

declare decode_int_loop.simps [simp del]

definition shine_serial_decode_integer ::
    "bool \<Rightarrow> nat \<Rightarrow> bytes \<Rightarrow> nat \<Rightarrow> (int \<times> nat) outcome" where
  "shine_serial_decode_integer s w data cost_len =
     (if length data - cost_len < 1 then Reject
      else
        let flag = data ! cost_len AND 0x40 \<noteq> 0
        in obind (decode_int_loop s w data cost_len 0 0)
             (\<lambda>(val, c).
                if flag
                then (if neg_overflows s w val then Undef
                      else Done (conv s w (word_of_int (- val)), c))
                else Done (val, c)))"


section \<open>The universe of serialisable types and values\<close>

text \<open>
  \<open>TInt s w\<close> is the integer type of width \<open>w\<close>, signed when \<open>s\<close>; \<open>TFloat n\<close> a floating
  type of \<open>n\<close> bytes, its values kept as object representations; \<open>TArray\<close> stands for
  \<open>vector\<close>, \<open>deque\<close> and \<open>list\<close>, \<open>TForward\<close> for \<open>forward_list\<close>, \<open>TSet\<close> and
  \<open>TMap\<close> for the ordered \<open>set\<close> and \<open>map\<close>, whose values list the elements in iteration
  order. \<open>VUninit\<close> is the indeterminate value of a scalar that no one has written.
\<close>

datatype sty =
    TBool | TByte | TInt bool nat | TBytes | TFloat nat
  | TArray sty | TForward sty | TSet sty | TMap sty sty | TStruct "sty list"

datatype sval =
    VUninit | VBool bool | VByte u8 | VInt bool nat int | VBytes bytes | VFloat bytes
  | VArray "sval list" | VForward "sval list" | VSet "sval list"
  | VMap "(sval \<times> sval) list" | VStruct "sval list"

text \<open>
  \<open>sfresh t\<close> is a default-initialised local \<open>T v;\<close>, \<open>sinit t\<close> a value-initialised
  element that \<open>resize\<close> adds (a struct's constructor \<open>TYPE(){}\<close> leaves its scalars alone
  in both cases).
\<close>

fun sfresh :: "sty \<Rightarrow> sval" where
  "sfresh TBool = VUninit"
| "sfresh TByte = VUninit"
| "sfresh (TInt s w) = VUninit"
| "sfresh TBytes = VBytes []"
| "sfresh (TFloat n) = VUninit"
| "sfresh (TArray t) = VArray []"
| "sfresh (TForward t) = VForward []"
| "sfresh (TSet t) = VSet []"
| "sfresh (TMap k v) = VMap []"
| "sfresh (TStruct ts) = VStruct (map sfresh ts)"

fun sinit :: "sty \<Rightarrow> sval" where
  "sinit TBool = VBool False"
| "sinit TByte = VByte 0"
| "sinit (TInt s w) = VInt s w 0"
| "sinit (TFloat n) = VFloat (replicate n 0)"
| "sinit t = sfresh t"

text \<open>The order of an ordered container's keys: numbers, and strings as unsigned bytes.\<close>

fun bytes_less :: "bytes \<Rightarrow> bytes \<Rightarrow> bool" where
  "bytes_less [] ys = (ys \<noteq> [])"
| "bytes_less (x # xs) [] = False"
| "bytes_less (x # xs) (y # ys) = (x < y \<or> x = y \<and> bytes_less xs ys)"

fun key_less :: "sval \<Rightarrow> sval \<Rightarrow> bool" where
  "key_less (VBool a) (VBool b) = (\<not> a \<and> b)"
| "key_less (VInt s w a) (VInt s' w' b) = (a < b)"
| "key_less (VBytes a) (VBytes b) = bytes_less a b"
| "key_less _ _ = False"

text \<open>\<open>emplace\<close> of an ordered container: an equivalent element already there wins.\<close>

fun emplace_by :: "('a \<Rightarrow> sval) \<Rightarrow> 'a \<Rightarrow> 'a list \<Rightarrow> 'a list" where
  "emplace_by key x [] = [x]"
| "emplace_by key x (y # ys) =
     (if key_less (key x) (key y) then x # y # ys
      else if key_less (key y) (key x) then y # emplace_by key x ys
      else y # ys)"


section \<open>Encoding of fields\<close>

text \<open>Encoding a container's elements one after the other onto \<open>ret\<close>.\<close>

fun encode_all :: "('a \<Rightarrow> bytes \<Rightarrow> bytes outcome) \<Rightarrow> 'a list \<Rightarrow> bytes \<Rightarrow> bytes outcome" where
  "encode_all enc [] ret = Done ret"
| "encode_all enc (x # xs) ret = obind (enc x ret) (encode_all enc xs)"

lemma encode_all_cong [fundef_cong]:
  assumes "xs = ys" "ret = ret'" "\<And>x r. x \<in> set ys \<Longrightarrow> f x r = g x r"
  shows "encode_all f xs ret = encode_all g ys ret'"
proof -
  have "encode_all f ys ret' = encode_all g ys ret'"
    using assms(3) by (induction ys arbitrary: ret') (auto intro: obind_cong)
  with assms show ?thesis by simp
qed

definition encode_count :: "nat \<Rightarrow> bytes \<Rightarrow> bytes outcome" where
  "encode_count n ret = shine_serial_encode_size (of_nat n) ret True 0"

definition encode_bytes_field :: "bytes \<Rightarrow> bytes \<Rightarrow> bytes outcome" where
  "encode_bytes_field val ret = obind (encode_count (length val) ret) (\<lambda>r. Done (r @ val))"

definition encode_float_field :: "bytes \<Rightarrow> bytes \<Rightarrow> bytes outcome" where
  "encode_float_field val ret = Done (ret @ val)"

definition encode_array_field ::
    "('a \<Rightarrow> bytes \<Rightarrow> bytes outcome) \<Rightarrow> 'a list \<Rightarrow> bytes \<Rightarrow> bytes outcome" where
  "encode_array_field enc val ret = obind (encode_count (length val) ret) (encode_all enc val)"

text \<open>
  \<open>forward_list\<close>: every element is encoded on its own and inserted at \<open>begin\<close>, which
  reverses the order; the count is then inserted before them.
\<close>

fun insert_all ::
    "('a \<Rightarrow> bytes \<Rightarrow> bytes outcome) \<Rightarrow> nat \<Rightarrow> 'a list \<Rightarrow> bytes \<Rightarrow> bytes outcome" where
  "insert_all enc pos [] ret = Done ret"
| "insert_all enc pos (x # xs) ret =
     obind (enc x []) (\<lambda>tmp. obind (insert_at pos tmp ret) (insert_all enc pos xs))"

lemma insert_all_cong [fundef_cong]:
  assumes "pos = pos'" "xs = ys" "ret = ret'" "\<And>x r. x \<in> set ys \<Longrightarrow> f x r = g x r"
  shows "insert_all f pos xs ret = insert_all g pos' ys ret'"
proof -
  have "insert_all f pos' ys ret' = insert_all g pos' ys ret'"
    using assms(4) by (induction ys arbitrary: ret') (auto intro: obind_cong)
  with assms show ?thesis by simp
qed

definition encode_forward_field ::
    "('a \<Rightarrow> bytes \<Rightarrow> bytes outcome) \<Rightarrow> 'a list \<Rightarrow> bytes \<Rightarrow> bytes outcome" where
  "encode_forward_field enc val ret =
     obind (insert_all enc (length ret) val ret)
       (\<lambda>r. shine_serial_encode_size (of_nat (length val)) r False (length ret))"

text \<open>\<open>set\<close>: the count is encoded into a string of its own, which is appended.\<close>

definition encode_set_field ::
    "('a \<Rightarrow> bytes \<Rightarrow> bytes outcome) \<Rightarrow> 'a list \<Rightarrow> bytes \<Rightarrow> bytes outcome" where
  "encode_set_field enc val ret =
     obind (encode_count (length val) []) (\<lambda>n. encode_all enc val (ret @ n))"

text \<open>A struct: the fields, then the length of what they added, inserted before them.\<close>

definition encode_struct ::
    "('a \<Rightarrow> bytes \<Rightarrow> bytes outcome) \<Rightarrow> 'a list \<Rightarrow> bytes \<Rightarrow> bytes outcome" where
  "encode_struct enc fields ret =
     obind (encode_all enc fields ret)
       (\<lambda>r. shine_serial_encode_size (of_nat (length r - length ret)) r False (length ret))"

lemma encode_array_field_cong [fundef_cong]:
  "xs = ys \<Longrightarrow> ret = ret' \<Longrightarrow> (\<And>x r. x \<in> set ys \<Longrightarrow> f x r = g x r) \<Longrightarrow>
   encode_array_field f xs ret = encode_array_field g ys ret'"
  unfolding encode_array_field_def by (intro obind_cong encode_all_cong) auto

lemma encode_forward_field_cong [fundef_cong]:
  "xs = ys \<Longrightarrow> ret = ret' \<Longrightarrow> (\<And>x r. x \<in> set ys \<Longrightarrow> f x r = g x r) \<Longrightarrow>
   encode_forward_field f xs ret = encode_forward_field g ys ret'"
  unfolding encode_forward_field_def by (intro obind_cong insert_all_cong) auto

lemma encode_set_field_cong [fundef_cong]:
  "xs = ys \<Longrightarrow> ret = ret' \<Longrightarrow> (\<And>x r. x \<in> set ys \<Longrightarrow> f x r = g x r) \<Longrightarrow>
   encode_set_field f xs ret = encode_set_field g ys ret'"
  unfolding encode_set_field_def by (intro obind_cong encode_all_cong) auto

lemma encode_struct_cong [fundef_cong]:
  "xs = ys \<Longrightarrow> ret = ret' \<Longrightarrow> (\<And>x r. x \<in> set ys \<Longrightarrow> f x r = g x r) \<Longrightarrow>
   encode_struct f xs ret = encode_struct g ys ret'"
  unfolding encode_struct_def by (intro obind_cong encode_all_cong) auto

text \<open>
  \<open>shine_serial_encode_field\<close>, resolved on the value: the key and the value of a map entry
  are encoded one after the other. Reading an indeterminate scalar is undefined.
\<close>

fun shine_serial_encode_field :: "sval \<Rightarrow> bytes \<Rightarrow> bytes outcome" where
  "shine_serial_encode_field VUninit ret = Undef"
| "shine_serial_encode_field (VBool b) ret = Done (ret @ [if b then 1 else 0])"
| "shine_serial_encode_field (VByte c) ret = Done (ret @ [c])"
| "shine_serial_encode_field (VInt s w v) ret = shine_serial_encode_integer s w v ret"
| "shine_serial_encode_field (VBytes bs) ret = encode_bytes_field bs ret"
| "shine_serial_encode_field (VFloat bs) ret = encode_float_field bs ret"
| "shine_serial_encode_field (VArray vs) ret =
     encode_array_field shine_serial_encode_field vs ret"
| "shine_serial_encode_field (VForward vs) ret =
     encode_forward_field shine_serial_encode_field vs ret"
| "shine_serial_encode_field (VSet vs) ret =
     encode_set_field shine_serial_encode_field vs ret"
| "shine_serial_encode_field (VMap kvs) ret =
     encode_array_field (\<lambda>kv r. obind (shine_serial_encode_field (fst kv) r)
                                  (shine_serial_encode_field (snd kv))) kvs ret"
| "shine_serial_encode_field (VStruct vs) ret =
     encode_struct shine_serial_encode_field vs ret"

text \<open>The member function \<open>shine_serial_encode()\<close> of a struct.\<close>

definition shine_serial_encode :: "sval \<Rightarrow> bytes outcome" where
  "shine_serial_encode v = shine_serial_encode_field v []"


section \<open>Decoding of fields\<close>

text \<open>
  A decoder takes the object being assigned, the data and the position, and returns the new
  object and position. \<open>maxn\<close> is \<open>max_size()\<close> of the containers, a number of the platform:
  asking for more throws \<open>length_error\<close>. The sum of a size and the position is taken in
  \<open>size_t\<close> and wraps around.
\<close>

definition decode_bool_field :: "bytes \<Rightarrow> nat \<Rightarrow> (sval \<times> nat) outcome" where
  "decode_bool_field data cost_len =
     (if length data < cost_len + 1 then Reject
      else Done (VBool (data ! cost_len = 1), cost_len + 1))"

definition decode_byte_field :: "bytes \<Rightarrow> nat \<Rightarrow> (sval \<times> nat) outcome" where
  "decode_byte_field data cost_len =
     (if length data < cost_len + 1 then Reject
      else Done (VByte (data ! cost_len), cost_len + 1))"

definition decode_bytes_field :: "nat \<Rightarrow> bytes \<Rightarrow> nat \<Rightarrow> (sval \<times> nat) outcome" where
  "decode_bytes_field maxn data cost_len =
     obind (shine_serial_decode_size data cost_len)
       (\<lambda>(size, c).
          if length data < unat (size + of_nat c) then Reject
          else if maxn < unat size then Throws Length_error
          else if length data < c + unat size then Undef
          else Done (VBytes (take (unat size) (drop c data)), c + unat size))"

definition decode_float_field :: "nat \<Rightarrow> bytes \<Rightarrow> nat \<Rightarrow> (sval \<times> nat) outcome" where
  "decode_float_field n data cost_len =
     (if length data < cost_len + n then Reject
      else Done (VFloat (take n (drop cost_len data)), cost_len + n))"

text \<open>\<open>resize\<close>, then every element is decoded in place.\<close>

definition resize_vals :: "nat \<Rightarrow> sty \<Rightarrow> nat \<Rightarrow> sval list \<Rightarrow> sval list outcome" where
  "resize_vals maxn t n vs =
     (if maxn < n then Throws Length_error
      else Done (take n vs @ replicate (n - length vs) (sinit t)))"

fun decode_elems ::
    "(sval \<Rightarrow> bytes \<Rightarrow> nat \<Rightarrow> (sval \<times> nat) outcome) \<Rightarrow> sval list \<Rightarrow> bytes \<Rightarrow> nat
       \<Rightarrow> (sval list \<times> nat) outcome" where
  "decode_elems dec [] data cost_len = Done ([], cost_len)"
| "decode_elems dec (v # vs) data cost_len =
     obind (dec v data cost_len) (\<lambda>(v', c).
       obind (decode_elems dec vs data c) (\<lambda>(vs', c'). Done (v' # vs', c')))"

definition decode_array_field ::
    "nat \<Rightarrow> sty \<Rightarrow> (sval \<Rightarrow> bytes \<Rightarrow> nat \<Rightarrow> (sval \<times> nat) outcome) \<Rightarrow> sval list \<Rightarrow> bytes \<Rightarrow> nat
       \<Rightarrow> (sval list \<times> nat) outcome" where
  "decode_array_field maxn t dec val data cost_len =
     obind (shine_serial_decode_size data cost_len) (\<lambda>(size, c).
       obind (resize_vals maxn t (unat size) val) (\<lambda>vs. decode_elems dec vs data c))"

text \<open>
  The loop of the node-based containers: \<open>size\<close> times, decode a fresh element and \<open>put\<close>
  it into the container, to the front of a \<open>forward_list\<close>, in place of a \<open>set\<close> or
  \<open>map\<close>.
\<close>

fun decode_into ::
    "(bytes \<Rightarrow> nat \<Rightarrow> ('a \<times> nat) outcome) \<Rightarrow> ('a \<Rightarrow> 'c \<Rightarrow> 'c) \<Rightarrow> nat \<Rightarrow> 'c \<Rightarrow> bytes \<Rightarrow> nat
       \<Rightarrow> ('c \<times> nat) outcome" where
  "decode_into dec put 0 val data cost_len = Done (val, cost_len)"
| "decode_into dec put (Suc n) val data cost_len =
     obind (dec data cost_len) (\<lambda>(v, c). decode_into dec put n (put v val) data c)"

definition decode_node_field ::
    "(bytes \<Rightarrow> nat \<Rightarrow> ('a \<times> nat) outcome) \<Rightarrow> ('a \<Rightarrow> 'c \<Rightarrow> 'c) \<Rightarrow> 'c \<Rightarrow> bytes \<Rightarrow> nat
       \<Rightarrow> ('c \<times> nat) outcome" where
  "decode_node_field dec put val data cost_len =
     obind (shine_serial_decode_size data cost_len)
       (\<lambda>(size, c). decode_into dec put (unat size) val data c)"

text \<open>
  \<open>SHINE_SERIAL_DECODE_FIELD\<close> for every field: after each one, a struct whose \<open>size\<close>
  bytes are used up returns at once and leaves the later fields alone; a struct that has
  bytes left when its fields are done skips them.
\<close>

fun decode_fields ::
    "(sty \<Rightarrow> sval \<Rightarrow> bytes \<Rightarrow> nat \<Rightarrow> (sval \<times> nat) outcome) \<Rightarrow> sty list \<Rightarrow> sval list \<Rightarrow> bytes
       \<Rightarrow> nat \<Rightarrow> nat \<Rightarrow> nat \<Rightarrow> (sval list \<times> nat) outcome" where
  "decode_fields dec [] vs data flag sz cost_len = Done (vs, flag + sz)"
| "decode_fields dec (t # ts) [] data flag sz cost_len = Undef"
| "decode_fields dec (t # ts) (v # vs) data flag sz cost_len =
     obind (dec t v data cost_len) (\<lambda>(v', c).
       if sz \<le> c - flag then Done (v' # vs, c)
       else obind (decode_fields dec ts vs data flag sz c)
              (\<lambda>(vs', c'). Done (v' # vs', c')))"

lemma decode_fields_cong [fundef_cong]:
  assumes "ts = ts'" "vs = vs'" "data = data'" "flag = flag'" "sz = sz'" "c = c'"
    and "\<And>t v d c. t \<in> set ts' \<Longrightarrow> f t v d c = g t v d c"
  shows "decode_fields f ts vs data flag sz c = decode_fields g ts' vs' data' flag' sz' c'"
proof -
  have "decode_fields f ts' vs' data' flag' sz' c' = decode_fields g ts' vs' data' flag' sz' c'"
    using assms(7)
  proof (induction ts' arbitrary: vs' c')
    case (Cons t ts')
    then show ?case by (cases vs') (auto intro!: obind_cong)
  qed simp
  with assms show ?thesis by simp
qed

definition decode_struct ::
    "(sty \<Rightarrow> sval \<Rightarrow> bytes \<Rightarrow> nat \<Rightarrow> (sval \<times> nat) outcome) \<Rightarrow> sty list \<Rightarrow> sval list \<Rightarrow> bytes
       \<Rightarrow> nat \<Rightarrow> (sval list \<times> nat) outcome" where
  "decode_struct dec ts vs data cost_len =
     (if length data - cost_len = 0 then Done (vs, cost_len)
      else obind (shine_serial_decode_size data cost_len) (\<lambda>(size, flag).
        if size = 0 then Done (vs, flag)
        else if length data - flag < unat size then Reject
        else decode_fields dec ts vs data flag (unat size) flag))"

lemma decode_struct_cong [fundef_cong]:
  assumes "ts = ts'" "vs = vs'" "data = data'" "c = c'"
    and "\<And>t v d c. t \<in> set ts' \<Longrightarrow> f t v d c = g t v d c"
  shows "decode_struct f ts vs data c = decode_struct g ts' vs' data' c'"
  unfolding decode_struct_def using assms
  by (auto intro!: obind_cong decode_fields_cong)

fun vals_of :: "sval \<Rightarrow> sval list" where
  "vals_of (VArray vs) = vs"
| "vals_of (VForward vs) = vs"
| "vals_of (VSet vs) = vs"
| "vals_of (VStruct vs) = vs"
| "vals_of _ = []"

fun pairs_of :: "sval \<Rightarrow> (sval \<times> sval) list" where
  "pairs_of (VMap kvs) = kvs"
| "pairs_of _ = []"

definition omap :: "('a \<Rightarrow> 'b) \<Rightarrow> ('a \<times> nat) outcome \<Rightarrow> ('b \<times> nat) outcome" where
  "omap f x = obind x (\<lambda>(a, c). Done (f a, c))"

lemma omap_cong [fundef_cong]: "x = y \<Longrightarrow> f = g \<Longrightarrow> omap f x = omap g y"
  by simp

fun shine_serial_decode_field ::
    "nat \<Rightarrow> sty \<Rightarrow> sval \<Rightarrow> bytes \<Rightarrow> nat \<Rightarrow> (sval \<times> nat) outcome" where
  "shine_serial_decode_field maxn TBool v data c = decode_bool_field data c"
| "shine_serial_decode_field maxn TByte v data c = decode_byte_field data c"
| "shine_serial_decode_field maxn (TInt s w) v data c =
     omap (VInt s w) (shine_serial_decode_integer s w data c)"
| "shine_serial_decode_field maxn TBytes v data c = decode_bytes_field maxn data c"
| "shine_serial_decode_field maxn (TFloat n) v data c = decode_float_field n data c"
| "shine_serial_decode_field maxn (TArray t) v data c =
     omap VArray (decode_array_field maxn t
       (\<lambda>v d c. shine_serial_decode_field maxn t v d c) (vals_of v) data c)"
| "shine_serial_decode_field maxn (TForward t) v data c =
     omap VForward (decode_node_field
       (\<lambda>d c. shine_serial_decode_field maxn t (sfresh t) d c) (#) (vals_of v) data c)"
| "shine_serial_decode_field maxn (TSet t) v data c =
     omap VSet (decode_node_field
       (\<lambda>d c. shine_serial_decode_field maxn t (sfresh t) d c)
       (emplace_by (\<lambda>x. x)) (vals_of v) data c)"
| "shine_serial_decode_field maxn (TMap tk tv) v data c =
     omap VMap (decode_node_field
       (\<lambda>d c. obind (shine_serial_decode_field maxn tk (sfresh tk) d c)
          (\<lambda>(k, c'). obind (shine_serial_decode_field maxn tv (sfresh tv) d c')
             (\<lambda>(x, c''). Done ((k, x), c''))))
       (emplace_by fst) (pairs_of v) data c)"
| "shine_serial_decode_field maxn (TStruct ts) v data c =
     omap VStruct (decode_struct (shine_serial_decode_field maxn) ts (vals_of v) data c)"

text \<open>The member function \<open>shine_serial_decode(data)\<close> of a struct.\<close>

definition shine_serial_decode :: "nat \<Rightarrow> sty \<Rightarrow> sval \<Rightarrow> bytes \<Rightarrow> sval outcome" where
  "shine_serial_decode maxn t v data =
     obind (shine_serial_decode_field maxn t v data 0) (\<lambda>(v', c). Done v')"

end
