(* ===== verification/Shine_Serial_Correct.thy ===== *)
theory Shine_Serial_Correct
  imports Shine_Serial
begin

text \<open>
  Correctness of the serialisation: the wire format as a specification (\<open>size_bytes\<close>,
  \<open>int_bytes\<close>, \<open>wire\<close>), typing of values (\<open>has_type\<close>), the refinement of the
  format by the encoder, the round trip through the decoder, the bounds of the decoder's
  position on arbitrary input, and the inputs on which it leaves the defined behaviour.
  The contract of one element codec is the locale \<open>codec\<close>; the containers are proved
  once inside it.
\<close>


section \<open>Sizes and integers on the wire\<close>

function size_bytes :: "u64 \<Rightarrow> bytes" where
  "size_bytes n =
     size_chunk n # (if drop_bit 7 n \<noteq> 0 then size_bytes (drop_bit 7 n) else [])"
  by pat_completeness auto
termination
  by (relation "measure unat") (auto intro: unat_drop_bit_less)

declare size_bytes.simps [simp del]

lemma size_bytes_not_Nil [simp]: "size_bytes n \<noteq> []"
  by (subst size_bytes.simps) simp

lemma size_chunk_low: "ucast (size_chunk n AND 0x7F) = take_bit 7 n"
  unfolding size_chunk_def and_mask7 Let_def
  by (rule bit_word_eqI) (auto simp: bit_simps)

lemma size_chunk_more: "size_chunk n AND 0x80 \<noteq> 0 \<longleftrightarrow> drop_bit 7 n \<noteq> 0"
  unfolding and_0x80_iff size_chunk_def and_mask7 Let_def
  by (auto simp: bit_simps)

lemma encode_size_back:
  "shine_serial_encode_size n ret True pos = Done (ret @ size_bytes n)"
proof (induction n arbitrary: ret pos rule: size_bytes.induct)
  case (1 n)
  then show ?case
    by (subst shine_serial_encode_size.simps, subst size_bytes.simps) simp
qed

lemma encode_size_front:
  "pos \<le> length ret \<Longrightarrow>
   shine_serial_encode_size n ret False pos = Done (take pos ret @ size_bytes n @ drop pos ret)"
proof (induction n arbitrary: ret pos rule: size_bytes.induct)
  case (1 n)
  let ?r = "take pos ret @ [size_chunk n] @ drop pos ret"
  have len: "Suc pos \<le> length ?r" using "1.prems" by simp
  have t: "take (Suc pos) ?r = take pos ret @ [size_chunk n]" and d: "drop (Suc pos) ?r = drop pos ret"
    using "1.prems" by (simp_all add: take_Suc_conv_app_nth)
  show ?case
    using "1.prems" "1.IH"[OF _ len]
    apply (subst shine_serial_encode_size.simps, subst size_bytes.simps)
    apply (simp add: insert_at_def del: take_append drop_append)
    using t d by simp
qed

lemma decode_size_loop_bytes:
  assumes "drop (c + i) data = size_bytes m @ post" and "m = drop_bit (7 * i) n"
    and "i = 0 \<or> m \<noteq> 0"
  shows "decode_size_loop data c i val
           = Done (val OR push_bit (7 * i) m, c + i + length (size_bytes m))"
  using assms
proof (induction m arbitrary: i val rule: size_bytes.induct)
  case (1 m)
  let ?tl = "if drop_bit 7 m \<noteq> 0 then size_bytes (drop_bit 7 m) else []"
  have split: "drop (c + i) data = size_chunk m # ?tl @ post"
    using "1.prems"(1) by (subst (asm) size_bytes.simps) simp
  then have len: "length data - (c + i) = Suc (length ?tl + length post)"
    by (metis length_drop length_Cons length_append)
  have nth: "data ! (c + i) = size_chunk m"
    using split len by (metis nth_via_drop)
  have tl: "drop (c + Suc i) data = ?tl @ post"
    using split by (metis add_Suc_right drop_Suc list.sel(3) tl_drop)
  have small: "7 * i < 64"
    using "1.prems"(2,3) drop_bit_nonzero_less[of "7 * i" n] by auto
  have inb: "c + i < length data" using len by arith
  have step: "(val OR push_bit (7 * i) (take_bit 7 m)) OR push_bit (7 * Suc i) (drop_bit 7 m)
      = val OR push_bit (7 * i) m"
  proof -
    have "push_bit (7 * i) m = push_bit (7 * i) (take_bit 7 m OR push_bit 7 (drop_bit 7 m))"
      by (simp only: split_low_bits)
    then show ?thesis by (simp add: push_bit_or or.assoc push_bit_push_bit add.commute)
  qed
  show ?case
  proof (cases "drop_bit 7 m = 0")
    case True
    then have "push_bit (7 * i) m = push_bit (7 * i) (take_bit 7 m)"
      using split_low_bits[of 7 m] by simp
    with True show ?thesis
      using len nth small size_chunk_more[of m]
      by (subst decode_size_loop.simps, subst size_bytes.simps) (simp add: Let_def size_chunk_low)
  next
    case False
    have "decode_size_loop data c (Suc i) (val OR push_bit (7 * i) (take_bit 7 m))
      = Done ((val OR push_bit (7 * i) (take_bit 7 m)) OR push_bit (7 * Suc i) (drop_bit 7 m),
              c + Suc i + length (size_bytes (drop_bit 7 m)))"
    proof (rule "1.IH"[OF False])
      show "drop (c + Suc i) data = size_bytes (drop_bit 7 m) @ post" using tl False by simp
      show "drop_bit 7 m = drop_bit (7 * Suc i) n" using "1.prems"(2) by (simp add: add.commute)
    qed (use False in simp)
    moreover have "\<not> length data - c \<le> Suc i"
      using len False by (cases "size_bytes (drop_bit 7 m)") auto
    ultimately show ?thesis
      using len inb nth small size_chunk_more[of m] False step
      by (subst decode_size_loop.simps, subst size_bytes.simps)
         (simp add: Let_def size_chunk_low)
  qed
qed

lemma decode_size_bytes:
  assumes "drop c data = size_bytes n @ post"
  shows "shine_serial_decode_size data c = Done (n, c + length (size_bytes n))"
proof -
  have "c < length data" using assms by (metis drop_all leI append_is_Nil_conv size_bytes_not_Nil)
  then show ?thesis
    using decode_size_loop_bytes[of c 0 data n post n 0] assms
    by (simp add: shine_serial_decode_size_def)
qed


definition int_type :: "bool \<Rightarrow> nat \<Rightarrow> int \<Rightarrow> bool" where
  "int_type s w v \<longleftrightarrow> w \<in> {16, 32, 64} \<and>
     (if s then - (2 ^ (w - 1)) \<le> v \<and> v < 2 ^ (w - 1) else 0 \<le> v \<and> v < 2 ^ w)"

lemma int_type_width: "int_type s w v \<Longrightarrow> 0 < w \<and> w \<le> 64"
  by (auto simp: int_type_def)

lemma conv_word_of_int:
  "0 < w \<Longrightarrow> w \<le> 64 \<Longrightarrow> conv s w (word_of_int v) = (if s then signed_take_bit (w - 1) v else take_bit w v)"
  by (auto simp: conv_def uint_word_of_int_eq signed_take_bit_take_bit min_def)

lemma conv_in_type: "int_type s w v \<Longrightarrow> conv s w (word_of_int v) = v"
  using int_type_width[of s w v]
  by (auto simp: conv_word_of_int int_type_def signed_take_bit_int_eq_self take_bit_int_eq_self
      split: if_splits)

lemma conv_or:
  assumes "0 < w" "w \<le> 64"
  shows "conv s w (word_of_int (conv s w x) OR y) = conv s w (x OR y)"
proof (cases s)
  case True
  have "signed_take_bit (w - 1) (uint (word_of_int (signed_take_bit (w - 1) (uint x)) OR y))
      = signed_take_bit (w - 1) (uint (x OR y))"
    using assms
    by (intro bit_eqI) (auto simp: bit_simps min_def split: if_splits)
  with True show ?thesis by (simp add: conv_def)
next
  case False
  have "take_bit w (uint (word_of_int (take_bit w (uint x)) OR y)) = take_bit w (uint (x OR y))"
    using assms by (intro bit_eqI) (auto simp: bit_simps)
  with False show ?thesis by (simp add: conv_def)
qed

lemma conv_neg:
  assumes "0 < w" "w \<le> 64"
  shows "conv s w (word_of_int (- conv s w (word_of_int u))) = conv s w (word_of_int (- u))"
  unfolding conv_word_of_int[OF assms] by (simp add: signed_take_bit_minus take_bit_minus)

lemma int_chunks_not_Nil [simp]: "int_chunks n \<noteq> []"
  by (subst int_chunks.simps) simp

lemma int_chunk_low:
  "f = 0 \<or> f = 0x40 \<Longrightarrow> ucast ((int_chunk n OR f) AND 0x3F) = take_bit 6 n"
  unfolding int_chunk_def and_mask6 Let_def
  by (rule bit_word_eqI) (auto simp: bit_simps)

lemma int_chunk_more:
  "f = 0 \<or> f = 0x40 \<Longrightarrow> (int_chunk n OR f) AND 0x80 \<noteq> 0 \<longleftrightarrow> drop_bit 6 n \<noteq> 0"
  unfolding and_0x80_iff int_chunk_def and_mask6 Let_def
  by (auto simp: bit_simps)

lemma int_chunk_flag:
  "int_chunk n AND 0x40 = 0" "(int_chunk n OR 0x40) AND 0x40 \<noteq> 0"
  unfolding and_0x40_iff int_chunk_def and_mask6 Let_def
  by (auto simp: bit_simps)

definition chunk_tail :: "u64 \<Rightarrow> bytes" where
  "chunk_tail m = (if drop_bit 6 m \<noteq> 0 then int_chunks (drop_bit 6 m) else [])"

lemma int_chunks_eq: "int_chunks m = int_chunk m # chunk_tail m"
  by (subst int_chunks.simps) (simp add: chunk_tail_def)

lemma decode_int_loop_chunks:
  assumes "drop (c + i) data = (int_chunk m OR f) # chunk_tail m @ post"
    and "f = 0 \<or> f = 0x40" and "m = drop_bit (6 * i) n" and "i = 0 \<or> m \<noteq> 0"
    and "val = conv s w acc" and w: "0 < w" "w \<le> 64"
  shows "decode_int_loop s w data c i val
           = Done (conv s w (acc OR push_bit (6 * i) m), c + i + length (int_chunks m))"
  using assms(1-5)
proof (induction m arbitrary: i val acc f rule: int_chunks.induct)
  case (1 m)
  have len: "length data - (c + i) = Suc (length (chunk_tail m) + length post)"
    using "1.prems"(1) by (metis length_drop length_Cons length_append)
  have nth: "data ! (c + i) = int_chunk m OR f"
    using "1.prems"(1) by (metis nth_via_drop)
  have tl: "drop (c + Suc i) data = chunk_tail m @ post"
    using "1.prems"(1) by (metis add_Suc_right drop_Suc list.sel(3) tl_drop)
  have small: "i * 6 < 64"
    using "1.prems"(3,4) drop_bit_nonzero_less[of "6 * i" n] by auto
  have inb: "c + i < length data" using len by arith
  have val': "conv s w (word_of_int val OR push_bit (i * 6) (take_bit 6 m))
      = conv s w (acc OR push_bit (6 * i) (take_bit 6 m))"
    unfolding "1.prems"(5) conv_or[OF w] by (simp add: mult.commute)
  show ?case
  proof (cases "drop_bit 6 m = 0")
    case True
    then have "push_bit (6 * i) m = push_bit (6 * i) (take_bit 6 m)"
      using split_low_bits[of 6 m] by simp
    with True show ?thesis
      using inb nth small int_chunk_more[OF "1.prems"(2), of m]
        int_chunk_low[OF "1.prems"(2), of m] val'
      by (subst decode_int_loop.simps) (simp add: Let_def int_chunks_eq chunk_tail_def)
  next
    case False
    have step: "(acc OR push_bit (6 * i) (take_bit 6 m)) OR push_bit (6 * Suc i) (drop_bit 6 m)
        = acc OR push_bit (6 * i) m"
    proof -
      have "push_bit (6 * i) m = push_bit (6 * i) (take_bit 6 m OR push_bit 6 (drop_bit 6 m))"
        by (simp only: split_low_bits)
      then show ?thesis by (simp add: push_bit_or or.assoc push_bit_push_bit add.commute)
    qed
    have "decode_int_loop s w data c (Suc i)
            (conv s w (acc OR push_bit (6 * i) (take_bit 6 m)))
      = Done (conv s w ((acc OR push_bit (6 * i) (take_bit 6 m))
                          OR push_bit (6 * Suc i) (drop_bit 6 m)),
              c + Suc i + length (int_chunks (drop_bit 6 m)))"
    proof (rule "1.IH"[OF False, where f = 0])
      show "drop (c + Suc i) data = (int_chunk (drop_bit 6 m) OR 0) # chunk_tail (drop_bit 6 m) @ post"
        using tl False by (simp add: chunk_tail_def int_chunks_eq[of "drop_bit 6 m"])
      show "drop_bit 6 m = drop_bit (6 * Suc i) n" using "1.prems"(3) by (simp add: add.commute)
    qed (use False in simp_all)
    moreover have "\<not> length data - c \<le> Suc i"
      using len False by (cases "chunk_tail m") (auto simp: chunk_tail_def)
    ultimately show ?thesis
      using inb nth small int_chunk_more[OF "1.prems"(2), of m]
        int_chunk_low[OF "1.prems"(2), of m] val' False step
      by (subst decode_int_loop.simps) (simp add: Let_def int_chunks_eq[of m] chunk_tail_def)
  qed
qed

definition int_bytes :: "int \<Rightarrow> bytes" where
  "int_bytes v = (let m = (word_of_int \<bar>v\<bar> :: u64) in
     (int_chunk m OR (if v < 0 then 0x40 else 0)) # chunk_tail m)"

lemma encode_integer_bytes:
  assumes "\<not> (v < 0 \<and> neg_overflows s w v)"
  shows "shine_serial_encode_integer s w v ret = Done (ret @ int_bytes v)"
  using assms
  by (auto simp: shine_serial_encode_integer_def int_bytes_def Let_def int_chunks_eq
      nth_append list_update_append split: nat.splits)

lemma decode_integer_bytes:
  assumes ty: "int_type s w v" and no: "\<not> neg_overflows s w v"
    and d: "drop c data = int_bytes v @ post"
  shows "shine_serial_decode_integer s w data c = Done (v, c + length (int_bytes v))"
proof -
  let ?m = "word_of_int \<bar>v\<bar> :: u64" and ?f = "if v < 0 then 0x40 else 0 :: u8"
  have w: "0 < w" "w \<le> 64" using int_type_width[OF ty] by auto
  have d': "drop (c + 0) data = (int_chunk ?m OR ?f) # chunk_tail ?m @ post"
    using d by (simp add: int_bytes_def Let_def)
  then have hd: "data ! c = int_chunk ?m OR ?f" by (metis add_0_right nth_via_drop)
  have len: "c < length data" using d' by (metis add_0_right drop_all leI list.distinct(1))
  have loop: "decode_int_loop s w data c 0 0
      = Done (conv s w ?m, c + length (int_bytes v))"
    using decode_int_loop_chunks[where n = ?m and acc = 0 and s = s and val = 0, OF d' _ _ _ _ w]
    by (simp add: conv_def int_bytes_def Let_def int_chunks_eq)
  show ?thesis
  proof (cases "v < 0")
    case False
    with conv_in_type[OF ty] show ?thesis
      using len loop int_chunk_flag(1)[of ?m]
      by (simp add: shine_serial_decode_integer_def hd)
  next
    case True
    have s: s using True ty by (auto simp: int_type_def split: if_splits)
    have nov: "\<not> neg_overflows s w (conv s w ?m)"
    proof (cases "32 \<le> w")
      case True32: True
      have "int_type s w (- v)"
        using ty no True s True32 by (auto simp: int_type_def neg_overflows_def)
      then have "conv s w (word_of_int (- v)) = - v" by (rule conv_in_type)
      with True have "conv s w ?m = - v" by simp
      then show ?thesis using True
        by (auto simp: neg_overflows_def)
    qed (simp add: neg_overflows_def)
    have "conv s w (word_of_int (- conv s w ?m)) = v"
      using conv_neg[OF w, of s "\<bar>v\<bar>"] conv_in_type[OF ty] True by simp
    with True show ?thesis
      using len loop nov int_chunk_flag(2)[of ?m]
      by (simp add: shine_serial_decode_integer_def hd)
  qed
qed

section \<open>The wire format\<close>

fun wire :: "sval \<Rightarrow> bytes" where
  "wire VUninit = []"
| "wire (VBool b) = [if b then 1 else 0]"
| "wire (VByte c) = [c]"
| "wire (VInt s w v) = int_bytes v"
| "wire (VBytes bs) = size_bytes (of_nat (length bs)) @ bs"
| "wire (VFloat bs) = bs"
| "wire (VArray vs) = size_bytes (of_nat (length vs)) @ concat (map wire vs)"
| "wire (VForward vs) = size_bytes (of_nat (length vs)) @ concat (map wire (rev vs))"
| "wire (VSet vs) = size_bytes (of_nat (length vs)) @ concat (map wire vs)"
| "wire (VMap kvs) = size_bytes (of_nat (length kvs)) @
     concat (map (\<lambda>kv. wire (fst kv) @ wire (snd kv)) kvs)"
| "wire (VStruct vs) = (let body = concat (map wire vs) in size_bytes (of_nat (length body)) @ body)"

fun key_type :: "sty \<Rightarrow> bool" where
  "key_type TBool = True"
| "key_type (TInt s w) = True"
| "key_type TBytes = True"
| "key_type _ = False"

fun has_type :: "nat \<Rightarrow> sty \<Rightarrow> sval \<Rightarrow> bool" where
  "has_type maxn TBool v = (case v of VBool b \<Rightarrow> True | _ \<Rightarrow> False)"
| "has_type maxn TByte v = (case v of VByte c \<Rightarrow> True | _ \<Rightarrow> False)"
| "has_type maxn (TInt s w) v = (case v of VInt s' w' n \<Rightarrow>
     s' = s \<and> w' = w \<and> int_type s w n \<and> \<not> neg_overflows s w n | _ \<Rightarrow> False)"
| "has_type maxn TBytes v = (case v of VBytes bs \<Rightarrow> length bs \<le> maxn | _ \<Rightarrow> False)"
| "has_type maxn (TFloat n) v = (case v of VFloat bs \<Rightarrow> length bs = n \<and> 0 < n | _ \<Rightarrow> False)"
| "has_type maxn (TArray t) v = (case v of VArray vs \<Rightarrow>
     length vs \<le> maxn \<and> list_all (has_type maxn t) vs | _ \<Rightarrow> False)"
| "has_type maxn (TForward t) v = (case v of VForward vs \<Rightarrow>
     length vs \<le> maxn \<and> list_all (has_type maxn t) vs | _ \<Rightarrow> False)"
| "has_type maxn (TSet t) v = (case v of VSet vs \<Rightarrow>
     length vs \<le> maxn \<and> key_type t \<and> sorted_wrt key_less vs \<and> list_all (has_type maxn t) vs
   | _ \<Rightarrow> False)"
| "has_type maxn (TMap tk tv) v = (case v of VMap kvs \<Rightarrow>
     length kvs \<le> maxn \<and> key_type tk \<and> sorted_wrt (\<lambda>a b. key_less (fst a) (fst b)) kvs \<and>
     list_all (\<lambda>kv. has_type maxn tk (fst kv) \<and> has_type maxn tv (snd kv)) kvs | _ \<Rightarrow> False)"
| "has_type maxn (TStruct ts) v = (case v of VStruct vs \<Rightarrow>
     vs \<noteq> [] \<and> list_all2 (has_type maxn) ts vs | _ \<Rightarrow> False)"

lemma encode_count_bytes: "encode_count n ret = Done (ret @ size_bytes (of_nat n))"
  by (simp add: encode_count_def encode_size_back)

lemma encode_all_concat:
  "(\<And>x r. x \<in> set xs \<Longrightarrow> enc x r = Done (r @ f x)) \<Longrightarrow>
   encode_all enc xs ret = Done (ret @ concat (map f xs))"
  by (induction xs arbitrary: ret) auto

lemma insert_all_concat:
  "(\<And>x r. x \<in> set xs \<Longrightarrow> enc x r = Done (r @ f x)) \<Longrightarrow>
   insert_all enc (length pre) xs (pre @ suf) = Done (pre @ concat (map f (rev xs)) @ suf)"
  by (induction xs arbitrary: suf) (auto simp: insert_at_def)

lemma encode_forward_field_bytes:
  assumes "\<And>x r. x \<in> set vs \<Longrightarrow> enc x r = Done (r @ f x)"
  shows "encode_forward_field enc vs ret
           = Done (ret @ size_bytes (of_nat (length vs)) @ concat (map f (rev vs)))"
  using insert_all_concat[of vs enc f ret "[]"] assms
  by (simp add: encode_forward_field_def encode_size_front)

lemma encode_struct_bytes:
  assumes "\<And>x r. x \<in> set vs \<Longrightarrow> enc x r = Done (r @ f x)"
  shows "encode_struct enc vs ret = Done (ret @ (let body = concat (map f vs)
           in size_bytes (of_nat (length body)) @ body))"
  using assms
  by (simp add: encode_struct_def encode_all_concat[of vs enc f] encode_size_front Let_def)

lemma encode_field_wire:
  "has_type maxn t v \<Longrightarrow> shine_serial_encode_field v ret = Done (ret @ wire v)"
proof (induction maxn t v arbitrary: ret rule: has_type.induct)
  case (3 maxn s w v)
  then show ?case by (auto intro: encode_integer_bytes split: sval.splits)
next
  case (6 maxn t v)
  then obtain vs where v: "v = VArray vs" by (auto split: sval.splits)
  with 6 show ?case
    by (auto simp: encode_array_field_def encode_count_bytes list_all_iff
        encode_all_concat[where f = wire])
next
  case (7 maxn t v)
  then obtain vs where v: "v = VForward vs" by (auto split: sval.splits)
  with 7 show ?case by (auto simp: encode_forward_field_bytes[where f = wire] list_all_iff)
next
  case (8 maxn t v)
  then obtain vs where v: "v = VSet vs" by (auto split: sval.splits)
  with 8 show ?case
    by (auto simp: encode_set_field_def encode_count_bytes list_all_iff
        encode_all_concat[where f = wire])
next
  case (9 maxn tk tv v)
  then obtain kvs where v: "v = VMap kvs" by (auto split: sval.splits)
  with 9 show ?case
    by (auto simp: encode_array_field_def encode_count_bytes list_all_iff
        encode_all_concat[where f = "\<lambda>kv. wire (fst kv) @ wire (snd kv)"])
next
  case (10 maxn ts v)
  then obtain vs where v: "v = VStruct vs" by (auto split: sval.splits)
  have "shine_serial_encode_field x r = Done (r @ wire x)" if "x \<in> set vs" for x r
  proof -
    from 10(2) v have "list_all2 (has_type maxn) ts vs" by simp
    with that obtain t where "t \<in> set ts" "has_type maxn t x"
      by (metis in_set_conv_nth list_all2_conv_all_nth)
    with 10(1) v that show ?thesis by blast
  qed
  with v show ?case by (simp add: encode_struct_bytes[where f = wire])
qed (auto simp: encode_bytes_field_def encode_count_bytes encode_float_field_def
      split: sval.splits)

lemma wire_not_Nil: "has_type maxn t v \<Longrightarrow> wire v \<noteq> []"
  by (cases t; cases v) (auto simp: int_bytes_def Let_def)

lemma bytes_less_Nil [simp]: "\<not> bytes_less xs []"
  by (cases xs) auto

lemma bytes_less_asym: "bytes_less a b \<Longrightarrow> \<not> bytes_less b a"
  by (induction a b rule: bytes_less.induct) auto

lemma key_less_asym: "key_less a b \<Longrightarrow> \<not> key_less b a"
  by (cases a; cases b) (auto dest: bytes_less_asym)

lemma emplace_last:
  "sorted_wrt (\<lambda>a b. key_less (key a) (key b)) (xs @ [x]) \<Longrightarrow> emplace_by key x xs = xs @ [x]"
  by (induction xs) (auto dest: key_less_asym)

lemma fold_emplace_sorted:
  "sorted_wrt (\<lambda>a b. key_less (key a) (key b)) (acc @ xs) \<Longrightarrow>
   fold (emplace_by key) xs acc = acc @ xs"
proof (induction xs arbitrary: acc)
  case (Cons x xs)
  have "sorted_wrt (\<lambda>a b. key_less (key a) (key b)) (acc @ [x])"
    using Cons.prems by (auto simp: sorted_wrt_append)
  then have "emplace_by key x acc = acc @ [x]" by (rule emplace_last)
  then show ?case using Cons.IH[of "acc @ [x]"] Cons.prems by simp
qed simp

lemma fold_Cons_rev: "fold (#) (rev xs) acc = xs @ acc"
  by (induction xs arbitrary: acc) auto

text \<open>A target without content: no elements in its containers.\<close>

fun blank :: "sty \<Rightarrow> sval \<Rightarrow> bool" where
  "blank (TArray t) v = (vals_of v = [])"
| "blank (TForward t) v = (vals_of v = [])"
| "blank (TSet t) v = (vals_of v = [])"
| "blank (TMap tk tv) v = (pairs_of v = [])"
| "blank (TStruct ts) v = list_all2 blank ts (vals_of v)"
| "blank _ v = True"

lemma blank_sfresh [simp]: "blank t (sfresh t)"
  by (induction t rule: sfresh.induct) (auto simp: list_all2_map2 list_all2_same)

lemma blank_sinit [simp]: "blank t (sinit t)"
  by (cases t) (auto simp: list_all2_map2 list_all2_same)

section \<open>Codecs\<close>

text \<open>
  A decoder reads one value: wherever the data, of an addressable length, go on with the
  bytes \<open>s\<close>, it returns the value and the position behind them.
\<close>

definition reads :: "(bytes \<Rightarrow> nat \<Rightarrow> ('a \<times> nat) outcome) \<Rightarrow> 'a \<Rightarrow> bytes \<Rightarrow> bool" where
  "reads dec x s \<longleftrightarrow>
     (\<forall>data c post. length data < 2 ^ 64 \<longrightarrow> drop c data = s @ post \<longrightarrow>
        dec data c = Done (x, c + length s))"

lemma readsI:
  "(\<And>data c post. length data < 2 ^ 64 \<Longrightarrow> drop c data = s @ post \<Longrightarrow>
      dec data c = Done (x, c + length s)) \<Longrightarrow> reads dec x s"
  by (auto simp: reads_def)

lemma readsD:
  "reads dec x s \<Longrightarrow> length data < 2 ^ 64 \<Longrightarrow> drop c data = s @ post \<Longrightarrow>
   dec data c = Done (x, c + length s)"
  by (auto simp: reads_def)

lemma drop_plus: "drop c data = s @ post \<Longrightarrow> drop (c + length s) data = post"
  by (metis add.commute append_eq_conv_conj drop_drop)

lemma drop_length_bound:
  "drop c data = s @ post \<Longrightarrow> s \<noteq> [] \<Longrightarrow> c + length s + length post = length data"
  by (metis add.assoc append_is_Nil_conv drop_all le_add_diff_inverse length_append length_drop nat_le_linear)

lemma reads_omap: "reads dec x s \<Longrightarrow> reads (\<lambda>d c. omap g (dec d c)) (g x) s"
  by (auto simp: reads_def omap_def)

lemma reads_pair:
  assumes "reads d1 a s" "reads d2 b s'"
  shows "reads (\<lambda>d c. obind (d1 d c) (\<lambda>(k, c'). obind (d2 d c') (\<lambda>(x, c''). Done ((k, x), c''))))
           (a, b) (s @ s')"
proof (rule readsI)
  fix data c post
  assume big: "length data < 2 ^ 64" and "drop c data = (s @ s') @ post"
  then have 1: "drop c data = s @ (s' @ post)" by simp
  show "obind (d1 data c) (\<lambda>(k, c'). obind (d2 data c') (\<lambda>(x, c''). Done ((k, x), c'')))
      = Done ((a, b), c + length (s @ s'))"
    using readsD[OF assms(1) big 1] readsD[OF assms(2) big drop_plus[OF 1]] by simp
qed

text \<open>
  The contract of an element codec: every good value is read back from its bytes, and they
  are not empty. What follows from it for sequences of elements is proved here once.
\<close>

locale codec =
  fixes dec :: "bytes \<Rightarrow> nat \<Rightarrow> ('a \<times> nat) outcome"
    and f :: "'a \<Rightarrow> bytes"
    and good :: "'a \<Rightarrow> bool"
  assumes reads_good: "good x \<Longrightarrow> reads dec x (f x)"
    and bytes_good: "good x \<Longrightarrow> f x \<noteq> []"
begin

lemma decode_into_concat:
  assumes "list_all good xs" and "length data < 2 ^ 64"
    and "drop c data = concat (map f xs) @ post"
  shows "decode_into dec put (length xs) val data c
           = Done (fold put xs val, c + length (concat (map f xs)))"
  using assms
proof (induction xs arbitrary: c val)
  case (Cons x xs)
  have "dec data c = Done (x, c + length (f x))"
    using Cons.prems by (intro readsD[OF reads_good]) auto
  moreover have "drop (c + length (f x)) data = concat (map f xs) @ post"
    using Cons.prems(3) by (intro drop_plus) simp
  ultimately show ?case using Cons by simp
qed simp

lemma decode_node_reads:
  assumes "list_all good xs" and "length xs < 2 ^ 64" and "fold put xs val = r"
    and "n = length xs"
  shows "reads (decode_node_field dec put val) r (size_bytes (of_nat n) @ concat (map f xs))"
proof (rule readsI)
  fix data c post
  assume big: "length data < 2 ^ 64"
    and "drop c data = (size_bytes (of_nat n) @ concat (map f xs)) @ post"
  then have d: "drop c data = size_bytes (of_nat n) @ (concat (map f xs) @ post)"
    by simp
  have u: "unat (of_nat n :: u64) = length xs"
    using assms(2,4) by (auto intro: unat_of_nat64)
  show "decode_node_field dec put val data c =
          Done (r, c + length (size_bytes (of_nat n) @ concat (map f xs)))"
    using decode_size_bytes[OF d] u assms(3)
      decode_into_concat[where put = put and val = val, OF assms(1) big drop_plus[OF d]]
    by (simp add: decode_node_field_def)
qed

lemma concat_not_Nil: "list_all good xs \<Longrightarrow> xs \<noteq> [] \<Longrightarrow> concat (map f xs) \<noteq> []"
  by (cases xs) (auto simp: bytes_good)

lemma length_le_concat: "list_all good xs \<Longrightarrow> length xs \<le> length (concat (map f xs))"
proof (induction xs)
  case (Cons x xs)
  then have "f x \<noteq> []" using bytes_good by simp
  with Cons show ?case by (cases "f x") auto
qed simp

end

lemma codecI:
  "(\<And>x. good x \<Longrightarrow> reads dec x (f x)) \<Longrightarrow> (\<And>x. good x \<Longrightarrow> f x \<noteq> []) \<Longrightarrow> codec dec f good"
  by unfold_locales

lemma codec_pair:
  assumes "codec d1 f1 g1" and "codec d2 f2 g2"
  shows "codec (\<lambda>d c. obind (d1 d c) (\<lambda>(k, c'). obind (d2 d c') (\<lambda>(x, c''). Done ((k, x), c''))))
           (\<lambda>p. f1 (fst p) @ f2 (snd p)) (\<lambda>p. g1 (fst p) \<and> g2 (snd p))"
proof (rule codecI)
  fix p assume "g1 (fst p) \<and> g2 (snd p)"
  then have "reads d1 (fst p) (f1 (fst p))" "reads d2 (snd p) (f2 (snd p))"
    using codec.reads_good[OF assms(1)] codec.reads_good[OF assms(2)] by auto
  then show "reads (\<lambda>d c. obind (d1 d c) (\<lambda>(k, c'). obind (d2 d c') (\<lambda>(x, c''). Done ((k, x), c''))))
      p (f1 (fst p) @ f2 (snd p))"
    using reads_pair[of d1 "fst p" "f1 (fst p)" d2 "snd p" "f2 (snd p)"] by simp
next
  fix p assume "g1 (fst p) \<and> g2 (snd p)"
  then show "f1 (fst p) @ f2 (snd p) \<noteq> []" using codec.bytes_good[OF assms(1)] by simp
qed


section \<open>Scalars, arrays and structs\<close>

lemma decode_elems_concat:
  assumes "length olds = length vs" and "length data < 2 ^ 64"
    and "\<And>i. i < length vs \<Longrightarrow> reads (dec (olds ! i)) (vs ! i) (f (vs ! i))"
    and "drop c data = concat (map f vs) @ post"
  shows "decode_elems dec olds data c = Done (vs, c + length (concat (map f vs)))"
  using assms
proof (induction olds vs arbitrary: c rule: list_induct2)
  case (Cons o' olds v vs)
  have "reads (dec o') v (f v)" using Cons.prems(2)[of 0] by simp
  then have 1: "dec o' data c = Done (v, c + length (f v))"
    by (rule readsD) (use Cons.prems in auto)
  have "drop (c + length (f v)) data = concat (map f vs) @ post"
    using Cons.prems(3) by (intro drop_plus) simp
  moreover have "reads (dec (olds ! i)) (vs ! i) (f (vs ! i))" if "i < length vs" for i
    using Cons.prems(2)[of "Suc i"] that by simp
  ultimately have "decode_elems dec olds data (c + length (f v))
      = Done (vs, c + length (f v) + length (concat (map f vs)))"
    using Cons.prems(1) by (intro Cons.IH)
  with 1 show ?case by simp
qed simp

lemma decode_array_reads:
  assumes "\<And>x. x \<in> set xs \<Longrightarrow> reads (dec (sinit t)) x (f x)" and "length xs \<le> maxn"
    and "maxn < 2 ^ 64"
  shows "reads (decode_array_field maxn t dec []) xs
           (size_bytes (of_nat (length xs)) @ concat (map f xs))"
proof (rule readsI)
  fix data c post
  assume big: "length data < 2 ^ 64"
    and "drop c data = (size_bytes (of_nat (length xs)) @ concat (map f xs)) @ post"
  then have d: "drop c data = size_bytes (of_nat (length xs)) @ (concat (map f xs) @ post)"
    by simp
  have u: "unat (of_nat (length xs) :: u64) = length xs"
    using assms(2,3) by (intro unat_of_nat64) simp
  have "decode_elems dec (replicate (length xs) (sinit t)) data
          (c + length (size_bytes (of_nat (length xs))))
        = Done (xs, c + length (size_bytes (of_nat (length xs))) + length (concat (map f xs)))"
    using drop_plus[OF d] assms(1) big by (intro decode_elems_concat) auto
  then show "decode_array_field maxn t dec [] data c =
          Done (xs, c + length (size_bytes (of_nat (length xs)) @ concat (map f xs)))"
    using decode_size_bytes[OF d] u assms(2)
    by (simp add: decode_array_field_def resize_vals_def)
qed

lemma decode_fields_concat:
  assumes "length ts = length olds" "length olds = length vs" "vs \<noteq> []"
    and "\<And>i. i < length vs \<Longrightarrow> reads (dec (ts ! i) (olds ! i)) (vs ! i) (f (vs ! i))"
    and "length data < 2 ^ 64"
    and "\<And>v. v \<in> set vs \<Longrightarrow> f v \<noteq> []"
    and "drop c data = concat (map f vs) @ post"
    and "flag \<le> c" and "flag + sz = c + length (concat (map f vs))"
  shows "decode_fields dec ts olds data flag sz c = Done (vs, flag + sz)"
  using assms
proof (induction ts olds vs arbitrary: c rule: list_induct3)
  case (Cons t ts o' olds v vs)
  have "reads (dec t o') v (f v)" using Cons.prems(2)[of 0] by simp
  then have 1: "dec t o' data c = Done (v, c + length (f v))"
    by (rule readsD) (use Cons.prems(3,5) in auto)
  show ?case
  proof (cases "vs = []")
    case True
    with 1 Cons.prems(6,7) Cons.hyps show ?thesis by simp
  next
    case False
    then obtain v' vs' where vs: "vs = v' # vs'" by (cases vs) auto
    have "f v' \<noteq> []" using Cons.prems(4) vs by simp
    then have more: "\<not> sz \<le> c + length (f v) - flag"
      using Cons.prems(6,7) vs by (cases "f v'") auto
    have "decode_fields dec ts olds data flag sz (c + length (f v)) = Done (vs, flag + sz)"
    proof (rule Cons.IH[OF False])
      show "reads (dec (ts ! i) (olds ! i)) (vs ! i) (f (vs ! i))" if "i < length vs" for i
        using Cons.prems(2)[of "Suc i"] that by simp
      show "drop (c + length (f v)) data = concat (map f vs) @ post"
        using Cons.prems(5) by (intro drop_plus) simp
    qed (use Cons.prems(3,4,6,7) in auto)
    with 1 more show ?thesis by simp
  qed
qed simp

lemma length_concat_map_pos:
  "vs \<noteq> [] \<Longrightarrow> (\<And>v. v \<in> set vs \<Longrightarrow> f v \<noteq> []) \<Longrightarrow> concat (map f vs) \<noteq> []"
  by (cases vs) auto

lemma decode_struct_concat:
  assumes "length ts = length olds" "length olds = length vs" "vs \<noteq> []"
    and "\<And>i. i < length vs \<Longrightarrow> reads (dec (ts ! i) (olds ! i)) (vs ! i) (f (vs ! i))"
    and nn: "\<And>v. v \<in> set vs \<Longrightarrow> f v \<noteq> []"
  shows "reads (decode_struct dec ts olds) vs
           (let body = concat (map f vs) in size_bytes (of_nat (length body)) @ body)"
proof (rule readsI)
  fix data c post
  let ?body = "concat (map f vs)" let ?n = "of_nat (length ?body) :: u64"
  let ?flag = "c + length (size_bytes ?n)"
  assume big: "length data < 2 ^ 64" and "drop c data = (let body = ?body in size_bytes (of_nat (length body)) @ body) @ post"
  then have d: "drop c data = size_bytes ?n @ (?body @ post)" by (simp add: Let_def)
  have body: "?body \<noteq> []" using length_concat_map_pos[OF assms(3) nn] by simp
  have len: "?flag + length (?body @ post) = length data"
    using drop_length_bound[OF d] by simp
  have n: "unat ?n = length ?body"
    using len big by (intro unat_of_nat64) simp
  have "?n \<noteq> 0" using n body by (metis length_0_conv unat_0)
  moreover have d': "drop ?flag data = ?body @ post" using d by (rule drop_plus)
  moreover have "decode_fields dec ts olds data ?flag (length ?body) ?flag
      = Done (vs, ?flag + length ?body)"
    by (rule decode_fields_concat[OF assms(1-4) big nn d']) auto
  moreover have "0 < length ?body" by (metis body length_greater_0_conv)
  then have "length data - c \<noteq> 0" "\<not> length data - ?flag < length ?body"
    using len unfolding length_append by linarith+
  ultimately show "decode_struct dec ts olds data c = Done (vs, c + length (let body = ?body
      in size_bytes (of_nat (length body)) @ body))"
    using decode_size_bytes[OF d] n by (simp add: decode_struct_def Let_def)
qed

lemma decode_bytes_wire:
  assumes "maxn < 2 ^ 64" and bs: "length bs \<le> maxn"
  shows "reads (decode_bytes_field maxn) (VBytes bs) (size_bytes (of_nat (length bs)) @ bs)"
proof (rule readsI)
  fix data c post
  let ?n = "of_nat (length bs) :: u64"
  assume big: "length data < 2 ^ 64" and "drop c data = (size_bytes ?n @ bs) @ post"
  then have d: "drop c data = size_bytes ?n @ (bs @ post)" by simp
  have n: "unat ?n = length bs" using assms by (intro unat_of_nat64) simp
  let ?c = "c + length (size_bytes ?n)"
  have len: "?c + length bs \<le> length data"
    using drop_length_bound[OF d] by simp
  have "?n + of_nat ?c = of_nat (length bs + ?c)" by (simp only: of_nat_add)
  moreover have "unat (of_nat (length bs + ?c) :: u64) = length bs + ?c"
    using len big by (intro unat_of_nat64) arith
  ultimately have sum: "unat (?n + of_nat ?c) = length bs + ?c" by (simp only:)
  have dec: "shine_serial_decode_size data c = Done (?n, ?c)" by (rule decode_size_bytes[OF d])
  show "decode_bytes_field maxn data c = Done (VBytes bs, c + length (size_bytes ?n @ bs))"
    unfolding decode_bytes_field_def dec obind.simps prod.case sum n
    using len bs drop_plus[OF d] by simp
qed

lemma decode_bool_wire: "reads decode_bool_field (VBool b) [if b then 1 else 0]"
proof (rule readsI)
  fix data :: bytes and c post
  assume big: "length data < 2 ^ 64" and d: "drop c data = [if b then 1 else 0] @ post"
  have "data ! c = (if b then 1 else 0)"
    by (rule nth_via_drop[where ys = post]) (use d in simp)
  with drop_length_bound[OF d]
  show "decode_bool_field data c = Done (VBool b, c + length [if b then 1 else 0 :: u8])"
    by (simp add: decode_bool_field_def)
qed

lemma decode_byte_wire: "reads decode_byte_field (VByte b) [b]"
proof (rule readsI)
  fix data :: bytes and c post
  assume big: "length data < 2 ^ 64" and d: "drop c data = [b] @ post"
  then have "data ! c = b" by (metis append_Cons nth_via_drop)
  with drop_length_bound[OF d] show "decode_byte_field data c = Done (VByte b, c + length [b])"
    by (simp add: decode_byte_field_def)
qed

lemma decode_float_wire:
  "bs \<noteq> [] \<Longrightarrow> reads (decode_float_field (length bs)) (VFloat bs) bs"
  by (auto simp: reads_def decode_float_field_def dest: drop_length_bound)

lemma decode_integer_wire:
  "int_type s w v \<Longrightarrow> \<not> neg_overflows s w v \<Longrightarrow>
   reads (shine_serial_decode_integer s w) v (int_bytes v)"
  by (auto simp: reads_def decode_integer_bytes)

text \<open>
  The round trip of a field, by induction on its type: the decoder of every type is a codec
  of the wire format for the values of the type.
\<close>

lemma decode_field_wire:
  "has_type maxn t v \<Longrightarrow> blank t old \<Longrightarrow> maxn < 2 ^ 64 \<Longrightarrow>
   reads (\<lambda>d c. shine_serial_decode_field maxn t old d c) v (wire v)"
proof (induction maxn t v arbitrary: old rule: has_type.induct)
  case (1 maxn v)
  then obtain b where v: "v = VBool b" by (auto split: sval.splits)
  then show ?case using decode_bool_wire by simp
next
  case (2 maxn v)
  then obtain b where v: "v = VByte b" by (auto split: sval.splits)
  then show ?case using decode_byte_wire by simp
next
  case (3 maxn s w v)
  then obtain n where v: "v = VInt s w n" and "int_type s w n" "\<not> neg_overflows s w n"
    by (auto split: sval.splits)
  then show ?case by (auto intro!: reads_omap[where g = "VInt s w"] decode_integer_wire)
next
  case (4 maxn v)
  then obtain bs where v: "v = VBytes bs" and "length bs \<le> maxn" by (auto split: sval.splits)
  then show ?case using decode_bytes_wire[OF 4(3)] by simp
next
  case (5 maxn n v)
  then obtain bs where v: "v = VFloat bs" and "length bs = n" "bs \<noteq> []" by (auto split: sval.splits)
  then show ?case using decode_float_wire by auto
next
  case (6 maxn t v)
  then obtain vs where v: "v = VArray vs" by (auto split: sval.splits)
  with 6 show ?case
    by (auto simp: list_all_iff intro!: reads_omap[where g = VArray] decode_array_reads)
next
  case (7 maxn t v)
  then obtain vs where v: "v = VForward vs" by (auto split: sval.splits)
  have "codec (shine_serial_decode_field maxn t (sfresh t)) wire (\<lambda>x. x \<in> set vs)"
    using 7 v wire_not_Nil by (intro codecI) (auto simp: list_all_iff)
  from codec.decode_node_reads[OF this, where put = "(#)" and val = "[]" and xs = "rev vs"] 7 v
  show ?case
    by (auto simp: list_all_iff fold_Cons_rev intro!: reads_omap[where g = VForward])
next
  case (8 maxn t v)
  then obtain vs where v: "v = VSet vs" by (auto split: sval.splits)
  have "codec (shine_serial_decode_field maxn t (sfresh t)) wire (\<lambda>x. x \<in> set vs)"
    using 8 v wire_not_Nil by (intro codecI) (auto simp: list_all_iff)
  from codec.decode_node_reads[OF this, where put = "emplace_by (\<lambda>x. x)" and val = "[]" and xs = vs] 8 v fold_emplace_sorted[of "\<lambda>x. x" "[]" vs]
  show ?case by (auto simp: list_all_iff intro!: reads_omap[where g = VSet])
next
  case (9 maxn tk tv v)
  then obtain kvs where v: "v = VMap kvs" by (auto split: sval.splits)
  have k: "codec (shine_serial_decode_field maxn tk (sfresh tk)) wire (\<lambda>x. x \<in> fst ` set kvs)"
    using 9 v wire_not_Nil by (intro codecI) (auto simp: list_all_iff)
  have x: "codec (shine_serial_decode_field maxn tv (sfresh tv)) wire (\<lambda>x. x \<in> snd ` set kvs)"
    using 9 v wire_not_Nil by (intro codecI) (auto simp: list_all_iff)
  from codec.decode_node_reads[OF codec_pair[OF k x], where put = "emplace_by fst" and val = "[]"
      and xs = kvs] 9 v
    fold_emplace_sorted[of fst "[]" kvs]
  show ?case by (auto simp: list_all_iff intro!: reads_omap[where g = VMap])
next
  case (10 maxn ts v)
  then obtain vs where v: "v = VStruct vs" and vs: "vs \<noteq> []" "list_all2 (has_type maxn) ts vs"
    by (auto split: sval.splits)
  have old: "list_all2 blank ts (vals_of old)" using 10 by simp
  have nn: "wire x \<noteq> []" if "x \<in> set vs" for x
    using vs(2) that by (metis in_set_conv_nth list_all2_conv_all_nth wire_not_Nil)
  have "reads (shine_serial_decode_field maxn (ts ! i) (vals_of old ! i)) (vs ! i) (wire (vs ! i))"
    if "i < length vs" for i
    using "10.IH"[OF v, of "ts ! i" "vs ! i" "vals_of old ! i"] 10 vs(2) old that
    by (simp add: list_all2_conv_all_nth)
  then have "reads (decode_struct (shine_serial_decode_field maxn) ts (vals_of old)) vs
      (let body = concat (map wire vs) in size_bytes (of_nat (length body)) @ body)"
    using vs old nn by (intro decode_struct_concat) (auto simp: list_all2_conv_all_nth)
  with v show ?case by (auto intro!: reads_omap[where g = VStruct])
qed

interpretation field: codec "shine_serial_decode_field maxn t (sfresh t)" wire
    "\<lambda>v. maxn < 2 ^ 64 \<and> has_type maxn t v" for maxn t
  by (rule codecI) (auto intro: decode_field_wire dest: wire_not_Nil)


section \<open>Positions on arbitrary data\<close>

text \<open>
  \<open>bounded dec\<close>: started inside the data, a decoder that returns leaves the position inside
  the data and never moves it back, whatever the data are.
\<close>

definition bounded :: "(bytes \<Rightarrow> nat \<Rightarrow> ('a \<times> nat) outcome) \<Rightarrow> bool" where
  "bounded dec \<longleftrightarrow>
     (\<forall>data c v c'. c \<le> length data \<longrightarrow> dec data c = Done (v, c') \<longrightarrow> c \<le> c' \<and> c' \<le> length data)"

lemma boundedI:
  "(\<And>data c v c'. c \<le> length data \<Longrightarrow> dec data c = Done (v, c') \<Longrightarrow>
      c \<le> c' \<and> c' \<le> length data) \<Longrightarrow> bounded dec"
  unfolding bounded_def by blast

lemma boundedD:
  "bounded dec \<Longrightarrow> dec data c = Done (v, c') \<Longrightarrow> c \<le> length data \<Longrightarrow>
   c \<le> c' \<and> c' \<le> length data"
  unfolding bounded_def by blast

lemma omap_Done_iff: "omap f x = Done (b, c) \<longleftrightarrow> (\<exists>a. x = Done (a, c) \<and> f a = b)"
  by (cases x) (auto simp: omap_def)

lemma bounded_omap: "bounded dec \<Longrightarrow> bounded (\<lambda>d c. omap f (dec d c))"
  unfolding bounded_def omap_Done_iff by blast

lemma decode_size_loop_bounded:
  "decode_size_loop data c i val = Done (v, c') \<Longrightarrow> c \<le> c' \<and> c' \<le> length data"
proof (induction data c i val rule: decode_size_loop.induct)
  case (1 data c i val)
  from 1(2) show ?case
    using 1(1)[OF _ refl refl]
    by (subst (asm) decode_size_loop.simps) (auto simp: Let_def split: if_splits)
qed

lemma decode_int_loop_bounded:
  "decode_int_loop s w data c i val = Done (v, c') \<Longrightarrow> c \<le> c' \<and> c' \<le> length data"
proof (induction s w data c i val rule: decode_int_loop.induct)
  case (1 s w data c i val)
  from 1(2) show ?case
    using 1(1)[OF _ refl refl]
    by (subst (asm) decode_int_loop.simps) (auto simp: Let_def split: if_splits)
qed

lemma bounded_size: "bounded shine_serial_decode_size"
  by (auto intro!: boundedI simp: shine_serial_decode_size_def dest: decode_size_loop_bounded
      split: if_splits)

lemma bounded_integer: "bounded (shine_serial_decode_integer s w)"
  by (rule boundedI) (auto simp: shine_serial_decode_integer_def Let_def
      dest: decode_int_loop_bounded split: if_splits)

lemma bounded_bytes: "bounded (decode_bytes_field maxn)"
  by (rule boundedI)
     (auto simp: decode_bytes_field_def split: if_splits dest: boundedD[OF bounded_size])

lemma bounded_bool: "bounded (\<lambda>d c. decode_bool_field d c)"
  by (auto intro!: boundedI simp: decode_bool_field_def split: if_splits)

lemma bounded_byte: "bounded (\<lambda>d c. decode_byte_field d c)"
  by (auto intro!: boundedI simp: decode_byte_field_def split: if_splits)

lemma bounded_float: "bounded (\<lambda>d c. decode_float_field n d c)"
  by (auto intro!: boundedI simp: decode_float_field_def split: if_splits)

lemma bounded_elems:
  assumes "\<And>v. bounded (dec v)"
  shows "bounded (decode_elems dec vs)"
proof (induction vs)
  case (Cons v vs)
  show ?case
  proof (rule boundedI)
    fix data :: bytes and c r c'
    assume c: "c \<le> length data" and "decode_elems dec (v # vs) data c = Done (r, c')"
    then obtain x c1 xs where "dec v data c = Done (x, c1)"
      and "decode_elems dec vs data c1 = Done (xs, c')" by auto
    with c show "c \<le> c' \<and> c' \<le> length data"
      using boundedD[OF assms] boundedD[OF Cons.IH] by (meson le_trans)
  qed
qed (auto simp: bounded_def)

lemma bounded_array:
  assumes "\<And>v. bounded (dec v)"
  shows "bounded (decode_array_field maxn t dec vs)"
proof (rule boundedI)
  fix data :: bytes and c r c'
  assume c: "c \<le> length data" and "decode_array_field maxn t dec vs data c = Done (r, c')"
  then obtain n c1 ws where 1: "shine_serial_decode_size data c = Done (n, c1)"
    and "decode_elems dec ws data c1 = Done (r, c')" by (auto simp: decode_array_field_def)
  with boundedD[OF bounded_size 1 c] show "c \<le> c' \<and> c' \<le> length data"
    using boundedD[OF bounded_elems[OF assms]] by (meson le_trans)
qed

lemma bounded_into:
  assumes "bounded dec"
  shows "bounded (decode_into dec put n val)"
proof (induction n arbitrary: val)
  case (Suc n)
  show ?case
  proof (rule boundedI)
    fix data :: bytes and c r c'
    assume c: "c \<le> length data" and "decode_into dec put (Suc n) val data c = Done (r, c')"
    then obtain x c1 where "dec data c = Done (x, c1)"
      and "decode_into dec put n (put x val) data c1 = Done (r, c')" by auto
    with c show "c \<le> c' \<and> c' \<le> length data"
      using boundedD[OF assms] boundedD[OF Suc.IH] by (meson le_trans)
  qed
qed (auto simp: bounded_def)

lemma bounded_node:
  assumes "bounded dec"
  shows "bounded (decode_node_field dec put val)"
proof (rule boundedI)
  fix data :: bytes and c r c'
  assume c: "c \<le> length data" and "decode_node_field dec put val data c = Done (r, c')"
  then obtain n c1 where 1: "shine_serial_decode_size data c = Done (n, c1)"
    and "decode_into dec put (unat n) val data c1 = Done (r, c')"
    by (auto simp: decode_node_field_def)
  with boundedD[OF bounded_size 1 c] show "c \<le> c' \<and> c' \<le> length data"
    using boundedD[OF bounded_into[OF assms]] by (meson le_trans)
qed

lemma bounded_pair:
  assumes "bounded d1" and "bounded d2"
  shows "bounded (\<lambda>d c. obind (d1 d c) (\<lambda>(k, c'). obind (d2 d c') (\<lambda>(x, c''). Done ((k, x), c''))))"
  using assms by (fastforce intro!: boundedI dest: boundedD)

lemma decode_fields_bounded:
  assumes "\<And>t v. t \<in> set ts \<Longrightarrow> bounded (dec t v)"
    and "flag \<le> c" "c \<le> flag + sz" "flag + sz \<le> length data"
    and "decode_fields dec ts vs data flag sz c = Done (r, c')"
  shows "flag \<le> c' \<and> c' \<le> length data"
  using assms
proof (induction dec ts vs data flag sz c arbitrary: r c' rule: decode_fields.induct)
  case (3 dec t ts v vs data flag sz c)
  from "3.prems"(5) obtain x c1 where x: "dec t v data c = Done (x, c1)" by auto
  have b: "c \<le> c1" "c1 \<le> length data"
    using boundedD[where dec = "dec t v", OF _ x] "3.prems"(1)[of t v] "3.prems"(2-4) by auto
  show ?case
  proof (cases "sz \<le> c1 - flag")
    case True
    with x "3.prems" b show ?thesis by auto
  next
    case False
    with "3.prems"(5) x obtain ws where
      "decode_fields dec ts vs data flag sz c1 = Done (ws, c')" by auto
    with "3.IH"[OF x refl False] "3.prems"(1,2,4) b False show ?thesis by auto
  qed
qed auto

lemma bounded_struct:
  assumes "\<And>t v. t \<in> set ts \<Longrightarrow> bounded (dec t v)"
  shows "bounded (decode_struct dec ts vs)"
proof (rule boundedI)
  fix data :: bytes and c r c'
  assume c: "c \<le> length data" and d: "decode_struct dec ts vs data c = Done (r, c')"
  show "c \<le> c' \<and> c' \<le> length data"
  proof (cases "length data - c = 0")
    case False
    with d obtain n flag where n: "shine_serial_decode_size data c = Done (n, flag)"
      and rest: "(if n = 0 then Done (vs, flag) else if length data - flag < unat n then Reject
        else decode_fields dec ts vs data flag (unat n) flag) = Done (r, c')"
      by (auto simp: decode_struct_def)
    have b: "c \<le> flag" "flag \<le> length data" using boundedD[OF bounded_size n c] by auto
    from rest have "flag \<le> c' \<and> c' \<le> length data"
      using decode_fields_bounded[of ts dec flag flag "unat n" data vs r c'] assms b
      by (simp split: if_splits)
    with b show ?thesis by simp
  qed (use c d in \<open>auto simp: decode_struct_def\<close>)
qed

lemma decode_field_fun:
  "shine_serial_decode_field maxn TBool v = decode_bool_field"
  "shine_serial_decode_field maxn TByte v = decode_byte_field"
  "shine_serial_decode_field maxn (TInt s w) v =
     (\<lambda>d c. omap (VInt s w) (shine_serial_decode_integer s w d c))"
  "shine_serial_decode_field maxn TBytes v = decode_bytes_field maxn"
  "shine_serial_decode_field maxn (TFloat n) v = decode_float_field n"
  "shine_serial_decode_field maxn (TArray t) v = (\<lambda>d c. omap VArray
     (decode_array_field maxn t (shine_serial_decode_field maxn t) (vals_of v) d c))"
  "shine_serial_decode_field maxn (TForward t) v = (\<lambda>d c. omap VForward
     (decode_node_field (shine_serial_decode_field maxn t (sfresh t)) (#) (vals_of v) d c))"
  "shine_serial_decode_field maxn (TSet t) v = (\<lambda>d c. omap VSet
     (decode_node_field (shine_serial_decode_field maxn t (sfresh t)) (emplace_by (\<lambda>x. x))
       (vals_of v) d c))"
  "shine_serial_decode_field maxn (TMap tk tv) v = (\<lambda>d c. omap VMap
     (decode_node_field
       (\<lambda>d c. obind (shine_serial_decode_field maxn tk (sfresh tk) d c)
          (\<lambda>(k, c'). obind (shine_serial_decode_field maxn tv (sfresh tv) d c')
             (\<lambda>(x, c''). Done ((k, x), c''))))
       (emplace_by fst) (pairs_of v) d c))"
  "shine_serial_decode_field maxn (TStruct ts) v = (\<lambda>d c. omap VStruct
     (decode_struct (shine_serial_decode_field maxn) ts (vals_of v) d c))"
  by (rule ext, rule ext, simp)+

lemma decode_field_bounded: "bounded (shine_serial_decode_field maxn t old)"
proof (induction t arbitrary: old)
  case (TArray t)
  then show ?case unfolding decode_field_fun by (auto intro!: bounded_omap bounded_array)
next
  case (TForward t)
  then show ?case unfolding decode_field_fun by (auto intro!: bounded_omap bounded_node)
next
  case (TSet t)
  then show ?case unfolding decode_field_fun by (auto intro!: bounded_omap bounded_node)
next
  case (TMap tk tv)
  then show ?case unfolding decode_field_fun by (auto intro!: bounded_omap bounded_node bounded_pair)
next
  case (TStruct ts)
  then show ?case unfolding decode_field_fun by (auto intro!: bounded_omap bounded_struct)
qed (simp_all add: decode_field_fun bounded_omap bounded_bool bounded_byte bounded_float
    bounded_integer bounded_bytes)


section \<open>Lengths and malformed sizes\<close>

lemma size_bytes_length:
  "drop_bit (7 * k) n = 0 \<Longrightarrow> length (size_bytes n) \<le> max 1 k"
proof (induction k arbitrary: n)
  case (Suc k)
  have "drop_bit (7 * k) (drop_bit 7 n) = 0" using Suc.prems by (simp add: add.commute)
  then have *: "length (size_bytes (drop_bit 7 n)) \<le> max 1 k" by (rule Suc.IH)
  show ?case
  proof (cases "drop_bit 7 n = 0")
    case False
    with \<open>drop_bit (7 * k) (drop_bit 7 n) = 0\<close> have "1 \<le> k" by (cases k) auto
    with * show ?thesis by (subst size_bytes.simps) simp
  qed (subst size_bytes.simps, simp)
qed (subst size_bytes.simps, simp)

lemma size_bytes_le10: "length (size_bytes n) \<le> 10"
proof -
  have "drop_bit (7 * 10) n = 0" by (rule bit_word_eqI) (simp add: bit_simps)
  from size_bytes_length[OF this] show ?thesis by simp
qed

lemma int_chunks_length:
  "drop_bit (6 * k) n = 0 \<Longrightarrow> length (int_chunks n) \<le> max 1 k"
proof (induction k arbitrary: n)
  case (Suc k)
  have "drop_bit (6 * k) (drop_bit 6 n) = 0" using Suc.prems by (simp add: add.commute)
  then have *: "length (int_chunks (drop_bit 6 n)) \<le> max 1 k" by (rule Suc.IH)
  show ?case
  proof (cases "drop_bit 6 n = 0")
    case False
    with \<open>drop_bit (6 * k) (drop_bit 6 n) = 0\<close> have "1 \<le> k" by (cases k) auto
    with * show ?thesis by (subst int_chunks.simps) simp
  qed (subst int_chunks.simps, simp)
qed (subst int_chunks.simps, simp)

lemma int_bytes_le11: "length (int_bytes v) \<le> 11"
proof -
  let ?m = "word_of_int \<bar>v\<bar> :: u64"
  have "drop_bit (6 * 11) ?m = 0" by (rule bit_word_eqI) (simp add: bit_simps)
  from int_chunks_length[OF this] show ?thesis
    by (simp add: int_bytes_def Let_def int_chunks_eq)
qed

lemma decode_size_loop_undef:
  "i \<le> 9 \<Longrightarrow> c + i < length data \<Longrightarrow>
   decode_size_loop data c i val = Undef \<longleftrightarrow>
     10 < length data - c \<and> (\<forall>j\<in>{i..<10}. data ! (c + j) AND 0x80 \<noteq> 0)"
proof (induction "9 - i" arbitrary: i val)
  case 0
  then have i: "i = 9" by simp
  have "decode_size_loop data c 10 v = Undef" for v
    by (subst decode_size_loop.simps) simp
  with 0 i show ?case
    by (subst decode_size_loop.simps) (auto simp: Let_def atLeastLessThan_nat_numeral)
next
  case (Suc n)
  then have n: "n = 9 - Suc i" "Suc i \<le> 9" by auto
  have *: "{i..<10} = insert i {Suc i..<10}" using n(2) by auto
  have s: "\<not> 64 \<le> 7 * i" using n(2) by simp
  show ?case
    using Suc.hyps(1)[OF n] Suc.prems s n(2) unfolding *
    by (subst decode_size_loop.simps) (auto simp: Let_def)
qed

section \<open>The properties of the serialisation\<close>

text \<open>A struct with an integer, a string, a forward list and a map of arrays.\<close>

definition ex_type :: sty where
  "ex_type = TStruct [TInt True 32, TBytes, TForward (TInt False 16), TMap TBytes (TArray TBool)]"

definition ex_val :: sval where
  "ex_val = VStruct [VInt True 32 (-487), VBytes [104, 105],
     VForward [VInt False 16 1, VInt False 16 700],
     VMap [(VBytes [97], VArray [VBool True]), (VBytes [98], VArray [])]]"

definition ex_wire :: bytes where
  "ex_wire = [17, 231, 7, 2, 104, 105, 2, 188, 10, 1, 2, 1, 97, 1, 1, 1, 98, 0]"

lemma ex_typed: "has_type 100 ex_type ex_val"
  by (simp add: ex_type_def ex_val_def int_type_def neg_overflows_def)

lemma ex_encoded: "shine_serial_encode_field ex_val [7] = Done (7 # ex_wire)"
  by code_simp

text \<open>
  C17: Round trip. A value of a serialisable type, encoded onto any string and followed by any
  bytes, is decoded back from that position to the same value, and the position moves exactly
  past it, as long as the target's containers are empty and the buffer is addressable.
\<close>

theorem shine_serial_roundtrip:
  assumes "has_type maxn t v" and "blank t old" and "maxn < 2 ^ 64"
    and "shine_serial_encode_field v ret = Done s" and "length (s @ post) < 2 ^ 64"
  shows "shine_serial_decode_field maxn t old (s @ post) (length ret) = Done (v, length s)"
proof -
  have s: "s = ret @ wire v" using encode_field_wire[OF assms(1)] assms(4) by simp
  then have "drop (length ret) (s @ post) = wire v @ post" by simp
  with readsD[OF decode_field_wire[OF assms(1-3)] assms(5) this] s show ?thesis by simp
qed

theorem shine_serial_roundtrip_witness:
  "shine_serial_decode_field 100 ex_type (sfresh ex_type) ((7 # ex_wire) @ [9]) 1
     = Done (ex_val, 19)"
  using shine_serial_roundtrip[OF ex_typed blank_sfresh _ ex_encoded, of "[9]"]
  by (simp add: ex_wire_def)



text \<open>
  On arbitrary input, a field decoder that succeeds leaves the position inside the data
  and not before its start.
\<close>

theorem shine_serial_decode_position:
  assumes "c \<le> length data" and "shine_serial_decode_field maxn t old data c = Done (v, c')"
  shows "c \<le> c' \<and> c' \<le> length data"
  using boundedD[OF decode_field_bounded assms(2,1)] .

theorem shine_serial_decode_position_witness:
  "\<exists>v c'. shine_serial_decode_field 100 (TArray TBool) (VArray []) [9, 2, 1, 0, 5] 1 = Done (v, c')
     \<and> 1 \<le> c' \<and> c' \<le> 5"
proof -
  have "shine_serial_decode_field 100 (TArray TBool) (VArray []) [9, 2, 1, 0, 5] 1
      = Done (VArray [VBool True, VBool False], 4)" by code_simp
  with shine_serial_decode_position[OF _ this] show ?thesis by simp
qed

text \<open>
  Variable-length sizes. Inserted anywhere into a string, a size takes at most ten bytes
  and is read back from there.
\<close>

theorem shine_serial_size_roundtrip:
  assumes "pos \<le> length ret"
  shows "\<exists>bs. length bs \<le> 10
     \<and> shine_serial_encode_size n ret False pos = Done (take pos ret @ bs @ drop pos ret)
     \<and> shine_serial_decode_size (take pos ret @ bs @ drop pos ret) pos = Done (n, pos + length bs)"
  using encode_size_front[OF assms, of n] size_bytes_le10[of n] assms
    decode_size_bytes[of pos "take pos ret @ size_bytes n @ drop pos ret" n "drop pos ret"]
  by (intro exI[of _ "size_bytes n"]) simp

theorem shine_serial_size_roundtrip_witness:
  "\<exists>bs. shine_serial_encode_size 300 [1, 2] False 1 = Done (1 # bs @ [2])
     \<and> shine_serial_decode_size (1 # bs @ [2]) 1 = Done (300, 1 + length bs)"
  using shine_serial_size_roundtrip[of 1 "[1, 2]" 300] by auto

text \<open>
  Variable-length integers. Only the least value of a signed type of at least 32 bits
  leaves the defined behaviour; every other value of the type takes at most eleven bytes and
  is read back with its sign.
\<close>

theorem shine_serial_integer_roundtrip:
  assumes "int_type s w v"
  shows "if neg_overflows s w v then shine_serial_encode_integer s w v ret = Undef
    else \<exists>bs. length bs \<le> 11 \<and> shine_serial_encode_integer s w v ret = Done (ret @ bs)
      \<and> (\<forall>post. shine_serial_decode_integer s w (ret @ bs @ post) (length ret)
              = Done (v, length ret + length bs))"
proof (cases "neg_overflows s w v")
  case True
  then show ?thesis
    by (auto simp: shine_serial_encode_integer_def neg_overflows_def)
next
  case False
  have "shine_serial_decode_integer s w (ret @ int_bytes v @ post) (length ret)
      = Done (v, length ret + length (int_bytes v))" for post
    by (rule decode_integer_bytes[OF assms False]) simp
  moreover have "shine_serial_encode_integer s w v ret = Done (ret @ int_bytes v)"
    using False by (simp add: encode_integer_bytes)
  ultimately show ?thesis using False int_bytes_le11[of v] by auto
qed

theorem shine_serial_integer_roundtrip_witness:
  "\<exists>bs. shine_serial_encode_integer True 32 (-5) [] = Done bs
     \<and> shine_serial_decode_integer True 32 bs 0 = Done (-5, length bs)"
  using shine_serial_integer_roundtrip[of True 32 "-5" "[]"]
  by (fastforce simp: int_type_def neg_overflows_def dest: spec[of _ "[]"])

text \<open>
  A size that goes on for more than ten bytes, with the data going on, makes the decoder
  shift by 70, which is undefined; on no other input does it leave the defined behaviour.
\<close>

theorem shine_serial_decode_size_undefined:
  assumes "c < length data"
  shows "shine_serial_decode_size data c = Undef \<longleftrightarrow>
     10 < length data - c \<and> (\<forall>j\<in>{0..<10}. data ! (c + j) AND 0x80 \<noteq> 0)"
  using assms decode_size_loop_undef[of 0 c data 0]
  by (simp add: shine_serial_decode_size_def)

theorem shine_serial_decode_size_undefined_witness:
  "shine_serial_decode_size (replicate 12 255) 0 = Undef"
proof -
  have "\<forall>j\<in>{0..<10}. (replicate 12 (255 :: u8)) ! j AND 0x80 \<noteq> 0" by auto
  with shine_serial_decode_size_undefined[of 0 "replicate 12 255"] show ?thesis by simp
qed

text \<open>
  The bounds check of a byte string, whose sum wraps around: a length that exceeds the
  largest string and wraps to a position within the data passes it, and the assignment throws
  instead of the decoder returning false.
\<close>

theorem shine_serial_bytes_length_wraps:
  assumes "shine_serial_decode_size data c = Done (n, c')"
    and "maxn < unat n" and "unat (n + of_nat c') \<le> length data"
  shows "shine_serial_decode_field maxn TBytes old data c = Throws Length_error"
  using assms by (simp add: decode_bytes_field_def)

theorem shine_serial_bytes_length_wraps_witness:
  "shine_serial_decode_field 100 TBytes (VBytes [])
     [255, 255, 255, 255, 255, 255, 255, 255, 255, 1] 0 = Throws Length_error"
proof -
  have "shine_serial_decode_size [255, 255, 255, 255, 255, 255, 255, 255, 255, 1] 0
      = Done (0xFFFFFFFFFFFFFFFF, 10)" by code_simp
  from shine_serial_bytes_length_wraps[OF this, of 100] show ?thesis by simp
qed

end
