(* ===== verification/Package_Tool.thy ===== *)
theory Package_Tool
  imports Shine_Serial_Correct
begin

text \<open>
  The package header of \<^verbatim>\<open>Include/util/tool.hpp\<close>: two variable-length sizes, the length of
  the package and its identifier. The size routines are those of the serialisation written
  without a position; failure is the returned length 0, and the object decoded into keeps
  what the loop has written. The lemmas relate them to \<open>Shine_Serial\<close>.
\<close>

function encode_size :: "bytes \<Rightarrow> u64 \<Rightarrow> bytes" where
  "encode_size buf sz =
     (let ch = ucast (sz AND 0x7F); sz' = drop_bit 7 sz in
      if sz' \<noteq> 0 then encode_size (buf @ [ch OR 0x80]) sz' else buf @ [ch])"
  by pat_completeness auto
termination
  by (relation "measure (\<lambda>(_, n). unat n)") (auto intro: unat_drop_bit_less)

declare encode_size.simps [simp del]

function decode_size_from :: "bytes \<Rightarrow> nat \<Rightarrow> u64 \<Rightarrow> (u64 \<times> nat) outcome" where
  "decode_size_from data i val =
     (if 64 \<le> 7 * i \<or> length data \<le> i then Undef
      else
        let p = data ! i; val' = val OR push_bit (7 * i) (ucast (p AND 0x7F))
        in if p AND 0x80 \<noteq> 0
           then (if length data \<le> Suc i then Done (val', 0)
                 else decode_size_from data (Suc i) val')
           else Done (val', Suc i))"
  by pat_completeness auto
termination
  by (relation "measure (\<lambda>(_, i, _). 10 - i)") auto

declare decode_size_from.simps [simp del]

definition decode_size :: "u64 \<Rightarrow> bytes \<Rightarrow> (u64 \<times> nat) outcome" where
  "decode_size val data = (if length data < 1 then Done (val, 0) else decode_size_from data 0 0)"

record package_t =
  pkg_length :: u64
  pkg_identify :: u64

definition package_encode :: "package_t \<Rightarrow> bytes" where
  "package_encode p = encode_size (encode_size [] (pkg_length p)) (pkg_identify p)"

definition package_decode :: "package_t \<Rightarrow> bytes \<Rightarrow> (package_t \<times> nat) outcome" where
  "package_decode p data =
     obind (decode_size (pkg_length p) data) (\<lambda>(len, cost_len).
       let p = p\<lparr>pkg_length := len\<rparr> in
       if cost_len = 0 then Done (p, 0)
       else obind (decode_size (pkg_identify p) (drop cost_len data)) (\<lambda>(idf, cost_len2).
         let p = p\<lparr>pkg_identify := idf\<rparr> in
         if cost_len2 = 0 then Done (p, 0) else Done (p, cost_len + cost_len2)))"

lemma encode_size_bytes: "encode_size buf n = buf @ size_bytes n"
proof (induction buf n rule: encode_size.induct)
  case (1 buf n)
  then show ?case
    by (subst encode_size.simps, subst size_bytes.simps) (simp add: Let_def size_chunk_def)
qed

text \<open>The loop agrees with the one of the serialisation, up to how a failure is reported.\<close>

fun agrees :: "(u64 \<times> nat) outcome \<Rightarrow> (u64 \<times> nat) outcome \<Rightarrow> bool" where
  "agrees (Done r) s = (s = Done r \<and> snd r \<noteq> 0)"
| "agrees Reject s = (\<exists>v. s = Done (v, 0))"
| "agrees Undef s = (s = Undef)"
| "agrees (Throws e) s = False"

lemma decode_size_from_agrees:
  "i < length data \<Longrightarrow> agrees (decode_size_loop data 0 i val) (decode_size_from data i val)"
proof (induction data i val rule: decode_size_from.induct)
  case (1 data i val)
  show ?case
    using 1(1)[OF _ refl refl] 1(2)
    by (subst decode_size_loop.simps, subst decode_size_from.simps) (auto simp: Let_def)
qed

lemma decode_size_agrees: "agrees (shine_serial_decode_size data 0) (decode_size val data)"
  using decode_size_from_agrees[of 0 data 0]
  by (cases data) (auto simp: shine_serial_decode_size_def decode_size_def)

lemma decode_size_reads: "decode_size val (size_bytes n @ post) = Done (n, length (size_bytes n))"
  using decode_size_agrees[of "size_bytes n @ post" val]
    decode_size_bytes[of 0 "size_bytes n @ post" n post] by simp

text \<open>
  A package header is decoded back from the front of any data, whatever the object
  decoded into held before, and exactly its bytes are consumed.
\<close>

theorem package_roundtrip:
  "package_decode q (package_encode p @ post)
     = Done (q\<lparr>pkg_length := pkg_length p, pkg_identify := pkg_identify p\<rparr>, length (package_encode p))"
  by (simp add: package_decode_def package_encode_def encode_size_bytes decode_size_reads Let_def)

text \<open>
  The size routines of the package header and of the serialisation are equivalent: they
  write the same bytes, and read the same values from the same bytes, succeed, fail and leave
  the defined behaviour together.
\<close>

theorem package_size_equiv:
  "shine_serial_encode_size n buf True pos = Done (encode_size buf n)
   \<and> agrees (shine_serial_decode_size data 0) (decode_size val data)"
  by (simp add: encode_size_back encode_size_bytes decode_size_agrees)


text \<open>A size cut short: every byte but the last has its continuation bit.\<close>

lemma size_bytes_more: "Suc i < length (size_bytes n) \<Longrightarrow> size_bytes n ! i AND 0x80 \<noteq> 0"
proof (induction n arbitrary: i rule: size_bytes.induct)
  case (1 n)
  show ?case
  proof (cases "drop_bit 7 n = 0")
    case True
    with 1(2) show ?thesis by (subst (asm) size_bytes.simps) simp
  next
    case False
    then have eq: "size_bytes n = size_chunk n # size_bytes (drop_bit 7 n)"
      by (subst size_bytes.simps) simp
    show ?thesis
      using 1(1)[OF False] 1(2) False size_chunk_more[of n] unfolding eq by (cases i) auto
  qed
qed

lemma decode_size_from_more:
  "i < length data \<Longrightarrow> length data \<le> 9 \<Longrightarrow> (\<And>j. j < length data \<Longrightarrow> data ! j AND 0x80 \<noteq> 0) \<Longrightarrow>
   \<exists>v. decode_size_from data i val = Done (v, 0)"
proof (induction data i val rule: decode_size_from.induct)
  case (1 data i val)
  show ?case
    using 1(1)[OF _ refl refl] 1(2-4)
    by (subst decode_size_from.simps) (auto simp: Let_def)
qed

lemma decode_size_cut:
  assumes "k < length (size_bytes n)"
  shows "\<exists>v. decode_size val (take k (size_bytes n)) = Done (v, 0)"
proof (cases k)
  case (Suc k')
  have "\<exists>v. decode_size_from (take k (size_bytes n)) 0 0 = Done (v, 0)"
    using assms Suc size_bytes_le10[of n] size_bytes_more[of _ n]
    by (intro decode_size_from_more) auto
  then show ?thesis using assms Suc by (simp add: decode_size_def)
qed (simp add: decode_size_def)

text \<open>
  A package header that has not arrived in full is not taken for one: decoding any proper
  prefix of it returns 0.
\<close>

theorem package_truncated:
  assumes "k < length (package_encode p)"
  shows "\<exists>q'. package_decode q (take k (package_encode p)) = Done (q', 0)"
proof -
  let ?l = "size_bytes (pkg_length p)" and ?i = "size_bytes (pkg_identify p)"
  have e: "package_encode p = ?l @ ?i" by (simp add: package_encode_def encode_size_bytes)
  show ?thesis
  proof (cases "k < length ?l")
    case True
    with decode_size_cut[OF True, of "pkg_length q"] show ?thesis
      by (auto simp: e package_decode_def)
  next
    case False
    with assms have "k - length ?l < length ?i" by (simp add: e)
    from decode_size_cut[OF this, of "pkg_identify q"] False show ?thesis
      by (auto simp: e package_decode_def decode_size_reads Let_def)
  qed
qed

theorem package_truncated_witness:
  "\<exists>q'. package_decode \<lparr>pkg_length = 0, pkg_identify = 0\<rparr>
     (take 2 (package_encode \<lparr>pkg_length = 300, pkg_identify = 5\<rparr>)) = Done (q', 0)"
proof -
  have "package_encode \<lparr>pkg_length = 300, pkg_identify = 5\<rparr> = [172, 2, 5]" by code_simp
  then show ?thesis by (intro package_truncated) simp
qed

end
