(* ===== verification/Request_Queue.thy ===== *)
theory Request_Queue
  imports Prelude "HOL-Library.Multiset"
begin

text \<open>
  The blocking queue of \<^verbatim>\<open>Include/queue/queue.hpp\<close>. The operations are functions of the
  list \<open>m_list\<close>; every one that takes \<open>m_mutex\<close> is one step. Threads that share the queue
  are a step relation: \<open>Get\<close> on an empty list releases the mutex and waits on the condition
  until a \<open>Put\<close> notifies it (or it wakes up spuriously), and then tests the list again.
\<close>


section \<open>The operations\<close>

definition q_put :: "'a \<Rightarrow> 'a list \<Rightarrow> 'a list" where
  "q_put item m_list = m_list @ [item]"

definition q_is_empty :: "'a list \<Rightarrow> bool" where
  "q_is_empty m_list = (m_list = [])"

text \<open>One pass through \<open>Get\<close>: \<open>None\<close> when it has to wait.\<close>

definition q_get :: "'a list \<Rightarrow> ('a \<times> 'a list) option" where
  "q_get m_list = (if q_is_empty m_list then None else Some (hd m_list, tl m_list))"

fun q_erase :: "'a \<Rightarrow> 'a list \<Rightarrow> 'a list" where
  "q_erase item [] = []"
| "q_erase item (it # rest) = (if item = it then rest else it # q_erase item rest)"

definition q_clean :: "'a list \<Rightarrow> 'a list" where
  "q_clean m_list = (if \<not> q_is_empty m_list then [] else m_list)"

text \<open>\<open>QueueLength\<close> returns the size as an \<open>int\<close>.\<close>

definition q_length :: "'a list \<Rightarrow> int" where
  "q_length m_list = sint (of_nat (length m_list) :: u32)"

text \<open>\<open>GetQueueHead\<close>: \<open>None\<close> is the null pointer.\<close>

definition q_head :: "'a list \<Rightarrow> 'a option" where
  "q_head m_list = (if \<not> q_is_empty m_list then Some (hd m_list) else None)"


section \<open>The contract of a queue\<close>

text \<open>
  What clients rely on: a first-in first-out sequence of the items. \<open>drain\<close>, taking items
  until the queue is empty, gives them in order, which is proved once for every queue.
\<close>

locale fifo =
  fixes put :: "'a \<Rightarrow> 'q \<Rightarrow> 'q"
    and get :: "'q \<Rightarrow> ('a \<times> 'q) option"
    and items :: "'q \<Rightarrow> 'a list"
  assumes items_put: "items (put x q) = items q @ [x]"
    and get_None: "get q = None \<longleftrightarrow> items q = []"
    and get_Some: "get q = Some (x, q') \<Longrightarrow> items q = x # items q'"
begin

lemma get_put:
  "get (put x q) = Some (y, q') \<Longrightarrow> y # items q' = items q @ [x]"
  using get_Some[of "put x q" y q'] items_put[of x q] by simp

lemma items_puts: "items (fold put xs q) = items q @ xs"
  by (induction xs arbitrary: q) (auto simp: items_put)

fun gets :: "nat \<Rightarrow> 'q \<Rightarrow> 'a list \<times> 'q" where
  "gets 0 q = ([], q)"
| "gets (Suc n) q = (case get q of None \<Rightarrow> ([], q)
     | Some (x, q') \<Rightarrow> (let (xs, q'') = gets n q' in (x # xs, q'')))"

lemma gets_items:
  "gets n q = (xs, q') \<Longrightarrow> xs = take n (items q) \<and> items q' = drop n (items q)"
proof (induction n arbitrary: q xs q')
  case (Suc n)
  show ?case
  proof (cases "get q")
    case None
    with Suc.prems get_None[of q] show ?thesis by simp
  next
    case (Some r)
    then obtain x q1 where r: "get q = Some (x, q1)" by (cases r) auto
    with Suc.prems obtain ys where "gets n q1 = (ys, q')" "xs = x # ys"
      by (auto split: prod.splits)
    with Suc.IH[of q1 ys q'] get_Some[OF r] show ?thesis by simp
  qed
qed simp

lemma gets_after_puts:
  "items q = [] \<Longrightarrow> fst (gets (length xs) (fold put xs q)) = xs"
  using gets_items[of "length xs" "fold put xs q"] items_puts[of xs q]
  by (cases "gets (length xs) (fold put xs q)") auto

end

interpretation rq: fifo q_put q_get "\<lambda>q. q"
  by unfold_locales (auto simp: q_put_def q_get_def q_is_empty_def split: if_splits)

lemma q_erase_remove1: "q_erase x q = remove1 x q"
  by (induction q) auto

lemma q_head_get: "q_head q = map_option fst (q_get q)"
  by (simp add: q_head_def q_get_def)

lemma q_length_small: "length q < 2 ^ 31 \<Longrightarrow> q_length q = int (length q)"
  by (simp add: q_length_def signed_of_nat signed_take_bit_int_eq_self)


section \<open>Threads on one queue\<close>

text \<open>
  A thread is outside the queue, about to test the list inside \<open>Get\<close>, or waiting on the
  condition. \<open>qs_in\<close> and \<open>qs_out\<close> record what was put and what was got.
\<close>

datatype tpc = Outside | Testing | Waiting

record ('t, 'a) qstate =
  qs_list :: "'a list"
  qs_pc :: "'t \<Rightarrow> tpc"
  qs_in :: "'a list"
  qs_out :: "('t \<times> 'a) list"

definition q_init :: "('t, 'a) qstate" where
  "q_init = \<lparr>qs_list = [], qs_pc = (\<lambda>_. Outside), qs_in = [], qs_out = []\<rparr>"

definition threads_at :: "tpc \<Rightarrow> ('t \<Rightarrow> tpc) \<Rightarrow> 't set" where
  "threads_at p pc = {t. pc t = p}"

lemma threads_at_upd [simp]:
  "threads_at p (pc(t := p')) = (if p = p' then insert t (threads_at p pc) else threads_at p pc - {t})"
  by (auto simp: threads_at_def)

lemma threads_atI [intro]: "pc t = p \<Longrightarrow> t \<in> threads_at p pc"
  by (simp add: threads_at_def)

abbreviation testing :: "('t, 'a) qstate \<Rightarrow> 't set" where
  "testing s \<equiv> threads_at Testing (qs_pc s)"

abbreviation waiting :: "('t, 'a) qstate \<Rightarrow> 't set" where
  "waiting s \<equiv> threads_at Waiting (qs_pc s)"

text \<open>
  \<open>notify_one\<close> wakes one waiting thread if there is one. \<open>Put\<close> may be called by any thread
  that is outside. The list tested by \<open>Get\<close> decides between waiting and taking the head.
\<close>

inductive qstep :: "('t, 'a) qstate \<Rightarrow> ('t, 'a) qstate \<Rightarrow> bool" where
  put_wake: "qs_pc s t = Outside \<Longrightarrow> qs_pc s w = Waiting \<Longrightarrow>
    qstep s (s\<lparr>qs_list := q_put x (qs_list s), qs_in := qs_in s @ [x],
               qs_pc := (qs_pc s)(w := Testing)\<rparr>)"
| put_alone: "qs_pc s t = Outside \<Longrightarrow> waiting s = {} \<Longrightarrow>
    qstep s (s\<lparr>qs_list := q_put x (qs_list s), qs_in := qs_in s @ [x]\<rparr>)"
| get_enter: "qs_pc s t = Outside \<Longrightarrow> qstep s (s\<lparr>qs_pc := (qs_pc s)(t := Testing)\<rparr>)"
| get_wait: "qs_pc s t = Testing \<Longrightarrow> q_get (qs_list s) = None \<Longrightarrow>
    qstep s (s\<lparr>qs_pc := (qs_pc s)(t := Waiting)\<rparr>)"
| get_take: "qs_pc s t = Testing \<Longrightarrow> q_get (qs_list s) = Some (x, rest) \<Longrightarrow>
    qstep s (s\<lparr>qs_list := rest, qs_out := qs_out s @ [(t, x)],
               qs_pc := (qs_pc s)(t := Outside)\<rparr>)"
| spurious: "qs_pc s t = Waiting \<Longrightarrow> qstep s (s\<lparr>qs_pc := (qs_pc s)(t := Testing)\<rparr>)"

inductive q_reachable :: "('t, 'a) qstate \<Rightarrow> bool" where
  start: "q_reachable q_init"
| step: "q_reachable s \<Longrightarrow> qstep s s' \<Longrightarrow> q_reachable s'"

text \<open>
  The invariant: what went in is what came out followed by the list, in order; and while a
  thread waits, at least as many threads are on their way to the list as it has items.
\<close>

definition q_inv :: "('t, 'a) qstate \<Rightarrow> bool" where
  "q_inv s \<longleftrightarrow> qs_in s = map snd (qs_out s) @ qs_list s \<and>
     finite (testing s) \<and> (waiting s \<noteq> {} \<longrightarrow> length (qs_list s) \<le> card (testing s))"

lemma qstep_inv:
  assumes "qstep s s'" and "q_inv s"
  shows "q_inv s'"
  using assms
proof (cases rule: qstep.cases)
  case (put_wake t w x)
  then have w: "w \<notin> testing s" "waiting s \<noteq> {}" by (auto simp: threads_at_def)
  with put_wake assms(2) show ?thesis by (auto simp: q_inv_def q_put_def)
next
  case (get_take t x rest)
  then have t: "t \<in> testing s" by auto
  show ?thesis
    using get_take t assms(2) rq.get_Some[of "qs_list s" x rest]
    by (auto simp: q_inv_def card_Diff_singleton)
qed (auto simp: q_inv_def q_put_def card_insert_if rq.get_None intro: le_trans)

lemma q_init_inv: "q_inv q_init"
  by (simp add: q_inv_def q_init_def threads_at_def)

lemma q_reachable_inv: "q_reachable s \<Longrightarrow> q_inv s"
  by (induction rule: q_reachable.induct) (blast intro: qstep_inv q_init_inv)+

text \<open>
  C2: The queue is first-in first-out for any number of producers and consumers: at every
  reachable state the items got so far, in the order they were got, followed by those in the
  list are the items put, in the order they were put. Nothing is lost, doubled or reordered.
\<close>

theorem queue_fifo:
  assumes "q_reachable s"
  shows "qs_in s = map snd (qs_out s) @ qs_list s"
  using q_reachable_inv[OF assms] by (simp add: q_inv_def)

text \<open>
  C4: No wake-up is lost: at every reachable state in which a thread waits inside Get and the
  list has items, some thread is on its way to the list, and its next step takes an item.
\<close>

theorem queue_no_lost_wakeup:
  assumes "q_reachable s" and "qs_pc s w = Waiting" and "qs_list s \<noteq> []"
  shows "\<exists>t x rest. qs_pc s t = Testing \<and> q_get (qs_list s) = Some (x, rest)
    \<and> qstep s (s\<lparr>qs_list := rest, qs_out := qs_out s @ [(t, x)], qs_pc := (qs_pc s)(t := Outside)\<rparr>)"
proof -
  have "w \<in> waiting s" using assms(2) by auto
  then have "length (qs_list s) \<le> card (testing s)"
    using q_reachable_inv[OF assms(1)] by (auto simp: q_inv_def)
  with assms(3) have "testing s \<noteq> {}" by auto
  then obtain t where t: "qs_pc s t = Testing" by (auto simp: threads_at_def)
  obtain x rest where "q_get (qs_list s) = Some (x, rest)"
    using assms(3) rq.get_None[of "qs_list s"] by (cases "q_get (qs_list s)") auto
  with t show ?thesis by (blast intro: qstep.get_take)
qed

text \<open>
  A run in which the consumers 1 and 2 find the list empty and wait, and the producer 0 puts
  an item and wakes 1.
\<close>

definition ex_q1 :: "(nat, nat) qstate" where
  "ex_q1 = \<lparr>qs_list = [7], qs_pc = (\<lambda>_. Outside)(1 := Waiting, 2 := Waiting, 1 := Testing), qs_in = [7],
     qs_out = []\<rparr>"

lemma ex_q1_reachable: "q_reachable ex_q1"
proof -
  let ?O = "\<lambda>_. Outside :: tpc"
  let ?s = "\<lambda>pc. \<lparr>qs_list = [], qs_pc = pc, qs_in = [], qs_out = []\<rparr> :: (nat, nat) qstate"
  have 0: "q_reachable (?s ?O)" using q_reachable.start by (simp add: q_init_def)
  have 1: "q_reachable (?s (?O(1 := Testing)))"
    using q_reachable.step[OF 0 qstep.get_enter[of _ 1]] by simp
  have 2: "q_reachable (?s (?O(1 := Waiting)))"
    using q_reachable.step[OF 1 qstep.get_wait[of _ 1]] by (simp add: q_get_def q_is_empty_def)
  have 3: "q_reachable (?s (?O(1 := Waiting, 2 := Testing)))"
    using q_reachable.step[OF 2 qstep.get_enter[of _ 2]] by simp
  have 4: "q_reachable (?s (?O(1 := Waiting, 2 := Waiting)))"
    using q_reachable.step[OF 3 qstep.get_wait[of _ 2]] by (simp add: q_get_def q_is_empty_def)
  show ?thesis
    using q_reachable.step[OF 4 qstep.put_wake[of _ 0 1 7]]
    by (simp add: ex_q1_def q_put_def)
qed

theorem queue_fifo_witness: "qs_in ex_q1 = map snd (qs_out ex_q1) @ qs_list ex_q1"
  by (rule queue_fifo[OF ex_q1_reachable])

theorem queue_no_lost_wakeup_witness:
  "\<exists>t x rest. qs_pc ex_q1 t = Testing \<and> q_get (qs_list ex_q1) = Some (x, rest)"
proof -
  have "qs_pc ex_q1 2 = Waiting" and "qs_list ex_q1 \<noteq> []" by (simp_all add: ex_q1_def)
  from queue_no_lost_wakeup[OF ex_q1_reachable this] show ?thesis by blast
qed

end
