(* ===== verification/Http_Parser.thy ===== *)
theory Http_Parser
  imports Shine_String
begin

text \<open>
  The HTTP messages of \<^verbatim>\<open>Include/http/hpp/http_parser.hpp\<close>: requests and responses, their
  encoders and the decoders of their headers. The decoder works on the C string of the
  buffer; a position is an index into it, and a failed \<open>strstr\<close> whose result is used all the
  same is undefined. The header fields are decoded by one loop, which both messages share.
\<close>

type_synonym entry_t = "string \<times> string"

record header =
  version :: string
  content_type :: string
  entrys :: "entry_t list"
  content_length :: nat
  body :: string

record request = header +
  http_method :: string
  host :: string
  url :: string
  url_parameters :: "entry_t list"

record response = header +
  status_code :: nat
  status_desc :: string
  is_chunk :: bool

definition new_request :: request where
  "new_request = \<lparr>version = ''HTTP/1.1'', content_type = [], entrys = [], content_length = 0,
     body = [], http_method = [], host = [], url = [], url_parameters = []\<rparr>"

definition new_response :: response where
  "new_response = \<lparr>version = ''HTTP/1.1'', content_type = [], entrys = [], content_length = 0,
     body = [], status_code = 200, status_desc = [], is_chunk = False\<rparr>"

definition add_entry :: "entry_t \<Rightarrow> 'a header_scheme \<Rightarrow> 'a header_scheme" where
  "add_entry e h = h\<lparr>entrys := entrys h @ [e]\<rparr>"

definition status_descs :: "(nat \<times> string) list" where
  "status_descs = [
     (101, ''Switching Protocols''),
     (200, ''OK''),
     (201, ''Created''),
     (202, ''Accepted''),
     (203, ''Non-Authoritative Information (for DNS)''),
     (204, ''No Content''),
     (205, ''Reset Content''),
     (206, ''Partial Content''),
     (300, ''Multiple Choices''),
     (301, ''Moved Permanently''),
     (302, ''Moved Temporarily''),
     (303, ''See Other''),
     (304, ''Not Modified''),
     (305, ''Use Proxy''),
     (307, ''Redirect Keep Verb''),
     (400, ''Bad Request''),
     (401, ''Unauthorized''),
     (402, ''Payment Required''),
     (403, ''Forbidden''),
     (404, ''Not Found''),
     (405, ''Bad Request''),
     (406, ''Not Acceptable''),
     (407, ''Proxy Authentication Required''),
     (408, ''Request Timed-Out''),
     (409, ''Conflict''),
     (410, ''Gone''),
     (411, ''Length Required''),
     (412, ''Precondition Failed''),
     (413, ''Request Entity Too Large''),
     (414, ''Request, URI Too Large''),
     (415, ''Unsupported Media Type''),
     (500, ''Internal Server Error''),
     (501, ''Not Implemented''),
     (502, ''Bad Gateway''),
     (503, ''Server Unavailable''),
     (504, ''Gateway Timed-Out''),
     (505, ''HTTP Version not supported'')]"

definition get_status_code_desc :: "nat \<Rightarrow> string" where
  "get_status_code_desc status =
     (case map_of status_descs status of None \<Rightarrow> ''unknown'' | Some d \<Rightarrow> d)"

definition crlf :: string where
  "crlf = [CHR 0x0D, CHR 0x0A]"


section \<open>Decoding\<close>

text \<open>
  The fields from position \<open>data\<close> up to the empty line at \<open>header_end + 2\<close>; \<open>put\<close> stores a
  field. The boolean is false when the decoder returns -1.
\<close>

function decode_entrys ::
    "(entry_t \<Rightarrow> 'r \<Rightarrow> 'r) \<Rightarrow> string \<Rightarrow> nat \<Rightarrow> nat \<Rightarrow> 'r \<Rightarrow> ('r \<times> bool) outcome" where
  "decode_entrys put s header_end data r =
     (if data < header_end + 2
      then (case find_from s '': '' data of
              None \<Rightarrow> Done (r, False)
            | Some tmp \<Rightarrow>
                let k = take (tmp - data) (drop data s) in
                case find_from s crlf (tmp + 2) of
                  None \<Rightarrow> Undef
                | Some tmp' \<Rightarrow>
                    let v = take (tmp' - (tmp + 2)) (drop (tmp + 2) s)
                    in decode_entrys put s header_end (tmp' + 2) (put (k, v) r))
      else Done (r, True))"
  by pat_completeness auto
termination
  by (relation "measure (\<lambda>(_, _, header_end, data, _). header_end + 2 - data)")
     (auto dest!: find_from_SomeD)

declare decode_entrys.simps [simp del]

text \<open>
  The parameters of a request's URL. \<open>emplace\<close> keeps the first value of a key. A length
  below zero wraps around and takes all the rest.
\<close>

function decode_parameters :: "string \<Rightarrow> nat \<Rightarrow> entry_t list \<Rightarrow> entry_t list" where
  "decode_parameters ps cost_len m =
     (if cost_len < length ps
      then let pa_pos = (case find_from ps ''&'' cost_len of None \<Rightarrow> length ps | Some p \<Rightarrow> p);
               m = (case find_from ps ''='' cost_len of
                      None \<Rightarrow> m
                    | Some k_pos \<Rightarrow>
                        kv_emplace (take (k_pos - cost_len) (drop cost_len ps))
                          (if k_pos + 1 \<le> pa_pos
                           then take (pa_pos - (k_pos + 1)) (drop (k_pos + 1) ps)
                           else drop (k_pos + 1) ps) m)
           in decode_parameters ps (pa_pos + 1) m
      else m)"
  by pat_completeness auto
termination
  by (relation "measure (\<lambda>(ps, c, _). length ps - c)")
     (auto split: option.splits dest!: find_from_SomeD)

declare decode_parameters.simps [simp del]

definition decode_url_parameters :: "request \<Rightarrow> request" where
  "decode_url_parameters r =
     (case find_sub ''?'' (url r) of
        None \<Rightarrow> r
      | Some pos \<Rightarrow>
          r\<lparr>url_parameters := decode_parameters (drop (pos + 1) (url r)) 0 (url_parameters r),
            url := take pos (url r)\<rparr>)"

definition put_request_entry :: "entry_t \<Rightarrow> request \<Rightarrow> request" where
  "put_request_entry e r =
     (if fst e = ''Content-Length'' then r\<lparr>content_length := nat (to_uint64 (snd e))\<rparr>
      else if fst e = ''Host'' then r\<lparr>host := snd e\<rparr>
      else add_entry e r)"

definition request_decode_header :: "request \<Rightarrow> string \<Rightarrow> (request \<times> bool) outcome" where
  "request_decode_header r buf =
     (let s = c_str buf in
      case find_sub (crlf @ crlf) s of
        None \<Rightarrow> Done (r, False)
      | Some header_end \<Rightarrow>
      case find_from s '' '' 0 of
        None \<Rightarrow> Done (r, False)
      | Some tmp \<Rightarrow>
          let r = r\<lparr>http_method := take tmp s\<rparr>; data = tmp + 1 in
      case find_from s '' '' data of
        None \<Rightarrow> Done (r, False)
      | Some tmp \<Rightarrow>
          let r = decode_url_parameters (r\<lparr>url := take (tmp - data) (drop data s)\<rparr>);
              data = tmp + 1 in
      case find_from s crlf data of
        None \<Rightarrow> Done (r, False)
      | Some tmp \<Rightarrow>
          let r = r\<lparr>version := take (tmp - data) (drop data s)\<rparr> in
          decode_entrys put_request_entry s header_end (tmp + 2) r)"

definition put_response_entry :: "entry_t \<Rightarrow> response \<Rightarrow> response" where
  "put_response_entry e r =
     (if fst e = ''Content-Length'' then r\<lparr>content_length := nat (to_uint64 (snd e))\<rparr>
      else if fst e = ''Transfer-Encoding'' \<and> snd e = ''chunked'' then r\<lparr>is_chunk := True\<rparr>
      else add_entry e r)"

text \<open>
  The response decoder overwrites the space after the status code with a NUL to read the
  number; it never looks back at it.
\<close>

definition response_decode_header :: "response \<Rightarrow> string \<Rightarrow> (response \<times> bool) outcome" where
  "response_decode_header r buf =
     (let s = c_str buf in
      case find_sub (crlf @ crlf) s of
        None \<Rightarrow> Done (r, False)
      | Some header_end \<Rightarrow>
      case find_from s '' '' 0 of
        None \<Rightarrow> Done (r, False)
      | Some tmp \<Rightarrow>
          let r = r\<lparr>version := take tmp s\<rparr>; data = tmp + 1 in
      case find_from s '' '' data of
        None \<Rightarrow> Done (r, False)
      | Some tmp \<Rightarrow>
          let r = r\<lparr>status_code := nat (take_bit 16 (atoi (take (tmp - data) (drop data s))))\<rparr>;
              data = tmp + 1 in
      case find_from s crlf data of
        None \<Rightarrow> Done (r, False)
      | Some tmp \<Rightarrow>
          let r = r\<lparr>status_desc := take (tmp - data) (drop data s)\<rparr> in
          decode_entrys put_response_entry s header_end (tmp + 2) r)"


section \<open>Encoding\<close>

definition encode_entry :: "entry_t \<Rightarrow> string" where
  "encode_entry e = fst e @ '': '' @ snd e @ crlf"

definition encode_length :: "string \<Rightarrow> string" where
  "encode_length b =
     (if 0 < length b then ''Content-Length: '' @ string_of_integer (int (length b)) @ crlf else [])"

definition request_encode :: "request \<Rightarrow> string outcome" where
  "request_encode r =
     (if http_method r = [] \<or> url r = [] \<or> version r = [] then Reject
      else Done
        (http_method r @ '' '' @ url r @ '' '' @ version r @ crlf
         @ (if length (content_type r) \<noteq> 0 then ''Content-Type: '' @ content_type r @ crlf else [])
         @ ''Accept: */* '' @ crlf
         @ ''Host: '' @ host r @ crlf
         @ concat (map encode_entry (entrys r))
         @ encode_length (body r)
         @ crlf @ body r))"

definition response_encode :: "response \<Rightarrow> string outcome" where
  "response_encode r =
     (if version r = [] then Reject
      else Done
        (version r @ '' '' @ string_of_integer (int (status_code r)) @ '' ''
         @ get_status_code_desc (status_code r) @ crlf
         @ concat (map encode_entry (entrys r))
         @ encode_length (body r)
         @ crlf @ body r))"

definition request_clear :: "request \<Rightarrow> request" where
  "request_clear r = r\<lparr>content_length := 0, entrys := [], url_parameters := []\<rparr>"

definition response_clear :: "response \<Rightarrow> response" where
  "response_clear r = r\<lparr>content_length := 0, entrys := []\<rparr>"

end
