(* ===== verification/Http_Parser_Correct.thy ===== *)
theory Http_Parser_Correct
  imports Http_Parser
begin

text \<open>
  Correctness of the HTTP messages: what the header decoders return on the encoders' output,
  and the decoding of URL parameters.
\<close>


section \<open>The fields\<close>

definition line_ok :: "string \<Rightarrow> bool" where
  "line_ok s \<longleftrightarrow> CHR 0x0D \<notin> set s \<and> CHR 0x00 \<notin> set s"

definition entry_ok :: "entry_t \<Rightarrow> bool" where
  "entry_ok e \<longleftrightarrow> fst e \<noteq> [] \<and> CHR '':'' \<notin> set (fst e) \<and> line_ok (fst e) \<and> line_ok (snd e)"

definition entry_line :: "entry_t \<Rightarrow> string" where
  "entry_line e = fst e @ '': '' @ snd e"

lemma encode_entry_line: "encode_entry e = entry_line e @ crlf"
  by (simp add: encode_entry_def entry_line_def)

lemma length_crlf: "length crlf = 2"
  by (simp add: crlf_def)

lemma entry_line_ok: "entry_ok e \<Longrightarrow> line_ok (entry_line e) \<and> entry_line e \<noteq> []"
  by (auto simp: entry_ok_def entry_line_def line_ok_def)

lemma find_empty_line:
  "line_ok l \<Longrightarrow> list_all entry_ok es \<Longrightarrow>
   find_sub (crlf @ crlf) (l @ crlf @ concat (map encode_entry es) @ crlf @ rest)
     = Some (length l + length (concat (map encode_entry es)))"
proof (induction es arbitrary: l)
  case Nil
  then show ?case
    using find_sub_head[of "CHR 0x0D" l "CHR 0x0A # crlf" rest] by (simp add: crlf_def line_ok_def)
next
  case (Cons e es)
  let ?t = "concat (map encode_entry es) @ crlf @ rest"
  have e: "line_ok (entry_line e)" "entry_line e \<noteq> []" using entry_line_ok Cons.prems by auto
  then obtain x xs where x: "entry_line e = x # xs" "x \<noteq> CHR 0x0D"
    by (cases "entry_line e") (auto simp: line_ok_def)
  have "find_sub (crlf @ crlf) (crlf @ entry_line e @ crlf @ ?t)
      = map_option (Suc \<circ> Suc) (find_sub (crlf @ crlf) (entry_line e @ crlf @ ?t))"
    using x(2) by (simp add: x(1) crlf_def find_sub_Cons option.map_comp comp_assoc)
  also have "\<dots> = Some (2 + length (entry_line e) + length (concat (map encode_entry es)))"
    using Cons.IH[OF e(1)] Cons.prems by simp
  finally have "find_sub (crlf @ crlf) (crlf @ entry_line e @ crlf @ ?t)
      = Some (2 + length (entry_line e) + length (concat (map encode_entry es)))" .
  moreover have "find_sub (crlf @ crlf) (l @ u) = map_option ((+) (length l)) (find_sub (crlf @ crlf) u)" for u
    using find_sub_skip[of "CHR 0x0D" l "CHR 0x0A # crlf" u] Cons.prems
    by (simp add: crlf_def line_ok_def)
  ultimately show ?case by (simp add: encode_entry_line[of e] length_crlf)
qed

lemma drop_appended: "drop c s = a @ t \<Longrightarrow> drop (c + length a) s = t"
  by (metis add.commute append_eq_conv_conj drop_drop)

lemma drop_le: "drop c s = a @ t \<Longrightarrow> a \<noteq> [] \<Longrightarrow> c + length a + length t = length s \<and> c \<le> length s"
  by (metis append_is_Nil_conv drop_all length_append length_drop le_add_diff_inverse add.assoc nat_le_linear)

lemma find_from_line:
  assumes "drop pos s = l @ crlf @ rest" and "line_ok l"
  shows "find_from s crlf pos = Some (pos + length l)"
proof -
  have "drop pos s = (l @ crlf) @ rest" using assms(1) by simp
  then have "pos \<le> length s" using drop_le by (fastforce simp: crlf_def)
  with assms show ?thesis
    using find_from_skip[of pos s l "CHR 0x0D" "[CHR 0x0A]" rest]
    by (simp add: crlf_def line_ok_def)
qed

lemma find_from_char:
  assumes "drop pos s = l @ c # rest" and "c \<notin> set l"
  shows "find_from s [c] pos = Some (pos + length l)"
proof -
  have "drop pos s = (l @ [c]) @ rest" using assms(1) by simp
  then have "pos \<le> length s" using drop_le by fastforce
  with assms show ?thesis using find_from_skip[of pos s l c "[]" rest] by simp
qed

lemma decode_entrys_text:
  "drop data s = concat (map encode_entry es) @ crlf @ rest \<Longrightarrow> list_all entry_ok es \<Longrightarrow>
   header_end + 2 = data + length (concat (map encode_entry es)) \<Longrightarrow>
   decode_entrys put s header_end data r = Done (fold put es r, True)"
proof (induction es arbitrary: data r)
  case Nil
  then show ?case by (subst decode_entrys.simps) simp
next
  case (Cons e es)
  obtain k v where e: "e = (k, v)" by (cases e)
  let ?t = "concat (map encode_entry es) @ crlf @ rest"
  have ok: "CHR '':'' \<notin> set k" "line_ok v" "k \<noteq> []"
    using Cons.prems(2) e by (auto simp: entry_ok_def)
  have d: "drop data s = k @ (CHR '':'' # '' '') @ (v @ crlf @ ?t)"
    using Cons.prems(1) by (simp add: encode_entry_def[of "(k, v)"] e)
  have le: "data \<le> length s" using drop_le[OF d ok(3)] by simp
  have f1: "find_from s '': '' data = Some (data + length k)"
    using find_from_skip[OF d ok(1) le] by simp
  have d2: "drop (data + length k + 2) s = v @ crlf @ ?t"
    using drop_appended[OF drop_appended[OF d]] by simp
  have f2: "find_from s crlf (data + length k + 2) = Some (data + length k + 2 + length v)"
    by (rule find_from_line[OF d2 ok(2)])
  let ?next = "data + length k + 2 + length v + 2"
  have d3: "drop ?next s = ?t" using drop_appended[OF drop_appended[OF d2]] by (simp add: crlf_def)
  have "decode_entrys put s header_end ?next (put (k, v) r) = Done (fold put es (put (k, v) r), True)"
    using Cons.prems(2,3) e by (intro Cons.IH[OF d3]) (auto simp: encode_entry_def crlf_def)
  moreover have "data < header_end + 2" using Cons.prems(3) e by (simp add: encode_entry_def)
  ultimately show ?case
    using f1 f2 d d2 e by (subst decode_entrys.simps) (simp add: Let_def)
qed


section \<open>Messages\<close>

text \<open>A header: a first line, the fields and the empty line, in any buffer.\<close>

lemma c_str_header:
  assumes "CHR 0x00 \<notin> set h"
  shows "c_str (h @ rest) = h @ c_str rest"
  unfolding c_str_def by (rule takeWhile_append2) (use assms in blast)

lemma entrys_no_NUL: "list_all entry_ok es \<Longrightarrow> CHR 0x00 \<notin> set (concat (map encode_entry es))"
  by (auto simp: list_all_iff entry_ok_def encode_entry_def line_ok_def crlf_def)

definition request_ok :: "request \<Rightarrow> bool" where
  "request_ok r \<longleftrightarrow> http_method r \<noteq> [] \<and> url r \<noteq> [] \<and> version r \<noteq> []
     \<and> line_ok (http_method r) \<and> line_ok (url r) \<and> line_ok (version r) \<and> line_ok (host r)
     \<and> line_ok (content_type r) \<and> CHR '' '' \<notin> set (http_method r) \<and> CHR '' '' \<notin> set (url r)
     \<and> CHR ''?'' \<notin> set (url r) \<and> list_all entry_ok (entrys r)
     \<and> (\<forall>e\<in>set (entrys r). fst e \<noteq> ''Content-Length'' \<and> fst e \<noteq> ''Host'')
     \<and> length (body r) < 2 ^ 63"

text \<open>The fields of an encoded request, as entries.\<close>

definition length_entrys :: "string \<Rightarrow> entry_t list" where
  "length_entrys b =
     (if b \<noteq> [] then [(''Content-Length'', string_of_integer (int (length b)))] else [])"

definition request_entrys :: "request \<Rightarrow> entry_t list" where
  "request_entrys r =
     (if content_type r \<noteq> [] then [(''Content-Type'', content_type r)] else [])
     @ [(''Accept'', ''*/* ''), (''Host'', host r)] @ entrys r @ length_entrys (body r)"

lemma number_line_ok: "line_ok (string_of_integer (int n))"
proof -
  have "x \<noteq> CHR 0x2E" "x \<noteq> CHR 0x0D" "x \<noteq> CHR 0x00" if "x \<in> set (show_nat n)" for x
    using show_nat_digits[OF that] by (auto simp: is_digit_def)
  then have "CHR 0x2E \<notin> set (show_nat n)" "CHR 0x0D \<notin> set (show_nat n)" "CHR 0x00 \<notin> set (show_nat n)"
    by blast+
  then show ?thesis
    by (simp add: line_ok_def string_of_integer_def number_to_string_def show_int_def
        find_sub_char_None[THEN iffD2])
qed

lemma length_entrys_ok: "list_all entry_ok (length_entrys b)"
  using number_line_ok by (simp add: length_entrys_def entry_ok_def line_ok_def)

lemma encode_length_entrys: "encode_length b = concat (map encode_entry (length_entrys b))"
  by (simp add: encode_length_def length_entrys_def encode_entry_def)

lemma request_entrys_ok: "request_ok r \<Longrightarrow> list_all entry_ok (request_entrys r)"
  using length_entrys_ok[of "body r"]
  by (auto simp: request_ok_def request_entrys_def entry_ok_def line_ok_def)

lemma request_encode_entrys:
  assumes "request_ok r"
  shows "request_encode r = Done ((http_method r @ '' '' @ url r @ '' '' @ version r) @ crlf
     @ concat (map encode_entry (request_entrys r)) @ crlf @ body r)"
  using assms
  by (simp add: request_encode_def request_ok_def request_entrys_def encode_entry_def
      encode_length_entrys)


lemma fold_add_entrys:
  "\<forall>e\<in>set es. fst e \<noteq> ''Content-Length'' \<and> fst e \<noteq> ''Host'' \<Longrightarrow>
   fold put_request_entry es r = r\<lparr>entrys := entrys r @ es\<rparr>"
  by (induction es arbitrary: r) (auto simp: put_request_entry_def add_entry_def)

lemma to_uint64_length: "n < 2 ^ 63 \<Longrightarrow> nat (to_uint64 (string_of_integer (int n))) = n"
proof -
  assume n: "n < 2 ^ 63"
  have "CHR 0x2E \<notin> set (show_nat n)"
    using show_nat_digits[of "CHR 0x2E" n] by (auto simp: is_digit_def)
  then have "string_of_integer (int n) = show_int (int n)"
    by (simp add: string_of_integer_def number_to_string_def show_int_def
        find_sub_char_None[THEN iffD2])
  moreover have "atoll (show_int (int n)) = int n" using n by (intro atoll_show_int) auto
  ultimately show ?thesis
    using n by (simp add: to_uint64_def take_bit_int_eq_self)
qed

lemma fold_length_entrys:
  assumes "length b < 2 ^ 63"
  shows "fold put_request_entry (length_entrys b) r
           = (if b = [] then r else r\<lparr>content_length := length b\<rparr>)"
    and "fold put_response_entry (length_entrys b) q
           = (if b = [] then q else q\<lparr>content_length := length b\<rparr>)"
  using to_uint64_length[OF assms]
  by (auto simp: length_entrys_def put_request_entry_def put_response_entry_def)

text \<open>
  A first line of three words and the fields: where the decoders find its parts.
\<close>

lemma header_parts:
  assumes s: "s = (a @ '' '' @ b @ '' '' @ c) @ crlf @ concat (map encode_entry es) @ crlf @ rest"
    and ok: "line_ok a" "line_ok b" "line_ok c" "CHR '' '' \<notin> set a" "CHR '' '' \<notin> set b"
    and es: "list_all entry_ok es"
  defines "p1 \<equiv> length a + 1" and "p2 \<equiv> length a + 1 + length b + 1"
  shows "find_sub (crlf @ crlf) s
      = Some (p2 + length c + length (concat (map encode_entry es)))"
    and "find_from s '' '' 0 = Some (length a)"
    and "find_from s '' '' p1 = Some (p1 + length b)"
    and "find_from s crlf p2 = Some (p2 + length c)"
    and "take (length a) s = a" and "take (length b) (drop p1 s) = b"
    and "take (length c) (drop p2 s) = c"
    and "decode_entrys put s (p2 + length c + length (concat (map encode_entry es)))
           (p2 + length c + 2) r = Done (fold put es r, True)"
proof -
  let ?fs = "concat (map encode_entry es)"
  have d0: "drop 0 s = a @ CHR '' '' # b @ '' '' @ c @ crlf @ ?fs @ crlf @ rest" using s by simp
  have d1: "drop p1 s = b @ CHR '' '' # c @ crlf @ ?fs @ crlf @ rest"
    using s by (simp add: p1_def)
  have d2: "drop p2 s = c @ crlf @ ?fs @ crlf @ rest" using s by (simp add: p2_def)
  have d3: "drop (p2 + length c + 2) s = ?fs @ crlf @ rest"
    using drop_appended[OF drop_appended[OF d2]] by (simp add: crlf_def)
  have "line_ok (a @ '' '' @ b @ '' '' @ c)" using ok by (auto simp: line_ok_def)
  from find_empty_line[OF this es, of rest] s
  show "find_sub (crlf @ crlf) s = Some (p2 + length c + length ?fs)" by (simp add: p2_def)
  show "find_from s '' '' 0 = Some (length a)" "find_from s '' '' p1 = Some (p1 + length b)"
    "find_from s crlf p2 = Some (p2 + length c)"
    using find_from_char[OF d0 ok(4)] find_from_char[OF d1 ok(5)] find_from_line[OF d2 ok(3)]
    by simp_all
  show "take (length a) s = a" "take (length b) (drop p1 s) = b" "take (length c) (drop p2 s) = c"
    using d0 d1 d2 by simp_all
  show "decode_entrys put s (p2 + length c + length ?fs) (p2 + length c + 2) r
      = Done (fold put es r, True)"
    by (rule decode_entrys_text[OF d3 es]) simp
qed

lemma fold_request_entrys:
  assumes "request_ok r"
  shows "fold put_request_entry (request_entrys r) q = q\<lparr>host := host r,
      entrys := entrys q @ (if content_type r \<noteq> [] then [(''Content-Type'', content_type r)] else [])
        @ [(''Accept'', ''*/* '')] @ entrys r,
      content_length := (if body r = [] then content_length q else length (body r))\<rparr>"
  using assms fold_add_entrys[of "entrys r"] fold_length_entrys(1)[of "body r"]
  by (simp add: request_entrys_def request_ok_def)
     (simp add: put_request_entry_def add_entry_def)


definition ex_request :: request where
  "ex_request = new_request\<lparr>http_method := ''POST'', url := ''/request'', host := ''10.0.0.1:80'',
     content_type := ''application/json'', body := ''{}''\<rparr>"



section \<open>Responses\<close>

definition response_ok :: "response \<Rightarrow> bool" where
  "response_ok r \<longleftrightarrow> version r \<noteq> [] \<and> line_ok (version r) \<and> CHR '' '' \<notin> set (version r)
     \<and> status_code r < 2 ^ 16 \<and> list_all entry_ok (entrys r)
     \<and> (\<forall>e\<in>set (entrys r). fst e \<noteq> ''Content-Length'' \<and> e \<noteq> (''Transfer-Encoding'', ''chunked''))
     \<and> length (body r) < 2 ^ 63"

lemma status_descs_ok: "list_all (\<lambda>(c, d). line_ok d) status_descs"
  by (simp add: status_descs_def line_ok_def)

lemma status_desc_ok: "line_ok (get_status_code_desc n)"
proof (cases "map_of status_descs n")
  case (Some d)
  from map_of_SomeD[OF this] status_descs_ok show ?thesis
    using Some by (auto simp: get_status_code_desc_def list_all_iff)
qed (simp add: get_status_code_desc_def line_ok_def)

lemma status_number:
  assumes "n < 2 ^ 16"
  shows "nat (take_bit 16 (atoi (string_of_integer (int n)))) = n"
    and "CHR '' '' \<notin> set (string_of_integer (int n))"
proof -
  have "CHR 0x2E \<notin> set (show_nat n)" and sp: "CHR '' '' \<notin> set (show_nat n)"
    by (auto simp: is_digit_def dest!: show_nat_digits)
  then have *: "string_of_integer (int n) = show_int (int n)"
    by (simp add: string_of_integer_def number_to_string_def show_int_def
        find_sub_char_None[THEN iffD2])
  have "atoi (show_int (int n)) = int n" using assms by (intro atoi_show_int) auto
  with * assms show "nat (take_bit 16 (atoi (string_of_integer (int n)))) = n"
    by (simp add: take_bit_int_eq_self)
  show "CHR '' '' \<notin> set (string_of_integer (int n))" using * sp by (simp add: show_int_def)
qed

lemma fold_response_entrys:
  "\<forall>e\<in>set es. fst e \<noteq> ''Content-Length'' \<and> e \<noteq> (''Transfer-Encoding'', ''chunked'') \<Longrightarrow>
   fold put_response_entry es r = r\<lparr>entrys := entrys r @ es\<rparr>"
  by (induction es arbitrary: r) (auto simp: put_response_entry_def add_entry_def prod_eq_iff)

text \<open>The text of a response up to its body, which is decoded whatever follows it.\<close>

definition response_head :: "response \<Rightarrow> string" where
  "response_head r = (version r @ '' '' @ string_of_integer (int (status_code r)) @ '' ''
     @ get_status_code_desc (status_code r)) @ crlf
     @ concat (map encode_entry (entrys r @ length_entrys (body r))) @ crlf"

definition decoded_from :: "response \<Rightarrow> response \<Rightarrow> response" where
  "decoded_from r r0 =
     r0\<lparr>version := version r, status_code := status_code r,
       status_desc := get_status_code_desc (status_code r), entrys := entrys r0 @ entrys r,
       content_length := (if body r = [] then content_length r0 else length (body r))\<rparr>"

lemma response_words_ok:
  assumes "response_ok r"
  shows "line_ok (version r)" "line_ok (string_of_integer (int (status_code r)))"
    "line_ok (get_status_code_desc (status_code r))" "CHR '' '' \<notin> set (version r)"
    "CHR '' '' \<notin> set (string_of_integer (int (status_code r)))"
    "list_all entry_ok (entrys r @ length_entrys (body r))"
  using assms number_line_ok status_desc_ok status_number(2) length_entrys_ok
  by (simp_all add: response_ok_def)

lemma response_head_no_NUL: "response_ok r \<Longrightarrow> CHR 0x00 \<notin> set (response_head r)"
  using response_words_ok[of r] entrys_no_NUL[of "entrys r @ length_entrys (body r)"]
  by (auto simp: response_head_def line_ok_def crlf_def)

lemma response_decode_head:
  assumes ok: "response_ok r"
  shows "response_decode_header r0 (response_head r @ rest) = Done (decoded_from r r0, True)"
proof -
  let ?n = "string_of_integer (int (status_code r))" and ?d = "get_status_code_desc (status_code r)"
  let ?es = "entrys r @ length_entrys (body r)"
  have s: "c_str (response_head r @ rest) = (version r @ '' '' @ ?n @ '' '' @ ?d) @ crlf
      @ concat (map encode_entry ?es) @ crlf @ c_str rest"
    using c_str_header[OF response_head_no_NUL[OF ok], of rest] by (simp add: response_head_def)
  note parts = header_parts[OF s response_words_ok[OF ok]]
  have "fold put_response_entry (entrys r) q = q\<lparr>entrys := entrys q @ entrys r\<rparr>" for q
    using ok by (intro fold_response_entrys) (simp add: response_ok_def)
  with ok fold_length_entrys(2)[of "body r"] status_number(1)[of "status_code r"] show ?thesis
    unfolding response_decode_header_def Let_def parts option.case diff_add_inverse
    by (simp add: response_ok_def decoded_from_def)
qed

lemma response_encode_head:
  "response_ok r \<Longrightarrow> response_encode r = Done (response_head r @ body r)"
  by (simp add: response_encode_def response_ok_def encode_length_entrys response_head_def)


definition ex_response :: response where
  "ex_response = new_response\<lparr>status_code := 404, entrys := [(''Server'', ''robot'')], body := ''no''\<rparr>"



section \<open>URL parameters\<close>

definition param_ok :: "entry_t \<Rightarrow> bool" where
  "param_ok kv \<longleftrightarrow> CHR ''&'' \<notin> set (fst kv) \<and> CHR ''='' \<notin> set (fst kv) \<and> CHR ''&'' \<notin> set (snd kv)"

definition param :: "entry_t \<Rightarrow> string" where
  "param kv = fst kv @ ''='' @ snd kv"

fun params :: "entry_t list \<Rightarrow> string" where
  "params [] = []"
| "params [kv] = param kv"
| "params (kv # kv' # kvs) = param kv @ ''&'' @ params (kv' # kvs)"

lemma find_from_char_None:
  "drop pos s = t \<Longrightarrow> c \<notin> set t \<Longrightarrow> find_from s [c] pos = None"
  by (auto simp: find_from_def find_sub_char_None[THEN iffD2])

lemma decode_parameters_step:
  assumes d: "drop c ps = param kv @ rest" and ok: "param_ok kv"
    and rest: "rest = [] \<or> (\<exists>t. rest = CHR ''&'' # t)"
  shows "decode_parameters ps c m
    = decode_parameters ps (c + length (param kv) + 1) (kv_emplace (fst kv) (snd kv) m)"
proof -
  obtain k v where kv: "kv = (k, v)" by (cases kv)
  have d1: "drop c ps = k @ CHR ''='' # (v @ rest)" using d kv by (simp add: param_def)
  have le: "c < length ps" "c + length k + 1 + length v + length rest = length ps"
    using drop_le[of c ps "k @ ''=''" "v @ rest"] d1 by auto
  have eq: "find_from ps ''='' c = Some (c + length k)"
    using ok kv by (intro find_from_char[OF d1]) (simp add: param_ok_def)
  have amp: "(case find_from ps ''&'' c of None \<Rightarrow> length ps | Some p \<Rightarrow> p) = c + length k + 1 + length v"
  proof (cases "rest = []")
    case True
    with d1 ok kv have "find_from ps ''&'' c = None"
      by (intro find_from_char_None[OF d1]) (auto simp: param_ok_def)
    with le True show ?thesis by simp
  next
    case False
    with rest obtain t where t: "rest = CHR ''&'' # t" by auto
    have "drop c ps = (k @ ''='' @ v) @ CHR ''&'' # t" using d1 t by simp
    from find_from_char[OF this] ok kv show ?thesis by (simp add: param_ok_def)
  qed
  have "take (length k) (drop c ps) = k" "take (length v) (drop (c + length k + 1) ps) = v"
    using d1 drop_appended[of c ps "k @ ''=''" "v @ rest"] by simp_all
  with le eq amp kv show ?thesis
    by (subst decode_parameters.simps) (simp add: Let_def param_def add.assoc)
qed

lemma decode_parameters_params:
  "drop c ps = params kvs \<Longrightarrow> list_all param_ok kvs \<Longrightarrow>
   decode_parameters ps c m = fold (\<lambda>kv. kv_emplace (fst kv) (snd kv)) kvs m"
proof (induction kvs arbitrary: c m rule: params.induct)
  case 1
  then show ?case by (subst decode_parameters.simps) simp
next
  case (2 kv)
  have "decode_parameters ps (c + length (param kv) + 1) q = q" for q
    using drop_le[of c ps "param kv" "[]"] 2 by (subst decode_parameters.simps) (simp add: param_def)
  with decode_parameters_step[of c ps kv "[]" m] 2 show ?case by simp
next
  case (3 kv kv' kvs)
  have d: "drop c ps = (param kv @ ''&'') @ params (kv' # kvs)" using 3(2) by simp
  have "drop (c + length (param kv) + 1) ps = params (kv' # kvs)" using drop_appended[OF d] by simp
  from 3(1)[OF this] 3(3) decode_parameters_step[of c ps kv "''&'' @ params (kv' # kvs)" m] d
  show ?case by simp
qed

text \<open>
  The parameters of a URL are collected into a map in which the first value of a repeated
  key wins. A parameter without a value, however, is not skipped: the key of the next
  parameter swallows it.
\<close>

theorem http_parameters:
  assumes "list_all param_ok kvs" and "CHR ''&'' \<notin> set flag" and "CHR ''='' \<notin> set flag"
    and "param_ok (k, v)"
  shows "decode_parameters (params kvs) 0 [] = fold (\<lambda>kv. kv_emplace (fst kv) (snd kv)) kvs []
    \<and> decode_parameters (flag @ ''&'' @ param (k, v)) 0 []
        = kv_emplace k v [(flag @ ''&'' @ k, v)]"
proof -
  let ?ps = "flag @ ''&'' @ param (k, v)"
  have "find_from ?ps ''&'' 0 = Some (0 + length flag)"
    using assms(2) by (intro find_from_char[of 0 ?ps flag _ "param (k, v)"]) simp_all
  moreover have "find_from ?ps ''='' 0 = Some (0 + length (flag @ ''&'' @ k))"
    using assms(3,4) by (intro find_from_char[of 0 ?ps "flag @ ''&'' @ k" _ v])
      (simp_all add: param_def param_ok_def)
  ultimately have "decode_parameters ?ps 0 []
      = decode_parameters ?ps (length flag + 1) [(flag @ ''&'' @ k, v)]"
    by (subst decode_parameters.simps) (simp add: Let_def param_def)
  also have "\<dots> = kv_emplace k v [(flag @ ''&'' @ k, v)]"
    using decode_parameters_params[of "length flag + 1" ?ps "[(k, v)]"] assms(4) by simp
  finally show ?thesis using decode_parameters_params[of 0 "params kvs" kvs] assms(1) by simp
qed

theorem http_parameters_witness:
  "decode_parameters ''a=1&b=2&a=3'' 0 [] = [(''a'', ''1''), (''b'', ''2'')]
   \<and> decode_parameters ''flag&b=2'' 0 [] = [(''b'', ''2''), (''flag&b'', ''2'')]"
proof -
  have "decode_parameters (params [(''a'', ''1''), (''b'', ''2''), (''a'', ''3'')]) 0 []
      = fold (\<lambda>kv. kv_emplace (fst kv) (snd kv)) [(''a'', ''1''), (''b'', ''2''), (''a'', ''3'')] []
    \<and> decode_parameters (''flag'' @ ''&'' @ param (''b'', ''2'')) 0 []
      = kv_emplace ''b'' ''2'' [(''flag'' @ ''&'' @ ''b'', ''2'')]"
    by (rule http_parameters) (simp_all add: param_ok_def)
  then show ?thesis by (simp add: param_def less_char_def)
qed

end
