(* ===== verification/Http_Client.thy ===== *)
theory Http_Client
  imports Http_Parser
begin

text \<open>
  The HTTP client of \<^verbatim>\<open>Include/http/hpp/http_client.hpp\<close>: the hexadecimal reader, the state
  machine that receives responses from fragments of the stream, the part of the asynchronous
  client that starts a call, and the synchronous call over a socket whose system calls are an
  environment of results.
\<close>


section \<open>Hexadecimal numbers\<close>

text \<open>
  \<open>htoi\<close> takes every letter for a digit. Exceeding an \<open>int\<close> is undefined.
\<close>

definition hex_value :: "char \<Rightarrow> int" where
  "hex_value c =
     (let l = int (code (to_lower_char c)) in if 57 < l then 10 + l - 97 else l - 48)"

fun htoi_loop :: "int \<Rightarrow> string \<Rightarrow> int outcome" where
  "htoi_loop n [] = Done n"
| "htoi_loop n (c # s) =
     (if is_alnum c
      then (let n = 16 * n + hex_value c in if 2 ^ 31 \<le> n then Undef else htoi_loop n s)
      else Done n)"

definition htoi :: "string \<Rightarrow> int outcome" where
  "htoi s =
     (case c_str s of
        a # b # rest \<Rightarrow>
          htoi_loop 0 (if a = CHR ''0'' \<and> (b = CHR ''x'' \<or> b = CHR ''X'') then rest else a # b # rest)
      | t \<Rightarrow> htoi_loop 0 t)"


section \<open>Receiving\<close>

datatype http_step = e_decode_header | e_decode_body | e_decode_done

record client =
  sync_mode :: bool
  recv_timeout :: nat
  http_step :: http_step
  recv_buf :: string
  buf_pos :: nat
  handler :: bool
  handled :: "response list"
  req :: request
  resp :: response

text \<open>
  A size minus a position beyond it wraps around; \<open>remaining\<close> is the mathematical difference
  and the tests say what the wrapped one gives.
\<close>

definition remaining :: "client \<Rightarrow> int" where
  "remaining c = int (length (recv_buf c)) - int (buf_pos c)"

definition at_least :: "nat \<Rightarrow> client \<Rightarrow> bool" where
  "at_least n c \<longleftrightarrow> remaining c < 0 \<or> int n \<le> remaining c"

text \<open>
  The chunks from position \<open>pos\<close>: the result tells whether the last chunk was reached, the
  position behind what was taken and the body. The body is appended to as chunks come.
\<close>

function chunk_loop :: "string \<Rightarrow> nat \<Rightarrow> string \<Rightarrow> (bool \<times> nat \<times> string) outcome" where
  "chunk_loop buf pos b =
     (case find_from buf crlf pos of
        None \<Rightarrow> Done (False, pos, b)
      | Some flag \<Rightarrow>
          let tmp = take (flag - pos) (drop pos buf); pos = flag + 2
          in obind (htoi tmp) (\<lambda>len.
               if len > 0
               then if length buf < pos + nat len + 2 then Done (False, pos, b)
                    else chunk_loop buf (pos + nat len + 2) (b @ take (nat len) (drop pos buf))
               else Done (True, pos + 2, b)))"
  by pat_completeness auto
termination
  by (relation "measure (\<lambda>(buf, pos, _). length buf + 2 - pos)")
     (auto dest!: find_from_SomeD simp: crlf_def)

declare chunk_loop.simps [simp del]

datatype recv_result = Return bool client | Continue client

text \<open>The two blocks of the loop of \<open>recv_callback\<close>.\<close>

definition recv_header :: "client \<Rightarrow> recv_result outcome" where
  "recv_header c =
     (case find_from (recv_buf c) (crlf @ crlf) (buf_pos c) of
        None \<Rightarrow> Done (Return (\<not> at_least 1024 c) c)
      | Some pos \<Rightarrow>
          obind (response_decode_header (resp c) (drop (buf_pos c) (recv_buf c))) (\<lambda>(r, ok).
            let c = c\<lparr>resp := r\<rparr> in
            if \<not> ok then Done (Return False c)
            else Done (Continue (c\<lparr>buf_pos := pos + 4, http_step := e_decode_body\<rparr>))))"

definition recv_finish :: "client \<Rightarrow> recv_result" where
  "recv_finish c =
     (if sync_mode c then Return True (c\<lparr>http_step := e_decode_done\<rparr>)
      else Continue (c\<lparr>http_step := e_decode_header,
                       handled := (if handler c then handled c @ [resp c] else handled c)\<rparr>))"

definition recv_body :: "client \<Rightarrow> recv_result outcome" where
  "recv_body c =
     (if \<not> is_chunk (resp c) then
        if \<not> at_least (content_length (resp c)) c then Done (Return True c)
        else Done (recv_finish
               (c\<lparr>resp := resp c\<lparr>body := drop (buf_pos c) (recv_buf c)\<rparr>,
                  buf_pos := buf_pos c + content_length (resp c)\<rparr>))
      else
        obind (chunk_loop (recv_buf c) (buf_pos c) []) (\<lambda>(last, pos, b).
          let c = c\<lparr>buf_pos := pos, resp := resp c\<lparr>body := b\<rparr>\<rparr>
          in if last then Done (recv_finish c) else Done (Return True c)))"

definition recv_round :: "client \<Rightarrow> recv_result outcome" where
  "recv_round c =
     (if int (length (recv_buf c)) = int (buf_pos c)
      then Done (Return True (c\<lparr>recv_buf := [], buf_pos := 0\<rparr>))
      else obind (if http_step c = e_decode_body then Done (Continue c) else recv_header c) (\<lambda>r.
             case r of Return b c \<Rightarrow> Done (Return b c) | Continue c \<Rightarrow> recv_body c))"

lemma chunk_loop_pos: "chunk_loop buf pos b = Done (l, pos', b') \<Longrightarrow> pos \<le> pos'"
proof (induction buf pos b rule: chunk_loop.induct)
  case (1 buf pos b)
  show ?case
  proof (cases "find_from buf crlf pos")
    case None
    with 1(2) show ?thesis by (subst (asm) chunk_loop.simps) simp
  next
    case (Some flag)
    let ?p = "flag + 2" and ?h = "htoi (take (flag - pos) (drop pos buf))"
    have "chunk_loop buf pos b = obind ?h (\<lambda>len. if len > 0
        then if length buf < ?p + nat len + 2 then Done (False, ?p, b)
             else chunk_loop buf (?p + nat len + 2) (b @ take (nat len) (drop ?p buf))
        else Done (True, ?p + 2, b))"
      by (subst chunk_loop.simps) (simp only: Some Let_def option.case)
    with 1(2) obtain len where len: "?h = Done len"
      and rest: "(if len > 0
        then if length buf < ?p + nat len + 2 then Done (False, ?p, b)
             else chunk_loop buf (?p + nat len + 2) (b @ take (nat len) (drop ?p buf))
        else Done (True, ?p + 2, b)) = Done (l, pos', b')" by auto
    from rest 1(1)[OF Some refl refl len] find_from_SomeD[OF Some] show ?thesis
      by (auto split: if_splits)
  qed
qed

text \<open>
  Every round that goes on has consumed a header, or the body of one consumed before; a round
  in the body moves the state to the next header.
\<close>

definition recv_measure :: "client \<Rightarrow> nat" where
  "recv_measure c =
     2 * (length (recv_buf c) - buf_pos c) + (if http_step c = e_decode_body then 1 else 0)"

lemma recv_body_Continue:
  "recv_body c = Done (Continue c') \<Longrightarrow>
     recv_buf c' = recv_buf c \<and> buf_pos c \<le> buf_pos c' \<and> http_step c' = e_decode_header"
  by (auto simp: recv_body_def recv_finish_def Let_def split: if_splits dest!: chunk_loop_pos)

lemma recv_header_Continue:
  "recv_header c = Done (Continue c') \<Longrightarrow>
     recv_buf c' = recv_buf c \<and> buf_pos c + 4 \<le> buf_pos c' \<and> buf_pos c' \<le> length (recv_buf c)
     \<and> http_step c' = e_decode_body"
  by (auto simp: recv_header_def Let_def crlf_def split: option.splits if_splits
      dest!: find_from_SomeD)

lemma recv_round_measure:
  "recv_round c = Done (Continue c') \<Longrightarrow> recv_measure c' < recv_measure c"
  by (auto simp: recv_round_def recv_measure_def split: recv_result.splits if_splits
      dest!: recv_body_Continue recv_header_Continue)

function recv_rounds :: "client \<Rightarrow> (bool \<times> client) outcome" where
  "recv_rounds c = obind (recv_round c) (\<lambda>r.
     case r of Return b c' \<Rightarrow> Done (b, c') | Continue c' \<Rightarrow> recv_rounds c')"
  by pat_completeness auto
termination
  by (relation "measure recv_measure") (auto dest: recv_round_measure)

declare recv_rounds.simps [simp del]

definition recv_callback :: "string \<Rightarrow> client \<Rightarrow> (bool \<times> client) outcome" where
  "recv_callback data c = recv_rounds (c\<lparr>recv_buf := recv_buf c @ data\<rparr>)"


section \<open>Calls\<close>

definition new_client :: "bool \<Rightarrow> client" where
  "new_client sync = \<lparr>sync_mode = sync, recv_timeout = 3000, http_step = e_decode_header,
     recv_buf = [], buf_pos = 0, handler = False, handled = [], req = new_request,
     resp = new_response\<rparr>"

text \<open>\<open>async_client::call\<close>: the text handed to \<open>async_send\<close>.\<close>

definition async_call :: "bool \<Rightarrow> client \<Rightarrow> (string \<times> client) outcome" where
  "async_call callback c =
     (let c = (if callback then c\<lparr>handler := True\<rparr> else c) in
      if \<not> handler c then Reject
      else obind (request_encode (req c)) (\<lambda>data. Done (data, c)))"

text \<open>
  The environment of a synchronous call: whether \<open>socket\<close> and \<open>connect\<close> succeed, the results of
  the \<open>send\<close>s, and what the \<open>recv\<close>s deliver, \<open>None\<close> for a result that is not positive. The
  wire records what the peer gets. \<open>None\<close> as a whole: the call waits for more results.
\<close>

record net_env =
  connects :: bool
  sends :: "int list"
  recvs :: "string option list"

definition connect_addr :: "client \<Rightarrow> string" where
  "connect_addr c = (let addr = host (req c) in
     if \<not> contains addr '':'' then addr @ '':80'' else addr)"

text \<open>The send loop: \<open>len\<close> is a \<open>size_t\<close>, every \<open>send\<close> passes the whole text.\<close>

fun send_loop :: "string \<Rightarrow> u64 \<Rightarrow> int list \<Rightarrow> string \<Rightarrow> (bool \<times> string) option" where
  "send_loop data len rcs wire =
     (if len = 0 then Some (True, wire)
      else case rcs of
             [] \<Rightarrow> None
           | rc # rcs' \<Rightarrow>
               if rc \<le> 0 then Some (False, wire)
               else send_loop data (len - word_of_int rc) rcs' (wire @ take (nat rc) data))"

declare send_loop.simps [simp del]

fun recv_loop :: "string option list \<Rightarrow> client \<Rightarrow> (bool \<times> client) outcome option" where
  "recv_loop [] c = None"
| "recv_loop (None # rs) c = Some (Done (False, c))"
| "recv_loop (Some data # rs) c =
     (case recv_callback data c of
        Done (ok, c') \<Rightarrow>
          if \<not> ok then Some (Done (False, c'))
          else if http_step c' = e_decode_done then Some (Done (True, c'))
          else recv_loop rs c'
      | Reject \<Rightarrow> Some Reject | Throws e \<Rightarrow> Some (Throws e) | Undef \<Rightarrow> Some Undef)"

definition start_receive :: "client \<Rightarrow> client" where
  "start_receive c = c\<lparr>http_step := e_decode_header, recv_buf := [], buf_pos := 0,
     resp := response_clear (resp c)\<rparr>"

definition sync_call :: "net_env \<Rightarrow> client \<Rightarrow> (bool \<times> client) outcome option" where
  "sync_call env c =
     (case request_encode (req c) of
        Done data \<Rightarrow>
          if \<not> connects env then Some (Done (False, c))
          else (case send_loop data (of_nat (length data)) (sends env) [] of
                  None \<Rightarrow> None
                | Some (sent, wire) \<Rightarrow>
                    if \<not> sent then Some (Done (False, c))
                    else recv_loop (recvs env) (start_receive c))
      | _ \<Rightarrow> Some (Done (False, c)))"

end
