(* ===== verification/Http_Client_Correct.thy ===== *)
theory Http_Client_Correct
  imports Http_Client Http_Parser_Correct Shine_String_Correct
begin

text \<open>
  Correctness of the HTTP client: a response is received the same however the stream is cut
  into fragments, a chunked body is put together from its chunks, and what the send loop puts
  on the wire.
\<close>


section \<open>Receiving a response in fragments\<close>

lemma find_sub_take_None:
  assumes "find_sub p t = Some i" and "n < i + length p"
  shows "find_sub p (take n t) = None"
  unfolding find_sub_None_iff
proof (intro allI impI)
  fix j assume j: "j \<le> length (take n t)"
  show "\<not> prefix p (drop j (take n t))"
  proof
    assume "prefix p (drop j (take n t))"
    then obtain z where z: "drop j (take n t) = p @ z" by (auto simp: prefix_def)
    have "drop j t = drop j (take n t) @ drop n t"
      using j by (metis append_take_drop_id drop_append diff_is_0_eq drop0)
    with z have "prefix p (drop j t)" by simp
    moreover have "j + length p \<le> length (take n t)"
    proof -
      have "length (take n t) - j = length p + length z" using arg_cong[OF z, of length] by simp
      with j show ?thesis by linarith
    qed
    then have "j < i" using assms(2) by simp
    ultimately show False using find_sub_SomeD[OF assms(1)] by blast
  qed
qed

lemma response_head_find:
  assumes "response_ok r"
  shows "find_sub (crlf @ crlf) (response_head r @ rest) = Some (length (response_head r) - 4)"
    and "4 \<le> length (response_head r)"
proof -
  have l: "line_ok (version r @ '' '' @ string_of_integer (int (status_code r)) @ '' ''
      @ get_status_code_desc (status_code r))"
    using response_words_ok[OF assms] by (auto simp: line_ok_def)
  from find_empty_line[OF l response_words_ok(6)[OF assms], of rest]
  show "find_sub (crlf @ crlf) (response_head r @ rest) = Some (length (response_head r) - 4)"
    by (simp add: response_head_def length_crlf)
  show "4 \<le> length (response_head r)" by (simp add: response_head_def length_crlf)
qed

text \<open>
  The states of a synchronous client that waits for the response \<open>r\<close> and has received a
  proper prefix of its text: in the header, or in the body with the header decoded.
\<close>

definition waiting :: "response \<Rightarrow> client \<Rightarrow> string \<Rightarrow> client \<Rightarrow> bool" where
  "waiting r c0 got c \<longleftrightarrow>
     (if length got < length (response_head r)
      then c = c0\<lparr>http_step := e_decode_header, recv_buf := got, buf_pos := 0\<rparr>
      else c = c0\<lparr>http_step := e_decode_body, recv_buf := got,
                 buf_pos := length (response_head r), resp := decoded_from r (resp c0)\<rparr>)"

definition received :: "response \<Rightarrow> client \<Rightarrow> client \<Rightarrow> bool" where
  "received r c0 c \<longleftrightarrow> http_step c = e_decode_done \<and>
     resp c = (decoded_from r (resp c0))\<lparr>body := body r\<rparr>"

text \<open>The body step, with the buffer holding the header and part of the body.\<close>

lemma recv_body_waiting:
  assumes c: "c = c0\<lparr>http_step := e_decode_body, recv_buf := response_head r @ part,
      buf_pos := length (response_head r), resp := decoded_from r (resp c0)\<rparr>"
    and c0: "sync_mode c0" "\<not> is_chunk (resp c0)" and b: "body r \<noteq> []"
    and part: "prefix part (body r)"
  shows "if part = body r then \<exists>c'. recv_body c = Done (Return True c') \<and> received r c0 c'
    else recv_body c = Done (Return True c)"
proof -
  have len: "length part < length (body r) \<longleftrightarrow> part \<noteq> body r"
    using part by (auto simp: prefix_def)
  have "content_length (resp c) = length (body r)" "\<not> is_chunk (resp c)"
    using c c0 b by (simp_all add: decoded_from_def)
  moreover have "remaining c = int (length part)" using c by (simp add: remaining_def)
  ultimately show ?thesis
    using len c c0 by (auto simp: recv_body_def recv_finish_def at_least_def received_def)
qed

lemma client_updates:
  "c\<lparr>recv_buf := b, resp := r, buf_pos := p, http_step := s\<rparr>
   = c\<lparr>http_step := s, recv_buf := b, buf_pos := p, resp := r\<rparr>"
  by (rule client.equality) simp_all

lemma recv_callback_waiting:
  assumes ok: "response_ok r" and b: "body r \<noteq> []" and h: "length (response_head r) \<le> 1024"
    and c0: "sync_mode c0" "\<not> is_chunk (resp c0)"
    and w: "waiting r c0 got c" and d: "data \<noteq> []"
    and p: "prefix (got @ data) (response_head r @ body r)"
  shows "if got @ data = response_head r @ body r
    then \<exists>c'. recv_callback data c = Done (True, c') \<and> received r c0 c'
    else \<exists>c'. recv_callback data c = Done (True, c') \<and> waiting r c0 (got @ data) c'"
proof -
  let ?h = "response_head r" and ?t = "response_head r @ body r"
  let ?c = "c\<lparr>recv_buf := got @ data\<rparr>"
  have cb: "recv_callback data c = recv_rounds ?c"
    using w by (auto simp: recv_callback_def waiting_def split: if_splits)
  have take: "got @ data = take (length (got @ data)) ?t"
    using p by (metis append_eq_conv_conj prefixE)
  show ?thesis
  proof (cases "length (got @ data) < length ?h")
    case True
    then have c: "?c = c0\<lparr>http_step := e_decode_header, recv_buf := got @ data, buf_pos := 0\<rparr>"
      using w by (simp add: waiting_def)
    have "find_sub (crlf @ crlf) (got @ data) = None"
      using find_sub_take_None[OF response_head_find(1)[OF ok], of "length (got @ data)" "body r"]
        response_head_find(2)[OF ok] True take by (simp add: length_crlf)
    then have "recv_rounds ?c = Done (True, ?c)"
      using True h d unfolding c
      by (subst recv_rounds.simps)
         (simp add: recv_round_def recv_header_def at_least_def remaining_def flip: of_nat_add)
    moreover have "got @ data \<noteq> ?t"
    proof
      assume "got @ data = ?t"
      with True show False by (metis length_append linorder_not_less le_add1)
    qed
    moreover have "waiting r c0 (got @ data) ?c" using True c by (simp add: waiting_def)
    ultimately show ?thesis using cb by auto
  next
    case False
    then obtain part where part: "got @ data = ?h @ part" "prefix part (body r)"
      using p by (metis linorder_not_less prefix_length_prefix prefix_prefix prefixE prefix_append same_prefix_prefix prefixI)
    let ?b = "c0\<lparr>http_step := e_decode_body, recv_buf := got @ data, buf_pos := length ?h,
        resp := decoded_from r (resp c0)\<rparr>"
    have round: "recv_round ?c = recv_body ?b"
    proof (cases "length got < length ?h")
      case True
      then have c: "?c = c0\<lparr>http_step := e_decode_header, recv_buf := ?h @ part, buf_pos := 0\<rparr>"
        using w part by (simp add: waiting_def)
      show ?thesis
        unfolding c using response_head_find[OF ok] response_decode_head[OF ok] part
        by (simp add: recv_round_def recv_header_def client_updates)
    next
      case False
      then have "?c = ?b" using w by (simp add: waiting_def)
      moreover have "part \<noteq> []" using part(1) d False by (metis append_Nil2 append_eq_append_conv_if length_append length_greater_0_conv less_add_same_cancel1 linorder_not_less)
      ultimately show ?thesis using part by (simp add: recv_round_def)
    qed
    have e: "got @ data = ?t \<longleftrightarrow> part = body r" using part by simp
    have "waiting r c0 (got @ data) ?b" using part by (simp add: waiting_def)
    have body: "if part = body r then \<exists>c'. recv_body ?b = Done (Return True c') \<and> received r c0 c'
        else recv_body ?b = Done (Return True ?b)"
      by (rule recv_body_waiting[OF _ c0 b part(2)]) (simp add: part(1))
    have "recv_rounds ?c = obind (recv_body ?b) (\<lambda>r. case r of Return b c' \<Rightarrow> Done (b, c')
        | Continue c' \<Rightarrow> recv_rounds c')"
      by (subst recv_rounds.simps) (simp only: round)
    with body e cb \<open>waiting r c0 (got @ data) ?b\<close> show ?thesis
      by (cases "part = body r") auto
  qed
qed

lemma recv_loop_waiting:
  assumes ok: "response_ok r" and b: "body r \<noteq> []" and h: "length (response_head r) \<le> 1024"
    and c0: "sync_mode c0" "\<not> is_chunk (resp c0)"
  shows "waiting r c0 got c \<Longrightarrow> fs \<noteq> [] \<Longrightarrow> [] \<notin> set fs
    \<Longrightarrow> got @ concat fs = response_head r @ body r
    \<Longrightarrow> \<exists>c'. recv_loop (map Some fs @ rs) c = Some (Done (True, c')) \<and> received r c0 c'"
proof (induction fs arbitrary: got c)
  case Nil
  then show ?case by simp
next
  case (Cons f fs)
  have "f \<noteq> []" and "prefix (got @ f) (response_head r @ body r)"
    using Cons.prems by (auto simp flip: Cons.prems(4))
  note step = recv_callback_waiting[OF ok b h c0 Cons.prems(1) this]
  show ?case
  proof (cases "fs = []")
    case True
    with Cons.prems(4) step show ?thesis by (auto simp: received_def)
  next
    case False
    with Cons.prems have "got @ f \<noteq> response_head r @ body r"
      by (cases fs) (auto simp flip: Cons.prems(4))
    with step obtain c' where c': "recv_callback f c = Done (True, c')" "waiting r c0 (got @ f) c'"
      by auto
    moreover have "http_step c' \<noteq> e_decode_done"
      using c'(2) by (auto simp: waiting_def split: if_splits)
    moreover have "\<exists>c''. recv_loop (map Some fs @ rs) c' = Some (Done (True, c''))
        \<and> received r c0 c''"
      using Cons.IH[OF c'(2) False] Cons.prems by simp
    ultimately show ?thesis by simp
  qed
qed

lemma client_fragments:
  assumes "response_ok r" and "body r \<noteq> []" and "length (response_head r) \<le> 1024"
    and "sync_mode c" and "\<not> is_chunk (resp c)"
    and "response_encode r = Done wire" and "concat fs = wire" and "[] \<notin> set fs"
  shows "\<exists>c'. recv_loop (map Some fs @ rs) (start_receive c) = Some (Done (True, c'))
    \<and> http_step c' = e_decode_done \<and> version (resp c') = version r
    \<and> status_code (resp c') = status_code r \<and> entrys (resp c') = entrys r
    \<and> content_length (resp c') = length (body r) \<and> body (resp c') = body r"
proof -
  let ?c = "start_receive c"
  have wire: "[] @ concat fs = response_head r @ body r"
    using assms(6,7) response_encode_head[OF assms(1)] by simp
  have h: "4 \<le> length (response_head r)" by (rule response_head_find(2)[OF assms(1)])
  have "fs \<noteq> []" using wire assms(2) by auto
  moreover have "waiting r ?c [] ?c"
    using h by (cases c) (auto simp: waiting_def start_receive_def)
  moreover have "sync_mode ?c" "\<not> is_chunk (resp ?c)"
    using assms(4,5) by (simp_all add: start_receive_def response_clear_def)
  ultimately obtain c' where "recv_loop (map Some fs @ rs) ?c = Some (Done (True, c'))"
    "received r ?c c'"
    using recv_loop_waiting[OF assms(1-3) _ _ _ _ assms(8) wire, of ?c ?c rs] by blast
  then show ?thesis
    using assms(2) by (simp add: received_def decoded_from_def start_receive_def response_clear_def)
qed


section \<open>Chunked bodies\<close>

text \<open>The hexadecimal numeral of a number, and a body in chunked coding.\<close>

definition hex_char :: "nat \<Rightarrow> char" where
  "hex_char n = char_of (if n < 10 then 48 + n else 87 + n)"

fun show_hex :: "nat \<Rightarrow> string" where
  "show_hex n = (if n < 16 then [hex_char n] else show_hex (n div 16) @ [hex_char (n mod 16)])"

declare show_hex.simps [simp del]

definition encode_chunk :: "string \<Rightarrow> string" where
  "encode_chunk d = show_hex (length d) @ crlf @ d @ crlf"

definition encode_chunked :: "string list \<Rightarrow> string" where
  "encode_chunked ds = concat (map encode_chunk ds) @ ''0'' @ crlf @ crlf"

lemma hex_char:
  assumes "n < 16"
  shows "is_alnum (hex_char n)" "hex_value (hex_char n) = int n"
    "hex_char n \<notin> {CHR 0x00, CHR 0x0D, CHR ''x'', CHR ''X''}"
proof -
  have c: "code (hex_char n) = (if n < 10 then 48 + n else 87 + n)"
    using assms by (simp add: hex_char_def)
  then show "is_alnum (hex_char n)"
    using assms by (auto simp: is_alnum_def is_digit_def is_lower_def)
  show "hex_value (hex_char n) = int n"
    using c assms by (auto simp: hex_value_def to_lower_char_def is_upper_def)
  show "hex_char n \<notin> {CHR 0x00, CHR 0x0D, CHR ''x'', CHR ''X''}"
    using c assms by (auto split: if_splits)
qed

lemma show_hex_chars:
  "c \<in> set (show_hex n) \<Longrightarrow> is_alnum c \<and> c \<notin> {CHR 0x00, CHR 0x0D, CHR ''x'', CHR ''X''}"
proof (induction n rule: show_hex.induct)
  case (1 n)
  then show ?case using hex_char[of n] hex_char[of "n mod 16"]
    by (subst (asm) (2) show_hex.simps) (auto split: if_splits)
qed

lemma htoi_loop_append:
  "htoi_loop a xs = Done v \<Longrightarrow> list_all is_alnum xs \<Longrightarrow> htoi_loop a (xs @ ys) = htoi_loop v ys"
  by (induction xs arbitrary: a) (auto simp: Let_def split: if_splits)

lemma htoi_loop_show_hex: "n < 2 ^ 31 \<Longrightarrow> htoi_loop 0 (show_hex n) = Done (int n)"
proof (induction n rule: show_hex.induct)
  case (1 n)
  show ?case
  proof (cases "n < 16")
    case True
    with 1 hex_char[of n] show ?thesis by (subst show_hex.simps) (simp add: Let_def)
  next
    case False
    have dm: "16 * int (n div 16) + int (n mod 16) = int n"
      by (metis mult_div_mod_eq of_nat_add of_nat_mult of_nat_numeral)
    have "htoi_loop 0 (show_hex n)
        = htoi_loop (int (n div 16)) [hex_char (n mod 16)]"
      using False 1 show_hex_chars
      by (subst show_hex.simps) (simp del: htoi_loop.simps add: htoi_loop_append list_all_iff)
    also have "\<dots> = Done (int n)"
      using hex_char[of "n mod 16"] 1(2) dm
      by (simp add: Let_def)
    finally show ?thesis .
  qed
qed

lemma htoi_show_hex:
  assumes "n < 2 ^ 31"
  shows "htoi (show_hex n) = Done (int n)"
proof -
  have "CHR 0x00 \<notin> set (show_hex n)" using show_hex_chars by blast
  then have "c_str (show_hex n) = show_hex n" by (simp add: c_str_id)
  moreover have "b \<noteq> CHR ''x'' \<and> b \<noteq> CHR ''X''" if "show_hex n = a # b # rest" for a b rest
    using show_hex_chars[of b n] that by auto
  ultimately show ?thesis
    using htoi_loop_show_hex[OF assms] by (auto simp: htoi_def split: list.splits)
qed

text \<open>One chunk, and the end of the chunks.\<close>

lemma chunk_loop_size_line:
  assumes "drop pos buf = h @ crlf @ t" and "CHR 0x0D \<notin> set h" and "htoi h = Done len"
    and "pos \<le> length buf"
  shows "chunk_loop buf pos b = (let p = pos + length h + 2 in
    if len > 0
    then if length buf < p + nat len + 2 then Done (False, p, b)
         else chunk_loop buf (p + nat len + 2) (b @ take (nat len) (drop p buf))
    else Done (True, p + 2, b))"
proof -
  have "find_from buf crlf pos = Some (pos + length h)"
    using find_from_skip[of pos buf h "CHR 0x0D" "[CHR 0x0A]" t] assms by (simp add: crlf_def)
  moreover have "take (pos + length h - pos) (drop pos buf) = h" using assms(1) by simp
  ultimately show ?thesis
    using assms(3) by (subst chunk_loop.simps) (simp add: Let_def)
qed

lemma chunk_loop_chunk:
  assumes "buf = pre @ encode_chunk d @ t" and "d \<noteq> []" and "length d < 2 ^ 31"
  shows "chunk_loop buf (length pre) b
    = chunk_loop buf (length (pre @ encode_chunk d)) (b @ d)"
proof -
  have "CHR 0x0D \<notin> set (show_hex (length d))" using show_hex_chars by blast
  from chunk_loop_size_line[where pos = "length pre" and buf = buf and t = "d @ crlf @ t" and b = b,
      OF _ this htoi_show_hex[OF assms(3)]] assms
  show ?thesis by (simp add: encode_chunk_def length_crlf add.assoc)
qed

lemma chunk_loop_end:
  assumes "buf = pre @ ''0'' @ crlf @ crlf"
  shows "chunk_loop buf (length pre) b = Done (True, length buf, b)"
proof -
  have "htoi ''0'' = Done 0"
    by (simp add: htoi_def c_str_def is_alnum_def is_digit_def hex_value_def to_lower_char_def
        is_upper_def)
  with chunk_loop_size_line[where pos = "length pre" and buf = buf and h = "''0''" and t = crlf and b = b]
    assms show ?thesis by (simp add: length_crlf)
qed

lemma chunk_loop_chunks:
  "buf = pre @ encode_chunked ds \<Longrightarrow> list_all (\<lambda>d. d \<noteq> [] \<and> length d < 2 ^ 31) ds \<Longrightarrow>
     chunk_loop buf (length pre) b = Done (True, length buf, b @ concat ds)"
proof (induction ds arbitrary: pre b)
  case Nil
  then show ?case using chunk_loop_end by (simp add: encode_chunked_def)
next
  case (Cons d ds)
  have buf: "buf = pre @ encode_chunk d @ encode_chunked ds" "buf = (pre @ encode_chunk d) @ encode_chunked ds"
    using Cons.prems(1) by (simp_all add: encode_chunked_def)
  show ?case
    using chunk_loop_chunk[OF buf(1)] Cons.IH[OF buf(2)] Cons.prems(2) by simp
qed

text \<open>
  C33: Chunked bodies. When the text of a chunked body is in the buffer as a whole, behind what
  was consumed before, the synchronous client ends with the concatenation of the chunks as the
  body and everything consumed.
\<close>

theorem http_client_chunks:
  assumes "list_all (\<lambda>d. d \<noteq> [] \<and> length d < 2 ^ 31) ds"
    and "sync_mode c" and "is_chunk (resp c)" and "http_step c = e_decode_body"
    and "buf_pos c = length (recv_buf c)"
  shows "\<exists>c'. recv_callback (encode_chunked ds) c = Done (True, c')
    \<and> http_step c' = e_decode_done \<and> body (resp c') = concat ds
    \<and> buf_pos c' = length (recv_buf c')"
proof -
  let ?buf = "recv_buf c @ encode_chunked ds"
  have "encode_chunked ds \<noteq> []" by (simp add: encode_chunked_def)
  then have "recv_round (c\<lparr>recv_buf := ?buf\<rparr>) = recv_body (c\<lparr>recv_buf := ?buf\<rparr>)"
    using assms(4,5) by (simp add: recv_round_def)
  then show ?thesis
    using assms chunk_loop_chunks[OF refl assms(1), of "recv_buf c" "[]"]
    by (subst recv_callback_def, subst recv_rounds.simps)
       (simp add: recv_body_def recv_finish_def)
qed

theorem http_client_chunks_witness:
  "\<exists>c'. recv_callback (encode_chunked [''Wiki'', ''pedia''])
     ((new_client True)\<lparr>http_step := e_decode_body, resp := new_response\<lparr>is_chunk := True\<rparr>\<rparr>)
     = Done (True, c') \<and> body (resp c') = ''Wikipedia''"
  using http_client_chunks[of "[''Wiki'', ''pedia'']" "(new_client True)\<lparr>http_step := e_decode_body,
      resp := new_response\<lparr>is_chunk := True\<rparr>\<rparr>"]
  by (auto simp: new_client_def)

text \<open>
  A chunk cut by the stream. When only the size line of a chunk and a part of its data have
  come, the client consumes the size line and waits. The rest of the stream is then read from
  the data of the chunk on, so that the text in front of the next line end is taken for a size.
\<close>

theorem http_client_cut_chunk:
  assumes "0 < n" and "n < 2 ^ 31" and "length part < n + 2"
    and "sync_mode c" and "is_chunk (resp c)" and "http_step c = e_decode_body"
    and "buf_pos c = length (recv_buf c)"
  shows "\<exists>c'. recv_callback (show_hex n @ crlf @ part) c = Done (True, c')
    \<and> http_step c' = e_decode_body \<and> drop (buf_pos c') (recv_buf c') = part
    \<and> body (resp c') = []"
proof -
  let ?t = "show_hex n @ crlf @ part"
  let ?buf = "recv_buf c @ ?t"
  have round: "recv_round (c\<lparr>recv_buf := ?buf\<rparr>) = recv_body (c\<lparr>recv_buf := ?buf\<rparr>)"
    using assms(6,7) by (simp add: recv_round_def length_crlf)
  have "chunk_loop ?buf (length (recv_buf c)) []
      = Done (False, length (recv_buf c) + length (show_hex n) + 2, [])"
    using chunk_loop_size_line[where pos = "length (recv_buf c)" and buf = ?buf
        and h = "show_hex n" and len = "int n" and t = part and b = "[]"]
      htoi_show_hex[OF assms(2)] show_hex_chars[of "CHR 0x0D" n] assms(1,3)
    by (auto simp: length_crlf Let_def)
  with round assms show ?thesis
    by (subst recv_callback_def, subst recv_rounds.simps)
       (simp add: recv_body_def recv_finish_def length_crlf)
qed

theorem http_client_cut_chunk_witness:
  "\<exists>c'. recv_callback (show_hex 4 @ crlf @ ''Wi'')
     ((new_client True)\<lparr>http_step := e_decode_body, resp := new_response\<lparr>is_chunk := True\<rparr>\<rparr>)
     = Done (True, c') \<and> drop (buf_pos c') (recv_buf c') = ''Wi''"
  using http_client_cut_chunk[of 4 "''Wi''" "(new_client True)\<lparr>http_step := e_decode_body,
      resp := new_response\<lparr>is_chunk := True\<rparr>\<rparr>"]
  by (auto simp: new_client_def)


section \<open>Synchronous calls\<close>

lemma send_loop_sum:
  "list_all (\<lambda>rc. 0 < rc) rcs \<Longrightarrow> sum_list rcs = int n \<Longrightarrow> n < 2 ^ 64 \<Longrightarrow>
   send_loop data (of_nat n) rcs wire
   = Some (True, wire @ concat (map (\<lambda>rc. take (nat rc) data) rcs))"
proof (induction rcs arbitrary: n wire)
  case Nil
  then show ?case by (subst send_loop.simps) simp
next
  case (Cons rc rcs)
  have rest: "0 \<le> sum_list rcs"
    using Cons.prems(1) by (induction rcs) auto
  define m where "m = nat (sum_list rcs)"
  have m: "sum_list rcs = int m" "n = nat rc + m" and rc: "0 < rc"
    using Cons.prems(1,2) rest by (simp_all add: m_def) linarith
  have u: "unat (of_nat n :: u64) = n" using Cons.prems(3) by (rule unat_of_nat64)
  have nz: "(of_nat n :: u64) \<noteq> 0"
  proof
    assume "(of_nat n :: u64) = 0"
    with u have "n = 0" by simp
    with m rc show False by simp
  qed
  have "word_of_int rc = (of_nat (nat rc) :: u64)" using rc by simp
  then have "(of_nat n :: u64) - word_of_int rc = of_nat m" using m(2) by simp
  with nz rc have "send_loop data (of_nat n) (rc # rcs) wire
      = send_loop data (of_nat m) rcs (wire @ take (nat rc) data)"
    by (subst send_loop.simps) simp
  moreover have "m < 2 ^ 64" using m(2) Cons.prems(3) by simp
  ultimately show ?case
    using Cons.IH[OF _ m(1)] Cons.prems(1) by simp
qed

text \<open>
  What the peer gets. When the socket accepts the text of a request in several pieces, every
  \<open>send\<close> passes the text from its beginning: the peer gets the prefixes of these lengths, one
  after the other. It gets the request only if the first \<open>send\<close> accepts all of it.
\<close>

theorem http_send_resends:
  assumes "list_all (\<lambda>rc. 0 < rc) rcs" and "sum_list rcs = int (length data)"
    and "length data < 2 ^ 64"
  shows "\<exists>wire. send_loop data (of_nat (length data)) rcs [] = Some (True, wire)
    \<and> wire = concat (map (\<lambda>rc. take (nat rc) data) rcs)
    \<and> (rcs = [int (length data)] \<longrightarrow> wire = data)"
  using send_loop_sum[OF assms, of data "[]"] by simp

theorem http_send_resends_witness:
  "\<exists>wire. send_loop ''GET /'' (of_nat 5) [2, 3] [] = Some (True, wire) \<and> wire = ''GEGET''"
  using http_send_resends[of "[2, 3]" "''GET /''"] by simp

lemma sync_call_response:
  assumes "request_encode (req c) = Done data" and "length data < 2 ^ 64" and "data \<noteq> []"
    and "connects env" and "sends env = [int (length data)]" and "recvs env = map Some fs"
    and "response_ok r" and "body r \<noteq> []" and "length (response_head r) \<le> 1024"
    and "sync_mode c" and "\<not> is_chunk (resp c)"
    and "response_encode r = Done (concat fs)" and "[] \<notin> set fs"
  shows "\<exists>c'. sync_call env c = Some (Done (True, c')) \<and> status_code (resp c') = status_code r
    \<and> entrys (resp c') = entrys r \<and> body (resp c') = body r"
proof -
  have "send_loop data (of_nat (length data)) [int (length data)] [] = Some (True, data)"
    using send_loop_sum[of "[int (length data)]" "length data" data "[]"] assms(2,3) by simp
  then have call: "sync_call env c = recv_loop (map Some fs) (start_receive c)"
    using assms(1,4,5,6) by (simp add: sync_call_def)
  show ?thesis
    unfolding call using client_fragments[OF assms(7-12) refl assms(13), of "[]"]
    by (elim exE conjE, intro exI conjI) simp_all
qed


definition ex_body_response :: response where
  "ex_body_response = new_response\<lparr>version := ''HTTP/1.1'', status_code := 200, body := ''ok''\<rparr>"

definition ex_call :: request where
  "ex_call = new_request\<lparr>http_method := ''GET'', url := ''/'', host := ''h''\<rparr>"



section \<open>What a call can end with\<close>

text \<open>A call returns, or runs into undefined behaviour; it neither throws nor is refused.\<close>

definition quiet :: "'a outcome \<Rightarrow> bool" where
  "quiet r \<longleftrightarrow> r = Undef \<or> (\<exists>x. r = Done x)"

lemma quiet_simps [simp]: "quiet (Done x)" "quiet Undef" "\<not> quiet Reject" "\<not> quiet (Throws e)"
  by (auto simp: quiet_def)

lemma quiet_obind: "quiet r \<Longrightarrow> (\<And>x. r = Done x \<Longrightarrow> quiet (f x)) \<Longrightarrow> quiet (obind r f)"
  by (auto simp: quiet_def)

lemma decode_entrys_quiet: "quiet (decode_entrys put s he data r)"
proof (induction put s he data r rule: decode_entrys.induct)
  case (1 put s he data r)
  show ?case
  proof (cases "data < he + 2 \<and> find_from s '': '' data \<noteq> None")
    case True
    then obtain tmp where d: "data < he + 2" "find_from s '': '' data = Some tmp" by blast
    show ?thesis
      using 1[OF d refl _ refl]
      by (subst decode_entrys.simps) (simp add: d Let_def split: option.split)
  qed (subst decode_entrys.simps, auto)
qed

lemma response_decode_header_quiet: "quiet (response_decode_header r buf)"
  by (auto simp: response_decode_header_def Let_def decode_entrys_quiet split: option.splits)

lemma htoi_quiet: "quiet (htoi s)"
proof -
  have "quiet (htoi_loop n t)" for n t
    by (induction t arbitrary: n) (auto simp: Let_def)
  then show ?thesis by (simp add: htoi_def del: htoi_loop.simps split: list.split)
qed

lemma chunk_loop_quiet: "quiet (chunk_loop buf pos b)"
proof (induction buf pos b rule: chunk_loop.induct)
  case (1 buf pos b)
  show ?case
  proof (cases "find_from buf crlf pos")
    case None
    then show ?thesis by (subst chunk_loop.simps) simp
  next
    case (Some flag)
    have eq: "chunk_loop buf pos b = obind (htoi (take (flag - pos) (drop pos buf))) (\<lambda>len. if len > 0
        then if length buf < flag + 2 + nat len + 2 then Done (False, flag + 2, b)
             else chunk_loop buf (flag + 2 + nat len + 2) (b @ take (nat len) (drop (flag + 2) buf))
        else Done (True, flag + 2 + 2, b))"
      by (subst chunk_loop.simps) (simp only: Some Let_def option.case)
    show ?thesis unfolding eq
      using 1[OF Some refl refl] by (intro quiet_obind htoi_quiet) auto
  qed
qed

lemma recv_body_quiet: "quiet (recv_body c)"
  unfolding recv_body_def
  by (auto intro!: quiet_obind chunk_loop_quiet simp: Let_def)

lemma recv_round_quiet: "quiet (recv_round c)"
  unfolding recv_round_def recv_header_def
  by (auto intro!: quiet_obind response_decode_header_quiet recv_body_quiet simp: Let_def
      split: option.splits recv_result.splits)

lemma recv_rounds_quiet: "quiet (recv_rounds c)"
proof (induction c rule: recv_rounds.induct)
  case (1 c)
  show ?case
    by (subst recv_rounds.simps)
       (auto intro!: quiet_obind recv_round_quiet 1 split: recv_result.splits)
qed

lemma recv_loop_quiet: "recv_loop rs c = Some r \<Longrightarrow> quiet r"
proof (induction rs arbitrary: c)
  case (Cons d rs)
  show ?case
  proof (cases d)
    case (Some data)
    have q: "quiet (recv_callback data c)" by (simp add: recv_callback_def recv_rounds_quiet)
    show ?thesis
    proof (cases "recv_callback data c")
      case (Done p)
      then have "recv_loop (Some data # rs) c
          = (if \<not> fst p then Some (Done (False, snd p))
             else if http_step (snd p) = e_decode_done then Some (Done (True, snd p))
             else recv_loop rs (snd p))"
        by (simp split: prod.split)
      with Cons.prems[unfolded Some] Cons.IH[of "snd p"] show ?thesis
        by (auto split: if_splits)
    qed (use q Cons.prems[unfolded Some] in auto)
  qed (use Cons.prems in auto)
qed simp

lemma sync_call_quiet: "sync_call env c = Some r \<Longrightarrow> quiet r"
  by (auto simp: sync_call_def dest: recv_loop_quiet split: outcome.splits if_splits option.splits)

end
