(* ===== verification/Robot_Config.thy ===== *)
theory Robot_Config
  imports Shine_Json_Model "HOL-Library.AList"
begin

text \<open>
  The configuration of the robot service, \<^verbatim>\<open>Include/robot_config/Header/config.h\<close>, and its run
  log, \<^verbatim>\<open>Include/mysql/Header/mysql_logs.h\<close>. The configuration files are XML documents; the
  parser that turns a file into a document is the bundled TinyXML, a parameter of the model.
  What the loaders do with a document, the navigation and its null pointers included, is
  modelled: \<open>Undef\<close> is the use of a null pointer.
\<close>


section \<open>Documents\<close>

text \<open>A node and its value: the name of an element, the text of a text or comment.\<close>

datatype xml = XElem string "xml list" | XText string | XComment string

fun xml_value :: "xml \<Rightarrow> string" where
  "xml_value (XElem nm ns) = nm"
| "xml_value (XText t) = t"
| "xml_value (XComment t) = t"

fun xml_children :: "xml \<Rightarrow> xml list" where
  "xml_children (XElem nm ns) = ns"
| "xml_children _ = []"

fun is_element :: "xml \<Rightarrow> bool" where
  "is_element (XElem nm ns) = True"
| "is_element _ = False"

text \<open>
  \<open>TiXmlHandle\<close>: a node or null. \<open>FirstChild\<close> goes to the first node with a value, whatever
  its kind; \<open>Element\<close> is null for a node that is no element.
\<close>

type_synonym handle = "xml option"

definition first_child_named :: "string \<Rightarrow> handle \<Rightarrow> handle" where
  "first_child_named nm h =
     (case h of None \<Rightarrow> None | Some n \<Rightarrow> find (\<lambda>c. xml_value c = nm) (xml_children n))"

definition to_element :: "handle \<Rightarrow> handle" where
  "to_element h = (case h of None \<Rightarrow> None | Some n \<Rightarrow> if is_element n then Some n else None)"

text \<open>The text of an element: its first child, if that is a text. A null element is an error.\<close>

definition get_text :: "handle \<Rightarrow> string option outcome" where
  "get_text h =
     (case h of
        None \<Rightarrow> Undef
      | Some n \<Rightarrow> Done (case xml_children n of XText t # _ \<Rightarrow> Some t | _ \<Rightarrow> None))"

text \<open>The text as a string, or as a number; both read through the pointer.\<close>

definition text_of :: "handle \<Rightarrow> string outcome" where
  "text_of h = obind (get_text h) (\<lambda>t. case t of None \<Rightarrow> Undef | Some s \<Rightarrow> Done (c_str s))"

definition number_of :: "handle \<Rightarrow> int outcome" where
  "number_of h = obind (text_of h) (\<lambda>s. Done (atoi s))"

definition root_element :: "xml list \<Rightarrow> handle" where
  "root_element doc = find is_element doc"

definition entry_at :: "xml list \<Rightarrow> string \<Rightarrow> string \<Rightarrow> handle" where
  "entry_at doc grp nm =
     to_element (first_child_named nm (first_child_named grp (root_element doc)))"


section \<open>The configuration\<close>

record mysql_config =
  sql_ip :: string
  sql_port :: string
  sql_user :: string
  sql_passwd :: string
  sql_dbname :: string

record server_config =
  server_ip :: string
  server_port :: u16
  doc_root :: string
  threads :: int
  robot_ip :: string
  robot_port :: string
  ea_ip :: string
  ea_port :: string
  timeout :: int
  cn_photo :: int

text \<open>
  \<open>ea_photo_L2\<close>: the kind, the number of photos and the named tables of rows of cameras. The
  constructor of \<open>Config\<close> initialises neither the kind nor the numbers.
\<close>

type_synonym photo_table = "(string \<times> int) list list list"

record photo_config =
  photo_type :: int
  tablenum :: int
  param :: "(string \<times> photo_table) list"

record config =
  sql_config :: mysql_config
  ser_config :: server_config
  photo_conf :: photo_config
  c_robot_ip :: string

definition photo_field :: "photo_config \<Rightarrow> jfield" where
  "photo_field p = FStruct
     [(''type'', FInt (photo_type p)), (''tablenum'', FInt (tablenum p)),
      (''param'', FMap (map (\<lambda>(k, rows). (FStr k, FStruct [(''param'',
         FSeq (map (\<lambda>row. FSeq (map (\<lambda>m. FMap (map (\<lambda>(c, i). (FStr c, FInt i)) m)) row)) rows))]))
         (param p)))]"

definition photo_body :: "config \<Rightarrow> string" where
  "photo_body c = model_encode (photo_field (photo_conf c))"

definition robot_body :: "config \<Rightarrow> string" where
  "robot_body c = model_encode (FStruct [(''ip'', FStr (c_robot_ip c))])"


section \<open>Loading\<close>

text \<open>
  The files by name and the XML parser: \<open>None\<close> is a file that is missing or no XML. A loader
  returns whether it succeeded and the configuration.
\<close>

type_synonym files = "string \<Rightarrow> string option"

definition load_file :: "(string \<Rightarrow> xml list option) \<Rightarrow> files \<Rightarrow> string \<Rightarrow> xml list option" where
  "load_file parse_xml fs nm = (case fs nm of None \<Rightarrow> None | Some t \<Rightarrow> parse_xml t)"

definition loadmysql_config :: "xml list option \<Rightarrow> config \<Rightarrow> (bool \<times> config) outcome" where
  "loadmysql_config file c =
     (case file of
        None \<Rightarrow> Done (False, c)
      | Some doc \<Rightarrow>
          let at = entry_at doc ''databases'' in
          obind (text_of (at ''user'')) (\<lambda>user.
          obind (text_of (at ''password'')) (\<lambda>passwd.
          obind (text_of (at ''server_ip'')) (\<lambda>ip.
          obind (text_of (at ''port'')) (\<lambda>port.
          obind (text_of (at ''dbname'')) (\<lambda>dbname.
            Done (True, c\<lparr>sql_config := \<lparr>sql_ip = ip, sql_port = port, sql_user = user,
              sql_passwd = passwd, sql_dbname = dbname\<rparr>\<rparr>)))))))"

definition loadserver_config :: "xml list option \<Rightarrow> config \<Rightarrow> (bool \<times> config) outcome" where
  "loadserver_config file c =
     (case file of
        None \<Rightarrow> Done (False, c)
      | Some doc \<Rightarrow>
          let at = entry_at doc ''server'' in
          obind (text_of (at ''server_ip'')) (\<lambda>sip.
          obind (number_of (at ''server_port'')) (\<lambda>sport.
          obind (text_of (at ''doc_root'')) (\<lambda>root.
          obind (number_of (at ''threads'')) (\<lambda>thr.
          obind (text_of (at ''robot_ip'')) (\<lambda>rip.
          obind (text_of (at ''ea_ip'')) (\<lambda>eip.
          obind (text_of (at ''ea_port'')) (\<lambda>eport.
          obind (text_of (at ''robot_port'')) (\<lambda>rport.
          obind (number_of (at ''timeout'')) (\<lambda>tm.
          obind (number_of (at ''take_photo_times'')) (\<lambda>times.
            Done (True, c\<lparr>ser_config := \<lparr>server_ip = sip, server_port = word_of_int sport,
              doc_root = root, threads = thr, robot_ip = rip, robot_port = rport, ea_ip = eip,
              ea_port = eport, timeout = tm, cn_photo = times\<rparr>\<rparr>))))))))))))"

text \<open>
  The rows are the elements from the first child of the table on, nothing when that child is
  no element; a row has one number for each of its elements, each a photo.
\<close>

definition table_rows :: "xml list \<Rightarrow> xml list" where
  "table_rows doc =
     (case first_child_named ''table_xx'' (root_element doc) of
        None \<Rightarrow> []
      | Some t \<Rightarrow> (case xml_children t of
            n # ns \<Rightarrow> if is_element n then filter is_element (n # ns) else []
          | [] \<Rightarrow> []))"

definition row_cameras :: "xml \<Rightarrow> (string \<times> int) list list outcome" where
  "row_cameras row =
     otraverse (\<lambda>e. obind (number_of (Some e)) (\<lambda>i. Done [(''camtype'', i)]))
       (filter is_element (xml_children row))"

definition loadphoto_config :: "xml list option \<Rightarrow> config \<Rightarrow> (bool \<times> config) outcome" where
  "loadphoto_config file c =
     (case file of
        None \<Rightarrow> Done (False, c)
      | Some doc \<Rightarrow>
          obind (otraverse row_cameras (table_rows doc)) (\<lambda>rows.
            let p = photo_conf c in
            Done (True, c\<lparr>photo_conf := p\<lparr>
              tablenum := sint (word_of_int (sum_list (map (\<lambda>r. int (length r)) rows)) :: 32 word),
              param := AList.update ''row'' rows (param p)\<rparr>\<rparr>)))"


section \<open>The run log\<close>

text \<open>
  \<open>recordlog\<close>: one \<open>INSERT\<close> statement, the three values between quotes as they are. The clock
  is the broken-down local time.
\<close>

record local_time =
  tm_year :: int
  tm_mon :: int
  tm_mday :: int
  tm_hour :: int
  tm_min :: int
  tm_sec :: int

definition log_date :: "local_time \<Rightarrow> string" where
  "log_date t = show_int (tm_year t + 1900) @ ''-'' @ show_int (tm_mon t + 1) @ ''-'' @ show_int (tm_mday t)
     @ '' '' @ show_int (tm_hour t) @ '':'' @ show_int (tm_min t) @ '':'' @ show_int (tm_sec t)"

definition log_row :: "string \<Rightarrow> string \<Rightarrow> string \<Rightarrow> string" where
  "log_row date action remarks =
     ''('' @ [CHR 0x27] @ c_str date @ [CHR 0x27] @ '', '' @ [CHR 0x27] @ c_str action @ [CHR 0x27]
     @ '', '' @ [CHR 0x27] @ c_str remarks @ [CHR 0x27] @ '') ''"

definition record_log :: "local_time \<Rightarrow> string \<Rightarrow> string \<Rightarrow> string" where
  "record_log now action remarks =
     ''INSERT INTO `run_logs` (`date`, `action`, `remarks`) VALUES ''
     @ log_row (log_date now) action remarks"

end
