(* ===== verification/Robot_Task.thy ===== *)
theory Robot_Task
  imports Robot_Config Http_Client Request_Queue
begin

text \<open>
  The tasks of the robot service and the thread that runs them:
  \<^verbatim>\<open>Include/task/Source/taskImp.cpp\<close>, \<^verbatim>\<open>photoTask.cpp\<close>, \<^verbatim>\<open>detector.cpp\<close> and
  \<^verbatim>\<open>Include/task/Header/taskManger.h\<close>. A task posts requests with the synchronous client;
  the results of the calls come from an environment, one \<open>net_env\<close> for each call. The world
  records the run log and counts the waits for the operator at the console.
\<close>


section \<open>Log entries\<close>

text \<open>The actions of \<^verbatim>\<open>Include/common/action.hpp\<close> and their texts, in UTF-8.\<close>

datatype action =
    Action_begin
  | Action_init
  | Action_task
  | Action_web
  | Action_run_get
  | Action_run_finish
  | Action_photo
  | Action_post
  | Action_get
  | Action_continue
  | Action_photo_faild
  | Action_photo_success
  | Action_continhue_success
  | Action_continhue_faild
  | Action_num_unsuccess

definition bytes_text :: "nat list \<Rightarrow> string" where
  "bytes_text bs = map char_of bs"

fun action_text :: "action \<Rightarrow> string" where
  "action_text Action_begin =
     bytes_text [0xE5, 0x90, 0xAF, 0xE5, 0x8A, 0xA8, 0xE7, 0xA8, 0x8B, 0xE5, 0xBA, 0x8F]"
| "action_text Action_init =
     bytes_text [0xE7, 0xA8, 0x8B, 0xE5, 0xBA, 0x8F, 0xE5, 0x88, 0x9D, 0xE5, 0xA7, 0x8B, 0xE5,
       0x8C, 0x96]"
| "action_text Action_task =
     bytes_text [0xE5, 0x90, 0xAF, 0xE5, 0x8A, 0xA8, 0xE4, 0xBB, 0xBB, 0xE5, 0x8A, 0xA1, 0xE5,
       0xA4, 0x84, 0xE7, 0x90, 0x86, 0xE7, 0xBA, 0xBF, 0xE7, 0xA8, 0x8B]"
| "action_text Action_web =
     bytes_text [0xE5, 0x90, 0xAF, 0xE5, 0x8A, 0xA8, 0x57, 0x45, 0x42, 0xE6, 0x9C, 0x8D, 0xE5,
       0x8A, 0xA1, 0xE7, 0xBA, 0xBF, 0xE7, 0xA8, 0x8B]"
| "action_text Action_run_get =
     bytes_text [0xE4, 0xBB, 0xBB, 0xE5, 0x8A, 0xA1, 0xE9, 0x98, 0x9F, 0xE5, 0x88, 0x97, 0xE7,
       0xAD, 0x89, 0xE5, 0xBE, 0x85, 0xE4, 0xBB, 0xBB, 0xE5, 0x8A, 0xA1, 0xE8, 0x8E, 0xB7, 0xE5,
       0x8F, 0x96]"
| "action_text Action_run_finish =
     bytes_text [0xE5, 0xBD, 0x93, 0xE5, 0x89, 0x8D, 0xE4, 0xBB, 0xBB, 0xE5, 0x8A, 0xA1, 0xE6,
       0x89, 0xA7, 0xE8, 0xA1, 0x8C, 0xE5, 0xAE, 0x8C, 0xE6, 0x88, 0x90]"
| "action_text Action_photo =
     bytes_text [0xE6, 0x8B, 0x8D, 0xE7, 0x85, 0xA7]"
| "action_text Action_post =
     bytes_text [0xE6, 0x94, 0xB6, 0xE5, 0x88, 0xB0, 0x50, 0x4F, 0x53, 0x54, 0xE8, 0xAF, 0xB7,
       0xE6, 0xB1, 0x82]"
| "action_text Action_get =
     bytes_text [0xE6, 0x94, 0xB6, 0xE5, 0x88, 0xB0, 0x47, 0x45, 0x54, 0xE8, 0xAF, 0xB7, 0xE6,
       0xB1, 0x82]"
| "action_text Action_continue =
     bytes_text [0xE7, 0xBB, 0xA7, 0xE7, 0xBB, 0xAD, 0xE8, 0xBF, 0x90, 0xE8, 0xA1, 0x8C]"
| "action_text Action_photo_faild =
     bytes_text [0xE6, 0x8B, 0x8D, 0xE7, 0x85, 0xA7, 0xE4, 0xBB, 0xBB, 0xE5, 0x8A, 0xA1, 0xE6,
       0x89, 0xA7, 0xE8, 0xA1, 0x8C, 0xE5, 0xA4, 0xB1, 0xE8, 0xB4, 0xA5]"
| "action_text Action_photo_success =
     bytes_text [0xE6, 0x8B, 0x8D, 0xE7, 0x85, 0xA7, 0xE4, 0xBB, 0xBB, 0xE5, 0x8A, 0xA1, 0xE6,
       0x89, 0xA7, 0xE8, 0xA1, 0x8C, 0xE6, 0x88, 0x90, 0xE5, 0x8A, 0x9F]"
| "action_text Action_continhue_success =
     bytes_text [0xE6, 0x88, 0x90, 0xE5, 0x8A, 0x9F, 0xE5, 0x8F, 0x91, 0xE9, 0x80, 0x81, 0xE7,
       0xBB, 0xA7, 0xE7, 0xBB, 0xAD, 0xE6, 0x89, 0xA7, 0xE8, 0xA1, 0x8C, 0xE7, 0xBB, 0x99, 0xE6,
       0x9C, 0xBA, 0xE5, 0x99, 0xA8, 0xE4, 0xBA, 0xBA]"
| "action_text Action_continhue_faild =
     bytes_text [0xE5, 0x8F, 0x91, 0xE9, 0x80, 0x81, 0xE7, 0xBB, 0xA7, 0xE7, 0xBB, 0xAD, 0xE6,
       0x89, 0xA7, 0xE8, 0xA1, 0x8C, 0xE7, 0xBB, 0x99, 0xE6, 0x9C, 0xBA, 0xE5, 0x99, 0xA8, 0xE4,
       0xBA, 0xBA, 0xE5, 0xA4, 0xB1, 0xE8, 0xB4, 0xA5]"
| "action_text Action_num_unsuccess =
     bytes_text [0xE6, 0x8B, 0x8D, 0xE7, 0x85, 0xA7, 0xE6, 0x9C, 0xAA, 0xE6, 0x89, 0xA7, 0xE8,
       0xA1, 0x8C, 0xE6, 0x88, 0x90, 0xE5, 0x8A, 0x9F, 0x2C, 0xE8, 0xB0, 0x83, 0xE6, 0x95, 0xB4,
       0xE5, 0x90, 0x8E, 0xE9, 0x87, 0x8D, 0xE6, 0x96, 0xB0, 0xE6, 0x8B, 0x8D, 0xE7, 0x85, 0xA7]"


section \<open>Tasks\<close>

text \<open>
  A task object: its class, \<open>finish\<close>, and whether it has a detector. Every detector says that
  the robot has arrived.
\<close>

datatype task_class = TaskBase | PhotoTask

record task =
  task_class :: task_class
  finish :: bool
  detector :: bool

definition new_task :: "task_class \<Rightarrow> bool \<Rightarrow> task" where
  "new_task k d = \<lparr>task_class = k, finish = False, detector = d\<rparr>"

definition is_arrive :: "bool \<Rightarrow> bool" where
  "is_arrive d = True"

definition checkstate :: "task \<Rightarrow> bool" where
  "checkstate t =
     (case task_class t of
        PhotoTask \<Rightarrow> True
      | TaskBase \<Rightarrow> if \<not> detector t then False else is_arrive (detector t))"

definition setisvaild :: "bool \<Rightarrow> task \<Rightarrow> task" where
  "setisvaild flag t = t\<lparr>finish := flag\<rparr>"

record world =
  w_calls :: "net_env list"
  w_log :: "(action \<times> string) list"
  w_prompts :: nat

definition recordlog :: "action \<Rightarrow> string \<Rightarrow> world \<Rightarrow> world" where
  "recordlog a remarks w = w\<lparr>w_log := w_log w @ [(a, remarks)]\<rparr>"

definition wait_operator :: "world \<Rightarrow> world" where
  "wait_operator w = w\<lparr>w_prompts := Suc (w_prompts w)\<rparr>"

definition post_client :: "config \<Rightarrow> string \<Rightarrow> string \<Rightarrow> string \<Rightarrow> client" where
  "post_client conf hst b u =
     (let c = new_client True in
      c\<lparr>recv_timeout := nat (uint (word_of_int (timeout (ser_config conf)) :: u32)),
        req := (req c)\<lparr>host := hst, http_method := ''POST'', content_type := ''application/json'',
          body := b, url := u\<rparr>\<rparr>)"

text \<open>One call with the next result of the environment.\<close>

definition call_next :: "client \<Rightarrow> world \<Rightarrow> ((bool \<times> client) outcome \<times> world) option" where
  "call_next c w =
     (case w_calls w of
        [] \<Rightarrow> None
      | env # rest \<Rightarrow> map_option (\<lambda>r. (r, w\<lparr>w_calls := rest\<rparr>)) (sync_call env c))"

text \<open>
  The numbers in the answer of the image server; a member that is missing is a null pointer.
\<close>

definition member_value :: "string \<Rightarrow> jnode \<Rightarrow> string outcome" where
  "member_value k n = (case find_kv_child k n of None \<Rightarrow> Undef | Some m \<Rightarrow> Done (jvalue m))"

definition photo_numbers :: "string \<Rightarrow> (int \<times> int) outcome" where
  "photo_numbers tmp =
     obind (json_left tmp) (\<lambda>root.
       case find_kv_child ''request'' root of
         None \<Rightarrow> Undef
       | Some rq \<Rightarrow>
           obind (member_value ''tablenum'' rq) (\<lambda>tn.
           obind (member_value ''successnum'' root) (\<lambda>sn.
             Done (atoi tn, atoi sn))))"

text \<open>
  The loop of \<open>PhotoTask::execute\<close>; \<open>n\<close> is the number of attempts left. An exception is caught
  and counts as a failed attempt; the client it leaves is the one before the call.
\<close>

fun photo_loop :: "nat \<Rightarrow> string \<Rightarrow> client \<Rightarrow> task \<Rightarrow> world \<Rightarrow> (task \<times> world) run" where
  "photo_loop 0 b c t w = Some (Done (t, w))"
| "photo_loop (Suc n) b c t w =
     (if finish t then Some (Done (t, w))
      else case call_next c w of
             None \<Rightarrow> None
           | Some (Undef, w) \<Rightarrow> Some Undef
           | Some (Throws e, w) \<Rightarrow>
               photo_loop n b c (setisvaild False t) (recordlog Action_photo_faild b w)
           | Some (Reject, w) \<Rightarrow> photo_loop n b c t (recordlog Action_photo_faild b w)
           | Some (Done (ok, c), w) \<Rightarrow>
               if \<not> ok then photo_loop n b c t (recordlog Action_photo_faild b w)
               else let tmp = body (resp c) in
                 case photo_numbers tmp of
                   Undef \<Rightarrow> Some Undef
                 | Done (totalnum, successnum) \<Rightarrow>
                     if successnum \<noteq> totalnum
                     then photo_loop n b c t (wait_operator (recordlog Action_num_unsuccess tmp w))
                     else photo_loop n b c (setisvaild True t) (recordlog Action_photo_success tmp w)
                 | _ \<Rightarrow> photo_loop n b c (setisvaild False t) (recordlog Action_photo_faild b w))"

definition photo_execute :: "config \<Rightarrow> task \<Rightarrow> world \<Rightarrow> (task \<times> world) run" where
  "photo_execute conf t w =
     (let b = photo_body conf; s = ser_config conf in
      photo_loop (nat (cn_photo s)) b (post_client conf (ea_ip s @ '':'' @ ea_port s) b ''/request'')
        t (wait_operator w))"

definition execute :: "config \<Rightarrow> task \<Rightarrow> world \<Rightarrow> (task \<times> world) run" where
  "execute conf t w =
     (case task_class t of PhotoTask \<Rightarrow> photo_execute conf t w | TaskBase \<Rightarrow> Some (Done (t, w)))"

text \<open>
  \<open>TaskBase::execute_after\<close>: the robot is told to go on, in at most \<open>cn_photo\<close> attempts. The
  host is the address and the port with nothing between them, as the code has it.
\<close>

fun continue_loop :: "nat \<Rightarrow> string \<Rightarrow> client \<Rightarrow> world \<Rightarrow> world run" where
  "continue_loop 0 b c w = Some (Done w)"
| "continue_loop (Suc n) b c w =
     (case call_next c w of
        None \<Rightarrow> None
      | Some (Undef, w) \<Rightarrow> Some Undef
      | Some (Throws e, w) \<Rightarrow> continue_loop n b c (recordlog Action_photo_faild b w)
      | Some (Reject, w) \<Rightarrow> continue_loop n b c (recordlog Action_continhue_faild b w)
      | Some (Done (ok, c), w) \<Rightarrow>
          if ok then Some (Done (recordlog Action_continhue_success [] w))
          else continue_loop n b c (recordlog Action_continhue_faild b w))"

definition continue_url :: string where
  "continue_url = ''http://192.168.1.235:8080/api/v2/vehicles/missionWork/continue''"

definition execute_after :: "config \<Rightarrow> world \<Rightarrow> world run" where
  "execute_after conf w =
     (let b = robot_body conf; s = ser_config conf in
      continue_loop (nat (cn_photo s)) b (post_client conf (ea_ip s @ ea_port s) b continue_url) w)"


section \<open>The task manager\<close>

text \<open>
  The manager's thread takes pointers to tasks from the queue, one after the other. One pass of
  the loop of \<open>taskPoll\<close>; it waits when the queue is empty.
\<close>

record manager =
  job :: "task option list"
  mworld :: world

definition taskpush :: "task option \<Rightarrow> manager \<Rightarrow> manager" where
  "taskpush t m = m\<lparr>job := q_put t (job m)\<rparr>"

definition run_task :: "config \<Rightarrow> task \<Rightarrow> world \<Rightarrow> world run" where
  "run_task conf t w =
     rbind (execute conf t w) (\<lambda>(t, w). if finish t then execute_after conf w else Some (Done w))"

definition run_pointer :: "config \<Rightarrow> task option \<Rightarrow> world \<Rightarrow> world run" where
  "run_pointer conf t w = (case t of None \<Rightarrow> Some (Done w) | Some t \<Rightarrow> run_task conf t w)"

definition poll_once :: "config \<Rightarrow> manager \<Rightarrow> manager run" where
  "poll_once conf m =
     (let w = recordlog Action_run_get [] (mworld m) in
      case q_get (job m) of
        None \<Rightarrow> None
      | Some (t, rest) \<Rightarrow>
          rbind (run_pointer conf t w) (\<lambda>w.
            Some (Done \<lparr>job = rest, mworld = recordlog Action_run_finish [] w\<rparr>)))"

fun poll :: "nat \<Rightarrow> config \<Rightarrow> manager \<Rightarrow> manager run" where
  "poll 0 conf m = Some (Done m)"
| "poll (Suc n) conf m = rbind (poll_once conf m) (poll n conf)"

end
