(* ===== verification/Robot_Task_Correct.thy ===== *)
theory Robot_Task_Correct
  imports Robot_Task Http_Client_Correct Shine_Json_Correct
begin

text \<open>
  Correctness of the tasks: how many attempts a photo task makes and when it counts as done, that
  the robot is told to go on only then, and that the manager runs the tasks one by one in the
  order they were pushed.
\<close>


section \<open>A photo task\<close>

text \<open>The entries of a failed attempt, and of all attempts of a task.\<close>

definition retry :: "action \<times> string \<Rightarrow> bool" where
  "retry e \<longleftrightarrow> fst e = Action_photo_faild \<or> fst e = Action_num_unsuccess"

definition photographed :: "(action \<times> string) list \<Rightarrow> bool" where
  "photographed es \<longleftrightarrow>
     (\<exists>es0 tmp n. es = es0 @ [(Action_photo_success, tmp)] \<and> list_all retry es0
        \<and> photo_numbers tmp = Done (n, n))"

definition attempts :: "nat \<Rightarrow> bool \<Rightarrow> world \<Rightarrow> (action \<times> string) list \<Rightarrow> world \<Rightarrow> bool" where
  "attempts n ok w es w' \<longleftrightarrow>
     w_log w' = w_log w @ es \<and> w_calls w' = drop (length es) (w_calls w) \<and> length es \<le> n
     \<and> (if ok then photographed es else list_all retry es \<and> length es = n)"

lemma photographed_Cons: "retry e \<Longrightarrow> photographed es \<Longrightarrow> photographed (e # es)"
  unfolding photographed_def by (metis append_Cons list.pred_inject(2))

lemma attempts_Cons:
  assumes "attempts n ok w1 es w'" and "retry e"
    and "w_log w1 = w_log w @ [e]" and "w_calls w1 = drop 1 (w_calls w)"
  shows "attempts (Suc n) ok w (e # es) w'"
  using assms photographed_Cons by (auto simp: attempts_def)

lemma call_next_world:
  assumes "call_next c w = Some (r, w1)"
  shows "w_log w1 = w_log w \<and> w_calls w1 = drop 1 (w_calls w) \<and> w_calls w \<noteq> []
    \<and> w_prompts w1 = w_prompts w \<and> quiet r"
  using assms sync_call_quiet by (auto simp: call_next_def split: list.splits)

lemmas world_defs = recordlog_def wait_operator_def setisvaild_def

lemma photo_loop_attempts:
  "photo_loop n b c t w = Some (Done (t', w')) \<Longrightarrow> \<not> finish t \<Longrightarrow>
   \<exists>es. attempts n (finish t') w es w'"
proof (induction n arbitrary: c t w)
  case 0
  then show ?case by (auto simp: attempts_def)
next
  case (Suc n)
  obtain r w1 where call: "call_next c w = Some (r, w1)"
    using Suc.prems by (auto split: option.splits)
  note w1 = call_next_world[OF call]
  have failed: ?case
    if "photo_loop n b c2 t2 (recordlog Action_photo_faild b w1) = Some (Done (t', w'))" "\<not> finish t2" for c2 t2
  proof -
    from Suc.IH[OF that] obtain es where "attempts n (finish t') (recordlog Action_photo_faild b w1) es w'" ..
    then have "attempts (Suc n) (finish t') w ((Action_photo_faild, b) # es) w'"
      using w1 by (intro attempts_Cons) (auto simp: world_defs retry_def)
    then show ?thesis ..
  qed
  show ?case
  proof (cases "\<exists>c2. r = Done (True, c2)")
    case False
    with w1 Suc.prems call failed show ?thesis
      by (cases r) (auto simp: quiet_def split: if_splits)
  next
    case True
    then obtain c2 where r: "r = Done (True, c2)" ..
    let ?tmp = "body (resp c2)"
    show ?thesis
    proof (cases "\<exists>tn sn. photo_numbers ?tmp = Done (tn, sn)")
      case False
      with Suc.prems call r failed[of c2 "setisvaild False t"] show ?thesis
        by (cases "photo_numbers ?tmp") (auto simp: Let_def world_defs)
    next
      case True
      then obtain tn sn where num: "photo_numbers ?tmp = Done (tn, sn)" by blast
      show ?thesis
      proof (cases "sn = tn")
        case True
        have "photo_loop n b c2 (setisvaild True t) w2 = Some (Done (setisvaild True t, w2))" for w2
          by (cases n) (simp_all add: setisvaild_def)
        then have "t' = setisvaild True t" "w' = recordlog Action_photo_success ?tmp w1"
          using Suc.prems call r num True by (simp_all add: Let_def)
        then have "attempts (Suc n) (finish t') w [(Action_photo_success, ?tmp)] w'"
          using w1 num True by (auto simp: attempts_def photographed_def world_defs)
        then show ?thesis ..
      next
        case False
        let ?w = "wait_operator (recordlog Action_num_unsuccess ?tmp w1)"
        have "photo_loop n b c2 t ?w = Some (Done (t', w'))"
          using Suc.prems call r num False by (simp add: Let_def)
        from Suc.IH[OF this Suc.prems(2)] obtain es where "attempts n (finish t') ?w es w'" ..
        then have "attempts (Suc n) (finish t') w ((Action_num_unsuccess, ?tmp) # es) w'"
          using w1 by (intro attempts_Cons) (auto simp: world_defs retry_def)
        then show ?thesis ..
      qed
    qed
  qed
qed

text \<open>
  What the calls give: each is made with the client the call before it left, and takes the next
  result of the environment. What an answer means for the task, and the entry it leaves.
\<close>

definition client_after :: "client \<Rightarrow> (bool \<times> client) outcome \<Rightarrow> client" where
  "client_after c r = (case r of Done (ok, c') \<Rightarrow> c' | _ \<Rightarrow> c)"

fun calls_give :: "client \<Rightarrow> net_env list \<Rightarrow> (bool \<times> client) outcome list \<Rightarrow> bool" where
  "calls_give c [] rs \<longleftrightarrow> rs = []"
| "calls_give c (env # envs) rs \<longleftrightarrow>
     (case rs of [] \<Rightarrow> False | r # rs \<Rightarrow> sync_call env c = Some r \<and> calls_give (client_after c r) envs rs)"

definition all_taken :: "(bool \<times> client) outcome \<Rightarrow> bool" where
  "all_taken r \<longleftrightarrow> (\<exists>c n. r = Done (True, c) \<and> photo_numbers (body (resp c)) = Done (n, n))"

definition attempt_entry :: "string \<Rightarrow> (bool \<times> client) outcome \<Rightarrow> action \<times> string" where
  "attempt_entry b r =
     (case r of
        Done (True, c) \<Rightarrow>
          (case photo_numbers (body (resp c)) of
             Done (totalnum, successnum) \<Rightarrow>
               (if successnum = totalnum then Action_photo_success else Action_num_unsuccess, body (resp c))
           | _ \<Rightarrow> (Action_photo_faild, b))
      | _ \<Rightarrow> (Action_photo_faild, b))"

definition attempted :: "nat \<Rightarrow> string \<Rightarrow> client \<Rightarrow> world \<Rightarrow> (bool \<times> client) outcome list \<Rightarrow> bool \<Rightarrow> world \<Rightarrow> bool" where
  "attempted n b c w rs ok w' \<longleftrightarrow>
     length rs \<le> n \<and> calls_give c (take (length rs) (w_calls w)) rs
     \<and> w_calls w' = drop (length rs) (w_calls w) \<and> w_log w' = w_log w @ map (attempt_entry b) rs
     \<and> (\<forall>r\<in>set (butlast rs). \<not> all_taken r) \<and> (ok \<longleftrightarrow> rs \<noteq> [] \<and> all_taken (last rs)) \<and> (ok \<or> length rs = n)"

lemma attempted_Cons:
  assumes "attempted n b (client_after c r) w1 rs ok w'" and "\<not> all_taken r"
    and "call_next c w = Some (r, w0)" and "w_calls w1 = w_calls w0" and "w_log w1 = w_log w @ [attempt_entry b r]"
  shows "attempted (Suc n) b c w (r # rs) ok w'"
proof -
  obtain env es where "w_calls w = env # es" "sync_call env c = Some r" "w_calls w0 = es"
    using assms(3) by (auto simp: call_next_def split: list.splits)
  then show ?thesis using assms(1,2,4,5) by (auto simp: attempted_def)
qed

lemma photo_loop_attempted:
  "photo_loop n b c t w = Some (Done (t', w')) \<Longrightarrow> \<not> finish t \<Longrightarrow> \<exists>rs. attempted n b c w rs (finish t') w'"
proof (induction n arbitrary: c t w)
  case 0
  then show ?case by (auto simp: attempted_def)
next
  case (Suc n)
  obtain r w1 where call: "call_next c w = Some (r, w1)"
    using Suc.prems by (auto split: option.splits)
  note w1 = call_next_world[OF call]
  have again: ?case
    if h: "photo_loop n b (client_after c r) t2 w2 = Some (Done (t', w'))" "\<not> finish t2" "\<not> all_taken r"
      "w_calls w2 = w_calls w1" "w_log w2 = w_log w1 @ [attempt_entry b r]" for t2 w2
  proof -
    obtain rs where "attempted n b (client_after c r) w2 rs (finish t') w'" using Suc.IH[OF h(1,2)] ..
    from attempted_Cons[OF this h(3) call h(4)] h(5) w1 show ?thesis by auto
  qed
  consider (failed) "\<not> (\<exists>c2. r = Done (True, c2))" | (answer) c2 where "r = Done (True, c2)" by blast
  then show ?case
  proof cases
    case failed
    then obtain ok c2 where r: "r = Undef \<or> r = Done (ok, c2) \<and> \<not> ok"
      using w1 by (cases r) (auto simp: quiet_def)
    then have "photo_loop n b (client_after c r) t (recordlog Action_photo_faild b w1) = Some (Done (t', w'))"
      using Suc.prems call by (auto simp: client_after_def)
    moreover have "\<not> all_taken r" "attempt_entry b r = (Action_photo_faild, b)"
      using r by (auto simp: all_taken_def attempt_entry_def)
    ultimately show ?thesis using again[of t] Suc.prems(2) by (simp add: recordlog_def)
  next
    case answer
    let ?tmp = "body (resp c2)"
    have c2: "client_after c r = c2" by (simp add: client_after_def answer)
    show ?thesis
    proof (cases "photo_numbers ?tmp")
      case (Done p)
      obtain tn sn where p: "p = (tn, sn)" by (cases p)
      show ?thesis
      proof (cases "sn = tn")
        case True
        have "photo_loop n b c2 (setisvaild True t) w2 = Some (Done (setisvaild True t, w2))" for w2
          by (cases n) (simp_all add: setisvaild_def)
        then have "t' = setisvaild True t" "w' = recordlog Action_photo_success ?tmp w1"
          using Suc.prems call answer Done p True by (simp_all add: Let_def)
        moreover obtain env es where "w_calls w = env # es" "sync_call env c = Some r" "w_calls w1 = es"
          using call by (auto simp: call_next_def split: list.splits)
        ultimately have "attempted (Suc n) b c w [r] (finish t') w'"
          using w1 Done p True answer
          by (auto simp: attempted_def all_taken_def attempt_entry_def world_defs)
        then show ?thesis ..
      next
        case False
        then have "photo_loop n b (client_after c r) t (wait_operator (recordlog Action_num_unsuccess ?tmp w1)) = Some (Done (t', w'))"
          unfolding c2 using Suc.prems call answer Done p by (simp add: Let_def)
        moreover have "\<not> all_taken r" "attempt_entry b r = (Action_num_unsuccess, ?tmp)"
          using answer Done p False by (auto simp: all_taken_def attempt_entry_def)
        ultimately show ?thesis using again[of t] Suc.prems(2) by (simp add: world_defs)
      qed
    next
      case Undef
      then show ?thesis using Suc.prems call answer by (simp add: Let_def)
    qed (use again[of "setisvaild False t" "recordlog Action_photo_faild b w1"] Suc.prems call answer in
        \<open>simp_all add: Let_def c2[unfolded answer] world_defs all_taken_def attempt_entry_def\<close>)
  qed
qed

text \<open>
  C3: The attempts of a photo task. A run of \<open>execute\<close> that comes to an end has made some calls,
  at most \<open>cn_photo\<close>, each with the client the one before left; it wrote one entry for each, the
  one its outcome calls for. The task is finished exactly when the last call gave an answer in
  which as many photos were taken as asked for. No call before was of that kind, so the task stops
  at the first such answer; and a task that is not finished has used all its attempts.
\<close>

theorem photo_task_attempts:
  assumes "execute conf t w = Some (Done (t', w'))" and "task_class t = PhotoTask" and "\<not> finish t"
  defines "b \<equiv> photo_body conf" and "n \<equiv> nat (cn_photo (ser_config conf))"
    and "c \<equiv> post_client conf (ea_ip (ser_config conf) @ '':'' @ ea_port (ser_config conf)) (photo_body conf) ''/request''"
  shows "\<exists>rs. length rs \<le> n \<and> calls_give c (take (length rs) (w_calls w)) rs
    \<and> w_calls w' = drop (length rs) (w_calls w) \<and> w_log w' = w_log w @ map (attempt_entry b) rs
    \<and> (finish t' \<longleftrightarrow> rs \<noteq> [] \<and> all_taken (last rs)) \<and> (\<forall>r\<in>set (butlast rs). \<not> all_taken r)
    \<and> (finish t' \<or> length rs = n)"
proof -
  have "photo_loop n b c t (wait_operator w) = Some (Done (t', w'))"
    using assms(1,2) by (simp add: execute_def photo_execute_def Let_def b_def n_def c_def)
  from photo_loop_attempted[OF this assms(3)] show ?thesis by (auto simp: attempted_def wait_operator_def)
qed

text \<open>Without a connection every call comes back at once.\<close>

definition no_net :: net_env where
  "no_net = \<lparr>connects = False, sends = [], recvs = []\<rparr>"

lemma sync_call_no_net: "sync_call no_net c = Some (Done (False, c))"
  by (simp add: sync_call_def no_net_def split: outcome.split)

definition ex_config :: config where
  "ex_config = \<lparr>sql_config = \<lparr>sql_ip = [], sql_port = [], sql_user = [], sql_passwd = [], sql_dbname = []\<rparr>,
     ser_config = \<lparr>server_ip = ''0.0.0.0'', server_port = 10088, doc_root = ''.'', threads = 4,
       robot_ip = ''192.168.1.235'', robot_port = ''8080'', ea_ip = ''192.168.65.54'', ea_port = ''9989'',
       timeout = 9000, cn_photo = 3\<rparr>,
     photo_conf = \<lparr>photo_type = 0, tablenum = 0, param = []\<rparr>, c_robot_ip = []\<rparr>"

definition ex_world :: world where
  "ex_world = \<lparr>w_calls = replicate 4 no_net, w_log = [], w_prompts = 0\<rparr>"

lemma call_next_no_net:
  "w_calls w = no_net # es \<Longrightarrow> call_next c w = Some (Done (False, c), w\<lparr>w_calls := es\<rparr>)"
  by (simp add: call_next_def sync_call_no_net)

lemma ex_execute:
  "\<exists>w'. execute ex_config (new_task PhotoTask True) ex_world = Some (Done (new_task PhotoTask True, w'))"
  by (simp add: execute_def photo_execute_def new_task_def ex_config_def ex_world_def Let_def
      numeral_eq_Suc call_next_no_net world_defs)

theorem photo_task_attempts_witness:
  "\<exists>rs w'. execute ex_config (new_task PhotoTask True) ex_world = Some (Done (new_task PhotoTask True, w'))
     \<and> length rs = 3 \<and> w_log w' = map (attempt_entry (photo_body ex_config)) rs \<and> \<not> all_taken (last rs)"
proof -
  obtain w' where w': "execute ex_config (new_task PhotoTask True) ex_world
      = Some (Done (new_task PhotoTask True, w'))" using ex_execute by blast
  have t: "task_class (new_task PhotoTask True) = PhotoTask" "\<not> finish (new_task PhotoTask True)"
    by (simp_all add: new_task_def)
  obtain rs where rs: "w_log w' = w_log ex_world @ map (attempt_entry (photo_body ex_config)) rs"
    "length rs = nat (cn_photo (ser_config ex_config))" "\<not> (rs \<noteq> [] \<and> all_taken (last rs))"
    using photo_task_attempts[OF w' t] t(2) by blast
  then have "rs \<noteq> []" "length rs = 3" by (auto simp: ex_config_def)
  with rs w' show ?thesis by (intro exI[of _ rs] exI[of _ w']) (simp add: ex_world_def)
qed


section \<open>The run ends\<close>

text \<open>An environment in which no call waits for ever.\<close>

definition answers :: "net_env \<Rightarrow> bool" where
  "answers env \<longleftrightarrow> (\<forall>c. sync_call env c \<noteq> None)"

lemma call_next_ends:
  assumes "list_all answers (w_calls w)" and "Suc n \<le> length (w_calls w)"
  shows "\<exists>r w1. call_next c w = Some (r, w1) \<and> list_all answers (w_calls w1)
    \<and> n \<le> length (w_calls w1) \<and> length (w_calls w1) = length (w_calls w) - 1"
proof -
  obtain env es where "w_calls w = env # es" using assms(2) by (cases "w_calls w") auto
  with assms show ?thesis by (auto simp: call_next_def answers_def)
qed

definition comes_back :: "nat \<Rightarrow> (task \<times> world) run \<Rightarrow> bool" where
  "comes_back k x \<longleftrightarrow> (\<exists>r. x = Some r \<and>
     (\<forall>t w. r = Done (t, w) \<longrightarrow> list_all answers (w_calls w) \<and> k \<le> length (w_calls w)))"

lemma comes_back_simps [simp]:
  "comes_back k (Some (Done (t, w))) \<longleftrightarrow> list_all answers (w_calls w) \<and> k \<le> length (w_calls w)"
  "comes_back k (Some Undef)" "\<not> comes_back k None"
  by (auto simp: comes_back_def)

lemma photo_loop_ends:
  "list_all answers (w_calls w) \<Longrightarrow> n + k \<le> length (w_calls w) \<Longrightarrow> comes_back k (photo_loop n b c t w)"
proof (induction n arbitrary: c t w)
  case (Suc n)
  have "Suc (n + k) \<le> length (w_calls w)" using Suc.prems(2) by simp
  from call_next_ends[OF Suc.prems(1) this] obtain r w1 where call: "call_next c w = Some (r, w1)"
    and w1: "list_all answers (w_calls w1)" "n + k \<le> length (w_calls w1)" by blast
  have ih: "comes_back k (photo_loop n b c2 t2 w2)" if "w_calls w2 = w_calls w1" for c2 t2 w2
    using Suc.IH[of w2 c2 t2] w1 that by simp
  have calls: "w_calls (recordlog a x w1) = w_calls w1"
    "w_calls (wait_operator (recordlog a x w1)) = w_calls w1" for a x
    by (simp_all add: world_defs)
  show ?case
    using Suc.prems call
    by (cases r) (simp_all add: ih calls Let_def split: outcome.split prod.split)
qed simp

lemma continue_loop_ends:
  "list_all answers (w_calls w) \<Longrightarrow> n \<le> length (w_calls w) \<Longrightarrow> \<exists>r. continue_loop n b c w = Some r"
proof (induction n arbitrary: c w)
  case (Suc n)
  obtain r w1 where call: "call_next c w = Some (r, w1)" and w1: "list_all answers (w_calls w1)"
    "n \<le> length (w_calls w1)"
    using call_next_ends[OF Suc.prems] by blast
  have ih: "\<exists>r. continue_loop n b c2 (recordlog a x w1) = Some r" for c2 a x
    using Suc.IH[of "recordlog a x w1" c2] w1 by (simp add: world_defs)
  show ?case using ih call by (cases r) auto
qed simp

text \<open>
  C22: A task ends. If no call waits for ever, running a task makes at most \<open>2 * cn_photo\<close> calls
  and comes to an end.
\<close>

theorem task_run_ends:
  assumes "list_all answers (w_calls w)"
    and "2 * nat (cn_photo (ser_config conf)) \<le> length (w_calls w)"
  shows "run_task conf t w \<noteq> None"
proof -
  let ?n = "nat (cn_photo (ser_config conf))"
  have "comes_back ?n (execute conf t w)"
  proof (cases "task_class t")
    case PhotoTask
    let ?b = "photo_body conf"
    let ?c = "post_client conf (ea_ip (ser_config conf) @ '':'' @ ea_port (ser_config conf)) ?b ''/request''"
    have w: "list_all answers (w_calls (wait_operator w))" "?n + ?n \<le> length (w_calls (wait_operator w))"
      using assms by (simp_all add: wait_operator_def)
    show ?thesis
      using photo_loop_ends[OF w, of ?b ?c t] PhotoTask
      by (simp add: execute_def photo_execute_def Let_def)
  qed (use assms in \<open>auto simp: execute_def\<close>)
  then obtain r where r: "execute conf t w = Some r" "\<And>t' w'. r = Done (t', w') \<Longrightarrow>
      list_all answers (w_calls w') \<and> ?n \<le> length (w_calls w')" unfolding comes_back_def by blast
  show ?thesis
  proof (cases r)
    case (Done p)
    then obtain t' w' where p: "r = Done (t', w')" by (cases p) auto
    have "\<exists>r. execute_after conf w' = Some r"
      using continue_loop_ends[of w' ?n] r(2)[OF p] by (simp add: execute_after_def Let_def)
    with r p show ?thesis by (auto simp: run_task_def)
  qed (use r in \<open>auto simp: run_task_def\<close>)
qed

theorem task_run_ends_witness:
  "run_task ex_config (new_task PhotoTask True) (ex_world\<lparr>w_calls := replicate 6 no_net\<rparr>) \<noteq> None"
  by (rule task_run_ends) (simp_all add: answers_def sync_call_no_net list_all_iff ex_config_def)


section \<open>The manager\<close>

text \<open>The entries of telling the robot to go on.\<close>

definition go_on :: "action \<times> string \<Rightarrow> bool" where
  "go_on e \<longleftrightarrow> fst e \<in> {Action_continhue_success, Action_continhue_faild, Action_photo_faild}"

text \<open>
  Telling the robot: failed attempts up to the first that is accepted, or all \<open>n\<close> of them failed.
\<close>

definition told :: "nat \<Rightarrow> (action \<times> string) list \<Rightarrow> bool" where
  "told n es \<longleftrightarrow> length es \<le> n
     \<and> (\<forall>e\<in>set (butlast es). fst e \<in> {Action_continhue_faild, Action_photo_faild})
     \<and> (es \<noteq> [] \<and> last es = (Action_continhue_success, [])
        \<or> length es = n \<and> (\<forall>e\<in>set es. fst e \<in> {Action_continhue_faild, Action_photo_faild}))"

lemma told_Cons: "told n es \<Longrightarrow> a \<in> {Action_continhue_faild, Action_photo_faild} \<Longrightarrow> told (Suc n) ((a, x) # es)"
  by (auto simp: told_def)

lemma told_go_on: "told n es \<Longrightarrow> list_all go_on es \<and> length es \<le> n"
  by (cases es rule: rev_cases) (auto simp: told_def go_on_def list_all_iff)

lemma continue_loop_told:
  "continue_loop n b c w = Some (Done w') \<Longrightarrow> \<exists>es. w_log w' = w_log w @ es \<and> told n es"
proof (induction n arbitrary: c w)
  case (Suc n)
  obtain r w1 where call: "call_next c w = Some (r, w1)"
    using Suc.prems by (auto split: option.splits)
  have failed: ?case
    if "continue_loop n b c2 (recordlog a x w1) = Some (Done w')" "a \<in> {Action_continhue_faild, Action_photo_faild}" for c2 a x
  proof -
    from Suc.IH[OF that(1)] obtain es where "w_log w' = w_log (recordlog a x w1) @ es" "told n es" by blast
    with told_Cons[OF _ that(2)] call_next_world[OF call] show ?thesis
      by (intro exI[of _ "(a, x) # es"]) (simp add: world_defs)
  qed
  show ?case
  proof (cases "\<exists>c2. r = Done (True, c2)")
    case True
    then show ?thesis
      using Suc.prems call call_next_world[OF call] by (auto simp: world_defs told_def)
  next
    case False
    with Suc.prems call failed show ?thesis by (cases r) (auto split: if_splits)
  qed
qed (simp add: told_def)

lemma poll_photo_told:
  assumes "job m = Some t # rest" and "task_class t = PhotoTask" and "\<not> finish t"
    and "poll_once conf m = Some (Done m')"
  defines "n \<equiv> nat (cn_photo (ser_config conf))"
  shows "\<exists>photos goes. job m' = rest
    \<and> w_log (mworld m') = w_log (mworld m) @ [(Action_run_get, [])] @ photos @ goes @ [(Action_run_finish, [])]
    \<and> length photos \<le> n
    \<and> (photographed photos \<and> told n goes \<or> goes = [] \<and> list_all retry photos \<and> length photos = n)"
proof -
  let ?w = "recordlog Action_run_get [] (mworld m)"
  obtain t' w1 w2 where ex: "execute conf t ?w = Some (Done (t', w1))"
    and after: "(if finish t' then execute_after conf w1 else Some (Done w1)) = Some (Done w2)"
    and m': "m' = \<lparr>job = rest, mworld = recordlog Action_run_finish [] w2\<rparr>"
    using assms(1,4)
    by (auto simp: poll_once_def q_get_def q_is_empty_def run_pointer_def run_task_def rbind_Done_iff)
  obtain photos where p: "attempts n (finish t') (wait_operator ?w) photos w1"
    using ex assms(2,3) unfolding n_def
    by (auto simp: execute_def photo_execute_def Let_def dest!: photo_loop_attempts)
  have "\<exists>goes. w_log w2 = w_log w1 @ goes \<and> (if finish t' then told n goes else goes = [])"
    using after by (auto simp: execute_after_def Let_def n_def split: if_splits dest!: continue_loop_told)
  then obtain goes where "w_log w2 = w_log w1 @ goes" "if finish t' then told n goes else goes = []" by blast
  with p m' show ?thesis
    by (intro exI[of _ photos] exI[of _ goes]) (auto simp: attempts_def world_defs split: if_splits)
qed

lemma poll_photo_log:
  assumes "job m = Some t # rest" and "task_class t = PhotoTask" and "\<not> finish t"
    and "poll_once conf m = Some (Done m')"
  shows "\<exists>photos goes. job m' = rest
    \<and> w_log (mworld m') = w_log (mworld m) @ [(Action_run_get, [])] @ photos @ goes @ [(Action_run_finish, [])]
    \<and> (photographed photos \<or> goes = [] \<and> list_all retry photos)
    \<and> list_all go_on goes \<and> length goes \<le> nat (cn_photo (ser_config conf))"
proof -
  obtain photos goes where pg: "job m' = rest"
    "w_log (mworld m') = w_log (mworld m) @ [(Action_run_get, [])] @ photos @ goes @ [(Action_run_finish, [])]"
    "photographed photos \<and> told (nat (cn_photo (ser_config conf))) goes \<or> goes = [] \<and> list_all retry photos"
    using poll_photo_told[OF assms] by blast
  then have "list_all go_on goes \<and> length goes \<le> nat (cn_photo (ser_config conf))"
    using told_go_on by fastforce
  with pg show ?thesis by blast
qed

text \<open>
  C5: The robot goes on only after its photos. One pass of the manager over a photo task logs
  that it takes a task, the attempts of the task (failures, or failures and then a success),
  the attempts to tell the robot to go on and that the task is over; there is no attempt to
  tell the robot unless the attempts of the task end with a success.
\<close>

theorem robot_continues_after_photos:
  assumes "job m = Some t # rest" and "task_class t = PhotoTask" and "\<not> finish t"
    and "poll_once conf m = Some (Done m')"
  shows "\<exists>photos goes. job m' = rest
    \<and> w_log (mworld m') = w_log (mworld m) @ [(Action_run_get, [])] @ photos @ goes @ [(Action_run_finish, [])]
    \<and> (photographed photos \<or> goes = [] \<and> list_all retry photos)
    \<and> list_all go_on goes \<and> length goes \<le> nat (cn_photo (ser_config conf))"
  by (rule poll_photo_log[OF assms])

theorem robot_continues_after_photos_witness:
  "\<exists>m' photos goes. poll_once ex_config \<lparr>job = [Some (new_task PhotoTask True)], mworld = ex_world\<rparr> = Some (Done m')
     \<and> w_log (mworld m') = [(Action_run_get, [])] @ photos @ goes @ [(Action_run_finish, [])]"
proof -
  let ?m = "\<lparr>job = [Some (new_task PhotoTask True)], mworld = ex_world\<rparr>"
  obtain m' where "poll_once ex_config ?m = Some (Done m')"
    by (simp add: poll_once_def q_get_def q_is_empty_def run_pointer_def run_task_def execute_def
        photo_execute_def new_task_def ex_config_def ex_world_def Let_def numeral_eq_Suc
        call_next_no_net world_defs)
  from robot_continues_after_photos[OF _ _ _ this] this show ?thesis
    by (fastforce simp: new_task_def ex_world_def)
qed

text \<open>The tasks one after the other, without a queue.\<close>

fun run_all :: "config \<Rightarrow> task option list \<Rightarrow> world \<Rightarrow> world run" where
  "run_all conf [] w = Some (Done w)"
| "run_all conf (t # ts) w =
     rbind (run_pointer conf t (recordlog Action_run_get [] w))
       (\<lambda>w. run_all conf ts (recordlog Action_run_finish [] w))"

lemma poll_run_all:
  "poll (length ts) conf \<lparr>job = ts @ rest, mworld = w\<rparr>
   = rbind (run_all conf ts w) (\<lambda>w. Some (Done \<lparr>job = rest, mworld = w\<rparr>))"
proof (induction ts arbitrary: w)
  case (Cons t ts)
  then show ?case
    by (simp add: poll_once_def q_get_def q_is_empty_def rbind_assoc)
qed simp

lemma job_pushes: "fold taskpush ts m = m\<lparr>job := fold q_put ts (job m)\<rparr>"
  by (induction ts arbitrary: m) (simp_all add: taskpush_def)

text \<open>
  C20: The manager refines the sequential run. Pushing tasks and letting the manager's thread
  make as many passes gives what running the tasks in that order gives, and leaves the
  queue empty.
\<close>

theorem manager_runs_in_order:
  "poll (length (job m @ ts)) conf (fold taskpush ts m)
   = rbind (run_all conf (job m @ ts) (mworld m)) (\<lambda>w. Some (Done \<lparr>job = [], mworld = w\<rparr>))"
proof -
  have "fold taskpush ts m = \<lparr>job = (job m @ ts) @ [], mworld = mworld m\<rparr>"
    using rq.items_puts[of ts "job m"] by (simp add: job_pushes)
  then show ?thesis using poll_run_all[of "job m @ ts" conf "[]" "mworld m"] by simp
qed

end
