(* ===== verification/Robot_Server.thy ===== *)
theory Robot_Server
  imports Robot_Task
begin

text \<open>
  The web service of the robot, \<^verbatim>\<open>Include/http/Source/HttpServer.cpp\<close>: the handler of a
  request. The parts of Boost.Beast it uses are the fields of a request and of a response; the
  socket, the strand and the timers of a session are not modelled. A run without a result waits
  for ever in the call to the robot; \<open>Throws\<close> is an exception that leaves the handler.
\<close>


section \<open>Requests, replies and the state of the service\<close>

datatype verb = Get | Post | Head | Put | Delete | Other_verb

record http_req =
  verb :: verb
  target :: string
  req_type :: string
  req_body :: string

record reply =
  status :: nat
  reply_type :: string
  reply_body :: string
  reply_length :: nat

text \<open>
  The files by name, the errors of files that exist but cannot be opened, the configuration, the
  world of the calls and the log, the queue of the task manager and the threads that were
  started to put a task there and have not run yet.
\<close>

record service =
  s_files :: files
  s_denied :: "string \<Rightarrow> string option"
  s_conf :: config
  s_world :: world
  s_job :: "task option list"
  s_threads :: "task list"

definition text_reply :: "nat \<Rightarrow> string \<Rightarrow> string \<Rightarrow> reply" where
  "text_reply st t b = \<lparr>status = st, reply_type = t, reply_body = b, reply_length = length b\<rparr>"

definition bad_request :: "string \<Rightarrow> reply" where
  "bad_request why = text_reply 400 ''text/html'' why"

definition not_found :: "string \<Rightarrow> reply" where
  "not_found tgt = text_reply 404 ''text/html''
     (''The resource '' @ [CHR 0x27] @ tgt @ [CHR 0x27] @ '' was not found.'')"

definition server_error :: "string \<Rightarrow> reply" where
  "server_error msg = text_reply 500 ''text/html''
     (''An error occurred: '' @ [CHR 0x27] @ msg @ [CHR 0x27])"

text \<open>The reply with JSON: the text decoded and encoded again, whether it decodes or not.\<close>

definition comm_response :: "string \<Rightarrow> reply outcome" where
  "comm_response what =
     (if length what \<noteq> 0
      then obind (json_left what) (\<lambda>root. Done (text_reply 200 ''application/json'' (json_text root)))
      else Done (text_reply 200 ''application/json'' []))"


section \<open>Strings\<close>

definition rfind :: "string \<Rightarrow> string \<Rightarrow> nat option" where
  "rfind str pat = find (\<lambda>i. prefix pat (drop i str)) (rev [0..<length str + 1])"

text \<open>The first word of a text, as a string stream reads it; none leaves the string empty.\<close>

definition first_word :: "string \<Rightarrow> string" where
  "first_word s = takeWhile (\<lambda>c. \<not> is_space c) (dropWhile is_space s)"

definition mime_types :: "(string \<times> string) list" where
  "mime_types = [
     (''.htm'', ''text/html''), (''.html'', ''text/html''), (''.php'', ''text/html''),
     (''.css'', ''text/css''), (''.txt'', ''text/plain''), (''.js'', ''application/javascript''),
     (''.json'', ''application/json''), (''.xml'', ''application/xml''),
     (''.swf'', ''application/x-shockwave-flash''), (''.flv'', ''video/x-flv''),
     (''.png'', ''image/png''), (''.jpe'', ''image/jpeg''), (''.jpeg'', ''image/jpeg''),
     (''.jpg'', ''image/jpeg''), (''.gif'', ''image/gif''), (''.bmp'', ''image/bmp''),
     (''.ico'', ''image/vnd.microsoft.icon''), (''.tiff'', ''image/tiff''),
     (''.tif'', ''image/tiff''), (''.svg'', ''image/svg+xml''), (''.svgz'', ''image/svg+xml'')]"

definition mime_type :: "string \<Rightarrow> string" where
  "mime_type path =
     (let ext = (case rfind path ''.'' of None \<Rightarrow> [] | Some pos \<Rightarrow> drop pos path) in
      case map_of mime_types (map to_lower_char ext) of
        Some t \<Rightarrow> t | None \<Rightarrow> ''application/text'')"

definition path_cat :: "string \<Rightarrow> string \<Rightarrow> string" where
  "path_cat base path =
     (if base = [] then path
      else (if last base = CHR ''/'' then butlast base else base) @ path)"


section \<open>The commands of the service\<close>

text \<open>A request for the robot is passed on.\<close>

definition transmit_client :: "config \<Rightarrow> http_req \<Rightarrow> client" where
  "transmit_client conf rq =
     (let c = new_client True; s = ser_config conf in
      c\<lparr>recv_timeout := nat (uint (word_of_int (timeout s) :: u32)),
        req := (req c)\<lparr>host := robot_ip s @ '':'' @ robot_port s,
          content_type := (if req_type rq \<noteq> [] then first_word (req_type rq) else []),
          http_method := (case verb rq of
              Post \<Rightarrow> ''POST'' | Get \<Rightarrow> ''GET'' | Delete \<Rightarrow> ''DELETE'' | Put \<Rightarrow> ''PUT'' | _ \<Rightarrow> []),
          body := req_body rq, url := path_cat [] (target rq)\<rparr>\<rparr>)"

definition transmit_failed :: string where
  "transmit_failed = ''{  '' @ [CHR 0x22] @ ''msg'' @ [CHR 0x22] @ '':'' @ [CHR 0x22] @ ''transmit faild!''
     @ [CHR 0x22] @ ''}''"

definition transmit :: "http_req \<Rightarrow> service \<Rightarrow> (reply \<times> service) run" where
  "transmit rq s =
     (case call_next (transmit_client (s_conf s) rq) (s_world s) of
        None \<Rightarrow> None
      | Some (r, w) \<Rightarrow>
          Some (obind r (\<lambda>(ok, c).
            if ok
            then obind (comm_response (body (resp c))) (\<lambda>rep. Done (rep, s\<lparr>s_world := w\<rparr>))
            else Done (bad_request transmit_failed, s\<lparr>s_world := w\<rparr>))))"

text \<open>
  A tip of the robot starts a thread that puts a photo task into the queue, for each of the three
  known actions.
\<close>

definition start_product :: "task \<Rightarrow> service \<Rightarrow> service" where
  "start_product t s = s\<lparr>s_threads := s_threads s @ [t]\<rparr>"

definition tips_mark :: string where
  "tips_mark = bytes_text [0xE6, 0x8E, 0xA5, 0xE6, 0x94, 0xB6, 0xE5, 0x88, 0xB0, 0xE4, 0xBB, 0xBB,
     0xE5, 0x8A, 0xA1, 0xE7, 0xB1, 0xBB, 0xE5, 0x9E, 0x8B, 0xEF, 0xBC, 0x9A]"

definition tips :: "(string \<Rightarrow> xml list option) \<Rightarrow> http_req \<Rightarrow> service \<Rightarrow> (reply \<times> service) outcome" where
  "tips parse_xml rq s =
     (if req_type rq \<noteq> ''application/json'' then Done (bad_request ''error request'', s)
      else obind (json_left (req_body rq)) (\<lambda>root.
           obind (member_value ''ACTION'' root) (\<lambda>v.
             let mode = atoi v;
                 s = s\<lparr>s_world := recordlog Action_post (tips_mark @ show_int mode) (s_world s)\<rparr>;
                 t = new_task PhotoTask True
             in obind (if mode = 1
                       then obind (loadphoto_config (load_file parse_xml (s_files s) ''photo_config.xml'')
                              (s_conf s)) (\<lambda>(ok, conf). Done (start_product t (s\<lparr>s_conf := conf\<rparr>)))
                       else if mode = 2 \<or> mode = 3 then Done (start_product t s)
                       else Done s) (\<lambda>s.
                obind (comm_response []) (\<lambda>rep. Done (rep, s))))))"

text \<open>A thread that was started runs.\<close>

definition run_producer :: "nat \<Rightarrow> service \<Rightarrow> service" where
  "run_producer i s =
     (if i < length (s_threads s)
      then s\<lparr>s_job := q_put (Some (s_threads s ! i)) (s_job s),
             s_threads := take i (s_threads s) @ drop (Suc i) (s_threads s)\<rparr>
      else s)"


section \<open>Uploads of configuration files\<close>

text \<open>
  One \<open>getline\<close> from a position of the text: the line and the position behind its end, or
  \<open>None\<close> when the stream fails, at the end or on a line that fills the buffer.
\<close>

definition max_char_size :: nat where "max_char_size = 102400"

definition get_line :: "string \<Rightarrow> nat \<Rightarrow> (string \<times> nat) option" where
  "get_line txt pos =
     (let rest = drop pos txt; seg = takeWhile (\<lambda>c. c \<noteq> CHR 0x0A) rest in
      if rest = [] \<or> max_char_size - 1 < length seg then None
      else Some (seg, pos + length seg + (if length seg < length rest then 1 else 0)))"

text \<open>The output file: closed, open under a name, or broken by a second \<open>open\<close>.\<close>

datatype out_file = Closed | Opened string | Broken

fun open_out :: "string \<Rightarrow> out_file \<times> files \<Rightarrow> out_file \<times> files" where
  "open_out nm (Closed, fs) = (Opened nm, fs(nm \<mapsto> []))"
| "open_out nm (_, fs) = (Broken, fs)"

fun write_out :: "string \<Rightarrow> out_file \<times> files \<Rightarrow> out_file \<times> files" where
  "write_out t (Opened nm, fs) =
     (Opened nm, fs(nm \<mapsto> (case fs nm of None \<Rightarrow> [] | Some old \<Rightarrow> old) @ t))"
| "write_out t (f, fs) = (f, fs)"

text \<open>
  The name of the file from a disposition line: from the first dot to the last quote must be
  \<open>.xml\<close>. \<open>substr\<close> throws when there is no dot; a difference below zero takes all the rest.
\<close>

definition postfix_of :: "string \<Rightarrow> string outcome" where
  "postfix_of line =
     (case find_sub ''.'' line of
        None \<Rightarrow> Throws Out_of_range
      | Some p \<Rightarrow> Done (case rfind line [CHR 0x22] of
            None \<Rightarrow> drop p line
          | Some q \<Rightarrow> if p \<le> q then take (q - p) (drop p line) else drop p line))"

definition config_names :: "string list" where
  "config_names = [''mysql_config'', ''photo_config'', ''server_config'']"

text \<open>Refused is \<open>None\<close>.\<close>

definition config_name :: "string \<Rightarrow> string option outcome" where
  "config_name line =
     obind (postfix_of line) (\<lambda>postfix.
       if postfix \<noteq> ''.xml'' then Done None
       else Done (map_option (\<lambda>n. n @ postfix) (find (\<lambda>n. contains line n) config_names)))"

text \<open>
  How many characters of the content are copied: as long as the count is below the position of
  the last delimiter less two, on the unsigned numbers.
\<close>

definition copy_count :: "string \<Rightarrow> string \<Rightarrow> nat \<Rightarrow> nat" where
  "copy_count txt delimit ncount =
     (let k = (case rfind txt delimit of
                 None \<Rightarrow> 2 ^ 64 - 3 | Some i \<Rightarrow> if i < 2 then 2 ^ 64 - 2 + i else i - 2)
      in k - (ncount + 2))"

text \<open>The lines of the body. The result is \<open>None\<close> for a request that is refused.\<close>

function upload_loop ::
    "string \<Rightarrow> string \<Rightarrow> nat \<Rightarrow> nat \<Rightarrow> out_file \<times> files \<Rightarrow> (bool \<times> files) outcome" where
  "upload_loop txt delimit pos ncount f =
     (case get_line txt pos of
        None \<Rightarrow> Done (True, snd f)
      | Some (line, pos') \<Rightarrow>
          let s_line = c_str line; ncount = ncount + (length s_line + 1) in
          if contains s_line ''Content-Disposition:''
          then obind (config_name s_line) (\<lambda>nm.
                 case nm of
                   None \<Rightarrow> Done (False, snd f)
                 | Some nm \<Rightarrow> upload_loop txt delimit pos' ncount (open_out nm f))
          else if contains s_line ''Content-Type:''
          then (case get_line txt pos' of
                  None \<Rightarrow> Done (True, snd f)
                | Some (devnull, pos'') \<Rightarrow>
                    let ncount = ncount + (length (c_str devnull) + 1) in
                    Done (True, snd (write_out (take (copy_count txt delimit ncount) (drop pos'' txt)) f)))
          else upload_loop txt delimit pos' ncount f)"
  by pat_completeness auto
termination
  by (relation "measure (\<lambda>(txt, d, pos, n, f). length txt - pos)")
     (auto simp: get_line_def Let_def split: if_splits)

declare upload_loop.simps [simp del]

definition boundary_of :: "string \<Rightarrow> string option" where
  "boundary_of ctype =
     (case find_sub ''boundary='' ctype of
        None \<Rightarrow> None
      | Some n \<Rightarrow> Some (first_word (drop (n + length ''boundary='') ctype)))"

definition load_configs :: "(string \<Rightarrow> xml list option) \<Rightarrow> service \<Rightarrow> service outcome" where
  "load_configs parse_xml s =
     (let file = load_file parse_xml (s_files s) in
      obind (loadphoto_config (file ''photo_config.xml'') (s_conf s)) (\<lambda>(_, conf).
      obind (loadserver_config (file ''server_config.xml'') conf) (\<lambda>(_, conf).
      obind (loadmysql_config (file ''mysql_config.xml'') conf) (\<lambda>(_, conf).
        Done (s\<lparr>s_conf := conf\<rparr>)))))"

definition upload ::
    "(string \<Rightarrow> xml list option) \<Rightarrow> string \<Rightarrow> http_req \<Rightarrow> service \<Rightarrow> (reply \<times> service) outcome" where
  "upload parse_xml path rq s =
     (if \<not> contains path ''/mysql_config'' \<and> \<not> contains path ''/photo_config''
         \<and> \<not> contains path ''/server_config''
      then Done (bad_request ''error request'', s)
      else case boundary_of (req_type rq) of
             None \<Rightarrow> Done (bad_request ''error request'', s)
           | Some delimit \<Rightarrow>
               obind (upload_loop (req_body rq) delimit 0 0 (Closed, s_files s)) (\<lambda>(ok, fs).
                 let s = s\<lparr>s_files := fs\<rparr> in
                 if \<not> ok then Done (bad_request ''error request'', s)
                 else obind (load_configs parse_xml s) (\<lambda>s.
                      obind (comm_response []) (\<lambda>rep. Done (rep, s)))))"


section \<open>The handler\<close>

definition legal_target :: "string \<Rightarrow> bool" where
  "legal_target t \<longleftrightarrow>
     \<not> (t = [] \<or> hd t \<noteq> CHR ''/'' \<or> contains t ''..'' \<or> contains t ''//'')"

definition head_reply :: "string \<Rightarrow> http_req \<Rightarrow> service \<Rightarrow> reply" where
  "head_reply path rq s =
     (case s_denied s path of
        Some msg \<Rightarrow> server_error msg
      | None \<Rightarrow> (case s_files s path of
            None \<Rightarrow> not_found (target rq)
          | Some content \<Rightarrow> \<lparr>status = 200, reply_type = mime_type path, reply_body = [],
                reply_length = length content\<rparr>))"

definition handle_request ::
    "(string \<Rightarrow> xml list option) \<Rightarrow> string \<Rightarrow> http_req \<Rightarrow> service \<Rightarrow> (reply \<times> service) run" where
  "handle_request parse_xml docroot rq s =
     (if verb rq \<noteq> Post \<and> verb rq \<noteq> Get \<and> verb rq \<noteq> Head
      then Some (Done (bad_request ''Unknown HTTP-method'', s))
      else if \<not> legal_target (target rq)
      then Some (Done (bad_request ''Illegal request-target'', s))
      else let path = path_cat docroot (target rq) in
        if contains path ''./api/v2/'' then transmit rq s
        else if contains path ''./robot/tips'' then Some (tips parse_xml rq s)
        else if contains path ''./robot/configs'' then Some (upload parse_xml path rq s)
        else if verb rq = Post
        then Some (Done (
               if req_type rq = ''application/json'' then (bad_request (target rq), s)
               else (bad_request ''POST'', s\<lparr>s_files := (s_files s)(''./data.txt'' \<mapsto> req_body rq)\<rparr>)))
        else if verb rq = Get then Some (Done (bad_request ''Get'', s))
        else Some (Done (head_reply path rq s, s)))"

text \<open>
  \<open>main\<close>: the logs of the start, and the thread of the task manager taking tasks from the queue.
\<close>

definition service_start :: "service \<Rightarrow> service" where
  "service_start s =
     s\<lparr>s_world := recordlog Action_web [] (recordlog Action_task [] (recordlog Action_init []
        (recordlog Action_begin [] (s_world s))))\<rparr>"

definition service_poll :: "service \<Rightarrow> service run" where
  "service_poll s =
     rbind (poll_once (s_conf s) \<lparr>job = s_job s, mworld = s_world s\<rparr>)
       (\<lambda>m. Some (Done (s\<lparr>s_job := job m, s_world := mworld m\<rparr>)))"

end
