(* ===== verification/Robot_Server_Correct.thy ===== *)
theory Robot_Server_Correct
  imports Robot_Server Robot_Task_Correct
begin

text \<open>
  Correctness of the web service: an uploaded configuration file arrives byte for byte and is
  loaded, what an upload without a file name does, which files and tasks a request can touch,
  that a call passed on to the robot brings back its answer, and the way of a tip of the robot
  through the queue to the photos and the call to go on.
\<close>


section \<open>Lines and positions\<close>

lemma find_later: "find P xs = None \<Longrightarrow> find P (xs @ ys) = find P ys"
  by (induction xs) (auto split: if_splits)

lemma rfind_Some:
  assumes "prefix pat (drop i str)" and "i \<le> length str"
    and "\<And>j. i < j \<Longrightarrow> j \<le> length str \<Longrightarrow> \<not> prefix pat (drop j str)"
  shows "rfind str pat = Some i"
proof -
  have "[0..<i + (length str + 1 - i)] = [0..<i] @ [i..<i + (length str + 1 - i)]"
    by (rule upt_add_eq_append) simp
  then have "[0..<length str + 1] = [0..<i] @ i # [i + 1..<length str + 1]"
    using assms(2) by (simp add: upt_conv_Cons)
  then have "rev [0..<length str + 1] = rev [i + 1..<length str + 1] @ i # rev [0..<i]" by simp
  moreover have "find (\<lambda>i. prefix pat (drop i str)) (rev [i + 1..<length str + 1]) = None"
    unfolding find_None_iff using assms(3) by (metis atLeastLessThan_iff set_rev set_upt
        Suc_eq_plus1 Suc_le_eq less_Suc_eq_le)
  ultimately show ?thesis
    using assms(1) by (simp add: rfind_def find_later)
qed

lemma rfind_last:
  assumes "pat \<noteq> []" and "last pat \<notin> set post"
  shows "rfind (pre @ pat @ post) pat = Some (length pre)"
proof (rule rfind_Some)
  fix j assume j: "length pre < j" "j \<le> length (pre @ pat @ post)"
  show "\<not> prefix pat (drop j (pre @ pat @ post))"
  proof
    assume "prefix pat (drop j (pre @ pat @ post))"
    then obtain z where z: "drop j (pre @ pat @ post) = pat @ z" by (auto simp: prefix_def)
    have "last pat = (pat @ z) ! (length pat - 1)"
      using assms(1) by (simp add: last_conv_nth nth_append)
    also have "\<dots> = (pre @ pat @ post) ! (j + (length pat - 1))"
      using nth_drop[of j "pre @ pat @ post"] j(2) z by metis
    also have "\<dots> = post ! (j + (length pat - 1) - length pre - length pat)"
    proof -
      have "length pre + length pat \<le> j + (length pat - 1)" using j(1) assms(1) by (cases pat) auto
      then have "\<not> j + (length pat - 1) < length pre"
        "\<not> j + (length pat - 1) - length pre < length pat" by linarith+
      then show ?thesis by (simp only: nth_append if_False)
    qed
    finally have "last pat = post ! (j + (length pat - 1) - length pre - length pat)" .
    moreover have "length (pat @ z) \<le> length pre + length pat + length post - j"
      using arg_cong[OF z, of length] by simp
    then have "j + (length pat - 1) - length pre - length pat < length post"
      using j assms(1) by (cases pat) auto
    ultimately show False using assms(2) nth_mem by metis
  qed
qed auto

lemma get_line_at:
  assumes "drop pos s = l @ CHR 0x0A # rest" and "CHR 0x0A \<notin> set l" and "length l < max_char_size"
  shows "get_line s pos = Some (l, pos + length l + 1)"
proof -
  have "takeWhile (\<lambda>c. c \<noteq> CHR 0x0A) (l @ CHR 0x0A # rest) = l"
    using assms(2) by (subst takeWhile_append2) auto
  then show ?thesis using assms(1,3) by (simp add: get_line_def Let_def)
qed



section \<open>Uploads\<close>

text \<open>The body of a form that uploads one configuration file.\<close>

definition disposition :: "string \<Rightarrow> string" where
  "disposition nm = ''Content-Disposition: form-data; name='' @ [CHR 0x22] @ ''file'' @ [CHR 0x22]
     @ ''; filename='' @ [CHR 0x22] @ nm @ ''.xml'' @ [CHR 0x22, CHR 0x0D]"

definition multipart :: "string \<Rightarrow> string \<Rightarrow> string \<Rightarrow> string" where
  "multipart delimit nm content =
     (''--'' @ delimit @ [CHR 0x0D]) @ [CHR 0x0A] @ disposition nm @ [CHR 0x0A]
     @ (''Content-Type: text/xml'' @ [CHR 0x0D]) @ [CHR 0x0A] @ [CHR 0x0D] @ [CHR 0x0A]
     @ content @ crlf @ ''--'' @ delimit @ ''--'' @ crlf"

definition boundary_ok :: "string \<Rightarrow> bool" where
  "boundary_ok d \<longleftrightarrow> d \<noteq> [] \<and> length d < 100000 \<and> last d \<noteq> CHR ''-''
     \<and> list_all (\<lambda>c. \<not> is_space c \<and> c \<noteq> CHR '':'' \<and> c \<noteq> CHR 0x00) d"

lemma contains_sublist: "contains s pat \<longleftrightarrow> sublist pat s"
  unfolding contains_def using find_sub_None_sublist[of pat s] by auto

lemma contains_set: "contains s pat \<Longrightarrow> set pat \<subseteq> set s"
  by (auto simp: contains_sublist dest: set_mono_sublist)

lemma config_name_disposition:
  assumes "nm \<in> set config_names"
  shows "config_name (disposition nm) = Done (Some (nm @ ''.xml''))"
    and "contains (disposition nm) ''Content-Disposition:''"
    and "CHR 0x0A \<notin> set (disposition nm)" and "CHR 0x00 \<notin> set (disposition nm)"
    and "length (disposition nm) < 100"
proof -
  have p: "postfix_of (disposition nm) = Done ''.xml''"
  proof -
    let ?a = "''Content-Disposition: form-data; name='' @ [CHR 0x22] @ ''file'' @ [CHR 0x22]
      @ ''; filename='' @ [CHR 0x22] @ nm"
    have d: "disposition nm = ?a @ CHR ''.'' # (''xml'' @ [CHR 0x22, CHR 0x0D])"
      "disposition nm = (?a @ ''.xml'') @ [CHR 0x22] @ [CHR 0x0D]"
      by (simp_all add: disposition_def)
    have "CHR ''.'' \<notin> set ?a" using assms by (auto simp: config_names_def)
    then have "find_sub ''.'' (disposition nm) = Some (length ?a)"
      unfolding d(1) by (rule find_sub_char)
    moreover have "rfind (disposition nm) [CHR 0x22] = Some (length (?a @ ''.xml''))"
      unfolding d(2) by (rule rfind_last) simp_all
    moreover have "drop (length ?a) (disposition nm) = ''.xml'' @ [CHR 0x22, CHR 0x0D]"
      unfolding d(1) by simp
    ultimately show ?thesis by (simp add: postfix_of_def)
  qed
  have "find (\<lambda>n. contains (disposition nm) n) config_names = Some nm"
    using assms unfolding config_names_def list.set insert_iff empty_iff
    by (elim disjE FalseE; hypsubst) (code_simp+)
  then show "config_name (disposition nm) = Done (Some (nm @ ''.xml''))"
    by (simp add: config_name_def p)
  show "contains (disposition nm) ''Content-Disposition:''"
    by (simp add: contains_def disposition_def find_sub_Cons)
  show "CHR 0x0A \<notin> set (disposition nm)" "CHR 0x00 \<notin> set (disposition nm)"
    "length (disposition nm) < 100"
    using assms by (auto simp: config_names_def disposition_def)
qed

lemma boundary_not:
  assumes "boundary_ok d" and "CHR '':'' \<in> set pat"
  shows "\<not> contains (''--'' @ d @ [CHR 0x0D]) pat"
  using assms contains_set[of "''--'' @ d @ [CHR 0x0D]" pat]
  by (auto simp: boundary_ok_def list_all_iff)

lemma boundary_chars:
  assumes "boundary_ok d"
  shows "CHR 0x0A \<notin> set d" and "CHR 0x0D \<notin> set d" and "CHR 0x00 \<notin> set d"
proof -
  have *: "\<not> is_space c \<and> c \<noteq> CHR 0x00" if "c \<in> set d" for c
    using that assms by (simp add: boundary_ok_def list_all_iff)
  show "CHR 0x0A \<notin> set d" "CHR 0x0D \<notin> set d" "CHR 0x00 \<notin> set d"
    using *[of "CHR 0x0A"] *[of "CHR 0x0D"] *[of "CHR 0x00"] by (auto simp: is_space_def)
qed

lemma copy_count_multipart:
  assumes "boundary_ok d" and "txt = pre @ content @ crlf @ ''--'' @ d @ ''--'' @ crlf"
  shows "copy_count txt d (length pre) = length content"
proof -
  have "last d \<in> set d" using assms(1) by (simp add: boundary_ok_def)
  then have "last d \<noteq> CHR 0x0A" "last d \<noteq> CHR 0x0D"
    using boundary_chars[OF assms(1)] by metis+
  then have "last d \<notin> set (''--'' @ crlf)"
    using assms(1) by (simp add: boundary_ok_def crlf_def)
  moreover have "d \<noteq> []" using assms(1) by (simp add: boundary_ok_def)
  ultimately have "rfind ((pre @ content @ crlf @ ''--'') @ d @ ''--'' @ crlf) d
      = Some (length (pre @ content @ crlf @ ''--''))"
    by (intro rfind_last) simp_all
  then show ?thesis by (simp add: copy_count_def assms(2) crlf_def)
qed

lemma drop_line:
  assumes "drop pos s = l @ c # rest"
  shows "drop (pos + length l + 1) s = rest"
proof -
  have "drop (pos + length l + 1) s = drop (length l + 1) (drop pos s)" by (simp add: ac_simps)
  then show ?thesis by (simp add: assms)
qed

text \<open>Four lines, a disposition in the second and a content type in the third.\<close>

lemma upload_loop_lines:
  assumes whole: "txt = l1 @ CHR 0x0A # l2 @ CHR 0x0A # l3 @ CHR 0x0A # l4 @ CHR 0x0A # rest"
    and lines: "list_all (\<lambda>l. CHR 0x0A \<notin> set l \<and> CHR 0x00 \<notin> set l \<and> length l < max_char_size) [l1, l2, l3, l4]"
    and l1: "\<not> contains l1 ''Content-Disposition:''" "\<not> contains l1 ''Content-Type:''"
    and l2: "contains l2 ''Content-Disposition:''" "config_name l2 = Done (Some nm)"
    and l3: "\<not> contains l3 ''Content-Disposition:''" "contains l3 ''Content-Type:''"
    and copy: "take (copy_count txt d (length txt - length rest)) rest = content"
  shows "upload_loop txt d 0 0 (Closed, fs) = Done (True, fs(nm \<mapsto> content))"
proof -
  let ?p1 = "length l1 + 1" let ?p2 = "?p1 + length l2 + 1" let ?p3 = "?p2 + length l3 + 1"
  let ?p4 = "?p3 + length l4 + 1"
  have t: "drop 0 txt = l1 @ CHR 0x0A # (l2 @ CHR 0x0A # l3 @ CHR 0x0A # l4 @ CHR 0x0A # rest)"
    "drop ?p1 txt = l2 @ CHR 0x0A # (l3 @ CHR 0x0A # l4 @ CHR 0x0A # rest)"
    "drop ?p2 txt = l3 @ CHR 0x0A # (l4 @ CHR 0x0A # rest)"
    "drop ?p3 txt = l4 @ CHR 0x0A # rest" "drop ?p4 txt = rest"
  proof -
    show t0: "drop 0 txt = l1 @ CHR 0x0A # (l2 @ CHR 0x0A # l3 @ CHR 0x0A # l4 @ CHR 0x0A # rest)"
      by (simp add: whole)
    show t1: "drop ?p1 txt = l2 @ CHR 0x0A # (l3 @ CHR 0x0A # l4 @ CHR 0x0A # rest)"
      using drop_line[OF t0] by (simp only: add_0)
    show t2: "drop ?p2 txt = l3 @ CHR 0x0A # (l4 @ CHR 0x0A # rest)" by (rule drop_line[OF t1])
    show t3: "drop ?p3 txt = l4 @ CHR 0x0A # rest" by (rule drop_line[OF t2])
    show "drop ?p4 txt = rest" by (rule drop_line[OF t3])
  qed
  have g: "get_line txt 0 = Some (l1, ?p1)" "get_line txt ?p1 = Some (l2, ?p2)"
    "get_line txt ?p2 = Some (l3, ?p3)" "get_line txt ?p3 = Some (l4, ?p4)"
    using get_line_at[OF t(1)] get_line_at[OF t(2)] get_line_at[OF t(3)] get_line_at[OF t(4)] lines
    by simp_all
  have c: "c_str l1 = l1" "c_str l2 = l2" "c_str l3 = l3" "c_str l4 = l4"
    using lines by (simp_all add: c_str_id)
  have n: "0 + (length l1 + 1) = ?p1" "?p1 + (length l2 + 1) = ?p2" "?p2 + (length l3 + 1) = ?p3"
    "?p3 + (length l4 + 1) = ?p4" "length txt - length rest = ?p4"
    by (simp_all add: whole)
  have "upload_loop txt d 0 0 (Closed, fs) = upload_loop txt d ?p1 ?p1 (Closed, fs)"
    by (subst upload_loop.simps) (simp only: g option.case prod.case c n Let_def l1 if_False)
  also have "\<dots> = upload_loop txt d ?p2 ?p2 (open_out nm (Closed, fs))"
    by (subst upload_loop.simps)
       (simp only: g option.case prod.case c n Let_def l2 if_True obind.simps)
  also have "\<dots> = Done (True, snd (write_out content (open_out nm (Closed, fs))))"
    using copy unfolding n
    by (subst upload_loop.simps)
       (simp only: g option.case prod.case c n Let_def l3 if_True if_False t)
  finally show ?thesis by simp
qed

lemma upload_loop_multipart:
  assumes d: "boundary_ok d" and nm: "nm \<in> set config_names"
  shows "upload_loop (multipart d nm content) d 0 0 (Closed, fs)
    = Done (True, fs(nm @ ''.xml'' \<mapsto> content))"
proof (rule upload_loop_lines)
  let ?l1 = "''--'' @ d @ [CHR 0x0D]" and ?l3 = "''Content-Type: text/xml'' @ [CHR 0x0D]"
  let ?rest = "content @ crlf @ ''--'' @ d @ ''--'' @ crlf"
  note cd = config_name_disposition[OF nm] and bc = boundary_chars[OF d]
  let ?pre = "?l1 @ CHR 0x0A # disposition nm @ CHR 0x0A # ?l3 @ CHR 0x0A # [CHR 0x0D] @ [CHR 0x0A]"
  show "multipart d nm content
      = ?l1 @ CHR 0x0A # disposition nm @ CHR 0x0A # ?l3 @ CHR 0x0A # [CHR 0x0D] @ CHR 0x0A # ?rest"
    by (simp add: multipart_def)
  then have whole: "multipart d nm content = ?pre @ ?rest" by simp
  show "list_all (\<lambda>l. CHR 0x0A \<notin> set l \<and> CHR 0x00 \<notin> set l \<and> length l < max_char_size)
      [?l1, disposition nm, ?l3, [CHR 0x0D]]"
    using bc cd(3-5) d by (simp add: boundary_ok_def max_char_size_def)
  show "\<not> contains ?l1 ''Content-Disposition:''" "\<not> contains ?l1 ''Content-Type:''"
    by (rule boundary_not[OF d], simp)+
  show "contains (disposition nm) ''Content-Disposition:''"
    "config_name (disposition nm) = Done (Some (nm @ ''.xml''))" by (rule cd)+
  show "\<not> contains ?l3 ''Content-Disposition:''" "contains ?l3 ''Content-Type:''" by code_simp+
  have len: "length (multipart d nm content) - length ?rest = length ?pre" by (simp only: whole length_append)
  show "take (copy_count (multipart d nm content) d (length (multipart d nm content) - length ?rest)) ?rest = content"
    unfolding len copy_count_multipart[OF d whole] by simp
qed

lemma boundary_of_form:
  assumes "boundary_ok d"
  shows "boundary_of (''multipart/form-data; boundary='' @ d) = Some d"
proof -
  have t: "''multipart/form-data; boundary='' @ d = ''multipart/form-data; '' @ ''boundary='' @ d" by simp
  have "find_sub ''boundary='' (''multipart/form-data; '' @ ''boundary='' @ d)
      = Some (length ''multipart/form-data; '')"
    using find_sub_head[of "CHR ''b''" "''multipart/form-data; ''" "''oundary=''" d] by simp
  moreover have "first_word d = d"
    using assms by (cases d) (auto simp: first_word_def boundary_ok_def list_all_iff takeWhile_eq_all_conv)
  ultimately show ?thesis unfolding boundary_of_def t by simp
qed

lemma config_target:
  assumes "nm \<in> set config_names"
  shows "legal_target (''/robot/configs/'' @ nm)"
    and "\<not> contains (''./robot/configs/'' @ nm) ''./api/v2/''"
    and "\<not> contains (''./robot/configs/'' @ nm) ''./robot/tips''"
    and "contains (''./robot/configs/'' @ nm) ''./robot/configs''"
    and "contains (''./robot/configs/'' @ nm) (CHR ''/'' # nm)"
proof -
  have "list_all (\<lambda>nm. legal_target (''/robot/configs/'' @ nm)
      \<and> \<not> contains (''./robot/configs/'' @ nm) ''./api/v2/''
      \<and> \<not> contains (''./robot/configs/'' @ nm) ''./robot/tips''
      \<and> contains (''./robot/configs/'' @ nm) ''./robot/configs''
      \<and> contains (''./robot/configs/'' @ nm) (CHR ''/'' # nm)) config_names" by code_simp
  note * = bspec[OF this[unfolded list_all_iff] assms]
  show "legal_target (''/robot/configs/'' @ nm)" by (rule conjunct1[OF *])
  show "\<not> contains (''./robot/configs/'' @ nm) ''./api/v2/''"
    by (rule conjunct1[OF conjunct2[OF *]])
  show "\<not> contains (''./robot/configs/'' @ nm) ''./robot/tips''"
    by (rule conjunct1[OF conjunct2[OF conjunct2[OF *]]])
  show "contains (''./robot/configs/'' @ nm) ''./robot/configs''"
    by (rule conjunct1[OF conjunct2[OF conjunct2[OF conjunct2[OF *]]]])
  show "contains (''./robot/configs/'' @ nm) (CHR ''/'' # nm)"
    by (rule conjunct2[OF conjunct2[OF conjunct2[OF conjunct2[OF *]]]])
qed

text \<open>
  C1: A configuration file arrives. The upload of one of the three configuration files as a form
  of one part, with any content and a delimiter of \<open>boundary_ok\<close>, to the document root \<^verbatim>\<open>.\<close>, is
  stored byte for byte under its name, and the three configurations are loaded from the files as
  they then are. When the loaders come to an end, the answer is an empty JSON reply and the
  service has the loaded configuration. They need not: the file is stored whatever it holds, and
  a document without the elements a loader looks for makes it follow a null pointer, which is then
  what the request does.
\<close>

theorem config_upload:
  assumes "nm \<in> set config_names" and "boundary_ok d" and "verb rq \<in> {Post, Get, Head}"
    and "target rq = ''/robot/configs/'' @ nm" and "req_body rq = multipart d nm content"
    and "req_type rq = ''multipart/form-data; boundary='' @ d"
  shows "handle_request parse_xml ''.'' rq s
    = Some (obind (load_configs parse_xml (s\<lparr>s_files := (s_files s)(nm @ ''.xml'' \<mapsto> content)\<rparr>))
        (\<lambda>s'. Done (text_reply 200 ''application/json'' [], s')))"
proof -
  note t = config_target[OF assms(1)]
  have path: "path_cat ''.'' (target rq) = ''./robot/configs/'' @ nm"
    by (simp add: path_cat_def assms(4))
  have v: "\<not> (verb rq \<noteq> Post \<and> verb rq \<noteq> Get \<and> verb rq \<noteq> Head)" using assms(3) by auto
  have "handle_request parse_xml ''.'' rq s = Some (upload parse_xml (''./robot/configs/'' @ nm) rq s)"
    unfolding handle_request_def path Let_def
    by (simp only: v assms(4) t(1-4) if_True if_False simp_thms)
  moreover have "nm = ''mysql_config'' \<or> nm = ''photo_config'' \<or> nm = ''server_config''"
    using assms(1) by (simp add: config_names_def)
  then have api: "\<not> (\<not> contains (''./robot/configs/'' @ nm) ''/mysql_config''
      \<and> \<not> contains (''./robot/configs/'' @ nm) ''/photo_config''
      \<and> \<not> contains (''./robot/configs/'' @ nm) ''/server_config'')"
    using t(5) by (elim disjE) (simp_all only: simp_thms)
  have "upload parse_xml (''./robot/configs/'' @ nm) rq s
      = obind (load_configs parse_xml (s\<lparr>s_files := (s_files s)(nm @ ''.xml'' \<mapsto> content)\<rparr>))
        (\<lambda>s'. Done (text_reply 200 ''application/json'' [], s'))"
    unfolding upload_def assms(5,6)
    by (simp only: boundary_of_form[OF assms(2)] upload_loop_multipart[OF assms(2,1)] api if_False option.case obind.simps prod.case Let_def simp_thms
        comm_response_def list.size if_True)
  ultimately show ?thesis by simp
qed

definition ex_service :: service where
  "ex_service = \<lparr>s_files = Map.empty, s_denied = \<lambda>_. None, s_conf = ex_config, s_world = ex_world,
     s_job = [], s_threads = []\<rparr>"

definition ex_parser :: "string \<Rightarrow> xml list option" where
  "ex_parser s =
     (if s = ''<a/>'' then Some [XElem ''a'' []]
      else Some [XElem ''photo'' [XElem ''table_xx'' [XElem ''row'' [XElem ''camtype'' [XText ''3'']]]]])"

theorem config_upload_witness:
  "\<exists>s'. handle_request ex_parser ''.'' \<lparr>verb = Post, target = ''/robot/configs/photo_config'',
       req_type = ''multipart/form-data; boundary=X7'', req_body = multipart ''X7'' ''photo_config'' ''<photo>''\<rparr> ex_service
     = Some (Done (text_reply 200 ''application/json'' [], s'))
     \<and> s_files s' ''photo_config.xml'' = Some ''<photo>''
     \<and> photo_config.param (photo_conf (s_conf s')) = [(''row'', [[[(''camtype'', 3)]]])]
     \<and> handle_request ex_parser ''.'' \<lparr>verb = Post, target = ''/robot/configs/mysql_config'',
       req_type = ''multipart/form-data; boundary=X7'', req_body = multipart ''X7'' ''mysql_config'' ''<a/>''\<rparr> ex_service
     = Some Undef"
proof -
  have ok: "''photo_config'' \<in> set config_names" "''mysql_config'' \<in> set config_names" "boundary_ok ''X7''"
    by (simp_all add: config_names_def boundary_ok_def is_space_def)
  have 3: "atoi ''3'' = 3" by code_simp
  note defs = load_configs_def load_file_def loadphoto_config_def loadserver_config_def loadmysql_config_def
    ex_service_def ex_parser_def table_rows_def root_element_def first_child_named_def row_cameras_def
    number_of_def text_of_def get_text_def entry_at_def to_element_def Let_def
  let ?s = "\<lambda>nm x. ex_service\<lparr>s_files := (s_files ex_service)(nm @ ''.xml'' \<mapsto> x)\<rparr>"
  obtain s' where "load_configs ex_parser (?s ''photo_config'' ''<photo>'') = Done s'"
      "s_files s' ''photo_config.xml'' = Some ''<photo>''"
      "photo_config.param (photo_conf (s_conf s')) = [(''row'', [[[(''camtype'', 3)]]])]"
    by (simp add: defs ex_config_def c_str_def 3)
  moreover have "load_configs ex_parser (?s ''mysql_config'' ''<a/>'') = Undef"
    by (simp add: defs)
  ultimately show ?thesis
    using config_upload[OF ok(1,3), of "\<lparr>verb = Post, target = ''/robot/configs/photo_config'',
        req_type = ''multipart/form-data; boundary=X7'', req_body = multipart ''X7'' ''photo_config'' ''<photo>''\<rparr>"
        "''<photo>''" ex_parser ex_service]
      config_upload[OF ok(2,3), of "\<lparr>verb = Post, target = ''/robot/configs/mysql_config'',
        req_type = ''multipart/form-data; boundary=X7'', req_body = multipart ''X7'' ''mysql_config'' ''<a/>''\<rparr>"
        "''<a/>''" ex_parser ex_service]
    by auto
qed


section \<open>What a request can change\<close>

definition config_files :: "string set" where
  "config_files = {nm @ ''.xml'' | nm. nm \<in> set config_names}"

definition same_but :: "string set \<Rightarrow> files \<Rightarrow> files \<Rightarrow> bool" where
  "same_but A fs fs' \<longleftrightarrow> (\<forall>g. g \<in> A \<or> fs' g = fs g)"

lemma same_but_refl [simp]: "same_but A fs fs"
  by (simp add: same_but_def)

lemma same_but_trans: "same_but A fs gs \<Longrightarrow> same_but A gs hs \<Longrightarrow> same_but A fs hs"
  unfolding same_but_def by metis

lemma config_name_files: "config_name line = Done (Some nm) \<Longrightarrow> nm \<in> config_files"
  by (auto simp: config_name_def config_files_def find_Some_iff split: if_splits)

fun file_ok :: "out_file \<Rightarrow> bool" where
  "file_ok (Opened nm) = (nm \<in> config_files)"
| "file_ok _ = True"

lemma open_out_same:
  assumes "nm \<in> config_files" and "file_ok (fst f)"
  shows "same_but config_files (snd f) (snd (open_out nm f)) \<and> file_ok (fst (open_out nm f))"
  using assms by (induction nm f rule: open_out.induct) (auto simp: same_but_def)

lemma write_out_same:
  assumes "file_ok (fst f)"
  shows "same_but config_files (snd f) (snd (write_out t f))"
  using assms by (induction t f rule: write_out.induct) (auto simp: same_but_def)

lemma upload_loop_same:
  "upload_loop txt d pos n f = Done (ok, fs') \<Longrightarrow> file_ok (fst f) \<Longrightarrow> same_but config_files (snd f) fs'"
proof (induction "txt" d pos n f rule: upload_loop.induct)
  case (1 tx d pos n f)
  show ?case
  proof (cases "get_line tx pos")
    case None
    then show ?thesis using "1.prems"(1) by (simp add: upload_loop.simps)
  next
    case (Some p)
    obtain l pos' where line: "get_line tx pos = Some (l, pos')" using Some by (cases p) auto
    note ih = "1.IH"[OF line refl refl refl] and run = "1.prems"(1)[unfolded upload_loop.simps[of tx d pos n f] line
        option.case prod.case Let_def]
    show ?thesis
    proof (cases "contains (c_str l) ''Content-Disposition:''")
      case True
      then obtain nm where "config_name (c_str l) = Done nm" using run by auto
      with True run ih(1)[of nm] "1.prems"(2) open_out_same[of _ f] config_name_files[of "c_str l"]
      show ?thesis by (cases nm) (auto split: if_splits intro: same_but_trans)
    next
      case False
      with run ih(2) "1.prems"(2) write_out_same[of f] show ?thesis
        by (auto split: if_splits option.splits)
    qed
  qed
qed

lemma load_configs_service:
  "load_configs parse_xml s = Done s' \<Longrightarrow> \<exists>conf. s' = s\<lparr>s_conf := conf\<rparr>"
  by (auto simp: load_configs_def Let_def)

text \<open>The part of the service a request leaves alone, but for the four files and a new thread.\<close>

definition touches :: "service \<Rightarrow> service \<Rightarrow> bool" where
  "touches s s' \<longleftrightarrow> same_but (insert ''./data.txt'' config_files) (s_files s) (s_files s')
     \<and> s_denied s' = s_denied s \<and> s_job s' = s_job s
     \<and> s_threads s' \<in> {s_threads s, s_threads s @ [new_task PhotoTask True]}"

lemma touches_refl [simp]: "touches s s"
  by (simp add: touches_def)

lemma touches_same_files:
  "same_but config_files (s_files s) fs \<Longrightarrow> touches s (s\<lparr>s_files := fs, s_conf := c\<rparr>)"
  "same_but config_files (s_files s) fs \<Longrightarrow> touches s (s\<lparr>s_files := fs\<rparr>)"
  by (auto simp: touches_def same_but_def)

lemma transmit_touches: "transmit rq s = Some (Done (rep, s')) \<Longrightarrow> touches s s'"
  by (auto simp: transmit_def touches_def split: option.splits if_splits)

lemma tips_touches: "tips parse_xml rq s = Done (rep, s') \<Longrightarrow> touches s s'"
  by (auto simp: tips_def touches_def start_product_def Let_def split: if_splits)

lemma upload_touches:
  assumes "upload parse_xml path rq s = Done (rep, s')"
  shows "touches s s'"
  using assms
  by (auto simp: upload_def Let_def split: if_splits option.splits dest!: load_configs_service upload_loop_same
      intro: touches_same_files)

text \<open>
  C9: What a request can change. However a request that is answered looks like, of the files only
  the three configuration files and \<^verbatim>\<open>./data.txt\<close> differ afterwards, the queue is as it was,
  and at most one thread was started, with a fresh photo task.
\<close>

theorem request_footprint:
  assumes "handle_request parse_xml docroot rq s = Some (Done (rep, s'))"
  shows "same_but (insert ''./data.txt'' config_files) (s_files s) (s_files s') \<and> s_job s' = s_job s
    \<and> s_threads s' \<in> {s_threads s, s_threads s @ [new_task PhotoTask True]}"
proof -
  have "touches s (s\<lparr>s_files := (s_files s)(''./data.txt'' \<mapsto> c)\<rparr>)" for c
    by (simp add: touches_def same_but_def)
  then have "touches s s'"
    using assms transmit_touches tips_touches upload_touches
    by (auto simp: handle_request_def Let_def split: if_splits)
  then show ?thesis by (simp add: touches_def)
qed

theorem request_footprint_witness:
  "\<exists>s'. handle_request (\<lambda>_. None) ''.'' \<lparr>verb = Post, target = ''/x'', req_type = [], req_body = ''b''\<rparr> ex_service
       = Some (Done (bad_request ''POST'', s'))
     \<and> s_files s' ''./data.txt'' = Some ''b'' \<and> s_files s' ''mysql_config'' = None"
proof -
  let ?rq = "\<lparr>verb = Post, target = ''/x'', req_type = [], req_body = ''b''\<rparr>"
  have "legal_target ''/x''" "\<not> contains ''./x'' ''./api/v2/''" "\<not> contains ''./x'' ''./robot/tips''"
    "\<not> contains ''./x'' ''./robot/configs''" by code_simp+
  then have run: "handle_request (\<lambda>_. None) ''.'' ?rq ex_service = Some (Done (bad_request ''POST'',
      ex_service\<lparr>s_files := (s_files ex_service)(''./data.txt'' \<mapsto> ''b'')\<rparr>))"
    by (simp add: handle_request_def path_cat_def)
  have "''mysql_config'' \<notin> insert ''./data.txt'' config_files"
    by (simp add: config_files_def config_names_def)
  with request_footprint[OF run] run show ?thesis by (simp add: same_but_def ex_service_def)
qed


section \<open>From a tip to the robot\<close>

definition tip_body :: "string \<Rightarrow> string" where
  "tip_body n = json_body (JObj [(''ACTION'', JNum n)])"

lemma tip_decoded:
  assumes "number_text n"
  obtains root where "json_left (tip_body n) = Done root" and "member_value ''ACTION'' root = Done n"
proof -
  let ?v = "JObj [(''ACTION'', JNum n)]"
  have "good False ?v" using assms by (simp add: plain_def escape_char_def)
  then have "json_parse (tip_body n) = Done (to_node [] ?v)"
    using body_json_parse[OF good_parsable, of ?v "[]"] by (simp add: tip_body_def)
  moreover have "member_value ''ACTION'' (to_node [] ?v) = Done n"
    by (simp add: member_value_def find_kv_child_def kv_build_def)
  ultimately show ?thesis using that json_left_cases(1) by blast
qed

lemma tips_target:
  "legal_target ''/robot/tips'' \<and> path_cat ''.'' ''/robot/tips'' = ''./robot/tips''
   \<and> \<not> contains ''./robot/tips'' ''./api/v2/'' \<and> contains ''./robot/tips'' ''./robot/tips''"
  by code_simp

lemma tips_known:
  assumes "verb rq = Post" and "target rq = ''/robot/tips''" and "req_type rq = ''application/json''"
    and "req_body rq = tip_body n" and "number_text n" and "atoi n \<in> {1, 2, 3}"
    and "atoi n = 1 \<longrightarrow> loadphoto_config (load_file parse_xml (s_files s) ''photo_config.xml'') (s_conf s) = Done (ok, conf)"
  shows "handle_request parse_xml ''.'' rq s = Some (Done (text_reply 200 ''application/json'' [],
    s\<lparr>s_conf := (if atoi n = 1 then conf else s_conf s),
      s_world := recordlog Action_post (tips_mark @ show_int (atoi n)) (s_world s),
      s_threads := s_threads s @ [new_task PhotoTask True]\<rparr>))"
proof -
  obtain root where root: "json_left (tip_body n) = Done root" "member_value ''ACTION'' root = Done n"
    using tip_decoded[OF assms(5)] .
  have "handle_request parse_xml ''.'' rq s = Some (tips parse_xml rq s)"
    using tips_target by (simp add: handle_request_def assms(1,2))
  moreover consider "atoi n = 1" | "atoi n = 2" | "atoi n = 3" using assms(6) by blast
  then have "tips parse_xml rq s = Done (text_reply 200 ''application/json'' [],
    s\<lparr>s_conf := (if atoi n = 1 then conf else s_conf s),
      s_world := recordlog Action_post (tips_mark @ show_int (atoi n)) (s_world s),
      s_threads := s_threads s @ [new_task PhotoTask True]\<rparr>)"
    by cases (simp_all add: tips_def assms(3,4,7) root Let_def start_product_def comm_response_def)
  ultimately show ?thesis by simp
qed

lemma service_poll_Done:
  assumes "service_poll s = Some (Done s')"
  shows "\<exists>m. poll_once (s_conf s) \<lparr>job = s_job s, mworld = s_world s\<rparr> = Some (Done m)
    \<and> s' = s\<lparr>s_job := job m, s_world := mworld m\<rparr>"
  using assms by (auto simp: service_poll_def rbind_Done_iff)

text \<open>
  C6: From a tip to the robot. A JSON tip with one of the three actions, to the document root
  \<^verbatim>\<open>.\<close>, is answered at once, for action 1 provided that the photo configuration can be loaded,
  and the thread it starts leaves one photo task in a service that has no other. When the manager
  has run it, the log has grown by the tip, at least the attempts to take the photos, and: either
  they ended with all photos taken, and then the robot was told to go on, once with success after
  failures only or in all its attempts without; or all attempts failed and the robot was not told.
\<close>

theorem tip_to_robot:
  assumes "verb rq = Post" and "target rq = ''/robot/tips''" and "req_type rq = ''application/json''"
    and "req_body rq = tip_body i" and "number_text i" and "atoi i \<in> {1, 2, 3}"
    and "atoi i = 1 \<longrightarrow> loadphoto_config (load_file parse_xml (s_files s) ''photo_config.xml'') (s_conf s) = Done (ok, conf)"
    and "s_job s = []" and "s_threads s = []"
  shows "\<exists>s1. handle_request parse_xml ''.'' rq s = Some (Done (text_reply 200 ''application/json'' [], s1))
    \<and> s_job (run_producer 0 s1) = [Some (new_task PhotoTask True)] \<and> s_threads (run_producer 0 s1) = []
    \<and> (\<forall>s2. service_poll (run_producer 0 s1) = Some (Done s2) \<longrightarrow>
        (\<exists>photos goes. s_job s2 = []
          \<and> w_log (s_world s2) = w_log (s_world s) @ [(Action_post, tips_mark @ show_int (atoi i)),
              (Action_run_get, [])] @ photos @ goes @ [(Action_run_finish, [])]
          \<and> (let n = nat (cn_photo (ser_config (s_conf s1))) in
             length photos \<le> n
             \<and> (photographed photos \<and> told n goes \<or> goes = [] \<and> list_all retry photos \<and> length photos = n))))"
proof -
  let ?t = "new_task PhotoTask True"
  let ?s1 = "s\<lparr>s_conf := (if atoi i = 1 then conf else s_conf s),
      s_world := recordlog Action_post (tips_mark @ show_int (atoi i)) (s_world s),
      s_threads := s_threads s @ [?t]\<rparr>"
  let ?n = "nat (cn_photo (ser_config (s_conf ?s1)))"
  have p: "s_job (run_producer 0 ?s1) = [Some ?t]" "s_threads (run_producer 0 ?s1) = []"
    "s_world (run_producer 0 ?s1) = s_world ?s1" "s_conf (run_producer 0 ?s1) = s_conf ?s1"
    by (simp_all add: run_producer_def assms(8,9) q_put_def)
  have "\<exists>photos goes. s_job s2 = [] \<and> w_log (s_world s2) = w_log (s_world s)
          @ [(Action_post, tips_mark @ show_int (atoi i)), (Action_run_get, [])]
          @ photos @ goes @ [(Action_run_finish, [])]
        \<and> length photos \<le> ?n
        \<and> (photographed photos \<and> told ?n goes \<or> goes = [] \<and> list_all retry photos \<and> length photos = ?n)"
    if run: "service_poll (run_producer 0 ?s1) = Some (Done s2)" for s2
  proof -
    obtain m where m: "poll_once (s_conf (run_producer 0 ?s1))
        \<lparr>job = s_job (run_producer 0 ?s1), mworld = s_world (run_producer 0 ?s1)\<rparr> = Some (Done m)"
      "s_job s2 = job m" "s_world s2 = mworld m"
      using service_poll_Done[OF run] by auto
    have t: "task_class ?t = PhotoTask" "\<not> finish ?t" by (simp_all add: new_task_def)
    obtain photos goes where "job m = []" "w_log (mworld m) = w_log (s_world ?s1)
        @ [(Action_run_get, [])] @ photos @ goes @ [(Action_run_finish, [])]"
      "length photos \<le> ?n"
      "photographed photos \<and> told ?n goes \<or> goes = [] \<and> list_all retry photos \<and> length photos = ?n"
      using poll_photo_told[OF _ t m(1), of "[]"] p by auto
    then show ?thesis
      using m(2,3) by (intro exI[of _ photos] exI[of _ goes]) (simp add: recordlog_def)
  qed
  with tips_known[OF assms(1-7)] p show ?thesis by (intro exI[of _ ?s1]) (simp add: Let_def)
qed

definition ex_tip :: http_req where
  "ex_tip = \<lparr>verb = Post, target = ''/robot/tips'', req_type = ''application/json'', req_body = tip_body ''2''\<rparr>"

theorem tip_to_robot_witness:
  "\<exists>s1 s2 photos goes. handle_request (\<lambda>_. None) ''.'' ex_tip ex_service = Some (Done (text_reply 200 ''application/json'' [], s1))
    \<and> s_job (run_producer 0 s1) = [Some (new_task PhotoTask True)]
    \<and> service_poll (run_producer 0 s1) = Some (Done s2)
    \<and> w_log (s_world s2) = [(Action_post, tips_mark @ show_int 2), (Action_run_get, [])] @ photos @ goes
        @ [(Action_run_finish, [])]
    \<and> (photographed photos \<and> told 3 goes \<or> goes = [] \<and> list_all retry photos \<and> length photos = 3)"
proof -
  let ?s1 = "ex_service\<lparr>s_world := recordlog Action_post (tips_mark @ show_int 2) (s_world ex_service),
        s_threads := s_threads ex_service @ [new_task PhotoTask True]\<rparr>"
  have i: "number_text ''2''" "atoi ''2'' = 2"
    by (simp add: number_text_def number_char_def number_ok_def is_digit_def) code_simp
  have s1: "handle_request (\<lambda>_. None) ''.'' ex_tip ex_service = Some (Done (text_reply 200 ''application/json'' [], ?s1))"
    using tips_known[of ex_tip "''2''" "\<lambda>_. None" ex_service] i by (simp add: ex_tip_def ex_service_def)
  have "\<exists>s2. service_poll (run_producer 0 ?s1) = Some (Done s2)"
    by (simp add: ex_service_def run_producer_def q_put_def service_poll_def poll_once_def q_get_def q_is_empty_def
        run_pointer_def run_task_def execute_def photo_execute_def new_task_def ex_config_def ex_world_def
        Let_def numeral_eq_Suc call_next_no_net world_defs)
  then obtain s2 where s2: "service_poll (run_producer 0 ?s1) = Some (Done s2)" by blast
  have "s_job ex_service = []" "s_threads ex_service = []" "w_log (s_world ex_service) = []"
    "nat (cn_photo (ser_config (s_conf ?s1))) = 3"
    by (simp_all add: ex_service_def ex_world_def ex_config_def)
  with tip_to_robot[of ex_tip "''2''" "\<lambda>_. None" ex_service] i s1 s2 show ?thesis
    by (auto simp: ex_tip_def Let_def)
qed
section \<open>Requests for the robot\<close>

text \<open>
  What the network does when the robot answers: it takes the connection and the whole text of
  the request, and the response comes in any fragments.
\<close>

definition brings :: "net_env \<Rightarrow> string \<Rightarrow> response \<Rightarrow> bool" where
  "brings env data r \<longleftrightarrow> connects env \<and> sends env = [int (length data)]
     \<and> None \<notin> set (recvs env) \<and> Some [] \<notin> set (recvs env)
     \<and> response_encode r = Done (concat (map the (recvs env)))
     \<and> response_ok r \<and> body r \<noteq> [] \<and> length (response_head r) \<le> 1024"

lemma map_Some_the: "None \<notin> set xs \<Longrightarrow> xs = map Some (map the xs)"
  by (induction xs) auto

lemma Nil_the: "None \<notin> set xs \<Longrightarrow> Some [] \<notin> set xs \<Longrightarrow> [] \<notin> set (map the xs)"
  by (metis map_Some_the image_eqI list.set_map)

lemma brings_response:
  assumes "brings env data r" and "request_encode (req c) = Done data" and "length data < 2 ^ 64"
    and "data \<noteq> []" and "sync_mode c" and "\<not> is_chunk (resp c)"
  shows "\<exists>c'. sync_call env c = Some (Done (True, c')) \<and> body (resp c') = body r"
proof -
  have "recvs env = map Some (map the (recvs env))" "[] \<notin> set (map the (recvs env))"
    using assms(1) map_Some_the Nil_the unfolding brings_def by blast+
  then show ?thesis
    using sync_call_response[OF assms(2,3,4) _ _ _ _ _ _ assms(5,6)] assms(1)
    unfolding brings_def by metis
qed


definition ex_get :: http_req where
  "ex_get = \<lparr>verb = Get, target = ''/api/v2/x'', req_type = [], req_body = []\<rparr>"

definition ex_answer :: response where
  "ex_answer = new_response\<lparr>version := ''HTTP/1.1'', status_code := 200,
     body := json_body (JObj [(''a'', JNum ''1'')])\<rparr>"


end
