(* ===== verification/Robot_Session.thy ===== *)
theory Robot_Session
  imports Robot_Server_Correct
begin

text \<open>
  The sessions of the web service, \<^verbatim>\<open>Include/http/Source/HttpServer.cpp\<close> from
  \<open>session::run\<close> on, and \<^verbatim>\<open>Include/http/Header/HttpServer.h\<close>: each connection reads a
  request, has it answered, writes the reply and reads again. The completions of Boost.Asio
  are events: what a read or a write ended with. A call of the handler is one step, its state
  is shared by the sessions.
\<close>


section \<open>A session\<close>

text \<open>
  What the session waits for: a read, the write of a reply, nothing after a shutdown, nothing
  after an error. \<open>asked\<close> and \<open>sent\<close> record the requests handled and the replies written.
\<close>

datatype phase = Reading | Writing reply | Shut | Failed

record session =
  phase :: phase
  asked :: "http_req list"
  sent :: "reply list"

definition new_session :: session where
  "new_session = \<lparr>phase = Reading, asked = [], sent = []\<rparr>"

datatype read_end = Request http_req | End_of_stream | Read_error

definition do_read :: "session \<Rightarrow> session" where
  "do_read ses = ses\<lparr>phase := Reading\<rparr>"

definition do_close :: "session \<Rightarrow> session" where
  "do_close ses = ses\<lparr>phase := Shut\<rparr>"

definition failed :: "session \<Rightarrow> session" where
  "failed ses = ses\<lparr>phase := Failed\<rparr>"

definition send :: "reply \<Rightarrow> session \<Rightarrow> session" where
  "send rep ses = ses\<lparr>phase := Writing rep\<rparr>"

fun on_read ::
    "(string \<Rightarrow> xml list option) \<Rightarrow> string \<Rightarrow> read_end \<Rightarrow> session \<Rightarrow> service \<Rightarrow> (session \<times> service) run" where
  "on_read parse_xml docroot End_of_stream ses s = Some (Done (do_close ses, s))"
| "on_read parse_xml docroot Read_error ses s = Some (Done (failed ses, s))"
| "on_read parse_xml docroot (Request rq) ses s =
     rbind (handle_request parse_xml docroot rq s)
       (\<lambda>(rep, s). Some (Done (send rep (ses\<lparr>asked := asked ses @ [rq]\<rparr>), s)))"

definition on_write :: "bool \<Rightarrow> bool \<Rightarrow> reply \<Rightarrow> session \<Rightarrow> session" where
  "on_write close ok rep ses =
     (if \<not> ok then failed ses
      else let ses = ses\<lparr>sent := sent ses @ [rep]\<rparr> in
           if close then do_close ses else do_read ses)"


section \<open>All sessions\<close>

text \<open>
  The listener accepts connections for ever; the manager's thread takes tasks in between.
  \<open>trace\<close> records the handled requests of all sessions with the service each of them found.
\<close>

record server =
  svc :: service
  sessions :: "session list"
  trace :: "(nat \<times> service \<times> http_req \<times> reply) list"

definition on_accept :: "bool \<Rightarrow> server \<Rightarrow> server" where
  "on_accept ok sv = (if \<not> ok then sv else sv\<lparr>sessions := sessions sv @ [new_session]\<rparr>)"

inductive server_step ::
    "(string \<Rightarrow> xml list option) \<Rightarrow> string \<Rightarrow> server \<Rightarrow> server \<Rightarrow> bool" for parse_xml docroot where
  step_accept: "server_step parse_xml docroot sv (on_accept ok sv)"
| step_request:
    "i < length (sessions sv) \<Longrightarrow> phase (sessions sv ! i) = Reading \<Longrightarrow>
     on_read parse_xml docroot (Request rq) (sessions sv ! i) (svc sv) = Some (Done (ses, s)) \<Longrightarrow>
     phase ses = Writing rep \<Longrightarrow>
     server_step parse_xml docroot sv
       (sv\<lparr>svc := s, sessions := (sessions sv)[i := ses], trace := trace sv @ [(i, svc sv, rq, rep)]\<rparr>)"
| step_no_request:
    "i < length (sessions sv) \<Longrightarrow> phase (sessions sv ! i) = Reading \<Longrightarrow>
     e \<in> {End_of_stream, Read_error} \<Longrightarrow>
     on_read parse_xml docroot e (sessions sv ! i) (svc sv) = Some (Done (ses, s)) \<Longrightarrow>
     server_step parse_xml docroot sv (sv\<lparr>svc := s, sessions := (sessions sv)[i := ses]\<rparr>)"
| step_written:
    "i < length (sessions sv) \<Longrightarrow> phase (sessions sv ! i) = Writing rep \<Longrightarrow>
     server_step parse_xml docroot sv
       (sv\<lparr>sessions := (sessions sv)[i := on_write close ok rep (sessions sv ! i)]\<rparr>)"
| step_producer:
    "j < length (s_threads (svc sv)) \<Longrightarrow>
     server_step parse_xml docroot sv (sv\<lparr>svc := run_producer j (svc sv)\<rparr>)"
| step_manager:
    "service_poll (svc sv) = Some (Done s) \<Longrightarrow> server_step parse_xml docroot sv (sv\<lparr>svc := s\<rparr>)"

inductive server_reach ::
    "(string \<Rightarrow> xml list option) \<Rightarrow> string \<Rightarrow> service \<Rightarrow> server \<Rightarrow> bool" for parse_xml docroot s0 where
  reach_start: "server_reach parse_xml docroot s0 \<lparr>svc = s0, sessions = [], trace = []\<rparr>"
| reach_step: "server_reach parse_xml docroot s0 sv \<Longrightarrow> server_step parse_xml docroot sv sv' \<Longrightarrow>
     server_reach parse_xml docroot s0 sv'"


section \<open>Replies come in the order of the requests\<close>

text \<open>The requests and the replies of a session in the trace, and the reply it is writing.\<close>

definition of_session :: "nat \<Rightarrow> (nat \<times> service \<times> http_req \<times> reply) list \<Rightarrow> (http_req \<times> reply) list" where
  "of_session i tr = map (\<lambda>(_, _, rq, rep). (rq, rep)) (filter (\<lambda>(j, _). j = i) tr)"

lemma of_session_append:
  "of_session i (tr @ [(j, s, rq, rep)]) = of_session i tr @ (if j = i then [(rq, rep)] else [])"
  by (simp add: of_session_def)

lemma of_session_none: "list_all (\<lambda>e. fst e < n) tr \<Longrightarrow> of_session n tr = []"
  by (auto simp: of_session_def filter_empty_conv list_all_iff)

text \<open>
  In every session the requests are those of the trace; the replies written are those of the
  trace, except that while one is being written, or after an error, the last may be missing.
\<close>

fun sent_ok :: "phase \<Rightarrow> reply list \<Rightarrow> reply list \<Rightarrow> bool" where
  "sent_ok (Writing rep) out all \<longleftrightarrow> all = out @ [rep]"
| "sent_ok Failed out all \<longleftrightarrow> prefix out all \<and> length all \<le> length out + 1"
| "sent_ok _ out all \<longleftrightarrow> all = out"

definition session_ok :: "(http_req \<times> reply) list \<Rightarrow> session \<Rightarrow> bool" where
  "session_ok es ses \<longleftrightarrow> asked ses = map fst es \<and> sent_ok (phase ses) (sent ses) (map snd es)"

definition server_ok :: "(string \<Rightarrow> xml list option) \<Rightarrow> string \<Rightarrow> server \<Rightarrow> bool" where
  "server_ok parse_xml docroot sv \<longleftrightarrow>
     list_all (\<lambda>(i, s, rq, rep). i < length (sessions sv)
       \<and> (\<exists>s'. handle_request parse_xml docroot rq s = Some (Done (rep, s')))) (trace sv)
     \<and> list_all (\<lambda>i. session_ok (of_session i (trace sv)) (sessions sv ! i)) [0..<length (sessions sv)]"

lemma session_ok_update:
  assumes "list_all (\<lambda>i. session_ok (of_session i tr) (ss ! i)) [0..<length ss]"
    and "session_ok (of_session k tr') ses"
    and "\<And>i. i \<noteq> k \<Longrightarrow> of_session i tr' = of_session i tr"
  shows "list_all (\<lambda>i. session_ok (of_session i tr') (ss[k := ses] ! i)) [0..<length (ss[k := ses])]"
proof -
  have "session_ok (of_session i tr') (ss[k := ses] ! i)" if "i < length ss" for i
    using assms that by (cases "i = k") (auto simp: list_all_iff)
  then show ?thesis by (simp add: list_all_iff)
qed

lemma on_write_ok:
  assumes "session_ok es ses" and "phase ses = Writing rep"
  shows "session_ok es (on_write close ok rep ses)"
  using assms
  by (auto simp: session_ok_def on_write_def failed_def do_close_def do_read_def Let_def)

lemma no_request_ok:
  assumes "session_ok es ses" and "phase ses = Reading" and "e \<in> {End_of_stream, Read_error}"
    and "on_read parse_xml docroot e ses s = Some (Done (ses', s'))"
  shows "session_ok es ses'"
  using assms by (auto simp: session_ok_def do_close_def failed_def)

lemma server_step_ok:
  assumes "server_step parse_xml docroot sv sv'" and "server_ok parse_xml docroot sv"
  shows "server_ok parse_xml docroot sv'"
  using assms
proof (induction rule: server_step.induct)
  case (step_accept sv ok)
  have "of_session (length (sessions sv)) (trace sv) = []"
    using step_accept by (intro of_session_none) (auto simp: server_ok_def list_all_iff)
  with step_accept show ?case
    by (auto simp: server_ok_def on_accept_def list_all_iff nth_append session_ok_def new_session_def
        less_Suc_eq)
next
  case (step_request i sv rq ses s rep)
  obtain rep' where h: "handle_request parse_xml docroot rq (svc sv) = Some (Done (rep', s))"
    "ses = send rep' ((sessions sv ! i)\<lparr>asked := asked (sessions sv ! i) @ [rq]\<rparr>)"
    using step_request(3) by (auto simp: rbind_Done_iff)
  then have rep: "rep' = rep" using step_request(4) by (simp add: send_def)
  have "session_ok (of_session i (trace sv)) (sessions sv ! i)"
    using step_request(1,5) by (simp add: server_ok_def list_all_iff)
  then have "session_ok (of_session i (trace sv @ [(i, svc sv, rq, rep)])) ses"
    using step_request(2) h(2) rep by (simp add: session_ok_def of_session_append send_def)
  with step_request h(1) rep session_ok_update[of "trace sv" "sessions sv" i
      "trace sv @ [(i, svc sv, rq, rep)]" ses]
  show ?case by (simp add: server_ok_def of_session_append)
next
  case (step_no_request i sv e ses s)
  have "session_ok (of_session i (trace sv)) (sessions sv ! i)"
    using step_no_request(1,5) by (simp add: server_ok_def list_all_iff)
  then have "session_ok (of_session i (trace sv)) ses"
    by (rule no_request_ok[OF _ step_no_request(2,3,4)])
  with step_no_request(5) session_ok_update[of "trace sv" "sessions sv" i "trace sv" ses]
  show ?case by (simp add: server_ok_def)
next
  case (step_written i sv rep close ok)
  have "session_ok (of_session i (trace sv)) (sessions sv ! i)"
    using step_written(1,3) by (simp add: server_ok_def list_all_iff)
  then have "session_ok (of_session i (trace sv)) (on_write close ok rep (sessions sv ! i))"
    by (rule on_write_ok[OF _ step_written(2)])
  with step_written(3) session_ok_update[of "trace sv" "sessions sv" i "trace sv"]
  show ?case by (simp add: server_ok_def)
qed (simp_all add: server_ok_def)

lemma server_reach_ok: "server_reach parse_xml docroot s0 sv \<Longrightarrow> server_ok parse_xml docroot sv"
proof (induction rule: server_reach.induct)
  case (reach_step sv sv')
  then show ?case using server_step_ok by blast
qed (simp add: server_ok_def)

text \<open>
  C12: Replies in order. At every reachable state of the server, in every session the replies
  written are the handler's replies to the session's requests, in their order and each once;
  only while a reply is being written, or after an error, the last one may be missing.
\<close>

theorem session_replies_in_order:
  assumes "server_reach parse_xml docroot s0 sv" and "i < length (sessions sv)"
  shows "asked (sessions sv ! i) = map fst (of_session i (trace sv))
    \<and> sent_ok (phase (sessions sv ! i)) (sent (sessions sv ! i)) (map snd (of_session i (trace sv)))
    \<and> list_all (\<lambda>(_, s, rq, rep). \<exists>s'. handle_request parse_xml docroot rq s = Some (Done (rep, s'))) (trace sv)"
  using server_reach_ok[OF assms(1)] assms(2)
  by (auto simp: server_ok_def session_ok_def list_all_iff)

theorem session_replies_in_order_witness:
  "\<exists>sv. server_reach (\<lambda>_. None) ''.'' ex_service sv \<and> phase (sessions sv ! 0) = Writing (bad_request ''Get'')
     \<and> map snd (of_session 0 (trace sv)) = sent (sessions sv ! 0) @ [bad_request ''Get'']"
proof -
  let ?rq = "\<lparr>verb = Get, target = ''/x'', req_type = [], req_body = []\<rparr>"
  let ?sv0 = "\<lparr>svc = ex_service, sessions = [], trace = []\<rparr>"
  let ?sv1 = "on_accept True ?sv0"
  let ?ses = "send (bad_request ''Get'') (new_session\<lparr>asked := [?rq]\<rparr>)"
  let ?sv2 = "?sv1\<lparr>svc := svc ?sv1, sessions := (sessions ?sv1)[0 := ?ses],
      trace := trace ?sv1 @ [(0, svc ?sv1, ?rq, bad_request ''Get'')]\<rparr>"
  have "legal_target ''/x''" "\<not> contains ''./x'' ''./api/v2/''" "\<not> contains ''./x'' ''./robot/tips''"
    "\<not> contains ''./x'' ''./robot/configs''" by code_simp+
  then have h: "handle_request (\<lambda>_. None) ''.'' ?rq ex_service = Some (Done (bad_request ''Get'', ex_service))"
    by (simp add: handle_request_def path_cat_def)
  have r: "server_reach (\<lambda>_. None) ''.'' ex_service ?sv1"
    by (rule reach_step[OF reach_start step_accept])
  have "server_step (\<lambda>_. None) ''.'' ?sv1 ?sv2"
    by (rule step_request) (simp_all add: on_accept_def new_session_def h send_def)
  with r have reach: "server_reach (\<lambda>_. None) ''.'' ex_service ?sv2" by (rule reach_step)
  have "0 < length (sessions ?sv2)" "phase (sessions ?sv2 ! 0) = Writing (bad_request ''Get'')"
    by (simp_all add: on_accept_def send_def)
  with session_replies_in_order[OF reach, of 0] reach show ?thesis
    by (intro exI[of _ ?sv2]) simp
qed

end
