(* ===== verification/Shine_Timer.thy ===== *)
theory Shine_Timer
  imports Prelude "HOL-Library.Multiset"
begin

text \<open>
  The timers of \<^verbatim>\<open>Include/util/timer.hpp\<close>: a multimap from the time a timer is due to the
  timer, all times unsigned 64-bit milliseconds. The clock is a parameter, the reading number
  \<open>n\<close> being \<open>clk n\<close>; a callback is a value of any type, and \<open>run\<close> gives the operations of the
  manager it calls and what it returns.
\<close>


section \<open>The multimap\<close>

text \<open>Insertion behind the entries of the same key, as \<open>std::multimap\<close> does it.\<close>

fun mm_insert :: "u64 \<Rightarrow> 'v \<Rightarrow> (u64 \<times> 'v) list \<Rightarrow> (u64 \<times> 'v) list" where
  "mm_insert k v [] = [(k, v)]"
| "mm_insert k v (e # m) = (if k < fst e then (k, v) # e # m else e # mm_insert k v m)"


section \<open>The manager\<close>

record 'c timer =
  t_id :: u64
  delay :: u64
  timestamp :: u64
  callback :: 'c
  relative :: bool

record 'c timers =
  queue :: "(u64 \<times> 'c timer) list"
  last_id :: u64
  reads :: nat

definition no_timers :: "'c timers" where
  "no_timers = \<lparr>queue = [], last_id = 0, reads = 0\<rparr>"

definition get_timestamp :: "(nat \<Rightarrow> u64) \<Rightarrow> 'c timers \<Rightarrow> u64 \<times> 'c timers" where
  "get_timestamp clk m = (clk (reads m), m\<lparr>reads := Suc (reads m)\<rparr>)"

definition set_timer :: "(nat \<Rightarrow> u64) \<Rightarrow> u64 \<Rightarrow> 'c \<Rightarrow> bool \<Rightarrow> 'c timers \<Rightarrow> u64 \<times> 'c timers" where
  "set_timer clk d cb rel m =
     (if d = 0 then (0, m)
      else let i = last_id m + 1; (now, m) = get_timestamp clk m;
               item = \<lparr>t_id = i, delay = d, timestamp = now + d, callback = cb, relative = rel\<rparr>
           in (i, m\<lparr>last_id := i, queue := mm_insert (timestamp item) item (queue m)\<rparr>))"

fun erase_id :: "u64 \<Rightarrow> (u64 \<times> 'c timer) list \<Rightarrow> (u64 \<times> 'c timer) list option" where
  "erase_id i [] = None"
| "erase_id i (e # m) = (if i = t_id (snd e) then Some m else map_option ((#) e) (erase_id i m))"

definition cancel_timer :: "u64 \<Rightarrow> 'c timers \<Rightarrow> bool \<times> 'c timers" where
  "cancel_timer i m =
     (if i = 0 then (False, m)
      else case erase_id i (queue m) of
             None \<Rightarrow> (False, m)
           | Some q \<Rightarrow> (True, m\<lparr>queue := q\<rparr>))"

definition clear_all :: "'c timers \<Rightarrow> 'c timers" where
  "clear_all m = m\<lparr>queue := []\<rparr>"

text \<open>What a callback can do with the manager.\<close>

datatype 'c command = Set_timer u64 'c bool | Cancel_timer u64 | Clear_all

fun exec :: "(nat \<Rightarrow> u64) \<Rightarrow> 'c command \<Rightarrow> 'c timers \<Rightarrow> 'c timers" where
  "exec clk (Set_timer d cb rel) m = snd (set_timer clk d cb rel m)"
| "exec clk (Cancel_timer i) m = snd (cancel_timer i m)"
| "exec clk Clear_all m = clear_all m"

text \<open>A timer that repeats is due again after its delay, counted from now or from its last time.\<close>

definition again :: "(nat \<Rightarrow> u64) \<Rightarrow> 'c timer \<Rightarrow> 'c timers \<Rightarrow> u64 \<times> 'c timers" where
  "again clk item m =
     (let (now, m) = get_timestamp clk m;
          ts = (if relative item then now + delay item
                else let ts = timestamp item + delay item in if ts < now then now else ts);
          item = item\<lparr>timestamp := ts\<rparr>
      in (now, m\<lparr>queue := mm_insert (timestamp item) item (queue m)\<rparr>))"

text \<open>A timer is run: its callback, and the timer once more if it returns \<open>true\<close>.\<close>

definition fire ::
    "(nat \<Rightarrow> u64) \<Rightarrow> ('c \<Rightarrow> 'c timers \<Rightarrow> 'c command list \<times> bool) \<Rightarrow> u64 \<Rightarrow> 'c timer \<Rightarrow> 'c timers
     \<Rightarrow> u64 \<times> 'c timers" where
  "fire clk run now item m =
     (let (cs, repeat) = run (callback item) m; m = fold (exec clk) cs m
      in if repeat then again clk item m else (now, m))"

text \<open>
  The loop of \<open>do_timer\<close>; \<open>fired\<close> records the timers that were run with the time of the check.
  \<open>None\<close> is a loop that never ends.
\<close>

type_synonym 'c fired = "(u64 \<times> 'c timer) list"

partial_function (option) timer_loop ::
    "(nat \<Rightarrow> u64) \<Rightarrow> ('c \<Rightarrow> 'c timers \<Rightarrow> 'c command list \<times> bool) \<Rightarrow> u64 \<Rightarrow> 'c timers \<Rightarrow> 'c fired
     \<Rightarrow> (u64 \<times> 'c timers \<times> 'c fired) option" where
  "timer_loop clk run now m fired =
     (case queue m of
        [] \<Rightarrow> Some (now, m, fired)
      | e # rest \<Rightarrow>
          if fst e \<le> now
          then let (now', m) = fire clk run now (snd e) (m\<lparr>queue := rest\<rparr>)
               in timer_loop clk run now' m (fired @ [(now, snd e)])
          else Some (now, m, fired))"

definition do_timer ::
    "(nat \<Rightarrow> u64) \<Rightarrow> ('c \<Rightarrow> 'c timers \<Rightarrow> 'c command list \<times> bool) \<Rightarrow> 'c timers
     \<Rightarrow> (u64 \<times> 'c timers \<times> 'c fired) option" where
  "do_timer clk run m =
     (if queue m = [] then Some (0, m, [])
      else let (now, m) = get_timestamp clk m in
        map_option (\<lambda>(now, m, fired).
            (case queue m of [] \<Rightarrow> 0 | e # _ \<Rightarrow> fst e - now, m, fired))
          (timer_loop clk run now m []))"

end
