(* ===== verification/Shine_Timer_Correct.thy ===== *)
theory Shine_Timer_Correct
  imports Shine_Timer
begin

text \<open>
  Correctness of the timers: the multimap keeps the order and its contents, a pass runs only
  timers that are due and leaves none, and it ends when the clock stands and the callbacks
  set no timers.
\<close>


section \<open>A queue ordered by time\<close>

text \<open>The contract of the container: what it holds and that its first entry is a least one.\<close>

locale time_queue =
  fixes ins :: "u64 \<Rightarrow> 'v \<Rightarrow> (u64 \<times> 'v) list \<Rightarrow> (u64 \<times> 'v) list"
  assumes ins_mset: "mset (ins k v m) = add_mset (k, v) (mset m)"
    and ins_sorted: "sorted (map fst m) \<Longrightarrow> sorted (map fst (ins k v m))"
begin

lemma ins_set: "set (ins k v m) = insert (k, v) (set m)"
  by (metis ins_mset set_mset_add_mset_insert set_mset_mset)

lemma ins_not_Nil: "ins k v m \<noteq> []"
  using ins_set[of k v m] by auto

lemma first_least:
  assumes "sorted (map fst m)" and "ins k v m = e # rest"
  shows "fst e \<le> k \<and> (\<forall>x\<in>set rest. fst e \<le> fst x)"
proof -
  have "sorted (map fst (e # rest))" using ins_sorted[OF assms(1), of k v] assms(2) by simp
  moreover have "(k, v) = e \<or> (k, v) \<in> set rest" using ins_set[of k v m] assms(2) by auto
  ultimately show ?thesis by auto
qed

end

lemma mm_insert_mset: "mset (mm_insert k v m) = add_mset (k, v) (mset m)"
  by (induction m) auto

lemma mm_insert_sorted: "sorted (map fst m) \<Longrightarrow> sorted (map fst (mm_insert k v m))"
proof (induction m)
  case (Cons e m)
  have "set (mm_insert k v m) = insert (k, v) (set m)"
    by (metis mm_insert_mset set_mset_add_mset_insert set_mset_mset)
  with Cons show ?case by (auto simp: le_less_trans not_less intro: less_imp_le order.trans)
qed simp

interpretation tq: time_queue mm_insert
  by unfold_locales (rule mm_insert_mset, rule mm_insert_sorted)


section \<open>The invariant\<close>

text \<open>In the order of the keys, each key the time of its timer, no timer without a delay.\<close>

definition timers_ok :: "'c timers \<Rightarrow> bool" where
  "timers_ok m \<longleftrightarrow> sorted (map fst (queue m))
     \<and> list_all (\<lambda>e. fst e = timestamp (snd e) \<and> delay (snd e) \<noteq> 0) (queue m)"

lemma timers_ok_insert:
  assumes "timers_ok m" and "delay item \<noteq> 0"
  shows "timers_ok (m\<lparr>queue := mm_insert (timestamp item) item (queue m)\<rparr>)"
  using assms by (auto simp: timers_ok_def mm_insert_sorted list_all_iff tq.ins_set)

lemma timers_ok_reads [simp]: "timers_ok (m\<lparr>reads := n\<rparr>) = timers_ok m"
  "timers_ok (m\<lparr>last_id := i\<rparr>) = timers_ok m"
  by (simp_all add: timers_ok_def)

lemma set_timer_ok: "timers_ok m \<Longrightarrow> timers_ok (snd (set_timer clk d cb rel m))"
  using timers_ok_insert[of "m\<lparr>reads := Suc (reads m), last_id := last_id m + 1\<rparr>"
      "\<lparr>t_id = last_id m + 1, delay = d, timestamp = clk (reads m) + d, callback = cb, relative = rel\<rparr>"]
  by (simp add: set_timer_def get_timestamp_def Let_def timers_ok_def)

lemma erase_id_set: "erase_id i m = Some q \<Longrightarrow> set q \<subseteq> set m"
  by (induction m arbitrary: q) (auto split: if_splits)

lemma erase_id_sorted: "erase_id i m = Some q \<Longrightarrow> sorted (map fst m) \<Longrightarrow> sorted (map fst q)"
proof (induction m arbitrary: q)
  case (Cons e m)
  then show ?case using erase_id_set[of i m] by (fastforce split: if_splits)
qed simp

lemma cancel_timer_ok:
  assumes "timers_ok m"
  shows "timers_ok (snd (cancel_timer i m))"
  using assms erase_id_set[of i "queue m"] erase_id_sorted[of i "queue m"]
  by (auto simp: cancel_timer_def timers_ok_def list_all_iff split: option.split)

lemma exec_ok: "timers_ok m \<Longrightarrow> timers_ok (exec clk c m)"
  by (cases c) (simp_all add: set_timer_ok cancel_timer_ok, simp add: clear_all_def timers_ok_def)

lemma execs_ok: "timers_ok m \<Longrightarrow> timers_ok (fold (exec clk) cs m)"
  by (induction cs arbitrary: m) (simp_all add: exec_ok)

lemma again_ok: "timers_ok m \<Longrightarrow> delay item \<noteq> 0 \<Longrightarrow> timers_ok (snd (again clk item m))"
  using timers_ok_insert[of "m\<lparr>reads := Suc (reads m)\<rparr>" "item\<lparr>timestamp := x\<rparr>" for x]
  by (simp add: again_def get_timestamp_def Let_def timers_ok_def)



section \<open>A pass\<close>

lemma exec_reads: "reads m \<le> reads (exec clk c m)"
  by (cases c) (auto simp: set_timer_def get_timestamp_def cancel_timer_def clear_all_def Let_def
      split: option.split)

lemma execs_reads: "reads m \<le> reads (fold (exec clk) cs m)"
  by (induction cs arbitrary: m) (auto intro: order.trans[OF exec_reads])

definition due :: "u64 \<times> 'c timer \<Rightarrow> bool" where
  "due f \<longleftrightarrow> timestamp (snd f) \<le> fst f \<and> delay (snd f) \<noteq> 0"

definition read_time :: "(nat \<Rightarrow> u64) \<Rightarrow> u64 \<Rightarrow> 'c timers \<Rightarrow> bool" where
  "read_time clk now m \<longleftrightarrow> (\<exists>j<reads m. now = clk j)"

lemma fire_timers_ok:
  assumes "fire clk run now item m = (now', m')" and "timers_ok m" and "delay item \<noteq> 0"
  shows "timers_ok m'"
  using assms again_ok[OF execs_ok[OF assms(2)] assms(3)]
  by (auto simp: fire_def Let_def execs_ok split: prod.splits if_splits) (metis snd_conv)

lemma fire_ok:
  assumes "fire clk run now item m = (now', m')" and "timers_ok m" and "delay item \<noteq> 0"
    and "read_time clk now m"
  shows "timers_ok m' \<and> read_time clk now' m'"
proof -
  obtain cs repeat where r: "run (callback item) m = (cs, repeat)" by (cases "run (callback item) m")
  let ?m = "fold (exec clk) cs m"
  have m: "timers_ok ?m" "reads m \<le> reads ?m" using assms(2) by (simp_all add: execs_ok execs_reads)
  show ?thesis
  proof (cases repeat)
    case True
    then have *: "again clk item ?m = (now', m')" using assms(1) r by (simp add: fire_def Let_def)
    have "timers_ok m'" using again_ok[OF m(1) assms(3), of clk] * by simp
    moreover have "read_time clk now' m'"
      using * by (auto simp: again_def get_timestamp_def Let_def read_time_def)
    ultimately show ?thesis by simp
  next
    case False
    then have "now' = now" "m' = ?m" using assms(1) r by (simp_all add: fire_def Let_def)
    moreover obtain j where "j < reads m" "now = clk j" using assms(4) by (auto simp: read_time_def)
    then have "read_time clk now ?m" unfolding read_time_def using m(2) less_le_trans by blast
    ultimately show ?thesis using m(1) by simp
  qed
qed

lemma timers_ok_rest:
  assumes "timers_ok m" and "queue m = e # rest"
  shows "timers_ok (m\<lparr>queue := rest\<rparr>)" and "fst e = timestamp (snd e)" and "delay (snd e) \<noteq> 0"
    and "\<forall>x\<in>set rest. fst e \<le> fst x"
  using assms by (auto simp: timers_ok_def)

definition pass_ok ::
    "(nat \<Rightarrow> u64) \<Rightarrow> u64 \<Rightarrow> 'c timers \<Rightarrow> 'c fired \<Rightarrow> u64 \<times> 'c timers \<times> 'c fired \<Rightarrow> bool" where
  "pass_ok clk now m fired r \<longleftrightarrow>
     (timers_ok m \<and> read_time clk now m \<and> list_all due fired \<longrightarrow>
      (case r of (now', m', fired') \<Rightarrow> timers_ok m' \<and> read_time clk now' m' \<and> list_all due fired'
        \<and> list_all (\<lambda>e. now' < fst e) (queue m')))"

lemma timer_loop_pass:
  assumes "timer_loop clk run now m fired = Some r"
  shows "pass_ok clk now m fired r"
proof (rule timer_loop.raw_induct[OF _ assms, where P = "\<lambda>clk run now m fired r. pass_ok clk now m fired r"])
  fix loop clk run now and m :: "'a timers" and fired r
  assume IH: "\<And>clk run now m fired r. loop clk run now m fired = Some r \<Longrightarrow> pass_ok clk now m fired r"
    and body: "(case queue m of
        [] \<Rightarrow> Some (now, m, fired)
      | e # rest \<Rightarrow>
          if fst e \<le> now
          then let (now', m) = fire clk run now (snd e) (m\<lparr>queue := rest\<rparr>)
               in loop clk run now' m (fired @ [(now, snd e)])
          else Some (now, m, fired)) = Some r"
  show "pass_ok clk now m fired r"
    unfolding pass_ok_def
  proof (intro impI)
    assume ok: "timers_ok m \<and> read_time clk now m \<and> list_all due fired"
    show "case r of (now', m', fired') \<Rightarrow> timers_ok m' \<and> read_time clk now' m' \<and> list_all due fired'
        \<and> list_all (\<lambda>e. now' < fst e) (queue m')"
    proof (cases "queue m")
      case Nil
      then show ?thesis using body ok by auto
    next
      case (Cons e rest)
      note rest = timers_ok_rest[OF conjunct1[OF ok] Cons]
      show ?thesis
      proof (cases "fst e \<le> now")
        case True
        obtain now' m' where f: "fire clk run now (snd e) (m\<lparr>queue := rest\<rparr>) = (now', m')" by fastforce
        have "timers_ok m' \<and> read_time clk now' m'"
          using fire_ok[OF f rest(1,3)] ok by (simp add: read_time_def)
        moreover have "list_all due (fired @ [(now, snd e)])"
          using ok True rest(2,3) by (simp add: due_def)
        moreover have "loop clk run now' m' (fired @ [(now, snd e)]) = Some r"
          using body Cons True f by simp
        ultimately show ?thesis using IH unfolding pass_ok_def by blast
      next
        case False
        then have "r = (now, m, fired)" using body Cons by simp
        moreover have "list_all (\<lambda>e. now < fst e) (queue m)"
          using False rest(4) Cons by (auto simp: list_all_iff not_le intro: less_le_trans)
        ultimately show ?thesis using ok by simp
      qed
    qed
  qed
qed

text \<open>
  The timers that a pass runs, one after the other, with the reading \<open>clk j\<close> in hand: each is the
  first of the queue and due at that reading; its callback runs on the queue without it; when it
  asks for the timer again, the clock is read, the timer is put back, and that reading is the one
  in hand from there on.
\<close>

fun ran :: "(nat \<Rightarrow> u64) \<Rightarrow> ('c \<Rightarrow> 'c timers \<Rightarrow> 'c command list \<times> bool) \<Rightarrow> nat \<Rightarrow> 'c timers \<Rightarrow> 'c fired
    \<Rightarrow> nat \<Rightarrow> 'c timers \<Rightarrow> bool" where
  "ran clk run j m [] j' m' \<longleftrightarrow> j' = j \<and> m' = m"
| "ran clk run j m (f # fs) j' m' \<longleftrightarrow>
     (case queue m of
        [] \<Rightarrow> False
      | e # rest \<Rightarrow>
          f = (clk j, snd e) \<and> fst e \<le> clk j \<and>
          (let (cs, repeat) = run (callback (snd e)) (m\<lparr>queue := rest\<rparr>);
               m1 = fold (exec clk) cs (m\<lparr>queue := rest\<rparr>)
           in if repeat then ran clk run (reads m1) (snd (again clk (snd e) m1)) fs j' m'
              else ran clk run j m1 fs j' m'))"

definition loop_ran ::
    "(nat \<Rightarrow> u64) \<Rightarrow> ('c \<Rightarrow> 'c timers \<Rightarrow> 'c command list \<times> bool) \<Rightarrow> u64 \<Rightarrow> 'c timers \<Rightarrow> 'c fired
     \<Rightarrow> u64 \<times> 'c timers \<times> 'c fired \<Rightarrow> bool" where
  "loop_ran clk run now m fired r \<longleftrightarrow>
     (\<forall>j. now = clk j \<longrightarrow> (case r of (now', m', fired') \<Rightarrow>
        \<exists>fs j'. fired' = fired @ fs \<and> now' = clk j' \<and> ran clk run j m fs j' m'))"

lemma timer_loop_ran:
  assumes "timer_loop clk run now m fired = Some r"
  shows "loop_ran clk run now m fired r"
proof (rule timer_loop.raw_induct[OF _ assms, where P = "\<lambda>clk run now m fired r. loop_ran clk run now m fired r"])
  fix loop clk run now and m :: "'a timers" and fired r
  assume IH: "\<And>clk run now m fired r. loop clk run now m fired = Some r \<Longrightarrow> loop_ran clk run now m fired r"
    and body: "(case queue m of
        [] \<Rightarrow> Some (now, m, fired)
      | e # rest \<Rightarrow>
          if fst e \<le> now
          then let (now', m) = fire clk run now (snd e) (m\<lparr>queue := rest\<rparr>)
               in loop clk run now' m (fired @ [(now, snd e)])
          else Some (now, m, fired)) = Some r"
  show "loop_ran clk run now m fired r"
    unfolding loop_ran_def
  proof (intro allI impI)
    fix j assume now: "now = clk j"
    have stop: "\<exists>fs j'. fired = fired @ fs \<and> now = clk j' \<and> ran clk run j m fs j' m"
      using now by (intro exI[of _ "[]"] exI[of _ j]) simp
    show "case r of (now', m', fired') \<Rightarrow>
        \<exists>fs j'. fired' = fired @ fs \<and> now' = clk j' \<and> ran clk run j m fs j' m'"
    proof (cases "queue m")
      case Nil
      then show ?thesis using body stop by auto
    next
      case (Cons e rest)
      show ?thesis
      proof (cases "fst e \<le> now")
        case True
        obtain cs repeat where cs: "run (callback (snd e)) (m\<lparr>queue := rest\<rparr>) = (cs, repeat)" by fastforce
        let ?m1 = "fold (exec clk) cs (m\<lparr>queue := rest\<rparr>)"
        let ?j = "if repeat then reads ?m1 else j" and ?m2 = "if repeat then snd (again clk (snd e) ?m1) else ?m1"
        have "fire clk run now (snd e) (m\<lparr>queue := rest\<rparr>) = (clk ?j, ?m2)"
          using cs now by (simp add: fire_def again_def get_timestamp_def Let_def)
        then have "loop clk run (clk ?j) ?m2 (fired @ [(now, snd e)]) = Some r"
          using body Cons True by simp
        from IH[OF this] obtain fs j' where "case r of (now', m', fired') \<Rightarrow>
            fired' = (fired @ [(now, snd e)]) @ fs \<and> now' = clk j' \<and> ran clk run ?j ?m2 fs j' m'"
          unfolding loop_ran_def by fast
        then show ?thesis
          using Cons True cs now
          by (intro case_prodI2) (rule exI[of _ "(now, snd e) # fs"], rule exI[of _ j'], auto split: if_splits)
      next
        case False
        then have "r = (now, m, fired)" using body Cons by simp
        then show ?thesis using stop by simp
      qed
    qed
  qed
qed

text \<open>
  C34: A pass of the timers, from a manager in order, that comes to an end. Without timers it does
  nothing. Otherwise it reads the clock and runs some timers, each the first of the queue and due
  at the last reading of the pass, which is the first one or the one made when the last timer
  before was put back. It leaves the manager in order, with no timer due at the last of these
  readings, and returns the time from that reading to the next timer, or 0 when there is none.
\<close>

theorem timer_pass:
  assumes "timers_ok m" and "do_timer clk run m = Some (d, m', fired)"
  shows "timers_ok m' \<and> list_all due fired
    \<and> (if queue m = [] then m' = m \<and> fired = [] \<and> d = 0
       else \<exists>j. ran clk run (reads m) (m\<lparr>reads := Suc (reads m)\<rparr>) fired j m'
         \<and> (case queue m' of [] \<Rightarrow> d = 0 | e # _ \<Rightarrow> clk j < fst e \<and> d = fst e - clk j))"
proof (cases "queue m = []")
  case True
  then show ?thesis using assms by (simp add: do_timer_def)
next
  case False
  let ?m = "m\<lparr>reads := Suc (reads m)\<rparr>"
  obtain now' where r: "timer_loop clk run (clk (reads m)) ?m [] = Some (now', m', fired)"
    "d = (case queue m' of [] \<Rightarrow> 0 | e # _ \<Rightarrow> fst e - now')"
    using assms(2) False by (auto simp: do_timer_def get_timestamp_def)
  have "read_time clk (clk (reads m)) ?m" by (auto simp: read_time_def)
  then have ok: "timers_ok m'" "list_all due fired" "list_all (\<lambda>e. now' < fst e) (queue m')"
    using timer_loop_pass[OF r(1)] assms(1) by (simp_all add: pass_ok_def)
  obtain j where "now' = clk j" "ran clk run (reads m) ?m fired j m'"
    using timer_loop_ran[OF r(1)] by (auto simp: loop_ran_def)
  then show ?thesis using False ok r(2) by (auto split: list.split)
qed


section \<open>A pass ends\<close>

text \<open>
  How often a timer can run while the clock stands at \<open>t\<close>: not at all, once, or twice when the
  time it was due lies further back than its delay.
\<close>

definition runs_left :: "u64 \<Rightarrow> 'c timer \<Rightarrow> nat" where
  "runs_left t item =
     (if t < timestamp item then 0 else if relative item \<or> t < timestamp item + delay item then 1 else 2)"

definition all_left :: "u64 \<Rightarrow> 'c timers \<Rightarrow> nat" where
  "all_left t m = sum_list (map (\<lambda>e. runs_left t (snd e)) (queue m))"

definition no_wrap :: "u64 \<Rightarrow> 'c timer \<Rightarrow> bool" where
  "no_wrap t item \<longleftrightarrow> unat t + unat (delay item) < 2 ^ 64"

lemma all_left_insert:
  "all_left t (m\<lparr>queue := mm_insert k item (queue m)\<rparr>) = runs_left t item + all_left t m"
proof -
  have "mset (map (\<lambda>e. runs_left t (snd e)) (mm_insert k item (queue m)))
      = mset (runs_left t item # map (\<lambda>e. runs_left t (snd e)) (queue m))"
    by (simp add: mm_insert_mset)
  then show ?thesis by (simp add: all_left_def flip: sum_mset_sum_list)
qed

lemma word_add_less:
  fixes a b :: u64
  assumes "unat a + unat b < 2 ^ 64" and "b \<noteq> 0"
  shows "a < a + b"
proof -
  have "0 < unat b" using assms(2) unat_eq_zero[of b] by linarith
  with assms(1) show ?thesis by (simp add: word_less_nat_alt unat_word_ariths)
qed

lemma again_left:
  assumes "\<And>n. clk n = t" and "timestamp item \<le> t" and "delay item \<noteq> 0" and "no_wrap t item"
  shows "all_left t (snd (again clk item m)) < runs_left t item + all_left t m"
proof -
  let ?ts = "if relative item then t + delay item
    else if timestamp item + delay item < t then t else timestamp item + delay item"
  have again: "snd (again clk item m) = m\<lparr>reads := Suc (reads m),
      queue := mm_insert ?ts (item\<lparr>timestamp := ?ts\<rparr>) (queue m)\<rparr>"
    by (simp add: again_def get_timestamp_def Let_def assms(1))
  have less: "t < t + delay item"
    using assms(3,4) by (intro word_add_less) (simp_all add: no_wrap_def)
  have "runs_left t (item\<lparr>timestamp := ?ts\<rparr>) < runs_left t item"
    using less assms(2) by (auto simp: runs_left_def)
  moreover have "all_left t (snd (again clk item m)) = runs_left t (item\<lparr>timestamp := ?ts\<rparr>) + all_left t m"
    using all_left_insert[where m = "m\<lparr>reads := Suc (reads m)\<rparr>" and t = t and k = ?ts and item = "item\<lparr>timestamp := ?ts\<rparr>"]
    unfolding again by (simp add: all_left_def)
  ultimately show ?thesis by simp
qed

lemma fire_left:
  assumes "\<And>n. clk n = t" and "\<And>cb m. fst (run cb m) = []" and "timestamp item \<le> t"
    and "delay item \<noteq> 0" and "no_wrap t item" and "fire clk run t item m = (now', m')"
  shows "now' = t \<and> all_left t m' < runs_left t item + all_left t m
    \<and> (\<forall>e\<in>set (queue m'). no_wrap t (snd e) \<or> e \<in> set (queue m))"
proof -
  obtain repeat where r: "run (callback item) m = ([], repeat)"
    using assms(2)[of "callback item" m] by (cases "run (callback item) m") auto
  show ?thesis
  proof (cases repeat)
    case True
    then have *: "again clk item m = (now', m')" using assms(6) r by (simp add: fire_def)
    have "now' = t" using * assms(1) by (auto simp: again_def get_timestamp_def Let_def)
    moreover have "\<forall>e\<in>set (queue m'). no_wrap t (snd e) \<or> e \<in> set (queue m)"
      using * assms(5) by (auto simp: again_def get_timestamp_def Let_def tq.ins_set no_wrap_def)
    ultimately show ?thesis using again_left[where clk = clk and m = m, OF assms(1,3,4,5)] * by simp
  next
    case False
    then have "now' = t" "m' = m" using assms(6) r by (simp_all add: fire_def)
    moreover have "0 < runs_left t item" using assms(3) by (auto simp: runs_left_def)
    ultimately show ?thesis by simp
  qed
qed

lemma timer_loop_ends:
  fixes m :: "'c timers"
  assumes clk: "\<And>n. clk n = t" and run: "\<And>cb (m :: 'c timers). fst (run cb m) = []"
  shows "timers_ok m \<Longrightarrow> \<forall>e\<in>set (queue m). no_wrap t (snd e) \<Longrightarrow> \<exists>r. timer_loop clk run t m fired = Some r"
proof (induction "all_left t m" arbitrary: m fired rule: less_induct)
  case less
  show ?case
  proof (cases "queue m")
    case Nil
    then show ?thesis by (subst timer_loop.simps) simp
  next
    case (Cons e rest)
    note rest = timers_ok_rest[OF less.prems(1) Cons]
    show ?thesis
    proof (cases "fst e \<le> t")
      case True
      let ?m = "m\<lparr>queue := rest\<rparr>"
      obtain now' m' where f: "fire clk run t (snd e) ?m = (now', m')" by fastforce
      have wrap: "no_wrap t (snd e)" "\<forall>e\<in>set rest. no_wrap t (snd e)" using less.prems(2) Cons by auto
      have left: "now' = t \<and> all_left t m' < runs_left t (snd e) + all_left t ?m
          \<and> (\<forall>e\<in>set (queue m'). no_wrap t (snd e) \<or> e \<in> set (queue ?m))"
        by (rule fire_left[OF clk run _ rest(3) wrap(1) f]) (use True rest(2) in simp)
      have wraps: "\<forall>e\<in>set (queue m'). no_wrap t (snd e)" using left wrap(2) by auto
      have "timers_ok m'" by (rule fire_timers_ok[OF f rest(1,3)])
      moreover have "all_left t m' < all_left t m" using left Cons by (simp add: all_left_def)
      ultimately obtain r where "timer_loop clk run t m' (fired @ [(t, snd e)]) = Some r"
        using less.hyps[of m' "fired @ [(t, snd e)]"] wraps by blast
      with Cons True f left show ?thesis by (cases r) (subst timer_loop.simps, simp)
    next
      case False
      with Cons show ?thesis by (subst timer_loop.simps) simp
    qed
  qed
qed

text \<open>
  A pass ends. While the clock stands, if the callbacks set and cancel no timers and no time
  wraps around, a pass over a manager in order comes to an end, even if every timer repeats.
\<close>

theorem timer_pass_ends:
  assumes "timers_ok m" and "\<And>n. clk n = t" and "\<And>cb m. fst (run cb m) = []"
    and "list_all (\<lambda>e. unat t + unat (delay (snd e)) < 2 ^ 64) (queue m)"
  shows "do_timer clk run m \<noteq> None"
proof -
  have "\<exists>r. timer_loop clk run t (m\<lparr>reads := Suc (reads m)\<rparr>) [] = Some r"
    by (rule timer_loop_ends) (use assms in \<open>simp_all add: list_all_iff no_wrap_def\<close>)
  then show ?thesis by (auto simp: do_timer_def get_timestamp_def assms(2))
qed

text \<open>Two timers that repeat, one of them late.\<close>

definition ex_timers :: "nat timers" where
  "ex_timers = snd (set_timer (\<lambda>_. 90) 10 1 False (snd (set_timer (\<lambda>_. 60) 5 0 True no_timers)))"

definition ex_run :: "nat \<Rightarrow> nat timers \<Rightarrow> nat command list \<times> bool" where
  "ex_run cb m = ([], True)"

lemma ex_timers_ok: "timers_ok ex_timers"
  unfolding ex_timers_def by (intro set_timer_ok) (simp add: timers_ok_def no_timers_def)

theorem timer_pass_ends_witness: "do_timer (\<lambda>_. 100) ex_run ex_timers \<noteq> None"
  by (rule timer_pass_ends[where t = 100, OF ex_timers_ok])
     (simp_all add: ex_run_def ex_timers_def set_timer_def get_timestamp_def no_timers_def Let_def
       unat_numeral)

theorem timer_pass_witness:
  "\<exists>m' fired. do_timer (\<lambda>_. 100) ex_run ex_timers = Some (5, m', fired) \<and> timers_ok m'
     \<and> map (\<lambda>f. t_id (snd f)) fired = [1, 2]"
proof -
  obtain m' fired where p: "do_timer (\<lambda>_. 100) ex_run ex_timers = Some (5, m', fired)"
    "map (\<lambda>f. t_id (snd f)) fired = [1, 2]"
    by (simp add: do_timer_def timer_loop.simps ex_run_def ex_timers_def set_timer_def get_timestamp_def
        no_timers_def Let_def fire_def again_def)
  with timer_pass[OF ex_timers_ok p(1)] show ?thesis
    by (intro exI[of _ m'] exI[of _ fired]) simp
qed

end
