(* ===== verification/Shine_Aes.thy ===== *)
theory Shine_Aes
  imports Prelude
begin

text \<open>
  The AES class of \<^verbatim>\<open>Include/util/aes.hpp\<close>: the block cipher and its inverse on a state of 16
  bytes in row order, the key expansion, and the encoding of a byte string with its padding.
  \<open>gmult_aes\<close>, the table of the 65536 products of the field, is the function \<open>gmult\<close> that
  computes them; the two boxes are the tables of the source.
\<close>


section \<open>Tables\<close>

definition xtime :: "u8 \<Rightarrow> u8" where
  "xtime x = push_bit 1 x XOR (if bit x 7 then 0x1B else 0)"

fun gmult_loop :: "nat \<Rightarrow> u8 \<Rightarrow> u8 \<Rightarrow> u8" where
  "gmult_loop 0 a b = 0"
| "gmult_loop (Suc n) a b =
     (if bit a 0 then b else 0) XOR gmult_loop n (drop_bit 1 a) (xtime b)"

definition gmult :: "u8 \<Rightarrow> u8 \<Rightarrow> u8" where
  "gmult a b = gmult_loop 8 a b"

definition s_box :: bytes where
  "s_box = [
     0x63, 0x7C, 0x77, 0x7B, 0xF2, 0x6B, 0x6F, 0xC5, 0x30, 0x01, 0x67, 0x2B, 0xFE, 0xD7, 0xAB, 0x76,
     0xCA, 0x82, 0xC9, 0x7D, 0xFA, 0x59, 0x47, 0xF0, 0xAD, 0xD4, 0xA2, 0xAF, 0x9C, 0xA4, 0x72, 0xC0,
     0xB7, 0xFD, 0x93, 0x26, 0x36, 0x3F, 0xF7, 0xCC, 0x34, 0xA5, 0xE5, 0xF1, 0x71, 0xD8, 0x31, 0x15,
     0x04, 0xC7, 0x23, 0xC3, 0x18, 0x96, 0x05, 0x9A, 0x07, 0x12, 0x80, 0xE2, 0xEB, 0x27, 0xB2, 0x75,
     0x09, 0x83, 0x2C, 0x1A, 0x1B, 0x6E, 0x5A, 0xA0, 0x52, 0x3B, 0xD6, 0xB3, 0x29, 0xE3, 0x2F, 0x84,
     0x53, 0xD1, 0x00, 0xED, 0x20, 0xFC, 0xB1, 0x5B, 0x6A, 0xCB, 0xBE, 0x39, 0x4A, 0x4C, 0x58, 0xCF,
     0xD0, 0xEF, 0xAA, 0xFB, 0x43, 0x4D, 0x33, 0x85, 0x45, 0xF9, 0x02, 0x7F, 0x50, 0x3C, 0x9F, 0xA8,
     0x51, 0xA3, 0x40, 0x8F, 0x92, 0x9D, 0x38, 0xF5, 0xBC, 0xB6, 0xDA, 0x21, 0x10, 0xFF, 0xF3, 0xD2,
     0xCD, 0x0C, 0x13, 0xEC, 0x5F, 0x97, 0x44, 0x17, 0xC4, 0xA7, 0x7E, 0x3D, 0x64, 0x5D, 0x19, 0x73,
     0x60, 0x81, 0x4F, 0xDC, 0x22, 0x2A, 0x90, 0x88, 0x46, 0xEE, 0xB8, 0x14, 0xDE, 0x5E, 0x0B, 0xDB,
     0xE0, 0x32, 0x3A, 0x0A, 0x49, 0x06, 0x24, 0x5C, 0xC2, 0xD3, 0xAC, 0x62, 0x91, 0x95, 0xE4, 0x79,
     0xE7, 0xC8, 0x37, 0x6D, 0x8D, 0xD5, 0x4E, 0xA9, 0x6C, 0x56, 0xF4, 0xEA, 0x65, 0x7A, 0xAE, 0x08,
     0xBA, 0x78, 0x25, 0x2E, 0x1C, 0xA6, 0xB4, 0xC6, 0xE8, 0xDD, 0x74, 0x1F, 0x4B, 0xBD, 0x8B, 0x8A,
     0x70, 0x3E, 0xB5, 0x66, 0x48, 0x03, 0xF6, 0x0E, 0x61, 0x35, 0x57, 0xB9, 0x86, 0xC1, 0x1D, 0x9E,
     0xE1, 0xF8, 0x98, 0x11, 0x69, 0xD9, 0x8E, 0x94, 0x9B, 0x1E, 0x87, 0xE9, 0xCE, 0x55, 0x28, 0xDF,
     0x8C, 0xA1, 0x89, 0x0D, 0xBF, 0xE6, 0x42, 0x68, 0x41, 0x99, 0x2D, 0x0F, 0xB0, 0x54, 0xBB, 0x16]"

definition inv_s_box :: bytes where
  "inv_s_box = [
     0x52, 0x09, 0x6A, 0xD5, 0x30, 0x36, 0xA5, 0x38, 0xBF, 0x40, 0xA3, 0x9E, 0x81, 0xF3, 0xD7, 0xFB,
     0x7C, 0xE3, 0x39, 0x82, 0x9B, 0x2F, 0xFF, 0x87, 0x34, 0x8E, 0x43, 0x44, 0xC4, 0xDE, 0xE9, 0xCB,
     0x54, 0x7B, 0x94, 0x32, 0xA6, 0xC2, 0x23, 0x3D, 0xEE, 0x4C, 0x95, 0x0B, 0x42, 0xFA, 0xC3, 0x4E,
     0x08, 0x2E, 0xA1, 0x66, 0x28, 0xD9, 0x24, 0xB2, 0x76, 0x5B, 0xA2, 0x49, 0x6D, 0x8B, 0xD1, 0x25,
     0x72, 0xF8, 0xF6, 0x64, 0x86, 0x68, 0x98, 0x16, 0xD4, 0xA4, 0x5C, 0xCC, 0x5D, 0x65, 0xB6, 0x92,
     0x6C, 0x70, 0x48, 0x50, 0xFD, 0xED, 0xB9, 0xDA, 0x5E, 0x15, 0x46, 0x57, 0xA7, 0x8D, 0x9D, 0x84,
     0x90, 0xD8, 0xAB, 0x00, 0x8C, 0xBC, 0xD3, 0x0A, 0xF7, 0xE4, 0x58, 0x05, 0xB8, 0xB3, 0x45, 0x06,
     0xD0, 0x2C, 0x1E, 0x8F, 0xCA, 0x3F, 0x0F, 0x02, 0xC1, 0xAF, 0xBD, 0x03, 0x01, 0x13, 0x8A, 0x6B,
     0x3A, 0x91, 0x11, 0x41, 0x4F, 0x67, 0xDC, 0xEA, 0x97, 0xF2, 0xCF, 0xCE, 0xF0, 0xB4, 0xE6, 0x73,
     0x96, 0xAC, 0x74, 0x22, 0xE7, 0xAD, 0x35, 0x85, 0xE2, 0xF9, 0x37, 0xE8, 0x1C, 0x75, 0xDF, 0x6E,
     0x47, 0xF1, 0x1A, 0x71, 0x1D, 0x29, 0xC5, 0x89, 0x6F, 0xB7, 0x62, 0x0E, 0xAA, 0x18, 0xBE, 0x1B,
     0xFC, 0x56, 0x3E, 0x4B, 0xC6, 0xD2, 0x79, 0x20, 0x9A, 0xDB, 0xC0, 0xFE, 0x78, 0xCD, 0x5A, 0xF4,
     0x1F, 0xDD, 0xA8, 0x33, 0x88, 0x07, 0xC7, 0x31, 0xB1, 0x12, 0x10, 0x59, 0x27, 0x80, 0xEC, 0x5F,
     0x60, 0x51, 0x7F, 0xA9, 0x19, 0xB5, 0x4A, 0x0D, 0x2D, 0xE5, 0x7A, 0x9F, 0x93, 0xC9, 0x9C, 0xEF,
     0xA0, 0xE0, 0x3B, 0x4D, 0xAE, 0x2A, 0xF5, 0xB0, 0xC8, 0xEB, 0xBB, 0x3C, 0x83, 0x53, 0x99, 0x61,
     0x17, 0x2B, 0x04, 0x7E, 0xBA, 0x77, 0xD6, 0x26, 0xE1, 0x69, 0x14, 0x63, 0x55, 0x21, 0x0C, 0x7D]"

text \<open>A box read at row and column.\<close>

definition look :: "bytes \<Rightarrow> u8 \<Rightarrow> u8" where
  "look box x = box ! (16 * unat (drop_bit 4 (x AND 0xF0)) + unat (x AND 0x0F))"


section \<open>Words of four bytes\<close>

definition coef_add :: "bytes \<Rightarrow> bytes \<Rightarrow> bytes" where
  "coef_add a b = map2 (XOR) a b"

definition coef_mult :: "bytes \<Rightarrow> bytes \<Rightarrow> bytes" where
  "coef_mult a b =
     [gmult (a ! 0) (b ! 0) XOR gmult (a ! 3) (b ! 1) XOR gmult (a ! 2) (b ! 2) XOR gmult (a ! 1) (b ! 3),
      gmult (a ! 1) (b ! 0) XOR gmult (a ! 0) (b ! 1) XOR gmult (a ! 3) (b ! 2) XOR gmult (a ! 2) (b ! 3),
      gmult (a ! 2) (b ! 0) XOR gmult (a ! 1) (b ! 1) XOR gmult (a ! 0) (b ! 2) XOR gmult (a ! 3) (b ! 3),
      gmult (a ! 3) (b ! 0) XOR gmult (a ! 2) (b ! 1) XOR gmult (a ! 1) (b ! 2) XOR gmult (a ! 0) (b ! 3)]"

definition sub_word :: "bytes \<Rightarrow> bytes" where
  "sub_word w = map (look s_box) w"

definition rot_word :: "bytes \<Rightarrow> bytes" where
  "rot_word w = (case w of [] \<Rightarrow> [] | x # xs \<Rightarrow> xs @ [x])"

text \<open>The round constant: the first byte of \<open>R\<close> is set, the other three are what they were.\<close>

definition Rcon :: "nat \<Rightarrow> bytes \<Rightarrow> bytes" where
  "Rcon i R =
     (if i = 1 then R[0 := 0x01]
      else if 1 < i then R[0 := ((\<lambda>x. gmult x 0x02) ^^ (i - 2)) 0x02]
      else R)"


section \<open>The state\<close>

definition add_round_key :: "bytes \<Rightarrow> nat \<Rightarrow> bytes \<Rightarrow> bytes" where
  "add_round_key w r st =
     map (\<lambda>n. st ! n XOR w ! (16 * r + 4 * (n mod 4) + n div 4)) [0..<16]"

definition mix_column :: "bytes \<Rightarrow> nat \<Rightarrow> bytes \<Rightarrow> bytes" where
  "mix_column a j st =
     (let res = coef_mult a (map (\<lambda>i. st ! (4 * i + j)) [0..<4])
      in fold (\<lambda>i st. st[4 * i + j := res ! i]) [0..<4] st)"

definition mix_columns :: "bytes \<Rightarrow> bytes" where
  "mix_columns st = fold (mix_column [0x02, 0x01, 0x01, 0x03]) [0..<4] st"

definition inv_mix_columns :: "bytes \<Rightarrow> bytes" where
  "inv_mix_columns st = fold (mix_column [0x0E, 0x09, 0x0D, 0x0B]) [0..<4] st"

definition row_of :: "bytes \<Rightarrow> nat \<Rightarrow> bytes" where
  "row_of st i = take 4 (drop (4 * i) st)"

definition rot_back :: "bytes \<Rightarrow> bytes" where
  "rot_back r = (if r = [] then [] else last r # butlast r)"

definition shift_rows :: "bytes \<Rightarrow> bytes" where
  "shift_rows st = concat (map (\<lambda>i. (rot_word ^^ i) (row_of st i)) [0..<4])"

definition inv_shift_rows :: "bytes \<Rightarrow> bytes" where
  "inv_shift_rows st = concat (map (\<lambda>i. (rot_back ^^ i) (row_of st i)) [0..<4])"

definition sub_bytes :: "bytes \<Rightarrow> bytes" where
  "sub_bytes st = map (look s_box) st"

definition inv_sub_bytes :: "bytes \<Rightarrow> bytes" where
  "inv_sub_bytes st = map (look inv_s_box) st"


section \<open>Keys\<close>

datatype aes_mode = e_aes_128 | e_aes_192 | e_aes_256

fun key_words :: "aes_mode \<Rightarrow> nat" where
  "key_words e_aes_128 = 4"
| "key_words e_aes_192 = 6"
| "key_words e_aes_256 = 8"

fun rounds :: "aes_mode \<Rightarrow> nat" where
  "rounds e_aes_128 = 10"
| "rounds e_aes_192 = 12"
| "rounds e_aes_256 = 14"

definition resize :: "nat \<Rightarrow> bytes \<Rightarrow> bytes" where
  "resize n s = take n s @ replicate (n - length s) 0"

text \<open>
  One word of the expanded key behind the words before it. The members of \<open>R\<close> are set after
  the expansion in the constructor, so it works on whatever they are; the result has the new \<open>R\<close>.
\<close>

definition expand_word :: "nat \<Rightarrow> nat \<Rightarrow> bytes \<times> bytes \<Rightarrow> bytes \<times> bytes" where
  "expand_word Nk i wR =
     (let (w, R) = wR; tmp = take 4 (drop (4 * (i - 1)) w);
          R' = (if i mod Nk = 0 then Rcon (i div Nk) R else R);
          tmp = (if i mod Nk = 0 then coef_add (sub_word (rot_word tmp)) R'
                 else if 6 < Nk \<and> i mod Nk = 4 then sub_word tmp
                 else tmp)
      in (w @ coef_add (take 4 (drop (4 * (i - Nk)) w)) tmp, R'))"

definition aes_key_expansion :: "aes_mode \<Rightarrow> bytes \<Rightarrow> bytes \<Rightarrow> bytes" where
  "aes_key_expansion m R key =
     (let Nk = key_words m in
      fst (fold (expand_word Nk) [Nk..<4 * (rounds m + 1)] (take (4 * Nk) key, R)))"

record aes =
  aes_mode :: aes_mode
  key_buf :: bytes

definition new_aes :: "bytes \<Rightarrow> aes_mode \<Rightarrow> bytes \<Rightarrow> aes" where
  "new_aes R m key = \<lparr>aes_mode = m, key_buf = aes_key_expansion m R (resize (4 * key_words m) key)\<rparr>"


section \<open>The cipher\<close>

definition load_state :: "bytes \<Rightarrow> bytes" where
  "load_state inp = map (\<lambda>n. inp ! (n div 4 + 4 * (n mod 4))) [0..<16]"

definition store_state :: "bytes \<Rightarrow> bytes" where
  "store_state st = map (\<lambda>n. st ! (4 * (n mod 4) + n div 4)) [0..<16]"

definition cipher_round :: "bytes \<Rightarrow> nat \<Rightarrow> bytes \<Rightarrow> bytes" where
  "cipher_round w r st = add_round_key w r (mix_columns (shift_rows (sub_bytes st)))"

definition aes_cipher :: "nat \<Rightarrow> bytes \<Rightarrow> bytes \<Rightarrow> bytes" where
  "aes_cipher Nr w inp =
     (let st = add_round_key w 0 (load_state inp);
          st = fold (cipher_round w) [1..<Nr] st
      in store_state (add_round_key w Nr (shift_rows (sub_bytes st))))"

definition inv_cipher_round :: "bytes \<Rightarrow> nat \<Rightarrow> bytes \<Rightarrow> bytes" where
  "inv_cipher_round w r st = inv_mix_columns (add_round_key w r (inv_sub_bytes (inv_shift_rows st)))"

definition aes_inv_cipher :: "nat \<Rightarrow> bytes \<Rightarrow> bytes \<Rightarrow> bytes" where
  "aes_inv_cipher Nr w inp =
     (let st = add_round_key w Nr (load_state inp);
          st = fold (inv_cipher_round w) (rev [1..<Nr]) st
      in store_state (add_round_key w 0 (inv_sub_bytes (inv_shift_rows st))))"


section \<open>Byte strings\<close>

text \<open>The blocks of a string whose length is a multiple of 16, one after the other.\<close>

fun blocks :: "(bytes \<Rightarrow> bytes) \<Rightarrow> nat \<Rightarrow> bytes \<Rightarrow> bytes" where
  "blocks f 0 s = []"
| "blocks f (Suc n) s = f (take 16 s) @ blocks f n (drop 16 s)"

definition encode :: "aes \<Rightarrow> bytes \<Rightarrow> bytes" where
  "encode a data =
     (if data = [] then []
      else let pad = length data mod 16; pad = (if 0 < pad then 16 - pad else pad);
               inp = resize (length data + pad) data
           in blocks (aes_cipher (rounds (aes_mode a)) (key_buf a)) (length inp div 16) inp @ [of_nat pad])"

definition decode :: "aes \<Rightarrow> bytes \<Rightarrow> bytes" where
  "decode a data =
     (if length data < 17 \<or> length data mod 16 \<noteq> 1 \<or> sint (last data) < 0 \<or> 15 < sint (last data)
      then []
      else let pad = unat (last data);
               ret = blocks (aes_inv_cipher (rounds (aes_mode a)) (key_buf a)) ((length data - 1) div 16)
                       (butlast data)
           in take (length ret - pad) ret)"

end
