(* ===== verification/Shine_Aes_Correct.thy ===== *)
theory Shine_Aes_Correct
  imports Shine_Aes
begin

text \<open>
  Correctness of the AES class: every step of the inverse cipher undoes a step of the cipher, so
  a string that was encoded is decoded again by the same object, whatever the mode, the key
  and the bytes the constructor finds in \<open>R\<close>; those bytes reach the expanded key.
\<close>


section \<open>The inverse boxes\<close>

lemma look_box:
  assumes "length box = 256"
  shows "look box x = box ! unat x"
proof -
  have "16 * unat (drop_bit 4 (x AND 0xF0)) + unat (x AND 0x0F) = unat x"
  proof -
    have "drop_bit 4 (x AND 0xF0) = drop_bit 4 x"
    proof (rule bit_word_eqI)
      fix n assume "n < LENGTH(8)"
      have m: "(0x0F :: u8) = mask 4" by (simp add: mask_eq_exp_minus_1)
      have "bit (0x0F :: u8) n \<longleftrightarrow> n < 4"
        unfolding m by (simp only: bit_mask_iff possible_bit_word) auto
      then show "bit (drop_bit 4 (x AND 0xF0)) n \<longleftrightarrow> bit (drop_bit 4 x) n"
        by (auto simp: bit_simps dest: bit_imp_le_length)
    qed
    moreover have "x AND 0x0F = take_bit 4 x"
      using take_bit_eq_mask[of 4 x] by (simp add: mask_eq_exp_minus_1)
    moreover have "unat (drop_bit 4 x) = unat x div 16" "unat (take_bit 4 x) = unat x mod 16"
      by (simp_all add: drop_bit_eq_div take_bit_eq_mod unat_div_distrib unat_mod_distrib)
    ultimately show ?thesis by (simp only: mult_div_mod_eq)
  qed
  then show ?thesis by (simp add: look_def)
qed

lemma boxes_inverse: "map (\<lambda>n. inv_s_box ! unat (s_box ! n)) [0..<256] = map of_nat [0..<256]"
  by code_simp

lemma look_inverse: "look inv_s_box (look s_box x) = x"
proof -
  have "length s_box = 256" "length inv_s_box = 256" by (simp_all add: s_box_def inv_s_box_def)
  moreover have "unat x < 256" using unsigned_less[of x, where 'a = nat] by simp
  then have "inv_s_box ! unat (s_box ! unat x) = of_nat (unat x)"
    using arg_cong[OF boxes_inverse, of "\<lambda>xs. xs ! unat x"] by simp
  ultimately show ?thesis by (simp add: look_box)
qed



section \<open>The inverse of mixing\<close>

lemma xtime_xor: "xtime (a XOR b) = xtime a XOR xtime b"
  by (rule bit_word_eqI) (auto simp: xtime_def bit_simps)

lemma xor_left_self: "a XOR (a XOR b) = (b :: u8)"
  by (simp flip: xor.assoc)

lemma gmult_loop_0: "gmult_loop n 0 b = 0"
  by (induction n arbitrary: b) simp_all

lemma gmult_low:
  assumes "drop_bit 4 a = 0"
  shows "gmult a b = (if bit a 0 then b else 0) XOR ((if bit a 1 then xtime b else 0)
    XOR ((if bit a 2 then xtime (xtime b) else 0) XOR (if bit a 3 then xtime (xtime (xtime b)) else 0)))"
proof -
  have "gmult a b = gmult_loop (Suc (Suc (Suc (Suc 4)))) a b" by (simp add: gmult_def)
  also have "\<dots> = (if bit a 0 then b else 0) XOR ((if bit a 1 then xtime b else 0)
      XOR ((if bit a 2 then xtime (xtime b) else 0) XOR ((if bit a 3 then xtime (xtime (xtime b)) else 0)
      XOR gmult_loop 4 (drop_bit 4 a) (xtime (xtime (xtime (xtime b)))))))"
    by (simp only: gmult_loop.simps(2) drop_bit_drop_bit bit_drop_bit_eq comp_def add_0_right
        one_add_one numeral_plus_one plus_nat.add_0) (simp add: numeral_eq_Suc)
  finally show ?thesis by (simp only: assms gmult_loop_0 xor.right_neutral)
qed

lemma gmult_const:
  "gmult 0x01 x = x" "gmult 0x02 x = xtime x" "gmult 0x03 x = x XOR xtime x"
  "gmult 0x09 x = x XOR xtime (xtime (xtime x))"
  "gmult 0x0B x = x XOR (xtime x XOR xtime (xtime (xtime x)))"
  "gmult 0x0D x = x XOR (xtime (xtime x) XOR xtime (xtime (xtime x)))"
  "gmult 0x0E x = xtime x XOR (xtime (xtime x) XOR xtime (xtime (xtime x)))"
  by (simp_all add: gmult_low)

text \<open>A column is restored: the two polynomials are inverse to each other.\<close>

lemma coef_mult_inverse:
  "coef_mult [0x0E, 0x09, 0x0D, 0x0B] (coef_mult [0x02, 0x01, 0x01, 0x03] [a, b, c, d]) = [a, b, c, d]"
  by (simp add: coef_mult_def gmult_const xtime_xor xor.assoc xor.commute xor.left_commute xor_left_self)



section \<open>The inverse of a round\<close>

text \<open>A state is 16 bytes.\<close>

lemma state_bytes:
  assumes "length st = 16"
  obtains a b c d e f g h i j k l m n o' p where "st = [a, b, c, d, e, f, g, h, i, j, k, l, m, n, o', p]"
  using assms by (auto simp: numeral_eq_Suc length_Suc_conv)

lemma upto_4: "[0..<4] = [0, 1, 2, Suc 2]"
  by (simp add: upt_rec)

lemma upto_16: "[0..<16] = [0, 1, 2, 3, 4, 5, 6, 7, 8, 9, 10, 11, 12, 13, 14, 15]"
  by (simp add: upt_rec)

lemma mix_inverse:
  assumes "length st = 16"
  shows "inv_mix_columns (mix_columns st) = st"
proof -
  obtain a b c d e f g h i j k l m n q p where st: "st = [a, b, c, d, e, f, g, h, i, j, k, l, m, n, q, p]"
    using assms by (rule state_bytes)
  obtain r0 r1 r2 r3 where r: "coef_mult [0x02, 0x01, 0x01, 0x03] [a, e, i, m] = [r0, r1, r2, r3]"
    by (simp add: coef_mult_def)
  obtain s0 s1 s2 s3 where s: "coef_mult [0x02, 0x01, 0x01, 0x03] [b, f, j, n] = [s0, s1, s2, s3]"
    by (simp add: coef_mult_def)
  obtain t0 t1 t2 t3 where t: "coef_mult [0x02, 0x01, 0x01, 0x03] [c, g, k, q] = [t0, t1, t2, t3]"
    by (simp add: coef_mult_def)
  obtain u0 u1 u2 u3 where u: "coef_mult [0x02, 0x01, 0x01, 0x03] [d, h, l, p] = [u0, u1, u2, u3]"
    by (simp add: coef_mult_def)
  have mix: "mix_columns st = [r0, s0, t0, u0, r1, s1, t1, u1, r2, s2, t2, u2, r3, s3, t3, u3]"
    by (simp add: mix_columns_def mix_column_def upto_4 st r s t u Let_def)
  show ?thesis
    unfolding mix
    using coef_mult_inverse[of a e i m] coef_mult_inverse[of b f j n] coef_mult_inverse[of c g k q]
      coef_mult_inverse[of d h l p]
    by (simp add: inv_mix_columns_def mix_column_def upto_4 st r s t u Let_def)
qed

lemma shift_inverse: "length st = 16 \<Longrightarrow> inv_shift_rows (shift_rows st) = st"
  by (erule state_bytes)
     (simp add: shift_rows_def inv_shift_rows_def row_of_def upto_4 rot_word_def rot_back_def numeral_eq_Suc)

lemma sub_inverse: "inv_sub_bytes (sub_bytes st) = st"
  by (simp add: sub_bytes_def inv_sub_bytes_def comp_def look_inverse)

lemma add_round_key_inverse:
  assumes "length st = 16"
  shows "add_round_key w r (add_round_key w r st) = st"
  using assms by (intro nth_equalityI) (simp_all add: add_round_key_def xor.assoc)

lemma round_lengths [simp]:
  "length (add_round_key w r st) = 16" "length (sub_bytes st) = length st"
  "length (load_state inp) = 16" "length (store_state st) = 16"
  by (simp_all add: add_round_key_def sub_bytes_def load_state_def store_state_def)

lemma shift_rows_length [simp]: "length st = 16 \<Longrightarrow> length (shift_rows st) = 16"
  by (erule state_bytes)
     (simp add: shift_rows_def row_of_def upto_4 rot_word_def numeral_eq_Suc)

lemma mix_column_length [simp]: "length (mix_column a j st) = length st"
proof -
  have "length (fold (\<lambda>i st. st[4 * i + j := res ! i]) is st) = length st" for res "is" and st :: bytes
    by (induction "is" arbitrary: st) simp_all
  then show ?thesis by (simp add: mix_column_def Let_def)
qed

lemma mix_columns_length [simp]: "length (mix_columns st) = length st"
  by (simp add: mix_columns_def upto_4)

lemma store_load: "length st = 16 \<Longrightarrow> load_state (store_state st) = st"
  by (erule state_bytes) (simp add: load_state_def store_state_def upto_16)

lemma load_store: "length inp = 16 \<Longrightarrow> store_state (load_state inp) = inp"
  by (erule state_bytes) (simp add: load_state_def store_state_def upto_16)



section \<open>The cipher and the string\<close>

lemma round_inverse:
  "length st = 16 \<Longrightarrow> inv_mix_columns (add_round_key w r (cipher_round w r st)) = shift_rows (sub_bytes st)"
  by (simp add: cipher_round_def add_round_key_inverse mix_inverse)

lemma rounds_inverse:
  assumes "length st = 16"
  shows "fold (inv_cipher_round w) (rev rs) (shift_rows (sub_bytes (fold (cipher_round w) rs st)))
    = shift_rows (sub_bytes st)
    \<and> length (fold (cipher_round w) rs st) = 16"
  using assms
proof (induction rs arbitrary: st)
  case (Cons r rs)
  have len: "length (cipher_round w r st) = 16" by (simp add: cipher_round_def)
  show ?case
    using Cons.IH[OF len] round_inverse[OF Cons.prems, of w r] Cons.prems len
    by (simp add: inv_cipher_round_def shift_inverse sub_inverse)
qed simp

lemma cipher_inverse:
  assumes "length inp = 16"
  shows "aes_inv_cipher Nr w (aes_cipher Nr w inp) = inp" and "length (aes_cipher Nr w inp) = 16"
proof -
  let ?st = "add_round_key w 0 (load_state inp)"
  let ?last = "fold (cipher_round w) [1..<Nr] ?st"
  have r: "fold (inv_cipher_round w) (rev [1..<Nr]) (shift_rows (sub_bytes ?last)) = shift_rows (sub_bytes ?st)"
    "length ?last = 16"
    using rounds_inverse[of ?st w "[1..<Nr]"] by simp_all
  then show "aes_inv_cipher Nr w (aes_cipher Nr w inp) = inp"
    using assms
    by (simp add: aes_inv_cipher_def aes_cipher_def Let_def store_load add_round_key_inverse shift_inverse
        sub_inverse load_store)
  show "length (aes_cipher Nr w inp) = 16" by (simp add: aes_cipher_def Let_def)
qed

lemma blocks_inverse:
  assumes "\<And>b. length b = 16 \<Longrightarrow> g (f b) = b" and "\<And>b. length b = 16 \<Longrightarrow> length (f b) = 16"
  shows "length s = 16 * n \<Longrightarrow> blocks g n (blocks f n s) = s \<and> length (blocks f n s) = 16 * n"
proof (induction n arbitrary: s)
  case (Suc n)
  then have "length (take 16 s) = 16" "length (drop 16 s) = 16 * n" by auto
  with Suc.IH[of "drop 16 s"] assms[of "take 16 s"] show ?case by simp
qed simp

lemma decode_padded:
  assumes "length ret = 16 * n" and "0 < n" and "pad < 16"
    and "blocks (aes_inv_cipher (rounds (aes_mode a)) (key_buf a)) n ret = inp"
  shows "decode a (ret @ [of_nat pad]) = take (length inp - pad) inp"
proof -
  have u: "unat (of_nat pad :: u8) = pad" and s: "sint (of_nat pad :: u8) = int pad"
    using assms(3) by (simp_all add: unsigned_of_nat take_bit_nat_eq_self signed_of_nat signed_take_bit_int_eq_self)
  have l: "length (ret @ [of_nat pad :: u8]) = 16 * n + 1" by (simp add: assms(1))
  have d: "(length (ret @ [of_nat pad :: u8]) - 1) div 16 = n" unfolding l by simp
  have "\<not> 16 * n + 1 < 17" "(16 * n + 1) mod 16 = 1" using assms(2) by simp_all
  then show ?thesis
    unfolding decode_def l Let_def butlast_snoc last_snoc u s
    using assms(3,4) by simp
qed

text \<open>
  C35: AES round trip. What an AES object encoded it decodes again, for every mode, key and data,
  the empty string included, and whatever the constructor found in the bytes of \<open>R\<close>.
\<close>

theorem aes_roundtrip: "decode (new_aes R m key) (encode (new_aes R m key) data) = data"
proof (cases "data = []")
  case True
  then show ?thesis by (simp add: encode_def decode_def)
next
  case False
  let ?a = "new_aes R m key" let ?pad = "if 0 < length data mod 16 then 16 - length data mod 16 else 0"
  let ?inp = "resize (length data + ?pad) data" let ?n = "length ?inp div 16"
  let ?c = "aes_cipher (rounds (aes_mode ?a)) (key_buf ?a)" let ?d = "aes_inv_cipher (rounds (aes_mode ?a)) (key_buf ?a)"
  have inp: "?inp = data @ replicate ?pad 0" by (simp add: resize_def)
  have "16 dvd length data + ?pad" by presburger
  then have len: "length ?inp = 16 * ?n" unfolding inp by simp
  let ?ret = "blocks ?c ?n ?inp"
  have ret: "blocks ?d ?n ?ret = ?inp" "length ?ret = 16 * ?n"
    using blocks_inverse[of ?d ?c ?inp ?n] cipher_inverse len by blast+
  have enc: "encode ?a data = ?ret @ [of_nat ?pad]" using False by (simp add: encode_def Let_def)
  have "0 < length ?inp" using False unfolding inp by simp
  then have "0 < ?n" using len by linarith
  moreover have "?pad < 16" by auto
  ultimately have "decode ?a (encode ?a data) = take (length ?inp - ?pad) ?inp"
    unfolding enc using decode_padded[OF ret(2) _ _ ret(1)] by blast
  then show ?thesis unfolding inp by simp
qed

text \<open>
  The key is expanded before the constructor sets \<open>R\<close>: for the zero key, the first word behind
  the key contains the three bytes the memory held before, so that two objects with the same
  key need not understand each other.
\<close>

lemma aes_key_garbage:
  "fst (expand_word 4 4 (replicate 16 0, [r0, r1, r2, r3]))
   = replicate 16 0 @ [0x62, 0x63 XOR r1, 0x63 XOR r2, 0x63 XOR r3]"
proof -
  have look: "look s_box 0 = 0x63" by (simp add: look_def s_box_def)
  have rot: "rot_word [0, 0, 0, 0] = [0, 0, 0, 0 :: u8]" by (simp add: rot_word_def)
  have rep: "take 4 (drop (4 * (4 - 1)) (replicate 16 (0 :: u8))) = [0, 0, 0, 0]"
    "take 4 (drop (4 * (4 - 4)) (replicate 16 (0 :: u8))) = [0, 0, 0, 0]" by code_simp+
  have rcon: "Rcon (4 div 4) [r0, r1, r2, r3] = [1, r1, r2, r3]" by (simp add: Rcon_def)
  have add: "coef_add [0, 0, 0, 0] [a, b, c, d] = [a, b, c, d]" for a b c d :: u8 by (simp add: coef_add_def)
  have x: "coef_add [0x63, 0x63, 0x63, 0x63] [1, r1, r2, r3] = [0x62, 0x63 XOR r1, 0x63 XOR r2, 0x63 XOR r3]"
    by (simp add: coef_add_def)
  show ?thesis
    by (simp only: expand_word_def prod.case Let_def rep rcon rot sub_word_def list.map look x add fst_conv
        mod_self refl if_True)
qed

end
