(* ===== verification/Block_Hash.thy ===== *)
theory Block_Hash
  imports Prelude
begin

text \<open>
  Hashing in blocks of 64 bytes, shared by the MD5 and the SHA-1 class: the reference runs over
  the whole text, and a machine that takes the text in pieces and keeps what does not fill a
  block has to agree with it.
\<close>

function hash_blocks :: "('h \<Rightarrow> bytes \<Rightarrow> 'h) \<Rightarrow> 'h \<Rightarrow> bytes \<Rightarrow> 'h" where
  "hash_blocks f h s = (if length s < 64 then h else hash_blocks f (f h (take 64 s)) (drop 64 s))"
  by pat_completeness auto
termination
  by (relation "measure (\<lambda>(f, h, s). length s)") auto

declare hash_blocks.simps [simp del]

definition rest_of :: "bytes \<Rightarrow> bytes" where
  "rest_of s = drop (64 * (length s div 64)) s"

lemma hash_blocks_short [simp]: "length s < 64 \<Longrightarrow> hash_blocks f h s = h"
  by (simp add: hash_blocks.simps)

lemma hash_blocks_block:
  "length b = 64 \<Longrightarrow> hash_blocks f h (b @ s) = hash_blocks f (f h b) s"
  by (subst hash_blocks.simps) simp

lemma hash_blocks_eq:
  "(\<And>h b. length b = 64 \<Longrightarrow> f h b = g h b) \<Longrightarrow> hash_blocks f h s = hash_blocks g h s"
proof (induction f h s rule: hash_blocks.induct)
  case (1 f h s)
  then show ?case by (cases "length s < 64") (simp_all add: hash_blocks.simps[of _ _ s])
qed

lemma rest_of_short [simp]: "length s < 64 \<Longrightarrow> rest_of s = s"
  by (simp add: rest_of_def)

lemma rest_of_block: "length b = 64 \<Longrightarrow> rest_of (b @ s) = rest_of s"
proof -
  assume b: "length b = 64"
  have "(64 + length s) div 64 = Suc (length s div 64)" by presburger
  then show ?thesis using b by (simp add: rest_of_def)
qed

lemma length_rest_of: "length (rest_of s) = length s mod 64"
  by (simp add: rest_of_def minus_mult_div_eq_mod)

lemma rest_of_suffix: "rest_of s = drop (length s - length s mod 64) s"
  by (simp add: rest_of_def minus_mod_eq_mult_div)

text \<open>Text that comes in two parts.\<close>

lemma hash_blocks_append:
  "hash_blocks f h (s @ t) = hash_blocks f (hash_blocks f h s) (rest_of s @ t)
   \<and> rest_of (s @ t) = rest_of (rest_of s @ t)"
proof (induction f h s rule: hash_blocks.induct)
  case (1 f h s)
  show ?case
  proof (cases "length s < 64")
    case False
    let ?b = "take 64 s" and ?s = "drop 64 s"
    have b: "length ?b = 64" using False by simp
    have "hash_blocks f h (?b @ ?s @ t) = hash_blocks f (f h ?b) (?s @ t)" by (rule hash_blocks_block[OF b])
    moreover have "hash_blocks f h s = hash_blocks f (f h ?b) ?s"
      using hash_blocks_block[OF b, of f h ?s] by simp
    moreover have "rest_of s = rest_of ?s" using rest_of_block[OF b, of ?s] by simp
    moreover have "rest_of (?b @ ?s @ t) = rest_of (?s @ t)" by (rule rest_of_block[OF b])
    moreover have "s @ t = ?b @ ?s @ t" by simp
    ultimately show ?thesis using 1[OF False] by (simp only: append_assoc)
  qed simp
qed

text \<open>
  The contract of a machine: what it has absorbed is a chaining value and the rest of the text.
  \<open>ok n st\<close> says that \<open>st\<close> is a state after \<open>n\<close> bytes; texts are shorter than \<open>limit\<close>.
\<close>

locale block_hash =
  fixes compress :: "'h \<Rightarrow> bytes \<Rightarrow> 'h" and put :: "bytes \<Rightarrow> 'st \<Rightarrow> 'st" and chain :: "'st \<Rightarrow> 'h"
    and tail :: "'st \<Rightarrow> bytes" and ok :: "nat \<Rightarrow> 'st \<Rightarrow> bool" and limit :: nat
  assumes ok_tail: "ok n st \<Longrightarrow> length (tail st) = n mod 64"
    and ok_put: "ok n st \<Longrightarrow> n + length x < limit \<Longrightarrow> ok (n + length x) (put x st)"
    and chain_put: "ok n st \<Longrightarrow> n + length x < limit \<Longrightarrow>
      chain (put x st) = hash_blocks compress (chain st) (tail st @ x)"
    and tail_put: "ok n st \<Longrightarrow> n + length x < limit \<Longrightarrow> tail (put x st) = rest_of (tail st @ x)"
begin

lemma tail_short: "ok n st \<Longrightarrow> length (tail st) < 64"
  by (simp add: ok_tail)

lemma puts:
  "ok n st \<Longrightarrow> n + length (concat xs) < limit \<Longrightarrow>
   ok (n + length (concat xs)) (fold put xs st)
   \<and> chain (fold put xs st) = hash_blocks compress (chain st) (tail st @ concat xs)
   \<and> tail (fold put xs st) = rest_of (tail st @ concat xs)"
proof (induction xs arbitrary: n st)
  case Nil
  then show ?case using tail_short by simp
next
  case (Cons x xs)
  have x: "n + length x < limit" using Cons.prems(2) by simp
  note p = ok_put[OF Cons.prems(1) x] chain_put[OF Cons.prems(1) x] tail_put[OF Cons.prems(1) x]
  have "n + length x + length (concat xs) < limit" using Cons.prems(2) by simp
  note ih = Cons.IH[OF p(1) this]
  show ?case
    using ih p hash_blocks_append[of compress "chain st" "tail st @ x" "concat xs"]
    by (simp add: add.assoc)
qed

text \<open>Pieces or the whole make no difference.\<close>

lemma puts_concat:
  assumes "ok n st" and "n + length (concat xs) < limit"
  shows "chain (fold put xs st) = chain (put (concat xs) st) \<and> tail (fold put xs st) = tail (put (concat xs) st)"
  using puts[OF assms] chain_put[OF assms] tail_put[OF assms] by simp

end

text \<open>A machine that takes one byte after the other is such a machine.\<close>

locale byte_hash =
  fixes compress :: "'h \<Rightarrow> bytes \<Rightarrow> 'h" and put1 :: "u8 \<Rightarrow> 'st \<Rightarrow> 'st" and chain :: "'st \<Rightarrow> 'h"
    and tail :: "'st \<Rightarrow> bytes" and ok :: "nat \<Rightarrow> 'st \<Rightarrow> bool" and limit :: nat
  assumes ok_tail: "ok n st \<Longrightarrow> length (tail st) = n mod 64"
    and ok_put1: "ok n st \<Longrightarrow> Suc n < limit \<Longrightarrow> ok (Suc n) (put1 b st)"
    and chain_put1: "ok n st \<Longrightarrow> Suc n < limit \<Longrightarrow>
      chain (put1 b st) = (if length (tail st) = 63 then compress (chain st) (tail st @ [b]) else chain st)"
    and tail_put1: "ok n st \<Longrightarrow> Suc n < limit \<Longrightarrow>
      tail (put1 b st) = (if length (tail st) = 63 then [] else tail st @ [b])"
begin

lemma put1_blocks:
  assumes "ok n st" and "Suc n < limit"
  shows "chain (put1 b st) = hash_blocks compress (chain st) (tail st @ [b])
         \<and> tail (put1 b st) = rest_of (tail st @ [b])"
proof (cases "length (tail st) = 63")
  case True
  have l: "length (tail st @ [b]) = 64" using True by simp
  show ?thesis
    using True chain_put1[OF assms] tail_put1[OF assms] hash_blocks_block[OF l, of compress _ "[]"]
      rest_of_block[OF l, of "[]"] by simp
next
  case False
  have "length (tail st) < 64" using ok_tail[OF assms(1)] by simp
  then have "length (tail st @ [b]) < 64" using False by simp
  then show ?thesis using False chain_put1[OF assms] tail_put1[OF assms] by simp
qed

lemma puts1:
  "ok n st \<Longrightarrow> n + length x < limit \<Longrightarrow>
   ok (n + length x) (fold put1 x st)
   \<and> chain (fold put1 x st) = hash_blocks compress (chain st) (tail st @ x)
   \<and> tail (fold put1 x st) = rest_of (tail st @ x)"
proof (induction x arbitrary: n st)
  case Nil
  then show ?case using ok_tail by simp
next
  case (Cons b x)
  have b: "Suc n < limit" using Cons.prems(2) by simp
  note p = ok_put1[OF Cons.prems(1) b, of b] put1_blocks[OF Cons.prems(1) b, of b]
  have "Suc n + length x < limit" using Cons.prems(2) by simp
  note ih = Cons.IH[OF p(1) this]
  show ?case
    using ih p(2) hash_blocks_append[of compress "chain st" "tail st @ [b]" x] by simp
qed

end

sublocale byte_hash \<subseteq> whole: block_hash compress "\<lambda>x. fold put1 x" chain tail ok limit
  by unfold_locales (auto simp: ok_tail puts1)


section \<open>Lengths and padding\<close>

text \<open>A number in \<open>k\<close> bytes, the lowest first.\<close>

fun le_bytes :: "nat \<Rightarrow> nat \<Rightarrow> bytes" where
  "le_bytes 0 v = []"
| "le_bytes (Suc k) v = of_nat v # le_bytes k (v div 256)"

lemma length_le_bytes [simp]: "length (le_bytes k v) = k"
  by (induction k arbitrary: v) simp_all

lemma le_bytes_split:
  "a < 256 ^ k \<Longrightarrow> le_bytes (k + j) (a + 256 ^ k * b) = le_bytes k a @ le_bytes j b"
proof (induction k arbitrary: a)
  case (Suc k)
  have e: "a + 256 ^ Suc k * b = a + 256 * (256 ^ k * b)" by simp
  have z: "(256 :: u8) = 0" by simp
  have "(of_nat (a + 256 * (256 ^ k * b)) :: u8) = of_nat a"
    by (simp only: of_nat_add of_nat_mult of_nat_numeral z mult_zero_left add_0_right)
  moreover have "(a + 256 * (256 ^ k * b)) div 256 = a div 256 + 256 ^ k * b" by simp
  moreover have "a div 256 < 256 ^ k" using Suc.prems by (simp add: div_less_iff_less_mult mult.commute)
  ultimately show ?case unfolding e using Suc.IH[of "a div 256"] by (simp add: add.commute)
qed simp

text \<open>
  The reference: the text, a byte \<open>0x80\<close>, as few zero bytes as leave room for eight more at the end
  of a block, the length in bits.
\<close>

definition hash_padding :: "nat \<Rightarrow> bytes" where
  "hash_padding n = 0x80 # replicate ((119 - n mod 64) mod 64) 0"

lemma hash_padding_mod: "hash_padding (n mod 64) = hash_padding n"
  by (simp add: hash_padding_def)

lemma word_le_bytes:
  fixes w :: u32
  shows "[ucast (w AND 0xff), ucast (drop_bit 8 w AND 0xff), ucast (drop_bit 16 w AND 0xff),
          ucast (drop_bit 24 w AND 0xff)] = le_bytes 4 (unat w)"
proof -
  have m: "w AND 0xff = take_bit 8 w" for w :: u32
    by (simp add: take_bit_eq_mask mask_eq_exp_minus_1)
  have u: "(ucast (take_bit 8 w) :: u8) = of_nat (unat w)" for w :: u32
    by (rule bit_word_eqI) (auto simp: bit_simps)
  have e: "unat w div 256 = unat (drop_bit 8 w)" for w :: u32
    by (simp add: drop_bit_eq_div unat_div_distrib)
  have f: "4 = Suc (Suc (Suc (Suc 0)))" by simp
  show ?thesis unfolding f by (simp add: m u e drop_bit_drop_bit)
qed

end
