(* ===== verification/Shine_Md5.thy ===== *)
theory Shine_Md5
  imports Block_Hash
begin

text \<open>
  The MD5 class of \<^verbatim>\<open>Include/util/md5.hpp\<close>: the transformation of a block, the object that
  absorbs text, the digest and its two printed forms.
\<close>


section \<open>The transformation of a block\<close>

type_synonym md5_hash = "u32 \<times> u32 \<times> u32 \<times> u32"

definition rotate_left :: "u32 \<Rightarrow> nat \<Rightarrow> u32" where
  "rotate_left num n = push_bit n num OR drop_bit (32 - n) num"

definition md5_F :: "u32 \<Rightarrow> u32 \<Rightarrow> u32 \<Rightarrow> u32" where
  "md5_F x y z = (x AND y) OR (NOT x AND z)"

definition md5_G :: "u32 \<Rightarrow> u32 \<Rightarrow> u32 \<Rightarrow> u32" where
  "md5_G x y z = (x AND z) OR (y AND NOT z)"

definition md5_H :: "u32 \<Rightarrow> u32 \<Rightarrow> u32 \<Rightarrow> u32" where
  "md5_H x y z = x XOR y XOR z"

definition md5_I :: "u32 \<Rightarrow> u32 \<Rightarrow> u32 \<Rightarrow> u32" where
  "md5_I x y z = y XOR (x OR NOT z)"

text \<open>
  One of the macros \<open>lin_FF\<close> to \<open>lin_II\<close>, followed by the exchange of the names the calls of the
  source make: the register written becomes the second of the next call.
\<close>

fun md5_step :: "(u32 \<Rightarrow> u32 \<Rightarrow> u32 \<Rightarrow> u32) \<Rightarrow> u32 list \<Rightarrow> nat \<times> nat \<times> u32 \<Rightarrow> md5_hash \<Rightarrow> md5_hash" where
  "md5_step f x (k, s, ac) (a, b, c, d) = (d, rotate_left (a + (f b c d + x ! k + ac)) s + b, b, c)"

definition md5_round1 :: "(nat \<times> nat \<times> u32) list" where
  "md5_round1 =
    [(0, 7, 0xd76aa478), (1, 12, 0xe8c7b756), (2, 17, 0x242070db), (3, 22, 0xc1bdceee),
     (4, 7, 0xf57c0faf), (5, 12, 0x4787c62a), (6, 17, 0xa8304613), (7, 22, 0xfd469501),
     (8, 7, 0x698098d8), (9, 12, 0x8b44f7af), (10, 17, 0xffff5bb1), (11, 22, 0x895cd7be),
     (12, 7, 0x6b901122), (13, 12, 0xfd987193), (14, 17, 0xa679438e), (15, 22, 0x49b40821)]"

definition md5_round2 :: "(nat \<times> nat \<times> u32) list" where
  "md5_round2 =
    [(1, 5, 0xf61e2562), (6, 9, 0xc040b340), (11, 14, 0x265e5a51), (0, 20, 0xe9b6c7aa),
     (5, 5, 0xd62f105d), (10, 9, 0x2441453), (15, 14, 0xd8a1e681), (4, 20, 0xe7d3fbc8),
     (9, 5, 0x21e1cde6), (14, 9, 0xc33707d6), (3, 14, 0xf4d50d87), (8, 20, 0x455a14ed),
     (13, 5, 0xa9e3e905), (2, 9, 0xfcefa3f8), (7, 14, 0x676f02d9), (12, 20, 0x8d2a4c8a)]"

definition md5_round3 :: "(nat \<times> nat \<times> u32) list" where
  "md5_round3 =
    [(5, 4, 0xfffa3942), (8, 11, 0x8771f681), (11, 16, 0x6d9d6122), (14, 23, 0xfde5380c),
     (1, 4, 0xa4beea44), (4, 11, 0x4bdecfa9), (7, 16, 0xf6bb4b60), (10, 23, 0xbebfbc70),
     (13, 4, 0x289b7ec6), (0, 11, 0xeaa127fa), (3, 16, 0xd4ef3085), (6, 23, 0x4881d05),
     (9, 4, 0xd9d4d039), (12, 11, 0xe6db99e5), (15, 16, 0x1fa27cf8), (2, 23, 0xc4ac5665)]"

definition md5_round4 :: "(nat \<times> nat \<times> u32) list" where
  "md5_round4 =
    [(0, 6, 0xf4292244), (7, 10, 0x432aff97), (14, 15, 0xab9423a7), (5, 21, 0xfc93a039),
     (12, 6, 0x655b59c3), (3, 10, 0x8f0ccc92), (10, 15, 0xffeff47d), (1, 21, 0x85845dd1),
     (8, 6, 0x6fa87e4f), (15, 10, 0xfe2ce6e0), (6, 15, 0xa3014314), (13, 21, 0x4e0811a1),
     (4, 6, 0xf7537e82), (11, 10, 0xbd3af235), (2, 15, 0x2ad7d2bb), (9, 21, 0xeb86d391)]"

fun md5_words :: "bytes \<Rightarrow> u32 list" where
  "md5_words (b0 # b1 # b2 # b3 # bs) =
     (ucast b0 OR push_bit 8 (ucast b1) OR push_bit 16 (ucast b2) OR push_bit 24 (ucast b3)) # md5_words bs"
| "md5_words bs = []"

definition md5_encode :: "u32 list \<Rightarrow> bytes" where
  "md5_encode ws = concat (map (\<lambda>w. [ucast (w AND 0xff), ucast (drop_bit 8 w AND 0xff),
     ucast (drop_bit 16 w AND 0xff), ucast (drop_bit 24 w AND 0xff)]) ws)"

fun md5_rounds :: "u32 list \<Rightarrow> md5_hash \<Rightarrow> md5_hash" where
  "md5_rounds x h =
     fold (md5_step md5_I x) md5_round4 (fold (md5_step md5_H x) md5_round3
       (fold (md5_step md5_G x) md5_round2 (fold (md5_step md5_F x) md5_round1 h)))"

definition md5_transform :: "md5_hash \<Rightarrow> bytes \<Rightarrow> md5_hash" where
  "md5_transform h block =
     (case h of (s0, s1, s2, s3) \<Rightarrow>
        (case md5_rounds (md5_words block) h of (a, b, c, d) \<Rightarrow> (s0 + a, s1 + b, s2 + c, s3 + d)))"


section \<open>The object\<close>

record md5 =
  md5_finished :: bool
  md5_state :: md5_hash
  md5_count0 :: u32
  md5_count1 :: u32
  md5_buffer :: bytes
  md5_digest :: bytes

text \<open>\<open>memcpy(&buffer[k], s, n)\<close> for a text \<open>s\<close> of \<open>n\<close> bytes that fits.\<close>

definition memcpy_at :: "bytes \<Rightarrow> nat \<Rightarrow> bytes \<Rightarrow> bytes" where
  "memcpy_at buf k s = take k buf @ s @ drop (k + length s) buf"

text \<open>
  The loop over the full blocks of the input. Its counter is a \<open>uint32\<close> while the length is a
  \<open>size_t\<close>, so a text of 4 GB can keep it going for ever: then the result is \<open>None\<close>.
\<close>

partial_function (option) md5_loop :: "u32 \<Rightarrow> bytes \<Rightarrow> md5_hash \<Rightarrow> (u32 \<times> md5_hash) option" where
  "md5_loop i inp h =
     (if unat (i + 63) < length inp
      then md5_loop (i + 64) inp (md5_transform h (take 64 (drop (unat i) inp)))
      else Some (i, h))"

declare md5_loop.simps [code]

definition md5_index :: "md5 \<Rightarrow> nat" where
  "md5_index m = unat (drop_bit 3 (md5_count0 m) AND 0x3f)"

definition md5_counted :: "nat \<Rightarrow> md5 \<Rightarrow> md5" where
  "md5_counted len m =
     (let bits = push_bit 3 (of_nat len);
          c0 = md5_count0 m + bits;
          c1 = (if c0 < bits then md5_count1 m + 1 else md5_count1 m)
      in m\<lparr>md5_count0 := c0, md5_count1 := c1 + drop_bit 29 (of_nat len)\<rparr>)"

definition md5_init :: "bytes \<Rightarrow> md5 \<Rightarrow> md5 option" where
  "md5_init inp m =
     (let index = md5_index m; partLen = 64 - index; m = md5_counted (length inp) (m\<lparr>md5_finished := False\<rparr>)
      in if partLen \<le> length inp
         then let buf = memcpy_at (md5_buffer m) index (take partLen inp) in
           (case md5_loop (of_nat partLen) inp (md5_transform (md5_state m) buf) of
              None \<Rightarrow> None
            | Some (i, h) \<Rightarrow> Some (m\<lparr>md5_state := h, md5_buffer := memcpy_at buf 0 (drop (unat i) inp)\<rparr>))
         else Some (m\<lparr>md5_buffer := memcpy_at (md5_buffer m) index inp\<rparr>))"

definition md5_start :: md5_hash where
  "md5_start = (0x67452301, 0xefcdab89, 0x98badcfe, 0x10325476)"

text \<open>The buffer and the digest of a new object hold whatever the memory held.\<close>

definition new_md5 :: "bytes \<Rightarrow> bytes \<Rightarrow> bytes \<Rightarrow> md5 option" where
  "new_md5 buf dig message =
     md5_init message \<lparr>md5_finished = False, md5_state = md5_start, md5_count0 = 0, md5_count1 = 0,
                       md5_buffer = buf, md5_digest = dig\<rparr>"

definition md5_PADDING :: bytes where
  "md5_PADDING = 0x80 # replicate 63 0"

fun md5_list :: "md5_hash \<Rightarrow> u32 list" where
  "md5_list (a, b, c, d) = [a, b, c, d]"

definition getDigest :: "md5 \<Rightarrow> (bytes \<times> md5) option" where
  "getDigest m =
     (if md5_finished m then Some (md5_digest m, m)
      else
        let m = m\<lparr>md5_finished := True\<rparr>; bits = md5_encode [md5_count0 m, md5_count1 m];
            index = md5_index m; padLen = (if index < 56 then 56 - index else 120 - index)
        in (case md5_init (take padLen md5_PADDING) m of
              None \<Rightarrow> None
            | Some m1 \<Rightarrow>
              (case md5_init bits m1 of
                 None \<Rightarrow> None
               | Some m2 \<Rightarrow>
                   let m3 = m2\<lparr>md5_digest := md5_encode (md5_list (md5_state m2)),
                               md5_state := md5_state m, md5_count0 := md5_count0 m, md5_count1 := md5_count1 m\<rparr>
                   in Some (md5_digest m3, m3))))"

definition HEX_NUMBERS :: string where
  "HEX_NUMBERS = ''0123456789abcdef''"

definition hex_text :: "bytes \<Rightarrow> string" where
  "hex_text bs = concat (map (\<lambda>t. [HEX_NUMBERS ! (unat t div 16), HEX_NUMBERS ! (unat t mod 16)]) bs)"

definition to_string_32 :: "md5 \<Rightarrow> (string \<times> md5) option" where
  "to_string_32 m = (case getDigest m of None \<Rightarrow> None | Some (d, m) \<Rightarrow> Some (hex_text d, m))"

definition to_string_16 :: "md5 \<Rightarrow> (string \<times> md5) option" where
  "to_string_16 m = (case to_string_32 m of None \<Rightarrow> None | Some (s, m) \<Rightarrow> Some (take 16 (drop 8 s), m))"

text \<open>The calls \<open>md5_32\<close> and \<open>md5_16\<close> of the string class.\<close>

definition md5_32 :: "bytes \<Rightarrow> bytes \<Rightarrow> bytes \<Rightarrow> string option" where
  "md5_32 buf dig s = (case new_md5 buf dig s of None \<Rightarrow> None | Some m \<Rightarrow> map_option fst (to_string_32 m))"

definition md5_16 :: "bytes \<Rightarrow> bytes \<Rightarrow> bytes \<Rightarrow> string option" where
  "md5_16 buf dig s = (case new_md5 buf dig s of None \<Rightarrow> None | Some m \<Rightarrow> map_option fst (to_string_16 m))"

end
