(* ===== verification/Shine_Md5_Correct.thy ===== *)
theory Shine_Md5_Correct
  imports Shine_Md5
begin

text \<open>
  The MD5 object computes the digest of the text: however the text reaches the buffer, the blocks
  the transformation sees are those of the text followed by its padding and its length in bits.
\<close>


section \<open>The counter of bits\<close>

definition md5_limit :: nat where
  "md5_limit = 2 ^ 32 - 64"

definition md5_ok :: "nat \<Rightarrow> md5 \<Rightarrow> bool" where
  "md5_ok n m \<longleftrightarrow> length (md5_buffer m) = 64 \<and> unat (md5_count0 m) + 2 ^ 32 * unat (md5_count1 m) = 8 * n"

definition md5_tail :: "md5 \<Rightarrow> bytes" where
  "md5_tail m = take (md5_index m) (md5_buffer m)"

lemma unat_of_nat32: "n < 2 ^ 32 \<Longrightarrow> unat (of_nat n :: u32) = n"
  by (simp add: unsigned_of_nat take_bit_nat_eq_self)

lemma md5_index_mod: "md5_index m = unat (md5_count0 m) div 8 mod 64"
  by (simp add: md5_index_def and_mask6 unsigned_take_bit_eq unsigned_drop_bit_eq drop_bit_eq_div take_bit_eq_mod unat_div_distrib unat_mod_distrib)

lemma md5_index_ok: "md5_ok n m \<Longrightarrow> md5_index m = n mod 64"
proof -
  assume "md5_ok n m"
  then have a: "unat (md5_count0 m) + 8 * (536870912 * unat (md5_count1 m)) = 8 * n" by (simp add: md5_ok_def)
  then have "n = unat (md5_count0 m) div 8 + 536870912 * unat (md5_count1 m)" by linarith
  then have "n = unat (md5_count0 m) div 8 + 64 * (8388608 * unat (md5_count1 m))" by simp
  then show ?thesis by (simp only: md5_index_mod mod_mult_self2)
qed

lemma len32: "LENGTH(32) = 32"
  by simp

lemma unat_push3: "unat (push_bit 3 (of_nat len :: u32)) = 8 * len mod 2 ^ 32"
proof -
  have "(push_bit 3 (of_nat len) :: u32) = of_nat (8 * len)" by (simp add: push_bit_eq_mult)
  then show ?thesis by (simp only: unsigned_of_nat take_bit_eq_mod len32 of_nat_id)
qed

lemma counted_arith:
  fixes a b c n len s :: nat
  assumes "a + 4294967296 * b = 8 * n" and "n + len < 4294967232" and "a < 4294967296"
    and "s = 8 * len mod 4294967296" and "c = len div 536870912"
  shows "(a + s) mod 4294967296 + 4294967296 * (if (a + s) mod 4294967296 < s then b + 1 + c else b + c) = 8 * (n + len)
    \<and> (if (a + s) mod 4294967296 < s then b + 1 + c else b + c) < 4294967296"
proof -
  have "8 * len mod (8 * 536870912) = 8 * (len mod 536870912)" by (rule mult_mod_right[symmetric])
  then have s4: "s = 8 * (len mod 536870912)" using assms(4) by simp
  have "len mod 536870912 + 536870912 * c = len" unfolding assms(5) by (rule mod_mult_div_eq)
  then have s: "s + 4294967296 * c = 8 * len" using s4 by linarith
  have l: "s < 4294967296" using assms(4) by simp
  have d: "(a + s) mod 4294967296 = (if a + s < 4294967296 then a + s else a + s - 4294967296)"
    using assms(3) l by (simp add: mod_if)
  have i: "(a + s) mod 4294967296 < s \<longleftrightarrow> 4294967296 \<le> a + s" using d assms(3) by auto
  show ?thesis
  proof (cases "a + s < 4294967296")
    case True
    have m: "(a + s) mod 4294967296 = a + s"
      and q: "(if (a + s) mod 4294967296 < s then b + 1 + c else b + c) = b + c" using True d i by simp_all
    show ?thesis unfolding q unfolding m using s assms(1,2) by (intro conjI, simp add: distrib_left, linarith)
  next
    case False
    have m: "(a + s) mod 4294967296 = a + s - 4294967296"
      and q: "(if (a + s) mod 4294967296 < s then b + 1 + c else b + c) = b + 1 + c" using False d i by simp_all
    show ?thesis unfolding q unfolding m using s assms(1,2) False by (intro conjI, simp add: distrib_left, linarith)
  qed
qed

lemma md5_counted_ok:
  assumes "md5_ok n m" and "n + len < md5_limit"
  shows "md5_ok (n + len) (md5_counted len m)"
proof -
  let ?bits = "push_bit 3 (of_nat len :: u32)"
  let ?c = "md5_count0 m + ?bits"
  have len: "len < 2 ^ 32" "n + len < 4294967232" using assms(2) by (simp_all add: md5_limit_def)
  have a: "unat (md5_count0 m) < 4294967296" using unsigned_less[of "md5_count0 m"] by simp
  have s: "unat ?bits = 8 * len mod 4294967296" by (simp add: unat_push3)
  have c0: "unat ?c = (unat (md5_count0 m) + unat ?bits) mod 4294967296" by (simp add: unat_word_ariths)
  have k: "unat (drop_bit 29 (of_nat len :: u32)) = len div 536870912"
    using len by (simp add: drop_bit_eq_div unat_div_distrib unat_of_nat32)
  have o: "unat (md5_count0 m) + 4294967296 * unat (md5_count1 m) = 8 * n"
    using assms(1) by (simp add: md5_ok_def)
  note r = counted_arith[OF o len(2) a s k]
  let ?c1 = "(if ?c < ?bits then md5_count1 m + 1 else md5_count1 m) + drop_bit 29 (of_nat len)"
  let ?k = "unat (drop_bit 29 (of_nat len :: u32))"
  let ?n1 = "if unat ?c < unat ?bits then unat (md5_count1 m) + 1 + ?k else unat (md5_count1 m) + ?k"
  have "unat ?c1 = ?n1 mod 4294967296"
    by (simp add: word_less_nat_alt unat_word_ariths mod_add_left_eq mod_add_right_eq add.assoc)
  moreover have "unat ?c + 4294967296 * ?n1 = 8 * (n + len) \<and> ?n1 < 4294967296"
    unfolding c0 by (rule r)
  ultimately have "unat ?c + 4294967296 * unat ?c1 = 8 * (n + len)"
    by (metis mod_less)
  then show ?thesis
    using assms(1) by (simp add: md5_ok_def md5_counted_def Let_def)
qed


section \<open>Absorbing text\<close>

lemma md5_loop_blocks:
  assumes "length inp < md5_limit" and "k \<le> length inp"
  shows "md5_loop (of_nat k) inp h
         = Some (of_nat (length inp - (length inp - k) mod 64), hash_blocks md5_transform h (drop k inp))"
  using assms(2)
proof (induction "length inp - k" arbitrary: k h rule: less_induct)
  case less
  have w: "unat (of_nat k + 63 :: u32) = k + 63"
  proof -
    have "(of_nat k + 63 :: u32) = of_nat (k + 63)" by simp
    moreover have "k + 63 < 2 ^ 32" using less.prems assms(1) by (simp add: md5_limit_def)
    ultimately show ?thesis using unat_of_nat32 by metis
  qed
  have u: "unat (of_nat k :: u32) = k"
    using less.prems assms(1) by (intro unat_of_nat32) (simp add: md5_limit_def)
  show ?case
  proof (cases "k + 63 < length inp")
    case False
    then have "(length inp - k) mod 64 = length inp - k" using less.prems by simp
    then show ?thesis using False w less.prems by (simp add: md5_loop.simps)
  next
    case True
    let ?b = "take 64 (drop k inp)"
    have k: "k + 64 \<le> length inp" using True by simp
    have ih: "md5_loop (of_nat (k + 64)) inp (md5_transform h ?b)
        = Some (of_nat (length inp - (length inp - (k + 64)) mod 64),
                hash_blocks md5_transform (md5_transform h ?b) (drop (k + 64) inp))"
      using less.hyps[of "k + 64"] k by simp
    have "length ?b = 64" using k by simp
    then have "hash_blocks md5_transform h (drop k inp)
        = hash_blocks md5_transform (md5_transform h ?b) (drop (k + 64) inp)"
      using hash_blocks_block[of ?b md5_transform h "drop 64 (drop k inp)"]
      by (simp only: append_take_drop_id) (simp add: add.commute)
    moreover have "(length inp - (k + 64)) mod 64 = (length inp - k) mod 64"
    proof -
      have "length inp - k = (length inp - (k + 64)) + 64" using k by simp
      then show ?thesis by (simp only: mod_add_self2)
    qed
    moreover have "md5_loop (of_nat k) inp h = md5_loop (of_nat k + 64) inp (md5_transform h ?b)"
      using True w u by (subst md5_loop.simps) simp
    ultimately show ?thesis using ih by simp
  qed
qed

lemma md5_init_full:
  assumes "md5_index m = k" and "64 - k \<le> length x" and "b = memcpy_at (md5_buffer m) k (take (64 - k) x)"
    and "md5_loop (of_nat (64 - k)) x (md5_transform (md5_state m) b) = Some (w, h)" and "unat w = i"
  shows "md5_init x m = Some ((md5_counted (length x) (m\<lparr>md5_finished := False\<rparr>))
    \<lparr>md5_state := h, md5_buffer := memcpy_at b 0 (drop i x)\<rparr>)"
  using assms by (simp add: md5_init_def Let_def md5_counted_def del: of_nat_diff)

lemma fill_mod:
  fixes n l :: nat
  assumes "64 - n mod 64 \<le> l"
  shows "(n + l) mod 64 = (l - (64 - n mod 64)) mod 64"
proof -
  obtain d where "l = d + (64 - n mod 64)" using assms by (metis le_add_diff_inverse2)
  then have "n + l = d + 64 * (n div 64 + 1)" "l - (64 - n mod 64) = d"
    using minus_mult_div_eq_mod[of n 64] mod_less_divisor[of 64 n] by simp_all
  then show ?thesis by (simp only: mod_mult_self2)
qed

lemma length_memcpy_at: "k + length s \<le> length buf \<Longrightarrow> length (memcpy_at buf k s) = length buf"
  by (simp add: memcpy_at_def)

lemma take_memcpy_at: "k \<le> length buf \<Longrightarrow> take (k + length s) (memcpy_at buf k s) = take k buf @ s"
  by (simp add: memcpy_at_def)

lemma md5_init_blocks:
  assumes ok: "md5_ok n m" and lim: "n + length x < md5_limit"
  shows "\<exists>m'. md5_init x m = Some m' \<and> md5_ok (n + length x) m'
    \<and> md5_state m' = hash_blocks md5_transform (md5_state m) (md5_tail m @ x)
    \<and> md5_tail m' = rest_of (md5_tail m @ x)"
proof -
  let ?k = "n mod 64" and ?buf = "md5_buffer m"
  let ?m = "md5_counted (length x) (m\<lparr>md5_finished := False\<rparr>)"
  have buf: "length ?buf = 64" using ok by (simp add: md5_ok_def)
  have okc: "md5_ok (n + length x) ?m"
    using md5_counted_ok[of n "m\<lparr>md5_finished := False\<rparr>" "length x"] ok lim by (simp add: md5_ok_def)
  have okb: "md5_ok (n + length x) (?m\<lparr>md5_state := h, md5_buffer := b\<rparr>)"
    and ixb: "md5_index (?m\<lparr>md5_state := h, md5_buffer := b\<rparr>) = (n + length x) mod 64" if "length b = 64" for h b
  proof -
    show "md5_ok (n + length x) (?m\<lparr>md5_state := h, md5_buffer := b\<rparr>)"
      using okc that by (simp add: md5_ok_def)
    then show "md5_index (?m\<lparr>md5_state := h, md5_buffer := b\<rparr>) = (n + length x) mod 64" by (rule md5_index_ok)
  qed
  have st: "md5_state ?m = md5_state m" "md5_buffer ?m = ?buf"
    by (simp_all add: md5_counted_def Let_def)
  have ix: "md5_index m = ?k" using ok by (rule md5_index_ok)
  have tl: "md5_tail m = take ?k ?buf" "length (take ?k ?buf) = ?k"
    using buf by (simp_all add: md5_tail_def ix)
  show ?thesis
  proof (cases "64 - ?k \<le> length x")
    case False
    let ?m' = "?m\<lparr>md5_state := md5_state m, md5_buffer := memcpy_at ?buf ?k x\<rparr>"
    have "md5_init x m = Some ?m'" using False st by (simp add: md5_init_def ix Let_def)
    moreover have l: "length (memcpy_at ?buf ?k x) = 64" using False buf by (simp add: length_memcpy_at)
    moreover have e: "(n + length x) mod 64 = ?k + length x"
      using False mod_add_left_eq[of n 64 "length x"] by simp
    moreover have "md5_tail ?m' = take ?k ?buf @ x"
      using ixb[OF l] e buf take_memcpy_at[of ?k ?buf x] by (simp add: md5_tail_def)
    moreover have "length (take ?k ?buf @ x) < 64" using False tl by simp
    ultimately show ?thesis using okb[OF l] tl by (intro exI[of _ ?m']) simp
  next
    case True
    let ?p = "64 - ?k"
    let ?b = "memcpy_at ?buf ?k (take ?p x)"
    let ?i = "length x - (length x - ?p) mod 64"
    have b: "?b = take ?k ?buf @ take ?p x" "length ?b = 64"
      using True buf by (simp_all add: memcpy_at_def)
    have lx: "length x < md5_limit" using lim by simp
    have u: "unat (of_nat ?i :: u32) = ?i" using lx by (intro unat_of_nat32) (simp add: md5_limit_def)
    let ?h = "hash_blocks md5_transform (md5_transform (md5_state m) ?b) (drop ?p x)"
    have sel: "md5_state (q\<lparr>md5_state := h, md5_buffer := b\<rparr>) = h" for q :: md5 and h b by simp
    let ?b' = "memcpy_at ?b 0 (drop ?i x)"
    let ?m' = "?m\<lparr>md5_state := ?h, md5_buffer := ?b'\<rparr>"
    have i: "length (drop ?i x) = (length x - ?p) mod 64" by simp
    have "md5_init x m = Some ?m'"
      by (rule md5_init_full[OF ix True refl md5_loop_blocks[OF lx True] u])
    moreover have l': "length ?b' = 64" using i b(2) by (simp add: length_memcpy_at)
    moreover have cat: "take ?k ?buf @ x = ?b @ drop ?p x" using b(1) by simp
    moreover have "hash_blocks md5_transform (md5_state m) (take ?k ?buf @ x) = ?h"
      unfolding cat by (rule hash_blocks_block[OF b(2)])
    moreover have "rest_of (take ?k ?buf @ x) = drop ?i x"
    proof -
      have "rest_of (take ?k ?buf @ x) = rest_of (drop ?p x)" unfolding cat by (rule rest_of_block[OF b(2)])
      also have "\<dots> = drop (length x - ?p - (length x - ?p) mod 64) (drop ?p x)" by (simp add: rest_of_suffix)
      also have "\<dots> = drop ?i x" using True by (simp add: add.commute le_add_diff_inverse2)
      finally show ?thesis .
    qed
    moreover have "md5_tail ?m' = drop ?i x"
    proof -
      have "(n + length x) mod 64 = (length x - ?p) mod 64" by (rule fill_mod[OF True])
      then have "md5_tail ?m' = take (length (drop ?i x)) ?b'" unfolding md5_tail_def ixb[OF l'] i by simp
      also have "\<dots> = drop ?i x" using take_memcpy_at[of 0 ?b "drop ?i x"] by (simp only: add_0 le0 take_0 append_Nil)
      finally show ?thesis .
    qed
    ultimately show ?thesis unfolding tl(1) using okb[OF l', of ?h]
      by (intro exI[of _ ?m'] conjI) (simp_all only: sel)
  qed
qed

lemma length_md5_tail: "md5_ok n m \<Longrightarrow> length (md5_tail m) = n mod 64"
  by (simp add: md5_tail_def md5_index_ok) (simp add: md5_ok_def)

definition md5_put :: "bytes \<Rightarrow> md5 \<Rightarrow> md5" where
  "md5_put x m = the (md5_init x m)"

lemma md5_init_put: "md5_ok n m \<Longrightarrow> n + length x < md5_limit \<Longrightarrow> md5_init x m = Some (md5_put x m)"
  using md5_init_blocks by (fastforce simp: md5_put_def)

lemma md5_put_blocks:
  assumes "md5_ok n m" and "n + length x < md5_limit"
  shows "md5_ok (n + length x) (md5_put x m)
    \<and> md5_state (md5_put x m) = hash_blocks md5_transform (md5_state m) (md5_tail m @ x)
    \<and> md5_tail (md5_put x m) = rest_of (md5_tail m @ x)"
  using md5_init_blocks[OF assms] by (auto simp: md5_put_def)

interpretation md5h: block_hash md5_transform md5_put md5_state md5_tail md5_ok md5_limit
  by unfold_locales (simp_all add: length_md5_tail md5_put_blocks)


section \<open>The digest\<close>

definition md5_reference :: "bytes \<Rightarrow> bytes" where
  "md5_reference s = md5_encode (md5_list (hash_blocks md5_transform md5_start
     (s @ hash_padding (length s) @ le_bytes 8 (8 * length s))))"

lemma md5_encode_word: "md5_encode [w] = le_bytes 4 (unat w)"
  by (simp add: md5_encode_def word_le_bytes)

lemma md5_encode_count:
  assumes "unat c0 + 2 ^ 32 * unat c1 = v"
  shows "md5_encode [c0, c1] = le_bytes 8 v"
proof -
  have "md5_encode [c0, c1] = md5_encode [c0] @ md5_encode [c1]" by (simp add: md5_encode_def)
  moreover have "unat c0 < 256 ^ 4" using unsigned_less[of c0] by simp
  ultimately show ?thesis
    using le_bytes_split[of "unat c0" 4 4 "unat c1"] assms by (simp add: md5_encode_word)
qed

lemma md5_padding:
  assumes "k < 64"
  shows "take (if k < 56 then 56 - k else 120 - k) md5_PADDING = hash_padding k"
    and "(k + length (hash_padding k) + 8) mod 64 = 0" and "length (hash_padding k) \<le> 64"
proof -
  have "(119 - k) mod 64 = (if k < 56 then 55 - k else 119 - k)"
    using assms mod_add_self2[of "55 - k" 64] by (simp add: mod_if)
  then show "take (if k < 56 then 56 - k else 120 - k) md5_PADDING = hash_padding k"
    and "(k + length (hash_padding k) + 8) mod 64 = 0" and "length (hash_padding k) \<le> 64"
    using assms by (auto simp: hash_padding_def md5_PADDING_def take_Cons')
qed

lemma getDigest_ok:
  assumes ok: "md5_ok n m" and fin: "\<not> md5_finished m" and lim: "n + 128 < md5_limit"
  shows "\<exists>m'. getDigest m = Some (md5_encode (md5_list (hash_blocks md5_transform (md5_state m)
      (md5_tail m @ hash_padding n @ le_bytes 8 (8 * n)))), m')"
proof -
  let ?m = "m\<lparr>md5_finished := True\<rparr>"
  let ?pad = "hash_padding n" and ?bits = "le_bytes 8 (8 * n)"
  have ok1: "md5_ok n ?m" using ok by (simp add: md5_ok_def)
  have k: "n mod 64 < 64" by simp
  note pad = md5_padding[OF k, unfolded hash_padding_mod]
  have l1: "n + length ?pad < md5_limit" using pad(3) lim by simp
  note p1 = md5_init_put[OF ok1 l1] md5_put_blocks[OF ok1 l1]
  let ?m1 = "md5_put ?pad ?m"
  have l2: "n + length ?pad + length ?bits < md5_limit" using pad(3) lim by simp
  note p2 = md5_init_put[OF p1(2)[THEN conjunct1] l2]
  have bits: "md5_encode [md5_count0 m, md5_count1 m] = ?bits"
    using ok by (intro md5_encode_count) (simp add: md5_ok_def)
  have "md5_state (md5_put ?bits ?m1) = hash_blocks md5_transform (md5_state m) (md5_tail m @ ?pad @ ?bits)"
  proof -
    have "n + length (concat [?pad, ?bits]) < md5_limit" using l2 by simp
    from md5h.puts[OF ok1 this] show ?thesis by (simp add: md5_tail_def md5_index_def)
  qed
  moreover have "take (if md5_index ?m < 56 then 56 - md5_index ?m else 120 - md5_index ?m) md5_PADDING = ?pad"
    unfolding md5_index_ok[OF ok1] by (rule pad(1))
  ultimately show ?thesis
    using fin bits p1(1) p2 by (simp add: getDigest_def Let_def split del: if_split)
qed

lemma new_md5_ok:
  assumes "length buf = 64" and "length s < md5_limit"
  shows "\<exists>m. new_md5 buf dig s = Some m \<and> md5_ok (length s) m \<and> \<not> md5_finished m
    \<and> md5_state m = hash_blocks md5_transform md5_start s \<and> md5_tail m = rest_of s"
proof -
  let ?m = "\<lparr>md5_finished = False, md5_state = md5_start, md5_count0 = 0, md5_count1 = 0,
              md5_buffer = buf, md5_digest = dig\<rparr>"
  have ok: "md5_ok 0 ?m" using assms by (simp add: md5_ok_def)
  have t: "md5_tail ?m = []" using length_md5_tail[OF ok] by simp
  have l: "0 + length s < md5_limit" using assms by simp
  have f: "\<not> md5_finished m'" if "md5_init s ?m = Some m'" for m'
    using that by (auto simp: md5_init_def md5_counted_def Let_def split: if_splits option.splits)
  show ?thesis
    using md5_init_put[OF ok l] md5_put_blocks[OF ok l] t f by (auto simp: new_md5_def)
qed

lemma md5_digest_reference:
  assumes "length buf = 64" and "length s + 128 < md5_limit"
  obtains m m' where "new_md5 buf dig s = Some m" and "getDigest m = Some (md5_reference s, m')"
proof -
  have l: "length s < md5_limit" using assms(2) by simp
  obtain m where m: "new_md5 buf dig s = Some m" "md5_ok (length s) m" "\<not> md5_finished m"
    "md5_state m = hash_blocks md5_transform md5_start s" "md5_tail m = rest_of s"
    using new_md5_ok[OF assms(1) l] by blast
  show ?thesis
    using getDigest_ok[OF m(2,3) assms(2)] m(1,4,5) that
      hash_blocks_append[of md5_transform md5_start s "hash_padding (length s) @ le_bytes 8 (8 * length s)"]
    by (auto simp: md5_reference_def)
qed

text \<open>
  C36: The MD5 class computes the MD5 digest of every text shorter than 4 GB less 192 bytes, whatever
  its buffer held before: \<open>md5_32\<close> is the hexadecimal text of the digest of the padded message and
  \<open>md5_16\<close> its middle half.\<close>

theorem md5_equiv:
  assumes "length buf = 64" and "length s + 128 < 2 ^ 32 - 64"
  shows "md5_32 buf dig s = Some (hex_text (md5_reference s))
         \<and> md5_16 buf dig s = Some (take 16 (drop 8 (hex_text (md5_reference s))))"
proof -
  have l: "length s + 128 < md5_limit" using assms(2) by (simp add: md5_limit_def)
  obtain m m' where "new_md5 buf dig s = Some m" "getDigest m = Some (md5_reference s, m')"
    using md5_digest_reference[OF assms(1) l] .
  then show ?thesis by (simp add: md5_32_def md5_16_def to_string_32_def to_string_16_def)
qed

text \<open>A vector of the standard's test suite, which the tables of the source reproduce.\<close>

lemma md5_block_abc:
  "md5_transform md5_start ([97, 98, 99] @ hash_padding 3 @ le_bytes 8 24)
   = (0x98500190, 0xb04fd23c, 0x7d3f96d6, 0x727fe128)"
  by code_simp

lemma md5_reference_abc: "hex_text (md5_reference [97, 98, 99]) = ''900150983cd24fb0d6963f7d28e17f72''"
proof -
  have "length ([97, 98, 99] @ hash_padding 3 @ le_bytes 8 24) = 64" by (simp add: hash_padding_def)
  from hash_blocks_block[OF this, of md5_transform md5_start "[]"]
  have "hash_blocks md5_transform md5_start ([97, 98, 99] @ hash_padding 3 @ le_bytes 8 24)
      = md5_transform md5_start ([97, 98, 99] @ hash_padding 3 @ le_bytes 8 24)" by simp
  moreover have "length [97, 98, 99 :: u8] = 3" "8 * 3 = (24 :: nat)" by simp_all
  ultimately have "md5_reference [97, 98, 99] = md5_encode [0x98500190, 0xb04fd23c, 0x7d3f96d6, 0x727fe128]"
    by (simp only: md5_block_abc md5_reference_def md5_list.simps)
  then show ?thesis by (simp only:) code_simp
qed

lemma md5_equiv_witness:
  "md5_32 (replicate 64 0xCC) [] [97, 98, 99] = Some ''900150983cd24fb0d6963f7d28e17f72''"
  using md5_equiv[of "replicate 64 0xCC" "[97, 98, 99]" "[]"] by (simp add: md5_reference_abc)

end
