(* ===== verification/Shine_Sha1.thy ===== *)
theory Shine_Sha1
  imports Block_Hash
begin

text \<open>
  The SHA-1 class of \<^verbatim>\<open>Include/util/sha1.hpp\<close>: an object that takes a message byte by byte,
  processes it in blocks of 64 bytes and hands out its digest once.
\<close>

type_synonym sha1_hash = "u32 \<times> u32 \<times> u32 \<times> u32 \<times> u32"

record sha1 =
  sha1_H :: sha1_hash
  Length_Low :: u32
  Length_High :: u32
  Message_Block :: bytes
  Message_Block_Index :: nat
  Computed :: bool
  Corrupted :: bool

definition sha1_start :: sha1_hash where
  "sha1_start = (0x67452301, 0xEFCDAB89, 0x98BADCFE, 0x10325476, 0xC3D2E1F0)"

definition sha1_Reset :: "sha1 \<Rightarrow> sha1" where
  "sha1_Reset s = s\<lparr>Length_Low := 0, Length_High := 0, Message_Block_Index := 0, sha1_H := sha1_start,
                    Computed := False, Corrupted := False\<rparr>"

text \<open>The constructor leaves the block as the memory was.\<close>

definition new_sha1 :: "bytes \<Rightarrow> sha1" where
  "new_sha1 blk =
     sha1_Reset \<lparr>sha1_H = sha1_start, Length_Low = 0, Length_High = 0, Message_Block = blk,
                 Message_Block_Index = 0, Computed = False, Corrupted = False\<rparr>"


section \<open>A block\<close>

definition CircularShift :: "nat \<Rightarrow> u32 \<Rightarrow> u32" where
  "CircularShift bits w = (push_bit bits w AND 0xFFFFFFFF) OR drop_bit (32 - bits) (w AND 0xFFFFFFFF)"

fun sha1_words :: "bytes \<Rightarrow> u32 list" where
  "sha1_words (b0 # b1 # b2 # b3 # bs) =
     (push_bit 24 (ucast b0) OR push_bit 16 (ucast b1) OR push_bit 8 (ucast b2) OR ucast b3) # sha1_words bs"
| "sha1_words bs = []"

definition sha1_schedule :: "bytes \<Rightarrow> u32 list" where
  "sha1_schedule blk =
     fold (\<lambda>t W. W @ [CircularShift 1 (W ! (t - 3) XOR W ! (t - 8) XOR W ! (t - 14) XOR W ! (t - 16))])
       [16..<80] (sha1_words blk)"

fun sha1_round :: "(u32 \<Rightarrow> u32 \<Rightarrow> u32 \<Rightarrow> u32) \<Rightarrow> u32 \<Rightarrow> u32 \<Rightarrow> sha1_hash \<Rightarrow> sha1_hash" where
  "sha1_round f K w (A, B, C, D, E) =
     ((CircularShift 5 A + f B C D + E + w + K) AND 0xFFFFFFFF, A, CircularShift 30 B, C, D)"

definition sha1_choose :: "u32 \<Rightarrow> u32 \<Rightarrow> u32 \<Rightarrow> u32" where
  "sha1_choose B C D = (B AND C) OR (NOT B AND D)"

definition sha1_parity :: "u32 \<Rightarrow> u32 \<Rightarrow> u32 \<Rightarrow> u32" where
  "sha1_parity B C D = B XOR C XOR D"

definition sha1_majority :: "u32 \<Rightarrow> u32 \<Rightarrow> u32 \<Rightarrow> u32" where
  "sha1_majority B C D = (B AND C) OR (B AND D) OR (C AND D)"

definition sha1_rounds :: "u32 list \<Rightarrow> sha1_hash \<Rightarrow> sha1_hash" where
  "sha1_rounds W h =
     fold (sha1_round sha1_parity 0xCA62C1D6) (take 20 (drop 60 W))
       (fold (sha1_round sha1_majority 0x8F1BBCDC) (take 20 (drop 40 W))
         (fold (sha1_round sha1_parity 0x6ED9EBA1) (take 20 (drop 20 W))
           (fold (sha1_round sha1_choose 0x5A827999) (take 20 W) h)))"

definition sha1_compress :: "sha1_hash \<Rightarrow> bytes \<Rightarrow> sha1_hash" where
  "sha1_compress h blk =
     (case h of (H0, H1, H2, H3, H4) \<Rightarrow>
        (case sha1_rounds (sha1_schedule blk) h of (A, B, C, D, E) \<Rightarrow>
           ((H0 + A) AND 0xFFFFFFFF, (H1 + B) AND 0xFFFFFFFF, (H2 + C) AND 0xFFFFFFFF,
            (H3 + D) AND 0xFFFFFFFF, (H4 + E) AND 0xFFFFFFFF)))"

definition ProcessMessageBlock :: "sha1 \<Rightarrow> sha1" where
  "ProcessMessageBlock s =
     s\<lparr>sha1_H := sha1_compress (sha1_H s) (Message_Block s), Message_Block_Index := 0\<rparr>"


section \<open>Input\<close>

text \<open>\<open>Message_Block[Message_Block_Index++] = b\<close>.\<close>

definition sha1_store :: "u8 \<Rightarrow> sha1 \<Rightarrow> sha1" where
  "sha1_store b s = s\<lparr>Message_Block := (Message_Block s)[Message_Block_Index s := b],
                      Message_Block_Index := Suc (Message_Block_Index s)\<rparr>"

definition sha1_count :: "sha1 \<Rightarrow> sha1" where
  "sha1_count s =
     (let low = (Length_Low s + 8) AND 0xFFFFFFFF in
      if low = 0 then
        let high = (Length_High s + 1) AND 0xFFFFFFFF in
        s\<lparr>Length_Low := low, Length_High := high, Corrupted := (high = 0 \<or> Corrupted s)\<rparr>
      else s\<lparr>Length_Low := low\<rparr>)"

definition sha1_byte :: "u8 \<Rightarrow> sha1 \<Rightarrow> sha1" where
  "sha1_byte b s =
     (let s = sha1_count (sha1_store (b AND 0xFF) s)
      in if Message_Block_Index s = 64 then ProcessMessageBlock s else s)"

text \<open>
  The pieces of input are shorter than \<open>2 ^ 32\<close> bytes, as \<open>length\<close> is an \<open>unsigned\<close>. The loop over
  the input, which ends early when the message has become too long.
\<close>

fun sha1_loop :: "bytes \<Rightarrow> sha1 \<Rightarrow> sha1" where
  "sha1_loop [] s = s"
| "sha1_loop (b # bs) s = (if Corrupted s then s else sha1_loop bs (sha1_byte b s))"

definition sha1_Input :: "bytes \<Rightarrow> sha1 \<Rightarrow> sha1" where
  "sha1_Input msg s =
     (if msg = [] then s
      else if Computed s \<or> Corrupted s then s\<lparr>Corrupted := True\<rparr>
      else sha1_loop msg s)"

text \<open>\<open>operator<<\<close> with a character array, up to the byte that ends it.\<close>

fun sha1_put_string :: "bytes \<Rightarrow> sha1 \<Rightarrow> sha1" where
  "sha1_put_string [] s = s"
| "sha1_put_string (b # bs) s = (if b = 0 then s else sha1_put_string bs (sha1_Input [b] s))"


section \<open>The digest\<close>

definition sha1_zeros :: "nat \<Rightarrow> sha1 \<Rightarrow> sha1" where
  "sha1_zeros k s = (sha1_store 0 ^^ (k - Message_Block_Index s)) s"

definition be_bytes4 :: "u32 \<Rightarrow> bytes" where
  "be_bytes4 w = [ucast (drop_bit 24 w AND 0xFF), ucast (drop_bit 16 w AND 0xFF),
                  ucast (drop_bit 8 w AND 0xFF), ucast (w AND 0xFF)]"

definition PadMessage :: "sha1 \<Rightarrow> sha1" where
  "PadMessage s =
     (let s = (if Message_Block_Index s > 55
               then sha1_zeros 56 (ProcessMessageBlock (sha1_zeros 64 (sha1_store 0x80 s)))
               else sha1_zeros 56 (sha1_store 0x80 s))
      in ProcessMessageBlock
           (s\<lparr>Message_Block := take 56 (Message_Block s) @ be_bytes4 (Length_High s) @ be_bytes4 (Length_Low s)\<rparr>))"

fun sha1_list :: "sha1_hash \<Rightarrow> u32 list" where
  "sha1_list (A, B, C, D, E) = [A, B, C, D, E]"

definition sha1_Result :: "sha1 \<Rightarrow> u32 list option \<times> sha1" where
  "sha1_Result s =
     (if Corrupted s then (None, s)
      else let s = (if Computed s then s else (PadMessage s)\<lparr>Computed := True\<rparr>)
           in (Some (sha1_list (sha1_H s)), s))"

end
