(* ===== verification/Shine_Sha1_Correct.thy ===== *)
theory Shine_Sha1_Correct
  imports Shine_Sha1
begin

text \<open>
  The SHA-1 object computes the digest of the whole message, however the message is cut into the
  pieces it is given in; after the digest is out it refuses more input.
\<close>


section \<open>Absorbing bytes\<close>

definition sha1_ok :: "nat \<Rightarrow> sha1 \<Rightarrow> bool" where
  "sha1_ok n s \<longleftrightarrow> length (Message_Block s) = 64 \<and> Message_Block_Index s = n mod 64
     \<and> unat (Length_Low s) + 2 ^ 32 * unat (Length_High s) = 8 * n \<and> \<not> Computed s \<and> \<not> Corrupted s"

definition sha1_tail :: "sha1 \<Rightarrow> bytes" where
  "sha1_tail s = take (Message_Block_Index s) (Message_Block s)"

definition sha1_limit :: nat where
  "sha1_limit = 2 ^ 61"

lemma all_ones: "w AND 0xFFFFFFFF = (w :: u32)"
proof -
  have "(0xFFFFFFFF :: u32) = -1" by simp
  then show ?thesis by (simp only: and.right_neutral)
qed

lemma all_ones8: "w AND 0xFF = (w :: u8)"
proof -
  have "(0xFF :: u8) = -1" by simp
  then show ?thesis by (simp only: and.right_neutral)
qed

lemma sha1_count_ok:
  assumes "unat (Length_Low s) + 2 ^ 32 * unat (Length_High s) = 8 * n" and "Suc n < sha1_limit"
    and "\<not> Corrupted s"
  shows "\<exists>l h. sha1_count s = s\<lparr>Length_Low := l, Length_High := h\<rparr> \<and> unat l + 2 ^ 32 * unat h = 8 * Suc n"
proof -
  let ?l = "Length_Low s" and ?h = "Length_High s"
  have a: "unat ?l < 4294967296" "unat ?h < 4294967296"
    using unsigned_less[of ?l] unsigned_less[of ?h] by simp_all
  have o: "unat ?l + 4294967296 * unat ?h = 8 * n" using assms(1) by simp
  have n: "8 * Suc n < 18446744073709551616" using assms(2) by (simp add: sha1_limit_def)
  have l: "unat (?l + 8) = (unat ?l + 8) mod 4294967296" by (simp add: unat_word_ariths)
  have h: "unat (?h + 1) = (unat ?h + 1) mod 4294967296" by (simp add: unat_word_ariths)
  show ?thesis
  proof (cases "?l + 8 = 0")
    case True
    then have "(unat ?l + 8) mod 4294967296 = 0" using l by simp
    then have e: "unat ?l + 8 = 4294967296" using a(1) by (simp add: mod_if split: if_splits)
    have m: "4294967296 * (unat ?h + 1) = 8 * Suc n" using o e by (simp add: distrib_left)
    then have "4294967296 * (unat ?h + 1) < 4294967296 * 4294967296" using n by linarith
    then have g: "unat ?h + 1 < 4294967296" by simp
    then have hi: "unat (?h + 1) = unat ?h + 1" unfolding h by (rule mod_less)
    then have nz: "?h + 1 \<noteq> 0" by (metis Suc_eq_plus1 Zero_not_Suc unsigned_0)
    have s: "sha1_count s = s\<lparr>Length_Low := 0, Length_High := ?h + 1\<rparr>"
      using True nz assms(3) by (simp add: sha1_count_def Let_def all_ones)
    have "unat (0 :: u32) + 2 ^ 32 * unat (?h + 1) = 8 * Suc n" unfolding hi using m by simp
    with s show ?thesis by blast
  next
    case False
    define q where "q = n - 536870912 * unat ?h"
    have d: "unat ?l = 8 * q" using o by (simp add: q_def)
    have "unat ?l + 8 < 4294967296"
    proof (rule ccontr)
      assume "\<not> unat ?l + 8 < 4294967296"
      then have "536870911 \<le> q" "q < 536870912" using a(1) unfolding d by simp_all
      then have "unat ?l + 8 = 4294967296" using d by simp
      then have "unat (?l + 8) = 0" using l by simp
      then show False using False by (simp add: unat_eq_0)
    qed
    then have lo: "unat (?l + 8) = unat ?l + 8" using l by simp
    have s: "sha1_count s = s\<lparr>Length_Low := ?l + 8, Length_High := ?h\<rparr>"
      using False by (simp add: sha1_count_def Let_def all_ones)
    have "unat (?l + 8) + 2 ^ 32 * unat ?h = 8 * Suc n" unfolding lo using o by simp
    with s show ?thesis by blast
  qed
qed

lemma sha1_byte_step:
  assumes ok: "sha1_ok n s" and lim: "Suc n < sha1_limit"
  shows "sha1_ok (Suc n) (sha1_byte b s)
    \<and> sha1_H (sha1_byte b s)
      = (if length (sha1_tail s) = 63 then sha1_compress (sha1_H s) (sha1_tail s @ [b]) else sha1_H s)
    \<and> sha1_tail (sha1_byte b s) = (if length (sha1_tail s) = 63 then [] else sha1_tail s @ [b])"
proof -
  let ?k = "n mod 64" and ?s = "sha1_store (b AND 0xFF) s"
  have blk: "length (Message_Block s) = 64" "Message_Block_Index s = ?k" "?k < 64"
    using ok by (simp_all add: sha1_ok_def)
  have st: "Message_Block ?s = (Message_Block s)[?k := b]" "Message_Block_Index ?s = Suc ?k"
    "sha1_H ?s = sha1_H s" "Length_Low ?s = Length_Low s" "Length_High ?s = Length_High s"
    "\<not> Computed ?s" "\<not> Corrupted ?s"
    using ok blk(2) by (simp_all add: sha1_store_def all_ones8 sha1_ok_def)
  obtain l h where c: "sha1_count ?s = ?s\<lparr>Length_Low := l, Length_High := h\<rparr>"
    and lh: "unat l + 2 ^ 32 * unat h = 8 * Suc n"
    using sha1_count_ok[of ?s n] st ok lim by (auto simp: sha1_ok_def)
  have t: "length (sha1_tail s) = ?k" "take (Suc ?k) ((Message_Block s)[?k := b]) = sha1_tail s @ [b]"
    using blk by (simp_all add: sha1_tail_def take_Suc_conv_app_nth)
  have k: "Suc n mod 64 = (if Suc ?k = 64 then 0 else Suc ?k)" by (simp add: mod_Suc)
  show ?thesis
  proof (cases "Suc ?k = 64")
    case True
    have "Message_Block ?s = sha1_tail s @ [b]"
      using True t(2) blk(1) st(1) by simp
    then show ?thesis
      using True t(1) st c lh k blk(1)
      by (simp add: sha1_byte_def ProcessMessageBlock_def sha1_ok_def sha1_tail_def[of "_\<lparr>Message_Block_Index := _\<rparr>"])
  next
    case False
    have "sha1_tail (?s\<lparr>Length_Low := l, Length_High := h\<rparr>) = sha1_tail s @ [b]"
      using st t(2) by (simp add: sha1_tail_def[of "_\<lparr>Length_Low := _, Length_High := _\<rparr>"])
    then show ?thesis
      using False t(1) st c lh k blk(1) by (simp add: sha1_byte_def sha1_ok_def)
  qed
qed

interpretation sha1h: byte_hash sha1_compress sha1_byte sha1_H sha1_tail sha1_ok sha1_limit
proof unfold_locales
  fix n s
  show "sha1_ok n s \<Longrightarrow> length (sha1_tail s) = n mod 64" by (simp add: sha1_ok_def sha1_tail_def)
qed (use sha1_byte_step in blast)+


lemma sha1_loop_fold: "sha1_ok n s \<Longrightarrow> n + length x < sha1_limit \<Longrightarrow> sha1_loop x s = fold sha1_byte x s"
proof (induction x arbitrary: n s)
  case (Cons b x)
  have l: "Suc n < sha1_limit" using Cons.prems(2) by simp
  have "sha1_ok (Suc n) (sha1_byte b s)" using sha1_byte_step[OF Cons.prems(1) l] by blast
  moreover have "\<not> Corrupted s" using Cons.prems(1) by (simp add: sha1_ok_def)
  ultimately show ?case using Cons.IH[of "Suc n" "sha1_byte b s"] Cons.prems(2) by simp
qed simp

lemma sha1_Input_fold:
  assumes "sha1_ok n s" and "n + length x < sha1_limit"
  shows "sha1_Input x s = fold sha1_byte x s"
  using sha1_loop_fold[OF assms] assms(1) by (simp add: sha1_Input_def sha1_ok_def)

lemma sha1_Inputs_fold:
  "sha1_ok n s \<Longrightarrow> n + length (concat xs) < sha1_limit \<Longrightarrow>
   fold sha1_Input xs s = fold (fold sha1_byte) xs s"
proof (induction xs arbitrary: n s)
  case (Cons x xs)
  have l: "n + length x < sha1_limit" using Cons.prems(2) by simp
  have "sha1_ok (n + length x) (fold sha1_byte x s)" using sha1h.puts1[OF Cons.prems(1) l] by blast
  then show ?case
    using Cons.IH[of "n + length x" "fold sha1_byte x s"] sha1_Input_fold[OF Cons.prems(1) l] Cons.prems(2)
    by simp
qed simp

lemma new_sha1_ok: "length blk = 64 \<Longrightarrow> sha1_ok 0 (new_sha1 blk)"
  and sha1_H_new: "sha1_H (new_sha1 blk) = sha1_start"
  by (simp_all add: sha1_ok_def new_sha1_def sha1_Reset_def)


section \<open>The compression of the standard\<close>

text \<open>
  The functions, constants and the schedule as FIPS 180 states them: the choice and the majority
  by exclusive or, the words of a block by their value, the schedule by recursion on the index and
  the eighty rounds as one loop. The code's compression is the same function on blocks of 64 bytes.
\<close>

definition fips_f :: "nat \<Rightarrow> u32 \<Rightarrow> u32 \<Rightarrow> u32 \<Rightarrow> u32" where
  "fips_f t x y z =
     (if t < 20 then (x AND y) XOR (NOT x AND z)
      else if 40 \<le> t \<and> t < 60 then (x AND y) XOR (x AND z) XOR (y AND z)
      else x XOR y XOR z)"

definition fips_k :: "nat \<Rightarrow> u32" where
  "fips_k t =
     (if t < 20 then 0x5A827999 else if t < 40 then 0x6ED9EBA1
      else if t < 60 then 0x8F1BBCDC else 0xCA62C1D6)"

definition fips_m :: "bytes \<Rightarrow> nat \<Rightarrow> u32" where
  "fips_m blk t = ucast (blk ! (4 * t)) * 2 ^ 24 + ucast (blk ! (4 * t + 1)) * 2 ^ 16
     + ucast (blk ! (4 * t + 2)) * 2 ^ 8 + ucast (blk ! (4 * t + 3))"

fun fips_w :: "bytes \<Rightarrow> nat \<Rightarrow> u32" where
  "fips_w blk t =
     (if t < 16 then fips_m blk t
      else word_rotl 1 (fips_w blk (t - 3) XOR fips_w blk (t - 8) XOR fips_w blk (t - 14) XOR fips_w blk (t - 16)))"

declare fips_w.simps [simp del]

fun fips_round :: "bytes \<Rightarrow> nat \<Rightarrow> sha1_hash \<Rightarrow> sha1_hash" where
  "fips_round blk t (a, b, c, d, e) =
     (word_rotl 5 a + fips_f t b c d + e + fips_k t + fips_w blk t, a, word_rotl 30 b, c, d)"

definition fips_compress :: "sha1_hash \<Rightarrow> bytes \<Rightarrow> sha1_hash" where
  "fips_compress h blk =
     (case h of (h0, h1, h2, h3, h4) \<Rightarrow>
       (case fold (fips_round blk) [0..<80] h of (a, b, c, d, e) \<Rightarrow> (h0 + a, h1 + b, h2 + c, h3 + d, h4 + e)))"

lemma CircularShift_rotl: "0 < n \<Longrightarrow> n < 32 \<Longrightarrow> CircularShift n w = word_rotl n w"
  unfolding CircularShift_def all_ones
  by (rule bit_word_eqI)
    (auto simp: bit_or_iff bit_push_bit_iff bit_drop_bit_eq bit_word_rotl_iff mod_if add.commute[of 32] dest: bit_imp_le_length)

lemma be_word:
  fixes b0 b1 b2 b3 :: u8
  shows "push_bit 24 (ucast b0) OR push_bit 16 (ucast b1) OR push_bit 8 (ucast b2) OR ucast b3
    = (ucast b0 * 2 ^ 24 + ucast b1 * 2 ^ 16 + ucast b2 * 2 ^ 8 + ucast b3 :: u32)"
proof -
  have d: "\<not> bit (b :: u8) (n - k)" if "k + 8 \<le> n" for b n k
    using bit_imp_le_length[of b "n - k"] that by auto
  have 1: "push_bit 24 (ucast b0) + push_bit 16 (ucast b1) = (push_bit 24 (ucast b0) OR push_bit 16 (ucast b1) :: u32)"
    by (rule disjunctive_add_eq_or) (rule bit_word_eqI, auto simp: bit_simps d[of 24] d[of 16] d[of 8] d[of 0, simplified])
  have 2: "(push_bit 24 (ucast b0) OR push_bit 16 (ucast b1)) + push_bit 8 (ucast b2)
      = ((push_bit 24 (ucast b0) OR push_bit 16 (ucast b1)) OR push_bit 8 (ucast b2) :: u32)"
    by (rule disjunctive_add_eq_or) (rule bit_word_eqI, auto simp: bit_simps d[of 24] d[of 16] d[of 8] d[of 0, simplified])
  have 3: "((push_bit 24 (ucast b0) OR push_bit 16 (ucast b1)) OR push_bit 8 (ucast b2)) + ucast b3
      = (((push_bit 24 (ucast b0) OR push_bit 16 (ucast b1)) OR push_bit 8 (ucast b2)) OR ucast b3 :: u32)"
    by (rule disjunctive_add_eq_or) (rule bit_word_eqI, auto simp: bit_simps d[of 24] d[of 16] d[of 8] d[of 0, simplified])
  show ?thesis unfolding push_bit_eq_mult[symmetric] 1 2 3 by (simp only: or.assoc)
qed

lemma sha1_words_nth:
  "4 * t + 3 < length blk \<Longrightarrow> t < length (sha1_words blk) \<and> sha1_words blk ! t = fips_m blk t"
proof (induction blk arbitrary: t rule: sha1_words.induct)
  case (1 b0 b1 b2 b3 bs)
  show ?case
  proof (cases t)
    case 0
    then show ?thesis by (simp add: fips_m_def be_word)
  next
    case (Suc k)
    then have t: "4 * t = Suc (Suc (Suc (Suc (4 * k))))" "4 * t + 3 = Suc (Suc (Suc (Suc (4 * k + 3))))" by simp_all
    have "4 * k + 3 < length bs" using 1(2) t(2) by simp
    then show ?thesis using 1(1)[of k] unfolding fips_m_def t unfolding Suc by (simp add: t add.commute[of 3])
  qed
qed auto

lemma length_sha1_words: "length (sha1_words blk) = length blk div 4"
  by (induction blk rule: sha1_words.induct) auto

definition schedule_step :: "nat \<Rightarrow> u32 list \<Rightarrow> u32 list" where
  "schedule_step t W = W @ [CircularShift 1 (W ! (t - 3) XOR W ! (t - 8) XOR W ! (t - 14) XOR W ! (t - 16))]"

lemma schedule_fips:
  assumes "length blk = 64"
  defines "W n \<equiv> fold schedule_step [16..<16 + n] (sha1_words blk)"
  shows "length (W n) = 16 + n \<and> (\<forall>t<16 + n. W n ! t = fips_w blk t)"
proof (induction n)
  case 0
  have "sha1_words blk ! t = fips_w blk t" if "t < 16" for t
    using sha1_words_nth[of t blk] that assms(1) by (simp add: fips_w.simps)
  then show ?case by (simp add: W_def length_sha1_words assms(1))
next
  case (Suc n)
  have "[16..<16 + Suc n] = [16..<16 + n] @ [16 + n]" by (simp only: add_Suc_right upt_Suc_append le_add1)
  then have "W (Suc n) = schedule_step (16 + n) (W n)" by (simp only: W_def fold_append comp_apply fold.simps id_apply)
  moreover have "fips_w blk (16 + n) = word_rotl 1 (fips_w blk (16 + n - 3) XOR fips_w blk (16 + n - 8)
      XOR fips_w blk (16 + n - 14) XOR fips_w blk (16 + n - 16))" by (subst fips_w.simps) simp
  moreover have "t < 16 + Suc n \<longleftrightarrow> t < 16 + n \<or> t = 16 + n" for t by linarith
  ultimately show ?case
    using Suc by (auto simp: schedule_step_def nth_append CircularShift_rotl simp del: fips_w.simps)
qed

lemma fold_part:
  "m + k \<le> length W \<Longrightarrow> fold f (take k (drop m W)) h = fold (\<lambda>t. f (W ! t)) [m..<m + k] h"
proof -
  assume "m + k \<le> length W"
  then have "take k (drop m W) = map ((!) W) [m..<m + k]" by (intro nth_equalityI) auto
  then show ?thesis by (simp add: fold_map comp_def)
qed

lemma choose_f: "t < 20 \<Longrightarrow> sha1_choose = fips_f t"
  by (rule ext)+ (rule bit_word_eqI, auto simp: sha1_choose_def fips_f_def bit_simps)

lemma majority_f: "40 \<le> t \<Longrightarrow> t < 60 \<Longrightarrow> sha1_majority = fips_f t"
  by (rule ext)+ (rule bit_word_eqI, auto simp: sha1_majority_def fips_f_def bit_simps)

lemma parity_f: "20 \<le> t \<and> t < 40 \<or> 60 \<le> t \<Longrightarrow> sha1_parity = fips_f t"
  by (rule ext)+ (auto simp: sha1_parity_def fips_f_def)
lemma rounds_part:
  assumes "length W = 80" and "\<And>t. t < 80 \<Longrightarrow> W ! t = fips_w blk t" and "m + 20 \<le> 80"
    and "\<And>t. m \<le> t \<Longrightarrow> t < m + 20 \<Longrightarrow> f = fips_f t \<and> K = fips_k t"
  shows "fold (sha1_round f K) (take 20 (drop m W)) h = fold (fips_round blk) [m..<m + 20] h"
proof -
  have "sha1_round f K (W ! t) g = fips_round blk t g" if "t \<in> set [m..<m + 20]" for t g
    using assms(2)[of t] assms(3) assms(4)[of t] that by (cases g) (simp add: CircularShift_rotl all_ones)
  then have "fold (\<lambda>t. sha1_round f K (W ! t)) [m..<m + 20] h = fold (fips_round blk) [m..<m + 20] h"
    by (intro fold_cong) auto
  then show ?thesis using fold_part[of m 20 W "sha1_round f K" h] assms(1,3) by simp
qed

lemma schedule_fold: "sha1_schedule blk = fold schedule_step [16..<16 + 64] (sha1_words blk)"
proof -
  have "16 + 64 = (80 :: nat)" by simp
  then show ?thesis by (simp only: sha1_schedule_def schedule_step_def [abs_def])
qed

lemma sha1_compress_fips:
  assumes "length blk = 64"
  shows "sha1_compress h blk = fips_compress h blk"
proof -
  let ?W = "sha1_schedule blk"
  have W: "length ?W = 80" "\<And>t. t < 80 \<Longrightarrow> ?W ! t = fips_w blk t"
    unfolding schedule_fold using schedule_fips[OF assms, of 64] by simp_all
  have k: "t < 20 \<Longrightarrow> fips_k t = 0x5A827999" "20 \<le> t \<Longrightarrow> t < 40 \<Longrightarrow> fips_k t = 0x6ED9EBA1"
    "40 \<le> t \<Longrightarrow> t < 60 \<Longrightarrow> fips_k t = 0x8F1BBCDC" "60 \<le> t \<Longrightarrow> fips_k t = 0xCA62C1D6" for t
    by (simp_all add: fips_k_def)
  have 0: "fold (sha1_round sha1_choose 0x5A827999) (take 20 (drop 0 ?W)) g = fold (fips_round blk) [0..<0 + 20] g" for g
    by (rule rounds_part[OF W]) (simp, simp, intro conjI choose_f k(1)[symmetric], simp_all)
  have 1: "fold (sha1_round sha1_parity 0x6ED9EBA1) (take 20 (drop 20 ?W)) g = fold (fips_round blk) [20..<20 + 20] g" for g
    by (rule rounds_part[OF W]) (simp, simp, intro conjI parity_f k(2)[symmetric], simp_all)
  have 2: "fold (sha1_round sha1_majority 0x8F1BBCDC) (take 20 (drop 40 ?W)) g = fold (fips_round blk) [40..<40 + 20] g" for g
    by (rule rounds_part[OF W]) (simp, simp, intro conjI majority_f k(3)[symmetric], simp_all)
  have 3: "fold (sha1_round sha1_parity 0xCA62C1D6) (take 20 (drop 60 ?W)) g = fold (fips_round blk) [60..<60 + 20] g" for g
    by (rule rounds_part[OF W]) (simp, simp, intro conjI parity_f k(4)[symmetric], simp_all)
  have s: "[0..<80] = [0..<0 + 20] @ [20..<20 + 20] @ [40..<40 + 20] @ [60..<60 + (20 :: nat)]"
  proof -
    have p: "i \<le> j \<Longrightarrow> j \<le> m \<Longrightarrow> [i..<m] = [i..<j] @ [j..<m :: nat]" for i j m
      using upt_add_eq_append[of i j "m - j"] by simp
    have "[0..<80] = [0..<20] @ [20..<80 :: nat]" by (rule p) simp_all
    moreover have "[20..<80] = [20..<40] @ [40..<80 :: nat]" by (rule p) simp_all
    moreover have "[40..<80] = [40..<60] @ [60..<80 :: nat]" by (rule p) simp_all
    ultimately show ?thesis by (simp only: add_0 numeral_plus_numeral add_num_simps)
  qed
  show ?thesis
    by (simp only: sha1_compress_def fips_compress_def sha1_rounds_def 0[unfolded drop_0] 1 2 3 all_ones s fold_append comp_apply)
qed


section \<open>A test vector\<close>

text \<open>
  The digest of ``abc'' that the standard gives. The schedule is computed on the reversed list,
  sixteen words at a time.
\<close>

fun expand :: "nat \<Rightarrow> u32 list \<Rightarrow> u32 list" where
  "expand 0 r = r"
| "expand (Suc n) r = expand n (CircularShift 1 (r ! 2 XOR r ! 7 XOR r ! 13 XOR r ! 15) # r)"

lemma expand_fold:
  "16 \<le> length W \<Longrightarrow> fold schedule_step [length W..<length W + n] W = rev (expand n (rev W))"
proof (induction n arbitrary: W)
  case (Suc n)
  let ?l = "length W"
  let ?w = "CircularShift 1 (W ! (?l - 3) XOR W ! (?l - 8) XOR W ! (?l - 14) XOR W ! (?l - 16))"
  have "rev W ! 2 = W ! (?l - 3)" "rev W ! 7 = W ! (?l - 8)" "rev W ! 13 = W ! (?l - 14)" "rev W ! 15 = W ! (?l - 16)"
    using Suc.prems by (simp_all add: rev_nth)
  then have "expand (Suc n) (rev W) = expand n (rev (W @ [?w]))" by simp
  moreover have "[?l..<?l + Suc n] = ?l # [Suc ?l..<Suc ?l + n]" by (simp add: upt_conv_Cons)
  moreover have "fold schedule_step [Suc ?l..<Suc ?l + n] (W @ [?w]) = rev (expand n (rev (W @ [?w])))"
    using Suc.IH[of "W @ [?w]"] Suc.prems by simp
  ultimately show ?case by (simp only: fold.simps comp_apply schedule_step_def[of ?l W])
qed simp

lemma expand_add: "expand (m + n) r = expand n (expand m r)"
  by (induction m arbitrary: r) simp_all

lemma expand_numeral: "expand (numeral v) r =
  expand (pred_numeral v) (CircularShift 1 (r ! 2 XOR r ! 7 XOR r ! 13 XOR r ! 15) # r)"
  by (simp add: numeral_eq_Suc[of v])

lemma shift1: "CircularShift (Suc 0) w = push_bit 1 w OR drop_bit 31 w"
  by (simp add: CircularShift_def all_ones)

definition abc_block :: bytes where
  "abc_block = [97, 98, 99] @ hash_padding 3 @ rev (le_bytes 8 24)"

lemma length_abc_block: "length abc_block = 64"
  by (simp add: abc_block_def hash_padding_def)

lemma abc_first: "sha1_words abc_block = rev ([0x18, 0x0, 0x0, 0x0, 0x0, 0x0, 0x0, 0x0, 0x0, 0x0, 0x0,
     0x0, 0x0, 0x0, 0x0, 0x61626380] @ [])"
  by code_simp

lemma abc_words0: "expand 16 ([0x18, 0x0, 0x0, 0x0, 0x0, 0x0, 0x0, 0x0, 0x0, 0x0, 0x0, 0x0, 0x0, 0x0,
     0x0, 0x61626380] @ rs) = [0x5898E048, 0x93AFB507, 0xF0, 0x2C4C700C, 0x180, 0x0, 0x16263806,
     0x85898EC1, 0x30, 0xB131C03, 0x60, 0x0, 0x85898E01, 0x30, 0x0, 0xC2C4C700, 0x18, 0x0, 0x0, 0x0,
     0x0, 0x0, 0x0, 0x0, 0x0, 0x0, 0x0, 0x0, 0x0, 0x0, 0x0, 0x61626380] @ rs"
  by (simp add: expand_numeral shift1)
lemma abc_words1: "expand 16 ([0x5898E048, 0x93AFB507, 0xF0, 0x2C4C700C, 0x180, 0x0, 0x16263806,
     0x85898EC1, 0x30, 0xB131C03, 0x60, 0x0, 0x85898E01, 0x30, 0x0, 0xC2C4C700] @ rs) = [0x74458547,
     0x53A37CD, 0x60C0, 0xE2BA3C2B, 0x898E04E5, 0x3AFB5079, 0xF00, 0xD2E138C4, 0x18C0, 0x16263806,
     0x626380A1, 0x4EBED41E, 0x16263BC6, 0xB131C0F0, 0x600, 0x8E9A9202, 0x5898E048, 0x93AFB507, 0xF0,
     0x2C4C700C, 0x180, 0x0, 0x16263806, 0x85898EC1, 0x30, 0xB131C03, 0x60, 0x0, 0x85898E01, 0x30, 0x0,
     0xC2C4C700] @ rs"
  by (simp add: expand_numeral shift1)
lemma abc_words2: "expand 16 ([0x74458547, 0x53A37CD, 0x60C0, 0xE2BA3C2B, 0x898E04E5, 0x3AFB5079,
     0xF00, 0xD2E138C4, 0x18C0, 0x16263806, 0x626380A1, 0x4EBED41E, 0x16263BC6, 0xB131C0F0, 0x600,
     0x8E9A9202] @ rs) = [0x627B49A1, 0xAE55269, 0x6380AEA2, 0x7BA06619, 0x44584CB7, 0x458544D6,
     0x62658CA1, 0x651D16A0, 0x98E04D98, 0x1E84C7A3, 0xF600, 0x3835B44B, 0x4EBF54DE, 0x626383A1,
     0x26380A16, 0xDA9415ED, 0x74458547, 0x53A37CD, 0x60C0, 0xE2BA3C2B, 0x898E04E5, 0x3AFB5079, 0xF00,
     0xD2E138C4, 0x18C0, 0x16263806, 0x626380A1, 0x4EBED41E, 0x16263BC6, 0xB131C0F0, 0x600, 0x8E9A9202] @ rs"
  by (simp add: expand_numeral shift1)
lemma abc_words3: "expand 16 ([0x627B49A1, 0xAE55269, 0x6380AEA2, 0x7BA06619, 0x44584CB7, 0x458544D6,
     0x62658CA1, 0x651D16A0, 0x98E04D98, 0x1E84C7A3, 0xF600, 0x3835B44B, 0x4EBF54DE, 0x626383A1,
     0x26380A16, 0xDA9415ED] @ rs) = [0x822E0879, 0x5795EF4F, 0xF60A00, 0xE6E60B69, 0xE7CC3456,
     0x1E02203, 0x380A1A26, 0xB8599DD6, 0x458546F4, 0x3A37CD05, 0x60C000, 0xBA3C2BE2, 0xEC6765E8,
     0xFB50753A, 0xF0000, 0x7CD45C9D, 0x627B49A1, 0xAE55269, 0x6380AEA2, 0x7BA06619, 0x44584CB7,
     0x458544D6, 0x62658CA1, 0x651D16A0, 0x98E04D98, 0x1E84C7A3, 0xF600, 0x3835B44B, 0x4EBF54DE,
     0x626383A1, 0x26380A16, 0xDA9415ED] @ rs"
  by (simp add: expand_numeral shift1)

lemma abc_schedule: "sha1_schedule abc_block = [0x61626380, 0x0, 0x0, 0x0, 0x0, 0x0, 0x0, 0x0, 0x0,
     0x0, 0x0, 0x0, 0x0, 0x0, 0x0, 0x18, 0xC2C4C700, 0x0, 0x30, 0x85898E01, 0x0, 0x60, 0xB131C03, 0x30,
     0x85898EC1, 0x16263806, 0x0, 0x180, 0x2C4C700C, 0xF0, 0x93AFB507, 0x5898E048, 0x8E9A9202, 0x600,
     0xB131C0F0, 0x16263BC6, 0x4EBED41E, 0x626380A1, 0x16263806, 0x18C0, 0xD2E138C4, 0xF00, 0x3AFB5079,
     0x898E04E5, 0xE2BA3C2B, 0x60C0, 0x53A37CD, 0x74458547, 0xDA9415ED, 0x26380A16, 0x626383A1,
     0x4EBF54DE, 0x3835B44B, 0xF600, 0x1E84C7A3, 0x98E04D98, 0x651D16A0, 0x62658CA1, 0x458544D6,
     0x44584CB7, 0x7BA06619, 0x6380AEA2, 0xAE55269, 0x627B49A1, 0x7CD45C9D, 0xF0000, 0xFB50753A,
     0xEC6765E8, 0xBA3C2BE2, 0x60C000, 0x3A37CD05, 0x458546F4, 0xB8599DD6, 0x380A1A26, 0x1E02203,
     0xE7CC3456, 0xE6E60B69, 0xF60A00, 0x5795EF4F, 0x822E0879]"
proof -
  have e: "expand 64 r = expand 16 (expand 16 (expand 16 (expand 16 r)))" for r
    by (simp flip: expand_add)
  have "16 = length (sha1_words abc_block)" by (simp add: length_sha1_words length_abc_block)
  then have "sha1_schedule abc_block = rev (expand 64 (rev (sha1_words abc_block)))"
    using expand_fold[of "sha1_words abc_block" 64] by (simp only: schedule_fold le_refl simp_thms)
  then show ?thesis
    by (simp only: abc_first rev_rev_ident e append_Cons append_Nil rev.simps
      abc_words0[unfolded append_Cons append_Nil] abc_words1[unfolded append_Cons append_Nil]
      abc_words2[unfolded append_Cons append_Nil] abc_words3[unfolded append_Cons append_Nil])
qed

lemma abc_rounds0: "fold (sha1_round sha1_choose 0x5A827999) [0x61626380, 0x0, 0x0, 0x0, 0x0, 0x0, 0x0,
     0x0, 0x0, 0x0, 0x0, 0x0, 0x0, 0x0, 0x0, 0x18, 0xC2C4C700, 0x0, 0x30, 0x85898E01] (0x67452301,
     0xEFCDAB89, 0x98BADCFE, 0x10325476, 0xC3D2E1F0) = (0xFD9E1D7D, 0xDC64901D, 0x20AA99CA, 0xD3A49608,
     0xC82F758B)"
  by code_simp
lemma abc_rounds1: "fold (sha1_round sha1_parity 0x6ED9EBA1) [0x0, 0x60, 0xB131C03, 0x30, 0x85898EC1,
     0x16263806, 0x0, 0x180, 0x2C4C700C, 0xF0, 0x93AFB507, 0x5898E048, 0x8E9A9202, 0x600, 0xB131C0F0,
     0x16263BC6, 0x4EBED41E, 0x626380A1, 0x16263806, 0x18C0] (0xFD9E1D7D, 0xDC64901D, 0x20AA99CA,
     0xD3A49608, 0xC82F758B) = (0x32DE1CBA, 0x4C986405, 0xF718E5CF, 0x3D447F6, 0xF72EEC32)"
  by code_simp
lemma abc_rounds2: "fold (sha1_round sha1_majority 0x8F1BBCDC) [0xD2E138C4, 0xF00, 0x3AFB5079,
     0x898E04E5, 0xE2BA3C2B, 0x60C0, 0x53A37CD, 0x74458547, 0xDA9415ED, 0x26380A16, 0x626383A1,
     0x4EBF54DE, 0x3835B44B, 0xF600, 0x1E84C7A3, 0x98E04D98, 0x651D16A0, 0x62658CA1, 0x458544D6,
     0x44584CB7] (0x32DE1CBA, 0x4C986405, 0xF718E5CF, 0x3D447F6, 0xF72EEC32) = (0x3F52DE5A, 0x9D785FD,
     0x3498BFD4, 0xF211824F, 0xD79915AB)"
  by code_simp
lemma abc_rounds3: "fold (sha1_round sha1_parity 0xCA62C1D6) [0x7BA06619, 0x6380AEA2, 0xAE55269,
     0x627B49A1, 0x7CD45C9D, 0xF0000, 0xFB50753A, 0xEC6765E8, 0xBA3C2BE2, 0x60C000, 0x3A37CD05,
     0x458546F4, 0xB8599DD6, 0x380A1A26, 0x1E02203, 0xE7CC3456, 0xE6E60B69, 0xF60A00, 0x5795EF4F,
     0x822E0879] (0x3F52DE5A, 0x9D785FD, 0x3498BFD4, 0xF211824F, 0xD79915AB) = (0x42541B35, 0x5738D5E1,
     0x21834873, 0x681E6DF6, 0xD8FDF6AD)"
  by code_simp

lemma abc_compress:
  "sha1_compress sha1_start abc_block = (0xA9993E36, 0x4706816A, 0xBA3E2571, 0x7850C26C, 0x9CD0D89D)"
proof -
  have "sha1_rounds (sha1_schedule abc_block) sha1_start = (0x42541B35, 0x5738D5E1, 0x21834873,
     0x681E6DF6, 0xD8FDF6AD)"
    unfolding sha1_rounds_def sha1_start_def abc_schedule
    by (simp add: abc_rounds0 abc_rounds1 abc_rounds2 abc_rounds3 del: fold.simps)
  then show ?thesis by (simp add: sha1_compress_def) (simp add: sha1_start_def)
qed


section \<open>The digest\<close>

definition sha1_reference :: "bytes \<Rightarrow> u32 list" where
  "sha1_reference s = sha1_list (hash_blocks fips_compress sha1_start
     (s @ hash_padding (length s) @ rev (le_bytes 8 (8 * length s))))"

lemma sha1_reference_blocks: "sha1_reference s = sha1_list (hash_blocks sha1_compress sha1_start
     (s @ hash_padding (length s) @ rev (le_bytes 8 (8 * length s))))"
  unfolding sha1_reference_def
  by (rule arg_cong[of _ _ sha1_list]) (rule hash_blocks_eq, simp add: sha1_compress_fips)

lemma sha1_reference_abc:
  "sha1_reference [97, 98, 99] = [0xA9993E36, 0x4706816A, 0xBA3E2571, 0x7850C26C, 0x9CD0D89D]"
proof -
  have "length [97, 98, 99 :: u8] = 3" "8 * 3 = (24 :: nat)" by simp_all
  then have "sha1_reference [97, 98, 99] = sha1_list (hash_blocks sha1_compress sha1_start (abc_block @ []))"
    by (simp only: sha1_reference_blocks abc_block_def append_Nil2)
  also have "\<dots> = sha1_list (sha1_compress sha1_start abc_block)"
    by (simp only: hash_blocks_block[OF length_abc_block]) simp
  finally show ?thesis by (simp only: abc_compress sha1_list.simps)
qed

lemma sha1_store_last:
  assumes "Message_Block_Index s < length (Message_Block s)"
  shows "sha1_store b s = s\<lparr>Message_Block := sha1_tail s @ b # drop (Suc (Message_Block_Index s)) (Message_Block s),
                           Message_Block_Index := Suc (Message_Block_Index s)\<rparr>"
  using assms by (simp add: sha1_store_def sha1_tail_def upd_conv_take_nth_drop)

lemma drop_over: "i < k \<Longrightarrow> drop (k - i) (b # drop (Suc i) xs) = drop k xs"
  by (simp add: drop_Cons')

lemma replicate_over: "i < k \<Longrightarrow> replicate (k - i) b = b # replicate (k - Suc i) b"
  by (metis Suc_diff_Suc replicate_Suc)

lemma sha1_zeros_fill:
  "Message_Block_Index s \<le> k \<Longrightarrow> k \<le> length (Message_Block s) \<Longrightarrow>
   sha1_zeros k s = s\<lparr>Message_Block := sha1_tail s @ replicate (k - Message_Block_Index s) 0 @ drop k (Message_Block s),
                     Message_Block_Index := k\<rparr>"
proof (induction "k - Message_Block_Index s" arbitrary: s)
  case 0
  then show ?case by (simp add: sha1_zeros_def sha1_tail_def)
next
  case (Suc m)
  let ?i = "Message_Block_Index s"
  let ?s = "sha1_store 0 s"
  have i: "?i < length (Message_Block s)" "?i < k" using Suc.hyps(2) Suc.prems by simp_all
  have s: "?s = s\<lparr>Message_Block := sha1_tail s @ 0 # drop (Suc ?i) (Message_Block s), Message_Block_Index := Suc ?i\<rparr>"
    by (rule sha1_store_last[OF i(1)])
  have t: "length (sha1_tail s) = ?i" using i(1) by (simp add: sha1_tail_def)
  have "sha1_zeros k s = sha1_zeros k ?s"
  proof -
    have "k - Suc ?i = m" using Suc.hyps(2) by simp
    then show ?thesis using s by (simp add: sha1_zeros_def funpow_swap1 flip: Suc.hyps(2))
  qed
  also have "\<dots> = ?s\<lparr>Message_Block := sha1_tail ?s @ replicate (k - Suc ?i) 0 @ drop k (Message_Block ?s), Message_Block_Index := k\<rparr>"
    using Suc.hyps(1)[of ?s] Suc.hyps(2) Suc.prems i t by (simp add: s)
  finally show ?case
    using i t by (simp add: s sha1_tail_def[of "_\<lparr>Message_Block_Index := _\<rparr>"] drop_over replicate_over)
qed


lemma sha1_pad_first:
  assumes "Message_Block_Index s < k" and "k \<le> length (Message_Block s)"
  shows "sha1_zeros k (sha1_store b s)
    = s\<lparr>Message_Block := sha1_tail s @ b # replicate (k - Suc (Message_Block_Index s)) 0 @ drop k (Message_Block s),
        Message_Block_Index := k\<rparr>"
proof -
  let ?i = "Message_Block_Index s"
  have t: "length (sha1_tail s) = ?i" using assms by (simp add: sha1_tail_def)
  have s: "sha1_store b s = s\<lparr>Message_Block := sha1_tail s @ b # drop (Suc ?i) (Message_Block s), Message_Block_Index := Suc ?i\<rparr>"
    using assms by (intro sha1_store_last) simp
  show ?thesis
    unfolding s using assms t by (subst sha1_zeros_fill) (simp_all add: sha1_tail_def[of "_\<lparr>Message_Block_Index := _\<rparr>"] drop_over)
qed

lemma be_bytes4_le: "be_bytes4 w = rev (le_bytes 4 (unat w))"
  by (simp add: be_bytes4_def flip: word_le_bytes)

lemma sha1_length_bytes:
  assumes "unat (Length_Low s) + 2 ^ 32 * unat (Length_High s) = v"
  shows "be_bytes4 (Length_High s) @ be_bytes4 (Length_Low s) = rev (le_bytes 8 v)"
proof -
  have "unat (Length_Low s) < 256 ^ 4" using unsigned_less[of "Length_Low s"] by simp
  from le_bytes_split[OF this, of 4 "unat (Length_High s)"] show ?thesis
    using assms by (simp add: be_bytes4_le)
qed

lemma length_be_bytes4 [simp]: "length (be_bytes4 w) = 4"
  by (simp add: be_bytes4_def)

lemma PadMessage_ok:
  assumes ok: "sha1_ok n s"
  shows "sha1_H (PadMessage s)
    = hash_blocks sha1_compress (sha1_H s) (sha1_tail s @ hash_padding n @ rev (le_bytes 8 (8 * n)))
    \<and> Corrupted (PadMessage s) = Corrupted s"
proof -
  let ?i = "n mod 64" and ?len = "rev (le_bytes 8 (8 * n))"
  have b: "length (Message_Block s) = 64" "Message_Block_Index s = ?i" "?i < 64"
    and lens: "be_bytes4 (Length_High s) @ be_bytes4 (Length_Low s) = ?len"
    using ok by (simp_all add: sha1_ok_def sha1_length_bytes)
  have t: "length (sha1_tail s) = ?i" using b by (simp add: sha1_tail_def)
  have one: "hash_blocks sha1_compress h blk = sha1_compress h blk" if "length blk = 64" for h blk
    using hash_blocks_block[OF that, of sha1_compress h "[]"] by simp
  show ?thesis
  proof (cases "?i > 55")
    case False
    let ?pad = "sha1_tail s @ 0x80 # replicate (55 - ?i) 0"
    have hp: "hash_padding n = 0x80 # replicate (55 - ?i) 0"
    proof -
      have "119 - ?i = (55 - ?i) + 64" using False by simp
      then have "(119 - ?i) mod 64 = (55 - ?i) mod 64" by (simp only: mod_add_self2)
      then show ?thesis by (simp add: hash_padding_def)
    qed
    have l: "length ?pad = 56" using False t by simp
    have z: "sha1_zeros 56 (sha1_store 0x80 s)
        = s\<lparr>Message_Block := ?pad @ drop 56 (Message_Block s), Message_Block_Index := 56\<rparr>"
      using False b sha1_pad_first[of s 56] by simp
    have tk: "take 56 (?pad @ r) = ?pad" for r by (metis append_eq_conv_conj l)
    have "PadMessage s = ProcessMessageBlock (s\<lparr>Message_Block := ?pad @ ?len, Message_Block_Index := 56\<rparr>)"
      using False b(2) by (simp add: PadMessage_def Let_def z tk lens ProcessMessageBlock_def del: append_assoc append_Cons take_append)
    moreover have "length (?pad @ ?len) = 64" using l by simp
    ultimately show ?thesis using one[of "?pad @ ?len"] by (simp add: ProcessMessageBlock_def hp)
  next
    case True
    let ?pad = "sha1_tail s @ 0x80 # replicate (63 - ?i) 0" and ?zeros = "replicate 56 (0 :: u8)"
    have hp: "hash_padding n = 0x80 # replicate (63 - ?i) 0 @ ?zeros"
    proof -
      have "(119 - ?i) mod 64 = (63 - ?i) + 56" using True b(3) by simp
      then show ?thesis by (simp only: hash_padding_def replicate_add)
    qed
    have l: "length ?pad = 64" using True t b(3) by simp
    let ?s = "s\<lparr>Message_Block := ?pad, sha1_H := sha1_compress (sha1_H s) ?pad, Message_Block_Index := 0\<rparr>"
    have z: "ProcessMessageBlock (sha1_zeros 64 (sha1_store 0x80 s)) = ?s"
      using True b sha1_pad_first[of s 64] by (simp add: ProcessMessageBlock_def)
    have z2: "sha1_zeros 56 ?s = ?s\<lparr>Message_Block := ?zeros @ drop 56 ?pad, Message_Block_Index := 56\<rparr>"
      using l by (subst sha1_zeros_fill) (simp_all add: sha1_tail_def)
    have e: "hash_blocks sha1_compress (sha1_H s) (?pad @ ?zeros @ ?len)
        = sha1_compress (sha1_compress (sha1_H s) ?pad) (?zeros @ ?len)"
      by (simp only: hash_blocks_block[OF l]) (rule one, simp)
    have "PadMessage s = ProcessMessageBlock (?s\<lparr>Message_Block_Index := 56, Message_Block := ?zeros @ ?len\<rparr>)"
      using True b(2) by (simp add: PadMessage_def Let_def z z2 lens)
    then show ?thesis using e by (simp add: ProcessMessageBlock_def hp)
  qed
qed


lemma sha1_Inputs_ok:
  assumes "length blk = 64" and "length (concat xs) < sha1_limit"
  shows "sha1_ok (length (concat xs)) (fold sha1_Input xs (new_sha1 blk))
    \<and> sha1_H (fold sha1_Input xs (new_sha1 blk)) = hash_blocks sha1_compress sha1_start (concat xs)
    \<and> sha1_tail (fold sha1_Input xs (new_sha1 blk)) = rest_of (concat xs)"
proof -
  have ok: "sha1_ok 0 (new_sha1 blk)" by (rule new_sha1_ok[OF assms(1)])
  have l: "0 + length (concat xs) < sha1_limit" using assms(2) by simp
  have "sha1_tail (new_sha1 blk) = []" using sha1h.ok_tail[OF ok] by simp
  then show ?thesis
    using sha1h.whole.puts[OF ok l] sha1_Inputs_fold[OF ok l] by (simp add: sha1_H_new)
qed

text \<open>Calls after the digest: \<open>None\<close> for \<open>Result\<close>, \<open>Some y\<close> for \<open>Input\<close> with \<open>y\<close>.\<close>

definition sha1_call :: "bytes option \<Rightarrow> sha1 \<Rightarrow> sha1" where
  "sha1_call u s = (case u of None \<Rightarrow> snd (sha1_Result s) | Some y \<Rightarrow> sha1_Input y s)"

lemma corrupted_stays: "Corrupted s \<Longrightarrow> Corrupted (fold sha1_call us s)"
proof (induction us arbitrary: s)
  case (Cons u us)
  have "Corrupted (sha1_call u s)"
    using Cons.prems by (cases u) (simp_all add: sha1_call_def sha1_Result_def sha1_Input_def)
  then show ?case using Cons.IH by simp
qed simp

text \<open>
  C39: The SHA-1 object computes SHA-1: whatever the pieces of the message and the 64 bytes of
  memory its block was built in, and for every message of fewer than \<open>2 ^ 61\<close> bytes,
  \<open>Result\<close> is the digest of the concatenation that FIPS 180 defines (padding, schedule, functions
  and constants written as the standard has them, not as the code), a second \<open>Result\<close> repeats it,
  and once more input that is not empty has followed it, every later \<open>Result\<close> fails, whatever calls
  of \<open>Input\<close> and \<open>Result\<close> come between.\<close>

theorem sha1_pieces:
  assumes "length blk = 64" and "length (concat xs) < 2 ^ 61"
    and "s = fold sha1_Input xs (new_sha1 blk)" and "s' = snd (sha1_Result s)" and "x \<noteq> []"
  shows "fst (sha1_Result s) = Some (sha1_reference (concat xs))
         \<and> sha1_Result s' = (Some (sha1_reference (concat xs)), s')
         \<and> fst (sha1_Result (fold sha1_call us (sha1_Input x s'))) = None"
proof -
  let ?m = "concat xs"
  have l: "length ?m < sha1_limit" using assms(2) by (simp add: sha1_limit_def)
  note s = sha1_Inputs_ok[OF assms(1) l, folded assms(3)]
  have c: "\<not> Corrupted s" "\<not> Computed s" using s by (simp_all add: sha1_ok_def)
  have "sha1_H (PadMessage s) = hash_blocks sha1_compress sha1_start
      (?m @ hash_padding (length ?m) @ rev (le_bytes 8 (8 * length ?m)))"
    and p: "Corrupted (PadMessage s) = Corrupted s"
    using PadMessage_ok[of "length ?m" s] s
      hash_blocks_append[of sha1_compress sha1_start ?m "hash_padding (length ?m) @ rev (le_bytes 8 (8 * length ?m))"]
    by simp_all
  then have h: "sha1_list (sha1_H (PadMessage s)) = sha1_reference ?m" by (simp add: sha1_reference_blocks)
  have r: "sha1_Result s = (Some (sha1_reference ?m), (PadMessage s)\<lparr>Computed := True\<rparr>)"
    using c h by (simp add: sha1_Result_def)
  have "Corrupted (sha1_Input x s')" using assms(4,5) r by (simp add: sha1_Input_def)
  then have "fst (sha1_Result (fold sha1_call us (sha1_Input x s'))) = None"
    using corrupted_stays by (simp add: sha1_Result_def)
  then show ?thesis using assms(4) r c p h by (simp add: sha1_Result_def)
qed

lemma sha1_pieces_witness:
  "fst (sha1_Result (fold sha1_Input [[97], [], [98, 99]] (new_sha1 (replicate 64 7))))
   = Some [0xA9993E36, 0x4706816A, 0xBA3E2571, 0x7850C26C, 0x9CD0D89D]"
  using sha1_pieces[of "replicate 64 7" "[[97], [], [98, 99]]", OF _ _ refl refl, of "[1]"]
  by (simp add: sha1_reference_abc)

end
