(* ===== verification/Net_Socket.thy ===== *)
theory Net_Socket
  imports Cxx_String
begin

text \<open>
  Addresses and the blocking calls of \<^verbatim>\<open>Include/net/socket.hpp\<close>. What the operating system
  answers to a call is a parameter; system errors are the ones the sources tell apart.
\<close>

datatype errno = EWOULDBLOCK | EAGAIN | EINTR | ECONNRESET | EINPROGRESS | Other_errno


section \<open>Addresses\<close>

record address_info =
  ip :: string
  port :: nat
  v6 :: bool

definition get_address_string :: "address_info \<Rightarrow> string" where
  "get_address_string a = ip a @ '':'' @ show_nat (port a)"

text \<open>The port is an \<open>uint16\<close>.\<close>

definition parse_addr :: "string \<Rightarrow> address_info \<Rightarrow> bool \<times> address_info" where
  "parse_addr addr ret =
     (case find_from addr '':'' 0 of
        None \<Rightarrow> (False, ret)
      | Some pos \<Rightarrow>
          let ret = ret\<lparr>ip := take pos addr, port := nat (take_bit 16 (atoi (drop (pos + 1) addr)))\<rparr>
          in (ip ret \<noteq> [], ret))"


section \<open>Calls\<close>

text \<open>\<open>bind\<close>: the result of the system call is a parameter.\<close>

definition sock_bind :: "(address_info \<Rightarrow> bool) \<Rightarrow> string \<Rightarrow> bool" where
  "sock_bind sys_bind addr =
     (if addr = ''0.0.0.0:0'' then True
      else case parse_addr addr \<lparr>ip = [], port = 0, v6 = False\<rparr> of
             (False, _) \<Rightarrow> False
           | (True, info) \<Rightarrow> sys_bind info)"

datatype connect_error = e_success | e_parse_failed | e_dns_failed | e_inprocess | e_timeout | e_other

datatype family = AF_INET | AF_INET6 | Other_family

text \<open>
  What the system says to a connection: the family \<open>getaddrinfo\<close> finds for a host, whether
  \<open>inet_ntop\<close> and \<open>inet_pton\<close> succeed, the error of \<open>connect\<close>, the result of \<open>select\<close> and
  whether the socket is in the set.
\<close>

record connect_env =
  resolve :: "string \<Rightarrow> family option"
  ntop_ok :: bool
  pton_ok :: bool
  connect_errno :: "errno option"
  select_one :: bool
  isset :: bool

definition wait_connect :: "connect_env \<Rightarrow> nat \<Rightarrow> connect_error" where
  "wait_connect env timeout =
     (if timeout > 0
      then if select_one env then (if isset env then e_success else e_timeout) else e_other
      else e_inprocess)"

text \<open>\<open>char ip[128]\<close>, filled by \<open>snprintf\<close> with a size of 127.\<close>

definition sock_connect :: "connect_env \<Rightarrow> string \<Rightarrow> nat \<Rightarrow> connect_error" where
  "sock_connect env addr timeout =
     (case parse_addr addr \<lparr>ip = [], port = 0, v6 = False\<rparr> of
        (False, _) \<Rightarrow> e_parse_failed
      | (True, info) \<Rightarrow>
          (case resolve env (take 126 (c_str (ip info))) of
             None \<Rightarrow> e_dns_failed
           | Some fam \<Rightarrow>
               if fam = AF_INET \<and> \<not> ntop_ok env then e_dns_failed
               else if fam = AF_INET6 \<and> ntop_ok env then e_dns_failed
               else if fam = AF_INET6 \<and> \<not> pton_ok env then e_dns_failed
               else case connect_errno env of
                      None \<Rightarrow> e_success
                    | Some err \<Rightarrow>
                        if err \<noteq> EINPROGRESS \<and> err \<noteq> EWOULDBLOCK then e_other
                        else wait_connect env timeout))"

text \<open>
  \<open>dns\<close>: the list of \<open>getaddrinfo\<close> is walked, but the address is read from its first entry each
  time. An entry is its family and the text \<open>inet_ntop\<close> makes of it.
\<close>

fun dns_entry :: "family \<times> string option \<Rightarrow> (string \<times> bool) list" where
  "dns_entry (AF_INET, Some t) = [(t, False)]"
| "dns_entry (AF_INET6, Some t) = [(t, True)]"
| "dns_entry _ = []"

fun dns_walk :: "family \<times> string option \<Rightarrow> (family \<times> string option) list \<Rightarrow> (string \<times> bool) list" where
  "dns_walk result [] = []"
| "dns_walk result (head # rest) = dns_entry result @ dns_walk result rest"

definition dns :: "(string \<Rightarrow> (family \<times> string option) list option) \<Rightarrow> string \<Rightarrow> (string \<times> bool) list" where
  "dns getaddrinfo domain =
     (case getaddrinfo (take 126 (c_str domain)) of
        None \<Rightarrow> []
      | Some [] \<Rightarrow> []
      | Some (result # rest) \<Rightarrow> dns_walk result (result # rest))"


section \<open>Properties\<close>

text \<open>
  An address printed and parsed again is the same, for a host name without a colon; one with a
  colon, as an IPv6 address has, comes back cut at it.
\<close>

lemma find_colon:
  assumes "CHR '':'' \<notin> set host"
  shows "find_from (host @ '':'' @ t) '':'' 0 = Some (length host)"
  using assms by (simp add: find_from_def) (induction host, auto simp: find_sub_Cons)

lemma addr_roundtrip:
  assumes "host \<noteq> []" and "CHR '':'' \<notin> set host" and "n < 2 ^ 16"
  shows "parse_addr (get_address_string \<lparr>ip = host, port = n, v6 = b\<rparr>) a = (True, a\<lparr>ip := host, port := n\<rparr>)"
  using find_colon[OF assms(2), of "show_nat n"] assms atoi_show_int[of "int n"]
  by (simp add: get_address_string_def parse_addr_def show_int_def take_bit_int_eq_self)

lemma addr_v6_cut:
  assumes "host \<noteq> []" and "CHR '':'' \<notin> set host"
  shows "ip (snd (parse_addr (get_address_string \<lparr>ip = host @ '':'' @ rest, port = n, v6 = True\<rparr>) a)) = host"
  using find_colon[OF assms(2), of "rest @ '':'' @ show_nat n"]
  by (simp add: get_address_string_def parse_addr_def Let_def)

lemma dns_walk_first: "dns_walk result ns = concat (replicate (length ns) (dns_entry result))"
  by (induction ns) simp_all

end
