(* ===== verification/Net_Epoll.thy ===== *)
theory Net_Epoll
  imports Net_Socket Shine_Timer
begin

text \<open>
  The connections of \<^verbatim>\<open>Include/net/epoll.hpp\<close>. A connection is modelled with what it shares with
  the kernel: the interest registered for its socket, the bytes the kernel has taken and the
  results the calls of \<open>recv\<close> and \<open>send\<close> will have. Its timers are those of the timer manager.
  The user's callbacks are programs of commands on the connection. A connection that deletes
  itself and is used afterwards is undefined behaviour.
\<close>


section \<open>Connections\<close>

definition EPOLLIN :: u32 where "EPOLLIN = 0x001"
definition EPOLLOUT :: u32 where "EPOLLOUT = 0x004"
definition EPOLLERR :: u32 where "EPOLLERR = 0x008"
definition EPOLLHUP :: u32 where "EPOLLHUP = 0x010"
definition EPOLLET :: u32 where "EPOLLET = 0x80000000"

datatype peer_type = e_acceptor | e_connector | e_connection

text \<open>The class of the object, which decides what \<open>close\<close> does: a connector may reconnect.\<close>

datatype peer_class = Connection_class | Connector_class bool u64 | Acceptor_class

text \<open>Results of \<open>recv\<close>, and of \<open>send\<close>: how many bytes the kernel has room for.\<close>

datatype recv_res = Data bytes | Recv_err errno
datatype send_res = Room nat | Send_err errno

datatype timer_kind = Recv_timeout | Send_timeout | Reconnect

record conn =
  peer_name :: string
  cls :: peer_class
  ptype :: peer_type
  remote_addr :: address_info
  bind_addr :: address_info
  socket_fd :: int
  monitor_events :: u32
  bound :: bool
  recv_size :: nat
  send_buf :: bytes
  recv_timeout :: u32
  send_timeout :: u32
  recv_timer :: u64
  send_timer :: u64
  deleted :: bool
  manager :: "timer_kind timers"
  close_calls :: nat
  interest :: "u32 option"
  submitted :: bytes
  unflushed :: bool
  wire :: bytes
  received :: "bytes list"
  sends :: "send_res list"

text \<open>
  \<open>close_calls\<close> counts the calls of the close callback; \<open>interest\<close> is the kernel's entry for the
  socket. \<open>submitted\<close>, \<open>unflushed\<close>, \<open>wire\<close> and \<open>received\<close> are records of what happened: the bytes
  given to \<open>async_sendv\<close>, whether some were given without a flush since the last \<open>do_send\<close>, the
  bytes the kernel took and those delivered. \<open>sends\<close> are the results \<open>send\<close> will have.

  The commands of a callback, and the callbacks: what they do and return.\<close>

datatype cmd = Async_recv | Async_send bytes bool | Set_recv_timeout u32 | Set_send_timeout u32

record handlers =
  on_recv :: "bytes \<Rightarrow> conn \<Rightarrow> cmd list \<times> bool"
  on_send :: "nat \<Rightarrow> conn \<Rightarrow> cmd list \<times> bool"
  on_timeout :: "timer_kind \<Rightarrow> conn \<Rightarrow> cmd list \<times> bool"
  on_connect :: "bool \<Rightarrow> conn \<Rightarrow> cmd list"

text \<open>An access to the object.\<close>

definition live :: "conn \<Rightarrow> conn run" where
  "live c = (if deleted c then Some Undef else Some (Done c))"


section \<open>Interest\<close>

text \<open>\<open>epoll_ctl\<close>, whose failures the code does not look at.\<close>

definition epoll_add :: "u32 \<Rightarrow> conn \<Rightarrow> conn" where
  "epoll_add ev c = (if socket_fd c \<noteq> -1 \<and> interest c = None then c\<lparr>interest := Some ev\<rparr> else c)"

definition epoll_mod :: "u32 \<Rightarrow> conn \<Rightarrow> conn" where
  "epoll_mod ev c = (if socket_fd c \<noteq> -1 \<and> interest c \<noteq> None then c\<lparr>interest := Some ev\<rparr> else c)"

definition do_monitor_events :: "u32 \<Rightarrow> conn \<Rightarrow> conn" where
  "do_monitor_events events c =
     (let events = events OR EPOLLET OR EPOLLHUP;
          c = (if bound c then epoll_mod events c else epoll_add events c)
      in c\<lparr>bound := True, monitor_events := events\<rparr>)"


section \<open>Timeouts\<close>

definition timer_of :: "timer_kind \<Rightarrow> conn \<Rightarrow> u64" where
  "timer_of k c = (case k of Recv_timeout \<Rightarrow> recv_timer c | _ \<Rightarrow> send_timer c)"

definition set_timer_of :: "timer_kind \<Rightarrow> u64 \<Rightarrow> conn \<Rightarrow> conn" where
  "set_timer_of k i c = (case k of Recv_timeout \<Rightarrow> c\<lparr>recv_timer := i\<rparr> | _ \<Rightarrow> c\<lparr>send_timer := i\<rparr>)"

definition stop_timer :: "timer_kind \<Rightarrow> conn \<Rightarrow> conn" where
  "stop_timer k c =
     set_timer_of k 0 (c\<lparr>manager := snd (cancel_timer (timer_of k c) (manager c))\<rparr>)"

definition start_timer :: "(nat \<Rightarrow> u64) \<Rightarrow> timer_kind \<Rightarrow> u32 \<Rightarrow> conn \<Rightarrow> conn" where
  "start_timer clk k timeout c =
     (let c = stop_timer k c in
      if timeout = 0 then c
      else
        let m = snd (cancel_timer (timer_of k c) (manager c));
            (i, m) = set_timer clk (ucast timeout) k False m
        in set_timer_of k i (c\<lparr>manager := m\<rparr>))"

definition start_recv_timeout_timer :: "(nat \<Rightarrow> u64) \<Rightarrow> conn \<Rightarrow> conn" where
  "start_recv_timeout_timer clk c = start_timer clk Recv_timeout (recv_timeout c) c"

definition start_send_timeout_timer :: "(nat \<Rightarrow> u64) \<Rightarrow> conn \<Rightarrow> conn" where
  "start_send_timeout_timer clk c = start_timer clk Send_timeout (send_timeout c) c"


section \<open>Closing\<close>

definition connection_close :: "bool \<Rightarrow> conn \<Rightarrow> conn" where
  "connection_close force c =
     (let c = (if ptype c = e_connection then c\<lparr>close_calls := Suc (close_calls c)\<rparr> else c);
          c = (if socket_fd c \<noteq> -1
               then (stop_timer Send_timeout (stop_timer Recv_timeout c))
                      \<lparr>interest := None, socket_fd := -1, bound := False\<rparr>
               else c)
      in if force then c\<lparr>deleted := True\<rparr> else c)"

definition conn_close :: "(nat \<Rightarrow> u64) \<Rightarrow> conn \<Rightarrow> conn" where
  "conn_close clk c =
     (case cls c of
        Connector_class reconnect del \<Rightarrow>
          let c = connection_close (\<not> reconnect) c in
          if reconnect \<and> socket_fd c = -1
          then c\<lparr>manager := snd (set_timer clk del Reconnect False (manager c))\<rparr>
          else c
      | _ \<Rightarrow> connection_close True c)"


section \<open>Sending\<close>

datatype send_end = All_sent | Blocked | Peer_closed | Gave_up

text \<open>
  The loop over \<open>send\<close>, with the bytes not yet sent and the number of those sent; without a
  further result it has not returned. A call takes as much as the kernel has room for.
\<close>

fun send_rounds :: "send_res list \<Rightarrow> bytes \<Rightarrow> nat \<Rightarrow> (send_end \<times> nat \<times> send_res list) option" where
  "send_rounds [] data n = (if data = [] then Some (All_sent, n, []) else None)"
| "send_rounds (r # rs) data n =
     (if data = [] then Some (All_sent, n, r # rs)
      else case r of
             Room k \<Rightarrow>
               let len = min k (length data) in
               if len = 0 then Some (Peer_closed, n, rs)
               else send_rounds rs (drop len data) (n + len)
           | Send_err err \<Rightarrow>
               if err = EWOULDBLOCK \<or> err = EAGAIN then Some (Blocked, n, rs)
               else if err = ECONNRESET then Some (Peer_closed, n, rs)
               else if err = EINTR then send_rounds rs data n
               else Some (Gave_up, n, rs))"

text \<open>\<open>int len = ctx.get_buf().size()\<close>: the loop runs to that number.\<close>

definition int_size :: "bytes \<Rightarrow> int" where
  "int_size buf = signed_take_bit 31 (int (length buf))"

text \<open>The end of \<open>do_send\<close>: writability is watched for while there is something left to send.\<close>

definition watch_output :: "conn \<Rightarrow> conn" where
  "watch_output c =
     (if send_buf c \<noteq> []
      then (if monitor_events c AND EPOLLOUT \<noteq> EPOLLOUT
            then do_monitor_events (monitor_events c OR EPOLLOUT) c else c)
      else (if monitor_events c AND EPOLLOUT = EPOLLOUT
            then do_monitor_events (monitor_events c AND NOT EPOLLOUT) c else c))"

text \<open>\<open>do_send\<close>, \<open>run\<close> executing the commands of a callback.\<close>

definition do_send_by ::
    "(nat \<Rightarrow> u64) \<Rightarrow> handlers \<Rightarrow> (cmd list \<Rightarrow> conn \<Rightarrow> conn run) \<Rightarrow> conn \<Rightarrow> conn run" where
  "do_send_by clk h run c =
     rbind (live c) (\<lambda>c.
       let len = int_size (send_buf c) in
       if len = 0 then Some (Done c)
       else
         case send_rounds (sends c) (take (nat len) (send_buf c)) 0 of
           None \<Rightarrow> None
         | Some (fin, n, rs) \<Rightarrow>
             let c = c\<lparr>wire := wire c @ take n (send_buf c), sends := rs\<rparr> in
             if fin = Peer_closed then Some (Done (conn_close clk c))
             else if fin = Gave_up then Some (Done c)
             else
               let c = c\<lparr>send_buf := drop n (send_buf c), unflushed := False\<rparr> in
               rbind (if n > 0
                      then (case on_send h n c of (cs, ok) \<Rightarrow>
                              rbind (run cs c) (\<lambda>c. Some (Done (if ok then c else conn_close clk c))))
                      else Some (Done c))
                 (\<lambda>c. rbind (live c) (\<lambda>c. Some (Done (watch_output c)))))"

definition async_recv :: "(nat \<Rightarrow> u64) \<Rightarrow> conn \<Rightarrow> conn run" where
  "async_recv clk c =
     rbind (live c) (\<lambda>c.
       let c = (if monitor_events c AND EPOLLIN \<noteq> EPOLLIN
                then do_monitor_events (EPOLLIN OR monitor_events c) (c\<lparr>recv_size := 1024\<rparr>) else c)
       in Some (Done (start_recv_timeout_timer clk c)))"

definition async_sendv_by ::
    "(nat \<Rightarrow> u64) \<Rightarrow> handlers \<Rightarrow> (cmd list \<Rightarrow> conn \<Rightarrow> conn run) \<Rightarrow> bytes list \<Rightarrow> bool \<Rightarrow> conn \<Rightarrow> conn run" where
  "async_sendv_by clk h run iov flush c =
     rbind (live c) (\<lambda>c.
       let c = c\<lparr>send_buf := send_buf c @ concat iov, submitted := submitted c @ concat iov\<rparr> in
       if \<not> flush then Some (Done (c\<lparr>unflushed := True\<rparr>))
       else if monitor_events c AND EPOLLOUT \<noteq> 0 then Some (Done c)
       else do_send_by clk h run c)"

text \<open>
  The commands of a callback. A callback may send, the callback of that send again, and so on:
  the depth is bounded by fuel, and without fuel the run has no result.
\<close>

fun run_cmd ::
    "(nat \<Rightarrow> u64) \<Rightarrow> handlers \<Rightarrow> (cmd list \<Rightarrow> conn \<Rightarrow> conn run) \<Rightarrow> cmd \<Rightarrow> conn \<Rightarrow> conn run" where
  "run_cmd clk h run Async_recv c = async_recv clk c"
| "run_cmd clk h run (Async_send d flush) c = async_sendv_by clk h run [d] flush c"
| "run_cmd clk h run (Set_recv_timeout t) c = rbind (live c) (\<lambda>c. Some (Done (c\<lparr>recv_timeout := t\<rparr>)))"
| "run_cmd clk h run (Set_send_timeout t) c = rbind (live c) (\<lambda>c. Some (Done (c\<lparr>send_timeout := t\<rparr>)))"

fun run_cmds_by ::
    "(nat \<Rightarrow> u64) \<Rightarrow> handlers \<Rightarrow> (cmd list \<Rightarrow> conn \<Rightarrow> conn run) \<Rightarrow> cmd list \<Rightarrow> conn \<Rightarrow> conn run" where
  "run_cmds_by clk h run [] c = Some (Done c)"
| "run_cmds_by clk h run (x # xs) c = rbind (run_cmd clk h run x c) (run_cmds_by clk h run xs)"

fun run_cmds :: "(nat \<Rightarrow> u64) \<Rightarrow> handlers \<Rightarrow> nat \<Rightarrow> cmd list \<Rightarrow> conn \<Rightarrow> conn run" where
  "run_cmds clk h 0 cs c = (if cs = [] then Some (Done c) else None)"
| "run_cmds clk h (Suc n) cs c = run_cmds_by clk h (run_cmds clk h n) cs c"

abbreviation do_send :: "(nat \<Rightarrow> u64) \<Rightarrow> handlers \<Rightarrow> nat \<Rightarrow> conn \<Rightarrow> conn run" where
  "do_send clk h n \<equiv> do_send_by clk h (run_cmds clk h n)"

abbreviation async_sendv :: "(nat \<Rightarrow> u64) \<Rightarrow> handlers \<Rightarrow> nat \<Rightarrow> bytes list \<Rightarrow> bool \<Rightarrow> conn \<Rightarrow> conn run" where
  "async_sendv clk h n \<equiv> async_sendv_by clk h (run_cmds clk h n)"


section \<open>Receiving\<close>

text \<open>The callback for received bytes, and whether the connection goes on.\<close>

definition deliver ::
    "(nat \<Rightarrow> u64) \<Rightarrow> handlers \<Rightarrow> nat \<Rightarrow> bytes \<Rightarrow> conn \<Rightarrow> (bool \<times> conn) run" where
  "deliver clk h n bs c =
     (case on_recv h bs c of (cs, ok) \<Rightarrow>
        rbind (run_cmds clk h n cs (c\<lparr>received := received c @ [bs]\<rparr>)) (\<lambda>c. rbind (live c) (\<lambda>c.
          Some (Done (if ok then (True, c) else (False, conn_close clk c))))))"

definition recv_failed :: "(nat \<Rightarrow> u64) \<Rightarrow> errno \<Rightarrow> conn \<Rightarrow> conn run" where
  "recv_failed clk err c =
     rbind (live (if err \<noteq> EWOULDBLOCK \<and> err \<noteq> EAGAIN \<and> err \<noteq> EINTR then conn_close clk c else c))
       (\<lambda>c. Some (Done (start_recv_timeout_timer clk c)))"

text \<open>
  \<open>do_recv\<close>: full buffers are delivered in a loop, what follows them decides how it ends.
  The results of \<open>recv\<close> not used are returned.
\<close>

fun do_recv ::
    "(nat \<Rightarrow> u64) \<Rightarrow> handlers \<Rightarrow> nat \<Rightarrow> recv_res list \<Rightarrow> conn \<Rightarrow> (conn \<times> recv_res list) run" where
  "do_recv clk h n [] c = None"
| "do_recv clk h n (Recv_err err # rs) c =
     rbind (recv_failed clk err c) (\<lambda>c. Some (Done (c, rs)))"
| "do_recv clk h n (Data bs # rs) c =
     rbind (live c) (\<lambda>c.
       if length bs = recv_size c then
         rbind (deliver clk h n bs c) (\<lambda>(ok, c).
           if ok then do_recv clk h n rs c else Some (Done (c, rs)))
       else if bs \<noteq> [] then
         rbind (deliver clk h n bs c) (\<lambda>(ok, c).
           Some (Done (if ok then start_recv_timeout_timer clk c else c, rs)))
       else Some (Done (conn_close clk c, rs)))"


section \<open>Connecting\<close>

text \<open>What the system answers to the calls of \<open>async_connect\<close>.\<close>

record connect_calls =
  new_fd :: int
  sys_bind :: "address_info \<Rightarrow> bool"
  connect_sys :: connect_env

text \<open>Closing the descriptor takes it out of the interest list of the kernel.\<close>

definition close_fd :: "conn \<Rightarrow> conn" where
  "close_fd c = c\<lparr>socket_fd := -1, interest := None\<rparr>"

definition async_connect ::
    "(nat \<Rightarrow> u64) \<Rightarrow> handlers \<Rightarrow> nat \<Rightarrow> connect_calls \<Rightarrow> conn \<Rightarrow> (bool \<times> conn) run" where
  "async_connect clk h n env c =
     (let c = (close_fd c)\<lparr>ptype := e_connector, monitor_events := 0, socket_fd := new_fd env\<rparr> in
      if socket_fd c = -1 then Some (Done (False, c))
      else if \<not> sock_bind (sys_bind env) (get_address_string (bind_addr c)) then Some (Done (False, c))
      else case sock_connect (connect_sys env) (get_address_string (remote_addr c)) 0 of
             e_success \<Rightarrow>
               let c = c\<lparr>ptype := e_connection\<rparr> in
               rbind (run_cmds clk h n (on_connect h True c) c) (\<lambda>c. Some (Done (True, c)))
           | e_inprocess \<Rightarrow> Some (Done (True, do_monitor_events EPOLLOUT c))
           | _ \<Rightarrow> Some (Done (False, c)))"

text \<open>
  A timer: the callback of a timeout closes the connection when it returns \<open>false\<close>. Only a
  connector has a timer to reconnect.
\<close>

definition timer_callback ::
    "(nat \<Rightarrow> u64) \<Rightarrow> handlers \<Rightarrow> nat \<Rightarrow> connect_calls \<Rightarrow> timer_kind \<Rightarrow> conn \<Rightarrow> (bool \<times> conn) run" where
  "timer_callback clk h n env k c =
     rbind (live c) (\<lambda>c.
       if k = Reconnect then
         (case cls c of
            Connector_class _ _ \<Rightarrow> rbind (async_connect clk h n env c) (\<lambda>(ok, c). Some (Done (\<not> ok, c)))
          | _ \<Rightarrow> None)
       else
         case on_timeout h k c of (cs, ok) \<Rightarrow>
           rbind (run_cmds clk h n cs c) (\<lambda>c.
             if ok then Some (Done (True, c))
             else rbind (live c) (\<lambda>c. rbind (live (conn_close clk c)) (\<lambda>c.
                    Some (Done (False, set_timer_of k 0 c))))))"

text \<open>The first timer of the manager runs, as in the loop of \<open>do_timer\<close>.\<close>

definition run_timer ::
    "(nat \<Rightarrow> u64) \<Rightarrow> handlers \<Rightarrow> nat \<Rightarrow> connect_calls \<Rightarrow> conn \<Rightarrow> conn run" where
  "run_timer clk h n env c =
     (case queue (manager c) of
        [] \<Rightarrow> Some (Done c)
      | e # rest \<Rightarrow>
          rbind (timer_callback clk h n env (callback (snd e)) (c\<lparr>manager := (manager c)\<lparr>queue := rest\<rparr>\<rparr>))
            (\<lambda>(repeat, c).
              Some (Done (if repeat then c\<lparr>manager := snd (again clk (snd e) (manager c))\<rparr> else c))))"


section \<open>The engine\<close>

text \<open>A connection the kernel reports as ready, with the results of \<open>recv\<close>.\<close>

definition on_connector :: "(nat \<Rightarrow> u64) \<Rightarrow> handlers \<Rightarrow> nat \<Rightarrow> u32 \<Rightarrow> conn \<Rightarrow> conn run" where
  "on_connector clk h n ev c =
     (if ev AND (EPOLLERR OR EPOLLHUP) \<noteq> 0 then
        rbind (run_cmds clk h n (on_connect h False c) c) (\<lambda>c. rbind (live c) (\<lambda>c.
          Some (Done (conn_close clk c))))
      else if ev AND EPOLLOUT = EPOLLOUT then
        rbind (async_sendv clk h n [] True (c\<lparr>ptype := e_connection, monitor_events := 0\<rparr>)) (\<lambda>c.
          rbind (live c) (\<lambda>c. run_cmds clk h n (on_connect h True c) c))
      else Some (Done c))"

definition on_connection ::
    "(nat \<Rightarrow> u64) \<Rightarrow> handlers \<Rightarrow> nat \<Rightarrow> u32 \<Rightarrow> recv_res list \<Rightarrow> conn \<Rightarrow> conn run" where
  "on_connection clk h n ev rs c =
     (if ev AND (EPOLLERR OR EPOLLHUP) \<noteq> 0 then Some (Done (conn_close clk c))
      else
        rbind (if ev AND EPOLLIN \<noteq> 0
               then rbind (do_recv clk h n rs c) (\<lambda>(c, _). Some (Done c)) else Some (Done c)) (\<lambda>c.
          if ev AND EPOLLOUT \<noteq> 0 then do_send clk h n c else Some (Done c)))"

definition on_ready ::
    "(nat \<Rightarrow> u64) \<Rightarrow> handlers \<Rightarrow> nat \<Rightarrow> u32 \<Rightarrow> recv_res list \<Rightarrow> conn \<Rightarrow> conn run" where
  "on_ready clk h n ev rs c =
     rbind (live c) (\<lambda>c.
       case ptype c of
         e_connector \<Rightarrow> on_connector clk h n ev c
       | e_connection \<Rightarrow> on_connection clk h n ev rs c
       | e_acceptor \<Rightarrow> Some (Done c))"

definition no_address :: address_info where
  "no_address = \<lparr>ip = [], port = 0, v6 = False\<rparr>"

text \<open>The constructor of a connection.\<close>

definition new_conn :: "peer_class \<Rightarrow> peer_type \<Rightarrow> timer_kind timers \<Rightarrow> send_res list \<Rightarrow> conn" where
  "new_conn k t m ss =
     \<lparr>peer_name = [], cls = k, ptype = t, remote_addr = no_address, bind_addr = no_address, socket_fd = -1,
      monitor_events = 0, bound = False, recv_size = 0, send_buf = [], recv_timeout = 0, send_timeout = 0,
      recv_timer = 0, send_timer = 0, deleted = False, manager = m, close_calls = 0, interest = None,
      submitted = [], unflushed = False, wire = [], received = [], sends = ss\<rparr>"

definition add_connection ::
    "int \<Rightarrow> string \<Rightarrow> int \<Rightarrow> timer_kind timers \<Rightarrow> send_res list \<Rightarrow> conn option" where
  "add_connection epoll_fd nm fd m ss =
     (if fd = -1 \<or> epoll_fd = -1 then None
      else Some ((new_conn Connection_class e_connection m ss)\<lparr>peer_name := nm, socket_fd := fd\<rparr>))"

definition add_connector ::
    "(nat \<Rightarrow> u64) \<Rightarrow> handlers \<Rightarrow> nat \<Rightarrow> connect_calls \<Rightarrow> int \<Rightarrow> string \<Rightarrow> string \<Rightarrow> string \<Rightarrow> bool \<Rightarrow> u64
     \<Rightarrow> timer_kind timers \<Rightarrow> send_res list \<Rightarrow> (bool \<times> conn option) run" where
  "add_connector clk h n env epoll_fd nm conn_addr baddr reconnect del m ss =
     (if epoll_fd = -1 then Some (Done (False, None))
      else case parse_addr conn_addr no_address of
        (False, _) \<Rightarrow> Some (Done (False, None))
      | (True, conn_info) \<Rightarrow>
          (case parse_addr baddr no_address of
             (False, _) \<Rightarrow> Some (Done (False, None))
           | (True, bind_info) \<Rightarrow>
               let c = (new_conn (Connector_class reconnect del) e_connector m ss)
                         \<lparr>peer_name := nm, remote_addr := conn_info, bind_addr := bind_info\<rparr>
               in rbind (async_connect clk h n env c) (\<lambda>(ok, c).
                    if ok then Some (Done (True, Some c))
                    else rbind (live c) (\<lambda>c. Some (Done (False, Some (conn_close clk c)))))))"

text \<open>
  An acceptor, with the answers of the system to its calls; \<open>accepted\<close> are the descriptors and
  peers of new connections, \<open>accept_err\<close> is the error that ends the loop.
\<close>

record listen_calls =
  listen_fd :: int
  listen_bind :: "address_info \<Rightarrow> bool"
  listen_ok :: bool

definition async_listen_accept :: "listen_calls \<Rightarrow> string \<Rightarrow> conn \<Rightarrow> bool \<times> conn" where
  "async_listen_accept env addr c =
     (case parse_addr addr no_address of
        (False, _) \<Rightarrow> (False, c)
      | (True, _) \<Rightarrow>
          let c = close_fd c in
          if listen_fd env = -1 then (False, c)
          else let c = c\<lparr>socket_fd := listen_fd env\<rparr> in
            if \<not> sock_bind (listen_bind env) addr then (False, c)
            else if \<not> listen_ok env then (False, c)
            else (True, do_monitor_events EPOLLIN c))"

definition add_acceptor ::
    "(nat \<Rightarrow> u64) \<Rightarrow> listen_calls \<Rightarrow> int \<Rightarrow> string \<Rightarrow> string \<Rightarrow> timer_kind timers \<Rightarrow> bool \<times> conn option" where
  "add_acceptor clk env epoll_fd nm addr m =
     (if epoll_fd = -1 then (False, None)
      else case parse_addr addr no_address of
        (False, _) \<Rightarrow> (False, None)
      | (True, _) \<Rightarrow>
          (case async_listen_accept env addr ((new_conn Acceptor_class e_acceptor m [])\<lparr>peer_name := nm\<rparr>) of
             (False, c) \<Rightarrow> (False, Some (conn_close clk c))
           | (True, c) \<Rightarrow> (True, Some c)))"

definition accepted_conn :: "timer_kind timers \<Rightarrow> int \<times> address_info \<times> send_res list \<Rightarrow> conn" where
  "accepted_conn m a =
     (case a of (fd, addr, ss) \<Rightarrow>
        (new_conn Connection_class e_connection m ss)\<lparr>socket_fd := fd, remote_addr := addr\<rparr>)"

fun accept_rounds ::
    "(nat \<Rightarrow> u64) \<Rightarrow> (bool \<Rightarrow> conn option \<Rightarrow> bool) \<Rightarrow> errno \<Rightarrow> (int \<times> address_info \<times> send_res list) list \<Rightarrow> conn
     \<Rightarrow> conn list \<Rightarrow> (conn \<times> conn list) run" where
  "accept_rounds clk cb err [] c new =
     rbind (live c) (\<lambda>c.
       Some (Done (if err \<noteq> EWOULDBLOCK \<and> err \<noteq> EAGAIN \<and> err \<noteq> EINTR then conn_close clk c else c, new)))"
| "accept_rounds clk cb err (a # as) c new =
     rbind (live c) (\<lambda>c.
       let conn = accepted_conn (manager c) a;
           c = (if cb True (Some conn) then c else conn_close clk c)
       in accept_rounds clk cb err as c (new @ [conn]))"

definition on_accept_event ::
    "(nat \<Rightarrow> u64) \<Rightarrow> (bool \<Rightarrow> conn option \<Rightarrow> bool) \<Rightarrow> errno \<Rightarrow> (int \<times> address_info \<times> send_res list) list \<Rightarrow> u32
     \<Rightarrow> conn \<Rightarrow> (conn \<times> conn list) run" where
  "on_accept_event clk cb err as ev c =
     (if ev AND EPOLLIN \<noteq> 0 then accept_rounds clk cb err as c []
      else Some (Done (if cb False None then c else conn_close clk c, [])))"

text \<open>
  A connection in the loop of \<open>run\<close>: the application calls it, the kernel reports it, a timer
  runs. The depth of callbacks, the results of the system and the events are arbitrary.
\<close>

inductive conn_step :: "(nat \<Rightarrow> u64) \<Rightarrow> handlers \<Rightarrow> conn \<Rightarrow> conn \<Rightarrow> bool" for clk h where
  conn_call: "run_cmd clk h (run_cmds clk h n) x c = Some (Done c') \<Longrightarrow> conn_step clk h c c'"
| conn_ready: "on_ready clk h n ev rs c = Some (Done c') \<Longrightarrow> conn_step clk h c c'"
| conn_timer: "run_timer clk h n env c = Some (Done c') \<Longrightarrow> conn_step clk h c c'"
| conn_closed: "live c = Some (Done c) \<Longrightarrow> conn_step clk h c (conn_close clk c)"

inductive conn_reach :: "(nat \<Rightarrow> u64) \<Rightarrow> handlers \<Rightarrow> conn \<Rightarrow> conn \<Rightarrow> bool" for clk h c0 where
  conn_start: "conn_reach clk h c0 c0"
| conn_next: "conn_reach clk h c0 c \<Longrightarrow> conn_step clk h c c' \<Longrightarrow> conn_reach clk h c0 c'"

end
