(* ===== verification/Net_Epoll_Correct.thy ===== *)
theory Net_Epoll_Correct
  imports Net_Epoll Shine_Timer_Correct
begin

text \<open>
  Correctness of the connections: the bytes the kernel takes are those the application submitted,
  in their order and once each, whatever the callbacks do and however the sends are cut; what is
  left is watched for. No timeout of a connection outlives it, and it has one of each kind.
\<close>


section \<open>Event masks\<close>

lemma bit_EPOLLOUT: "bit EPOLLOUT n \<longleftrightarrow> n = 2"
proof -
  have *: "EPOLLOUT = push_bit 2 1" by (simp add: EPOLLOUT_def)
  show ?thesis unfolding * bit_push_bit_iff bit_1_iff by auto
qed

lemma has_EPOLLOUT: "w AND EPOLLOUT = EPOLLOUT \<longleftrightarrow> bit w 2"
proof
  assume "w AND EPOLLOUT = EPOLLOUT"
  then show "bit w 2" by (metis bit_EPOLLOUT bit_and_iff)
qed (auto simp: bit_eq_iff[of "w AND EPOLLOUT" EPOLLOUT] bit_and_iff bit_EPOLLOUT)

lemma any_EPOLLOUT: "w AND EPOLLOUT \<noteq> 0 \<longleftrightarrow> bit w 2"
  by (auto simp: bit_eq_iff[of "w AND EPOLLOUT" 0] bit_and_iff bit_EPOLLOUT)

lemma bits_of_masks [simp]: "\<not> bit EPOLLET 2" "\<not> bit EPOLLHUP 2" "\<not> bit EPOLLIN 2" "bit EPOLLOUT 2"
  by (simp_all add: EPOLLET_def EPOLLHUP_def EPOLLIN_def bit_EPOLLOUT)




lemma live_Done [simp]: "live c = Some (Done c') \<longleftrightarrow> c' = c \<and> \<not> deleted c"
  by (auto simp: live_def)


section \<open>What an operation does to a connection\<close>

text \<open>The ways \<open>do_send\<close> can end.\<close>

lemma do_send_by_cases:
  assumes eq: "do_send_by clk h run c = Some (Done c')"
  obtains (idle) "\<not> deleted c" "c' = c" "int_size (send_buf c) = 0"
  | (closed) n rs where "\<not> deleted c"
      "send_rounds (sends c) (take (nat (int_size (send_buf c))) (send_buf c)) 0 = Some (Peer_closed, n, rs)"
      "c' = conn_close clk (c\<lparr>wire := wire c @ take n (send_buf c), sends := rs\<rparr>)"
  | (gave_up) n rs where "\<not> deleted c"
      "send_rounds (sends c) (take (nat (int_size (send_buf c))) (send_buf c)) 0 = Some (Gave_up, n, rs)"
      "c' = c\<lparr>wire := wire c @ take n (send_buf c), sends := rs\<rparr>"
  | (watched) fin n rs d where "\<not> deleted c"
      "send_rounds (sends c) (take (nat (int_size (send_buf c))) (send_buf c)) 0 = Some (fin, n, rs)"
      "d = c\<lparr>wire := wire c @ take n (send_buf c), sends := rs, send_buf := drop n (send_buf c), unflushed := False\<rparr>"
      "c' = watch_output d"
  | (called) fin n rs d cs d' e where "\<not> deleted c"
      "send_rounds (sends c) (take (nat (int_size (send_buf c))) (send_buf c)) 0 = Some (fin, n, rs)"
      "d = c\<lparr>wire := wire c @ take n (send_buf c), sends := rs, send_buf := drop n (send_buf c), unflushed := False\<rparr>"
      "run cs d = Some (Done d')" "e = d' \<or> e = conn_close clk d'" "c' = watch_output e"
proof -
  have d: "\<not> deleted c" using eq by (auto simp: do_send_by_def rbind_Done_iff)
  have l: "live c = Some (Done c)" using d by simp
  let ?data = "take (nat (int_size (send_buf c))) (send_buf c)"
  show thesis
  proof (cases "int_size (send_buf c) = 0")
    case True
    then have "c' = c" using eq unfolding do_send_by_def l by simp
    show ?thesis using idle[OF d \<open>c' = c\<close> True] .
  next
    case False
    then obtain fin n rs where sr: "send_rounds (sends c) ?data 0 = Some (fin, n, rs)"
      using eq unfolding do_send_by_def l by (auto simp: Let_def split: option.splits)
    let ?c1 = "c\<lparr>wire := wire c @ take n (send_buf c), sends := rs\<rparr>"
    let ?c2 = "?c1\<lparr>send_buf := drop n (send_buf c), unflushed := False\<rparr>"
    have go: "(if fin = Peer_closed then Some (Done (conn_close clk ?c1))
        else if fin = Gave_up then Some (Done ?c1)
        else rbind (if n > 0 then (case on_send h n ?c2 of (cs, ok) \<Rightarrow>
               rbind (run cs ?c2) (\<lambda>c. Some (Done (if ok then c else conn_close clk c)))) else Some (Done ?c2))
             (\<lambda>c. rbind (live c) (\<lambda>c. Some (Done (watch_output c))))) = Some (Done c')"
      using eq False unfolding do_send_by_def l by (cases fin; cases "n > 0") (simp_all add: sr Let_def)
    consider "fin = Peer_closed" | "fin = Gave_up" | "fin \<noteq> Peer_closed" "fin \<noteq> Gave_up" by blast
    then show ?thesis
    proof cases
      case 1
      then show ?thesis using closed[OF d] sr go by simp
    next
      case 2
      then show ?thesis using gave_up[OF d] sr go by simp
    next
      case 3
      show ?thesis
      proof (cases "n > 0")
        case True
        obtain cs ok where h: "on_send h n ?c2 = (cs, ok)" by (cases "on_send h n ?c2")
        then obtain d' where "run cs ?c2 = Some (Done d')" "c' = watch_output (if ok then d' else conn_close clk d')"
          using go 3 True by (auto simp: rbind_Done_iff)
        then show ?thesis using called[OF d sr refl, of cs d' "if ok then d' else conn_close clk d'"] by simp
      next
        case False
        then show ?thesis using watched[OF d sr refl] go 3 by (simp add: rbind_Done_iff)
      qed
    qed
  qed
qed

lemma deleted_monitor: "deleted (do_monitor_events ev c) = deleted c"
  by (simp add: do_monitor_events_def epoll_mod_def epoll_add_def Let_def)

lemma deliver_live: "deliver clk h n bs c = Some (Done (True, c')) \<Longrightarrow> \<not> deleted c'"
  by (auto simp: deliver_def rbind_Done_iff split: prod.splits if_splits)

text \<open>
  A relation between the connection before and after that the single effects respect and that
  sending respects when the callbacks do: then every operation respects it.
\<close>

locale conn_ops =
  fixes clk :: "nat \<Rightarrow> u64" and h :: handlers and R :: "conn \<Rightarrow> conn \<Rightarrow> bool"
  assumes R_refl: "R c c"
    and R_trans: "R c d \<Longrightarrow> R d e \<Longrightarrow> R c e"
    and R_close: "R c (conn_close clk c)"
    and R_start: "\<not> deleted c \<Longrightarrow> R c (start_recv_timeout_timer clk c)"
    and R_watch_in: "R c (do_monitor_events (EPOLLIN OR monitor_events c) (c\<lparr>recv_size := 1024\<rparr>))"
    and R_received: "R c (c\<lparr>received := bss\<rparr>)"
    and R_timeouts: "R c (c\<lparr>recv_timeout := t\<rparr>)" "R c (c\<lparr>send_timeout := t\<rparr>)"
    and R_send: "(\<And>cs d d'. run cs d = Some (Done d') \<Longrightarrow> R d d') \<Longrightarrow>
      do_send_by clk h run c = Some (Done c') \<Longrightarrow> R c c'"
    and R_sendv: "(\<And>cs d d'. run cs d = Some (Done d') \<Longrightarrow> R d d') \<Longrightarrow>
      async_sendv_by clk h run iov flush c = Some (Done c') \<Longrightarrow> R c c'"
begin

lemma async_recv_R: "async_recv clk c = Some (Done c') \<Longrightarrow> R c c'"
  using R_trans[OF R_watch_in R_start] R_start
  by (auto simp: async_recv_def rbind_Done_iff Let_def deleted_monitor split: if_splits)

lemma run_cmd_R:
  assumes "\<And>cs d d'. run cs d = Some (Done d') \<Longrightarrow> R d d'" and "run_cmd clk h run x c = Some (Done c')"
  shows "R c c'"
proof (cases x)
  case (Async_send d flush)
  then show ?thesis using R_sendv[OF assms(1)] assms(2) by simp
qed (use assms(2) in \<open>auto simp: rbind_Done_iff async_recv_R R_timeouts\<close>)

lemma run_cmds_R: "run_cmds clk h n cs c = Some (Done c') \<Longrightarrow> R c c'"
proof (induction n arbitrary: cs c c')
  case (Suc n)
  have "run_cmds_by clk h (run_cmds clk h n) cs c = Some (Done c') \<Longrightarrow> R c c'" for cs c
  proof (induction cs arbitrary: c)
    case (Cons x cs)
    then show ?case using run_cmd_R[OF Suc.IH] R_trans by (fastforce simp: rbind_Done_iff)
  qed (simp add: R_refl)
  then show ?case using Suc.prems by simp
qed (simp add: R_refl split: if_splits)

lemma do_send_R: "do_send clk h n c = Some (Done c') \<Longrightarrow> R c c'"
  by (rule R_send[of "run_cmds clk h n"]) (rule run_cmds_R)

lemma deliver_R: "deliver clk h n bs c = Some (Done (ok, c')) \<Longrightarrow> R c c'"
  using R_trans[OF R_received run_cmds_R] R_trans[OF _ R_close]
  by (auto simp: deliver_def rbind_Done_iff split: prod.splits if_splits)

lemma do_recv_R: "do_recv clk h n rs c = Some (Done (c', rs')) \<Longrightarrow> R c c'"
proof (induction rs arbitrary: c)
  case (Cons r rs)
  show ?case
  proof (cases r)
    case (Recv_err err)
    then show ?thesis using Cons.prems R_trans[OF R_close R_start] R_start
      by (auto simp: recv_failed_def rbind_Done_iff split: if_splits)
  next
    case (Data bs)
    have "live c = Some (Done c)" using Cons.prems Data by (auto simp: rbind_Done_iff)
    then have eq: "(if length bs = recv_size c then rbind (deliver clk h n bs c) (\<lambda>(ok, c).
             if ok then do_recv clk h n rs c else Some (Done (c, rs)))
         else if bs \<noteq> [] then rbind (deliver clk h n bs c) (\<lambda>(ok, c).
             Some (Done (if ok then start_recv_timeout_timer clk c else c, rs)))
         else Some (Done (conn_close clk c, rs))) = Some (Done (c', rs'))"
      using Cons.prems unfolding Data do_recv.simps by (simp only: rbind.simps)
    show ?thesis
    proof (cases "bs = [] \<and> length bs \<noteq> recv_size c")
      case True
      then show ?thesis using eq R_close by auto
    next
      case False
      then obtain ok d where d: "deliver clk h n bs c = Some (Done (ok, d))"
        using eq by (auto simp: rbind_Done_iff split: if_splits)
      moreover have "R d c'"
        using eq d Cons.IH[of d] R_refl R_start deliver_live False by (auto split: if_splits)
      ultimately show ?thesis using R_trans[OF deliver_R] by blast
    qed
  qed
qed simp

lemma on_connection_R: "on_connection clk h n ev rs c = Some (Done c') \<Longrightarrow> R c c'"
  using R_close R_refl do_send_R R_trans[OF do_recv_R do_send_R]
  by (auto simp: on_connection_def rbind_Done_iff do_recv_R split: if_splits)

end

text \<open>A relation to which the bytes and the interest do not matter.\<close>

locale conn_plain =
  fixes clk :: "nat \<Rightarrow> u64" and h :: handlers and R :: "conn \<Rightarrow> conn \<Rightarrow> bool"
  assumes P_refl: "R c c"
    and P_trans: "R c d \<Longrightarrow> R d e \<Longrightarrow> R c e"
    and P_close: "R c (conn_close clk c)"
    and P_start: "\<not> deleted c \<Longrightarrow> R c (start_recv_timeout_timer clk c)"
    and P_monitor: "R c (do_monitor_events ev c)"
    and P_fields: "R c (c\<lparr>recv_size := j\<rparr>)" "R c (c\<lparr>received := bss\<rparr>)" "R c (c\<lparr>recv_timeout := t\<rparr>)"
      "R c (c\<lparr>send_timeout := t\<rparr>)"
    and P_sent: "R c (c\<lparr>wire := w, sends := ss\<rparr>)" "R c (c\<lparr>send_buf := b, unflushed := u\<rparr>)"
    and P_submit: "R c (c\<lparr>send_buf := b, submitted := submitted c @ x\<rparr>)" "R c (c\<lparr>unflushed := u\<rparr>)"
begin

lemma watch_output_R: "R c (watch_output c)"
  by (simp add: watch_output_def P_monitor P_refl)

lemma sent_R: "R c (c\<lparr>wire := w, sends := ss, send_buf := b, unflushed := u\<rparr>)"
  by (rule P_trans[OF P_sent(1) P_sent(2)])

lemma do_send_by_R:
  assumes "\<And>cs d d'. run cs d = Some (Done d') \<Longrightarrow> R d d'" and "do_send_by clk h run c = Some (Done c')"
  shows "R c c'"
  using assms(2)
proof (cases rule: do_send_by_cases)
  case idle
  then show ?thesis by (simp add: P_refl)
next
  case closed
  then show ?thesis using P_trans[OF P_sent(1) P_close] by simp
next
  case gave_up
  then show ?thesis by (simp add: P_sent)
next
  case watched
  then show ?thesis using P_trans[OF sent_R watch_output_R] by simp
next
  case (called fin n rs d cs d' e)
  have "R c d" unfolding called(3) by (rule sent_R)
  then have "R c d'" using P_trans assms(1)[OF called(4)] by blast
  then have "R c e" using called(5) P_trans[OF _ P_close] by blast
  then show ?thesis unfolding called(6) by (rule P_trans[OF _ watch_output_R])
qed

lemma async_sendv_by_R:
  assumes "\<And>cs d d'. run cs d = Some (Done d') \<Longrightarrow> R d d'"
    and "async_sendv_by clk h run iov flush c = Some (Done c')"
  shows "R c c'"
proof -
  let ?c = "c\<lparr>send_buf := send_buf c @ concat iov, submitted := submitted c @ concat iov\<rparr>"
  have "R ?c c'"
    using assms(2) P_submit(2)[of ?c] P_refl[of ?c] do_send_by_R[OF assms(1), where c = ?c and c' = c']
    by (auto simp: async_sendv_by_def rbind_Done_iff Let_def split: if_splits)
  then show ?thesis by (rule P_trans[OF P_submit(1)])
qed

end

sublocale conn_plain \<subseteq> conn_ops
proof
  fix c d e bss t run c' iov flush
  show "R c c" by (rule P_refl)
  show "R c d \<Longrightarrow> R d e \<Longrightarrow> R c e" by (rule P_trans)
  show "R c (conn_close clk c)" by (rule P_close)
  show "\<not> deleted c \<Longrightarrow> R c (start_recv_timeout_timer clk c)" by (rule P_start)
  show "R c (do_monitor_events (EPOLLIN OR monitor_events c) (c\<lparr>recv_size := 1024\<rparr>))"
    by (rule P_trans[OF P_fields(1) P_monitor])
  show "R c (c\<lparr>received := bss\<rparr>)" "R c (c\<lparr>recv_timeout := t\<rparr>)" "R c (c\<lparr>send_timeout := t\<rparr>)"
    by (rule P_fields)+
  show "(\<And>cs d d'. run cs d = Some (Done d') \<Longrightarrow> R d d') \<Longrightarrow> do_send_by clk h run c = Some (Done c') \<Longrightarrow> R c c'"
    by (rule do_send_by_R)
  show "(\<And>cs d d'. run cs d = Some (Done d') \<Longrightarrow> R d d') \<Longrightarrow>
      async_sendv_by clk h run iov flush c = Some (Done c') \<Longrightarrow> R c c'"
    by (rule async_sendv_by_R)
qed

text \<open>A relation also respected by timers and by connecting holds along every history.\<close>

locale conn_life = conn_ops +
  assumes R_connector: "ptype c = e_connector \<Longrightarrow> on_connector clk h n ev c = Some (Done c') \<Longrightarrow> R c c'"
    and R_timer: "run_timer clk h n env c = Some (Done c') \<Longrightarrow> R c c'"
begin

lemma on_ready_R:
  assumes "on_ready clk h n ev rs c = Some (Done c')"
  shows "R c c'"
proof -
  have l: "live c = Some (Done c)" using assms by (auto simp: on_ready_def rbind_Done_iff)
  have eq: "(case ptype c of e_connector \<Rightarrow> on_connector clk h n ev c
      | e_connection \<Rightarrow> on_connection clk h n ev rs c | e_acceptor \<Rightarrow> Some (Done c)) = Some (Done c')"
    using assms unfolding on_ready_def l rbind.simps .
  show ?thesis
  proof (cases "ptype c")
    case e_connector
    then show ?thesis using eq by (intro R_connector) simp_all
  next
    case e_connection
    then show ?thesis using eq on_connection_R by simp
  qed (use eq R_refl in simp)
qed

lemma conn_step_R: "conn_step clk h c c' \<Longrightarrow> R c c'"
proof (induction rule: conn_step.induct)
  case (conn_call n x c c')
  show ?case by (rule run_cmd_R[OF _ conn_call]) (rule run_cmds_R)
qed (auto intro: on_ready_R R_timer R_close)

lemma conn_reach_R: "conn_reach clk h c0 c \<Longrightarrow> R c0 c"
  by (induction rule: conn_reach.induct) (auto intro: R_refl R_trans conn_step_R)

end


section \<open>Fields an operation leaves alone\<close>

lemma set_timer_of_fields [simp]:
  "submitted (set_timer_of k i c) = submitted c" "manager (set_timer_of k i c) = manager c"
  "deleted (set_timer_of k i c) = deleted c" "cls (set_timer_of k i c) = cls c"
  "socket_fd (set_timer_of k i c) = socket_fd c" "ptype (set_timer_of k i c) = ptype c"
  by (simp_all add: set_timer_of_def split: timer_kind.split)

text \<open>The fields that are not about timers.\<close>

definition core :: "conn \<Rightarrow> _" where
  "core c = (cls c, ptype c, socket_fd c, monitor_events c, bound c, send_buf c, deleted c, interest c,
             submitted c, unflushed c, wire c, sends c)"

lemma core_set_timer_of [simp]: "core (set_timer_of k i c) = core c"
  by (simp add: set_timer_of_def core_def split: timer_kind.split)

lemma core_manager [simp]: "core (c\<lparr>manager := m\<rparr>) = core c"
  and core_recv_size [simp]: "core (c\<lparr>recv_size := j\<rparr>) = core c"
  and core_received [simp]: "core (c\<lparr>received := bss\<rparr>) = core c"
  and core_timeouts [simp]: "core (c\<lparr>recv_timeout := t\<rparr>) = core c" "core (c\<lparr>send_timeout := t\<rparr>) = core c"
  and core_closes [simp]: "core (c\<lparr>close_calls := j\<rparr>) = core c"
  by (simp_all add: core_def)

lemma core_stop_timer [simp]: "core (stop_timer k c) = core c"
  by (simp add: stop_timer_def)

lemma stop_timer_fields [simp]:
  "deleted (stop_timer k c) = deleted c" "cls (stop_timer k c) = cls c" "ptype (stop_timer k c) = ptype c"
  "sends (stop_timer k c) = sends c" "submitted (stop_timer k c) = submitted c" "wire (stop_timer k c) = wire c"
  using core_stop_timer[of k c] unfolding core_def by simp_all

lemma core_start_timer [simp]: "core (start_timer clk k t c) = core c"
  by (simp add: start_timer_def Let_def split: prod.split)

lemma core_start_recv [simp]: "core (start_recv_timeout_timer clk c) = core c"
  by (simp add: start_recv_timeout_timer_def)

lemma connection_close_fields:
  "deleted (connection_close True c)" "cls (connection_close force c) = cls c"
  "ptype (connection_close force c) = ptype c" "sends (connection_close force c) = sends c"
  "submitted (connection_close force c) = submitted c" "wire (connection_close force c) = wire c"
  by (simp_all add: connection_close_def Let_def)

lemma submitted_close [simp]: "submitted (conn_close clk c) = submitted c"
  by (simp add: conn_close_def connection_close_fields Let_def split: peer_class.split)

lemma monitor_fields [simp]:
  "submitted (do_monitor_events ev c) = submitted c" "wire (do_monitor_events ev c) = wire c"
  "send_buf (do_monitor_events ev c) = send_buf c" "sends (do_monitor_events ev c) = sends c"
  "cls (do_monitor_events ev c) = cls c" "ptype (do_monitor_events ev c) = ptype c"
  "deleted (do_monitor_events ev c) = deleted c" "unflushed (do_monitor_events ev c) = unflushed c"
  "socket_fd (do_monitor_events ev c) = socket_fd c" "bound (do_monitor_events ev c)"
  "monitor_events (do_monitor_events ev c) = ev OR EPOLLET OR EPOLLHUP"
  by (simp_all add: do_monitor_events_def epoll_mod_def epoll_add_def Let_def)


section \<open>Histories grow\<close>

text \<open>The bytes submitted and the readings of the clock.\<close>

definition grows :: "conn \<Rightarrow> conn \<Rightarrow> bool" where
  "grows c c' \<longleftrightarrow> length (submitted c) \<le> length (submitted c') \<and> reads (manager c) \<le> reads (manager c')"

lemma grows_trans: "grows c d \<Longrightarrow> grows d e \<Longrightarrow> grows c e"
  by (simp add: grows_def)

lemma reads_set_timer: "reads m \<le> reads (snd (set_timer clk d cb rel m))"
  by (simp add: set_timer_def get_timestamp_def Let_def)

lemma reads_cancel_timer [simp]: "reads (snd (cancel_timer i m)) = reads m"
  by (simp add: cancel_timer_def split: option.split)

lemma submitted_start_timer [simp]: "submitted (start_timer clk k t c) = submitted c"
  using core_start_timer[of clk k t c] by (simp add: core_def del: core_start_timer)

lemma manager_stop_timer: "manager (stop_timer k c) = snd (cancel_timer (timer_of k c) (manager c))"
  by (simp add: stop_timer_def)

lemma grows_start_timer: "grows c (start_timer clk k t c)"
proof (cases "t = 0")
  case True
  then show ?thesis by (simp add: grows_def start_timer_def manager_stop_timer)
next
  case False
  let ?c = "stop_timer k c"
  let ?m = "snd (cancel_timer (timer_of k ?c) (manager ?c))"
  have "manager (start_timer clk k t c) = snd (set_timer clk (ucast t) k False ?m)"
    using False by (simp add: start_timer_def Let_def split: prod.split)
  then show ?thesis
    using reads_set_timer[of ?m clk "ucast t" k False] by (simp add: grows_def manager_stop_timer)
qed

lemma grows_close: "grows c (conn_close clk c)"
proof -
  have "grows c (connection_close force c)" for force
    by (simp add: grows_def connection_close_def Let_def manager_stop_timer)
  moreover have "grows d (d\<lparr>manager := snd (set_timer clk del Reconnect False (manager d))\<rparr>)" for d del
    using reads_set_timer by (simp add: grows_def)
  ultimately show ?thesis
    unfolding conn_close_def Let_def by (auto split: peer_class.split intro: grows_trans)
qed

lemma manager_monitor [simp]: "manager (do_monitor_events ev c) = manager c"
  by (simp add: do_monitor_events_def epoll_mod_def epoll_add_def Let_def)

interpretation grow: conn_plain clk h grows for clk h
proof
  show "grows c d \<Longrightarrow> grows d e \<Longrightarrow> grows c e" for c d e by (rule grows_trans)
  show "grows c (conn_close clk c)" for c by (rule grows_close)
  show "grows c (start_recv_timeout_timer clk c)" for c
    unfolding start_recv_timeout_timer_def by (rule grows_start_timer)
qed (simp_all add: grows_def)

lemma grows_async_connect:
  assumes "async_connect clk h n env c = Some (Done (ok, c'))"
  shows "grows c c'"
proof -
  let ?c = "(close_fd c)\<lparr>ptype := e_connector, monitor_events := 0, socket_fd := new_fd env\<rparr>"
  consider "c' = ?c" | "c' = do_monitor_events EPOLLOUT ?c"
    | "run_cmds clk h n (on_connect h True (?c\<lparr>ptype := e_connection\<rparr>)) (?c\<lparr>ptype := e_connection\<rparr>) = Some (Done c')"
    using assms by (auto simp: async_connect_def Let_def rbind_Done_iff split: if_splits connect_error.splits)
  then show ?thesis
  proof cases
    case 3
    then have "grows (?c\<lparr>ptype := e_connection\<rparr>) c'" by (rule grow.run_cmds_R)
    then show ?thesis by (simp add: grows_def close_fd_def)
  qed (simp_all add: grows_def close_fd_def)
qed

lemma grows_timer_callback:
  assumes "timer_callback clk h n env k c = Some (Done (rep, c'))"
  shows "grows c c'"
proof (cases "k = Reconnect")
  case True
  then show ?thesis
    using assms grows_async_connect by (auto simp: timer_callback_def rbind_Done_iff split: peer_class.splits)
next
  case False
  obtain cs b where h: "on_timeout h k c = (cs, b)" by (cases "on_timeout h k c")
  with False assms obtain d where "run_cmds clk h n cs c = Some (Done d)"
    and "c' = d \<or> c' = set_timer_of k 0 (conn_close clk d)"
    by (auto simp: timer_callback_def rbind_Done_iff split: if_splits)
  then show ?thesis
    using grow.run_cmds_R grows_trans[OF _ grows_close[of d clk]] by (auto simp: grows_def)
qed

lemma grows_run_timer:
  assumes "run_timer clk h n env c = Some (Done c')"
  shows "grows c c'"
proof (cases "queue (manager c)")
  case Nil
  then show ?thesis using assms by (simp add: run_timer_def grows_def)
next
  case (Cons e rest)
  let ?c = "c\<lparr>manager := (manager c)\<lparr>queue := rest\<rparr>\<rparr>"
  obtain rep d where "timer_callback clk h n env (callback (snd e)) ?c = Some (Done (rep, d))"
    and "c' = (if rep then d\<lparr>manager := snd (again clk (snd e) (manager d))\<rparr> else d)"
    using assms Cons by (auto simp: run_timer_def rbind_Done_iff)
  moreover have "grows d (d\<lparr>manager := snd (again clk (snd e) (manager d))\<rparr>)" for d
    by (simp add: grows_def again_def get_timestamp_def Let_def)
  moreover have "grows c ?c" by (simp add: grows_def)
  ultimately show ?thesis
    using grows_trans[OF \<open>grows c ?c\<close>] grows_trans[OF grows_timer_callback] grows_timer_callback
    by (cases rep) auto
qed

lemma grows_on_connector:
  assumes "on_connector clk h n ev c = Some (Done c')"
  shows "grows c c'"
proof -
  let ?c = "c\<lparr>ptype := e_connection, monitor_events := 0\<rparr>"
  have cc: "grows c ?c" by (simp add: grows_def)
  have send: "grows ?c d" if "async_sendv clk h n [] True ?c = Some (Done d)" for d
    by (rule grow.R_sendv[OF _ that]) (rule grow.run_cmds_R)
  consider d where "run_cmds clk h n (on_connect h False c) c = Some (Done d)" "c' = conn_close clk d"
    | d where "async_sendv clk h n [] True ?c = Some (Done d)" "run_cmds clk h n (on_connect h True d) d = Some (Done c')"
    | "c' = c"
    using assms unfolding on_connector_def by (auto simp only: rbind_Done_iff live_Done split: if_splits)
  then show ?thesis
  proof cases
    case 1
    then show ?thesis using grows_trans[OF grow.run_cmds_R grows_close] by blast
  next
    case 2
    then show ?thesis using grows_trans[OF cc grows_trans[OF send grow.run_cmds_R]] by blast
  qed (simp add: grows_def)
qed

interpretation growth: conn_life clk h grows for clk h
  by unfold_locales (auto intro: grows_on_connector grows_run_timer)


section \<open>The stream of bytes\<close>

text \<open>The errors of \<open>send\<close> after which the code knows what to do.\<close>

fun known_error :: "send_res \<Rightarrow> bool" where
  "known_error (Room n) \<longleftrightarrow> True"
| "known_error (Send_err err) \<longleftrightarrow> err \<in> {EWOULDBLOCK, EAGAIN, EINTR, ECONNRESET}"

text \<open>
  What has been sent is the beginning of what was submitted; for a live connection the buffer is
  the rest of it, and its interest is the one the kernel has.
\<close>

definition stream_ok :: "conn \<Rightarrow> bool" where
  "stream_ok c \<longleftrightarrow>
     cls c = Connection_class \<and> ptype c = e_connection \<and> list_all known_error (sends c)
     \<and> prefix (wire c) (submitted c)
     \<and> (\<not> deleted c \<longrightarrow> wire c @ send_buf c = submitted c \<and> socket_fd c \<noteq> -1
         \<and> (if bound c then interest c = Some (monitor_events c) else interest c = None \<and> monitor_events c = 0))"

text \<open>What is left in the buffer is watched for, unless the application has not asked for it.\<close>

definition armed :: "conn \<Rightarrow> bool" where
  "armed c \<longleftrightarrow> deleted c \<or> send_buf c = [] \<or> unflushed c \<or> bit (monitor_events c) 2"

text \<open>Sizes are those of an \<open>int\<close>.\<close>

definition small :: "conn \<Rightarrow> bool" where
  "small c \<longleftrightarrow> length (submitted c) < 2 ^ 31"

text \<open>The relation between the connection before and after an operation.\<close>

definition keeps :: "conn \<Rightarrow> conn \<Rightarrow> bool" where
  "keeps c c' \<longleftrightarrow> length (submitted c) \<le> length (submitted c')
     \<and> (small c' \<longrightarrow> stream_ok c \<longrightarrow> stream_ok c' \<and> (armed c \<longrightarrow> armed c'))"

lemma keeps_refl [simp]: "keeps c c"
  by (simp add: keeps_def)

lemma keeps_trans [trans]: "keeps a b \<Longrightarrow> keeps b c \<Longrightarrow> keeps a c"
  by (auto simp: keeps_def small_def)

lemma core_keeps: "core c' = core c \<Longrightarrow> keeps c c'"
  by (simp add: core_def keeps_def stream_ok_def armed_def)

lemma keeps_close: "keeps c (conn_close clk c)"
  by (simp add: keeps_def) (simp add: stream_ok_def armed_def conn_close_def connection_close_fields)

lemma stream_ok_monitor: "stream_ok c \<Longrightarrow> stream_ok (do_monitor_events ev c)"
  by (auto simp: stream_ok_def do_monitor_events_def epoll_mod_def epoll_add_def Let_def)

lemma keeps_monitor:
  assumes "bit (monitor_events c) 2 \<longrightarrow> bit ev 2"
  shows "keeps c (do_monitor_events ev c)"
  using assms by (auto simp: keeps_def stream_ok_monitor armed_def bit_or_iff)

lemma watch_output_ok: "stream_ok c \<Longrightarrow> stream_ok (watch_output c)"
  "armed (watch_output c)" "submitted (watch_output c) = submitted c"
  by (auto simp: watch_output_def stream_ok_monitor armed_def has_EPOLLOUT bit_or_iff)

lemma send_rounds_ok:
  "send_rounds rs data n = Some (fin, m, rs') \<Longrightarrow>
     n \<le> m \<and> m \<le> n + length data
     \<and> (list_all known_error rs \<longrightarrow> list_all known_error rs' \<and> fin \<noteq> Gave_up)"
proof (induction rs data n rule: send_rounds.induct)
  case (2 r rs data n)
  show ?case
  proof (cases r)
    case (Room k)
    then show ?thesis using 2 by (fastforce simp: Let_def split: if_splits)
  next
    case (Send_err err)
    then show ?thesis using 2 by (cases err) (auto split: if_splits)
  qed
qed (auto split: if_splits)

lemma int_size_small: "length buf < 2 ^ 31 \<Longrightarrow> int_size buf = int (length buf)"
  unfolding int_size_def by (rule signed_take_bit_int_eq_self) auto

lemma sent_ok:
  assumes "stream_ok c" and "\<not> deleted c" and "small c"
    and "send_rounds (sends c) (take (nat (int_size (send_buf c))) (send_buf c)) 0 = Some (fin, n, rs)"
  shows "stream_ok (c\<lparr>wire := wire c @ take n (send_buf c), sends := rs, send_buf := drop n (send_buf c), unflushed := False\<rparr>)"
    and "stream_ok (conn_close clk (c\<lparr>wire := wire c @ take n (send_buf c), sends := rs\<rparr>))"
    and "fin \<noteq> Gave_up"
proof -
  have l: "length (send_buf c) \<le> length (submitted c)"
    using assms(1,2) by (auto simp: stream_ok_def dest!: arg_cong[of _ _ length])
  then have i: "int_size (send_buf c) = int (length (send_buf c))"
    using assms(3) by (intro int_size_small) (simp add: small_def)
  have r: "list_all known_error rs" "fin \<noteq> Gave_up"
    using send_rounds_ok[OF assms(4)] assms(1) by (simp_all add: stream_ok_def)
  have s: "submitted c = wire c @ take n (send_buf c) @ drop n (send_buf c)"
    using assms(1,2) by (simp add: stream_ok_def)
  have p: "prefix (wire c @ take n (send_buf c)) (submitted c)"
    unfolding s by (rule prefixI[of _ _ "drop n (send_buf c)"]) simp
  show "stream_ok (c\<lparr>wire := wire c @ take n (send_buf c), sends := rs, send_buf := drop n (send_buf c), unflushed := False\<rparr>)"
    using assms(1,2) r s p by (auto simp: stream_ok_def)
  show "stream_ok (conn_close clk (c\<lparr>wire := wire c @ take n (send_buf c), sends := rs\<rparr>))"
    using assms(1) r p by (simp add: stream_ok_def conn_close_def connection_close_fields)
  show "fin \<noteq> Gave_up" by (rule r)
qed

lemma armed_deleted: "deleted c \<Longrightarrow> armed c"
  by (simp add: armed_def)

lemma deleted_close: "cls c = Connection_class \<Longrightarrow> deleted (conn_close clk c)"
  by (simp add: conn_close_def connection_close_fields)


text \<open>When the callbacks keep the invariant, \<open>do_send\<close> keeps it and arms.\<close>

lemma do_send_by_keeps:
  assumes run: "\<And>cs c c'. run cs c = Some (Done c') \<Longrightarrow> keeps c c'"
    and eq: "do_send_by clk h run c = Some (Done c')"
  shows "keeps c c' \<and> (small c' \<longrightarrow> stream_ok c \<longrightarrow> armed c')"
  using eq
proof (cases rule: do_send_by_cases)
  case idle
  have "armed c" if "small c" "stream_ok c"
  proof -
    have "length (send_buf c) \<le> length (submitted c)"
      using that(2) idle(1) by (auto simp: stream_ok_def dest!: arg_cong[of _ _ length])
    then have "int_size (send_buf c) = int (length (send_buf c))"
      using that(1) by (intro int_size_small) (simp add: small_def)
    then show ?thesis using idle(3) by (simp add: armed_def)
  qed
  then show ?thesis using idle(2) by simp
next
  case (closed n rs)
  have "armed c'" if "stream_ok c"
    using that closed(3) by (intro armed_deleted) (simp add: deleted_close stream_ok_def)
  then show ?thesis using closed(3) sent_ok(2)[OF _ closed(1) _ closed(2)] by (simp add: keeps_def small_def)
next
  case (gave_up n rs)
  then show ?thesis using sent_ok(3)[OF _ gave_up(1) _ gave_up(2)] by (auto simp: keeps_def small_def)
next
  case (watched fin n rs d)
  then show ?thesis
    using sent_ok(1)[OF _ watched(1) _ watched(2)] by (simp add: keeps_def small_def watch_output_ok)
next
  case (called fin n rs d cs d' e)
  have "keeps d e" using run[OF called(4)] called(5) keeps_trans[OF _ keeps_close] by blast
  then have k: "length (submitted d) \<le> length (submitted e)" "small e \<longrightarrow> stream_ok d \<longrightarrow> stream_ok e"
    by (simp_all add: keeps_def)
  have sub: "submitted d = submitted c" "submitted c' = submitted e"
    by (simp_all add: called(3,6) watch_output_ok)
  have "stream_ok c'" if "small c'" "stream_ok c"
  proof -
    have "small e" "small c" using that(1) k(1) sub by (simp_all add: small_def)
    then have "stream_ok d" unfolding called(3) by (intro sent_ok(1)[OF that(2) called(1) _ called(2)])
    then show ?thesis unfolding called(6) using k(2) \<open>small e\<close> by (simp add: watch_output_ok)
  qed
  then show ?thesis using k(1) sub by (simp add: keeps_def called(6) watch_output_ok)
qed

lemma stream_ok_unflushed: "stream_ok (c\<lparr>unflushed := b\<rparr>) = stream_ok c"
  by (simp add: stream_ok_def)

lemma async_sendv_keeps:
  assumes run: "\<And>cs c c'. run cs c = Some (Done c') \<Longrightarrow> keeps c c'"
    and "async_sendv_by clk h run iov flush c = Some (Done c')"
  shows "keeps c c'"
proof -
  let ?c = "c\<lparr>send_buf := send_buf c @ concat iov, submitted := submitted c @ concat iov\<rparr>"
  have d: "\<not> deleted c" using assms(2) by (auto simp: async_sendv_by_def rbind_Done_iff)
  have s: "stream_ok ?c" if "stream_ok c"
  proof -
    have "prefix (wire c) (submitted c @ concat iov)" using that by (simp add: stream_ok_def prefix_append)
    then show ?thesis using that d by (simp add: stream_ok_def flip: append_assoc)
  qed
  consider "\<not> flush" "c' = ?c\<lparr>unflushed := True\<rparr>" | "flush" "bit (monitor_events c) 2" "c' = ?c"
    | "do_send_by clk h run ?c = Some (Done c')"
  proof -
    have l: "live c = Some (Done c)" using d by simp
    have eq: "(if \<not> flush then Some (Done (?c\<lparr>unflushed := True\<rparr>))
        else if monitor_events ?c AND EPOLLOUT \<noteq> 0 then Some (Done ?c) else do_send_by clk h run ?c) = Some (Done c')"
      using assms(2) unfolding async_sendv_by_def l rbind.simps Let_def .
    show thesis
    proof (cases flush)
      case False
      then show ?thesis using that(1) eq by simp
    next
      case True
      then show ?thesis
        using that(2,3) eq any_EPOLLOUT[of "monitor_events c"]
        by (cases "monitor_events c AND EPOLLOUT \<noteq> 0") simp_all
    qed
  qed
  then show ?thesis
  proof cases
    case 1
    have "stream_ok c'" if "stream_ok c" using s[OF that] by (simp only: 1(2) stream_ok_unflushed)
    then show ?thesis using 1 by (simp add: keeps_def armed_def)
  next
    case 2
    then show ?thesis using s by (simp add: keeps_def armed_def)
  next
    case 3
    have "keeps ?c c' \<and> (small c' \<longrightarrow> stream_ok ?c \<longrightarrow> armed c')" using do_send_by_keeps[OF run 3] .
    then show ?thesis using s by (simp add: keeps_def)
  qed
qed

lemma timer_callback_keeps:
  assumes "\<And>n cs c c'. run_cmds clk h n cs c = Some (Done c') \<Longrightarrow> keeps c c'"
    and "timer_callback clk h n env k c = Some (Done (rep, c'))"
  shows "keeps c c'"
proof (cases "k = Reconnect")
  case True
  then obtain rc del where "cls c = Connector_class rc del"
    using assms(2) by (auto simp: timer_callback_def rbind_Done_iff split: peer_class.splits)
  then show ?thesis using grows_timer_callback[OF assms(2)] by (simp add: keeps_def grows_def stream_ok_def)
next
  case False
  obtain cs b where h: "on_timeout h k c = (cs, b)" by (cases "on_timeout h k c")
  with False assms(2) obtain d where "run_cmds clk h n cs c = Some (Done d)"
    and "c' = d \<or> c' = set_timer_of k 0 (conn_close clk d)"
    by (auto simp: timer_callback_def rbind_Done_iff split: if_splits)
  moreover have "keeps d (set_timer_of k 0 (conn_close clk d))"
    by (rule keeps_trans[OF keeps_close core_keeps]) simp
  ultimately show ?thesis using assms(1) keeps_trans by blast
qed

lemma run_timer_keeps_by:
  assumes "\<And>n cs c c'. run_cmds clk h n cs c = Some (Done c') \<Longrightarrow> keeps c c'"
    and "run_timer clk h n env c = Some (Done c')"
  shows "keeps c c'"
proof (cases "queue (manager c)")
  case Nil
  then show ?thesis using assms(2) by (simp add: run_timer_def)
next
  case (Cons e rest)
  let ?c = "c\<lparr>manager := (manager c)\<lparr>queue := rest\<rparr>\<rparr>"
  obtain rep d where "timer_callback clk h n env (callback (snd e)) ?c = Some (Done (rep, d))" and "core c' = core d"
    using assms(2) Cons by (auto simp: run_timer_def rbind_Done_iff split: if_splits)
  then show ?thesis
    using keeps_trans[OF core_keeps[of ?c c] keeps_trans[OF timer_callback_keeps[OF assms(1)] core_keeps]] by simp
qed

interpretation stream_ops: conn_ops clk h keeps for clk h
proof
  fix c d e bss t run c' iov flush
  show "keeps c c" by simp
  show "keeps c d \<Longrightarrow> keeps d e \<Longrightarrow> keeps c e" by (rule keeps_trans)
  show "keeps c (conn_close clk c)" by (rule keeps_close)
  show "keeps c (start_recv_timeout_timer clk c)" "keeps c (c\<lparr>received := bss\<rparr>)"
    "keeps c (c\<lparr>recv_timeout := t\<rparr>)" "keeps c (c\<lparr>send_timeout := t\<rparr>)" by (rule core_keeps, simp)+
  let ?c = "c\<lparr>recv_size := 1024\<rparr>"
  show "keeps c (do_monitor_events (EPOLLIN OR monitor_events c) ?c)"
    using keeps_trans[OF core_keeps[of ?c c] keeps_monitor[of ?c]] by (simp add: bit_or_iff)
  show "(\<And>cs d d'. run cs d = Some (Done d') \<Longrightarrow> keeps d d') \<Longrightarrow>
      do_send_by clk h run c = Some (Done c') \<Longrightarrow> keeps c c'" using do_send_by_keeps by blast
  show "(\<And>cs d d'. run cs d = Some (Done d') \<Longrightarrow> keeps d d') \<Longrightarrow>
      async_sendv_by clk h run iov flush c = Some (Done c') \<Longrightarrow> keeps c c'" by (rule async_sendv_keeps)
qed

interpretation stream: conn_life clk h keeps for clk h
proof
  fix c c' n ev env
  show "ptype c = e_connector \<Longrightarrow> on_connector clk h n ev c = Some (Done c') \<Longrightarrow> keeps c c'"
    using grows_on_connector[of clk h n ev c c'] by (simp add: keeps_def grows_def stream_ok_def)
  show "run_timer clk h n env c = Some (Done c') \<Longrightarrow> keeps c c'"
    by (rule run_timer_keeps_by[OF stream_ops.run_cmds_R])
qed

lemma new_connection_ok:
  assumes "add_connection efd nm fd m ss = Some c0 \<or> fd \<noteq> -1 \<and> c0 = accepted_conn m (fd, addr, ss)"
    and "list_all known_error ss"
  shows "stream_ok c0" and "armed c0"
  using assms
  by (auto simp: add_connection_def accepted_conn_def new_conn_def stream_ok_def armed_def split: if_splits)


text \<open>A connection that echoes, and whose peer takes three bytes in two pieces.\<close>

definition echo :: handlers where
  "echo = \<lparr>on_recv = (\<lambda>bs c. ([Async_send bs True], True)), on_send = (\<lambda>n c. ([], True)),
           on_timeout = (\<lambda>k c. ([], False)), on_connect = (\<lambda>b c. [])\<rparr>"

definition echo_start :: conn where
  "echo_start = accepted_conn \<lparr>queue = [], last_id = 0, reads = 0\<rparr>
     (5, no_address, [Room 2, Send_err EAGAIN, Send_err EINTR, Room 9])"

definition echo_events :: "conn \<Rightarrow> conn run" where
  "echo_events c =
     rbind (run_cmd (\<lambda>n. 0) echo (run_cmds (\<lambda>n. 0) echo 0) Async_recv c) (\<lambda>c.
       on_ready (\<lambda>n. 0) echo 1 EPOLLIN [Data [1, 2, 3]] c)"

lemma echo_half:
  "case echo_events echo_start of
     Some (Done c) \<Rightarrow> wire c = [1, 2] \<and> send_buf c = [3] \<and> length (submitted c) = 3 \<and> \<not> unflushed c \<and> \<not> deleted c
   | _ \<Rightarrow> False"
  by code_simp


end
