(* ===== verification/Net_Timeouts.thy ===== *)
theory Net_Timeouts
  imports Net_Epoll_Correct
begin

text \<open>
  The timeouts of a connection: a live connection has at most one timer of each kind in the
  manager, the one whose id it holds, and a connection that is gone has none. Timeout callbacks
  are those that only decide; one that starts a timer and asks to be repeated leaves a timer
  behind (\<open>timeout_left_behind\<close>).
\<close>

definition quiet :: "handlers \<Rightarrow> bool" where
  "quiet h \<longleftrightarrow> (\<forall>k c. fst (on_timeout h k c) = [])"

definition ids :: "timer_kind timers \<Rightarrow> u64 list" where
  "ids m = map (\<lambda>e. t_id (snd e)) (queue m)"

definition timeouts_ok :: "conn \<Rightarrow> bool" where
  "timeouts_ok c \<longleftrightarrow> cls c = Connection_class \<and> ptype c = e_connection \<and> (deleted c \<or> socket_fd c \<noteq> -1)
     \<and> (\<forall>e\<in>set (queue (manager c)). \<not> deleted c \<and> callback (snd e) \<noteq> Reconnect
          \<and> t_id (snd e) = timer_of (callback (snd e)) c \<and> t_id (snd e) \<noteq> 0)
     \<and> distinct (ids (manager c))
     \<and> (recv_timer c = send_timer c \<longrightarrow> recv_timer c = 0)
     \<and> recv_timer c \<le> last_id (manager c) \<and> send_timer c \<le> last_id (manager c)
     \<and> unat (last_id (manager c)) \<le> reads (manager c)"

text \<open>The fields the invariant is about.\<close>

definition tcore :: "conn \<Rightarrow> _" where
  "tcore c = (cls c, ptype c, deleted c, socket_fd c, manager c, recv_timer c, send_timer c)"

lemma tcore_timer_of: "tcore c' = tcore c \<Longrightarrow> timer_of k c' = timer_of k c"
  by (simp add: tcore_def timer_of_def split: timer_kind.split)

lemma tcore_ok: "tcore c' = tcore c \<Longrightarrow> timeouts_ok c' = timeouts_ok c"
  using tcore_timer_of[of c' c] by (simp add: timeouts_ok_def tcore_def)

lemma erase_id_ids:
  "distinct (map (\<lambda>e. t_id (snd e)) q) \<Longrightarrow>
   (case erase_id i q of
      None \<Rightarrow> \<forall>e\<in>set q. t_id (snd e) \<noteq> i
    | Some q' \<Rightarrow> set q' = {e \<in> set q. t_id (snd e) \<noteq> i} \<and> distinct (map (\<lambda>e. t_id (snd e)) q'))"
proof (induction q)
  case (Cons e q)
  show ?case
  proof (cases "i = t_id (snd e)")
    case True
    have "t_id (snd e) \<notin> (\<lambda>e. t_id (snd e)) ` set q" using Cons.prems by simp
    then have "\<forall>x\<in>set q. t_id (snd x) \<noteq> i" using True by (metis (mono_tags, lifting) image_eqI)
    then show ?thesis using True Cons.prems by auto
  next
    case False
    then show ?thesis using Cons by (cases "erase_id i q") (auto simp: image_iff)
  qed
qed simp

lemma cancel_timer_ids:
  assumes "distinct (ids m)" and "\<forall>e\<in>set (queue m). t_id (snd e) \<noteq> 0"
  shows "set (queue (snd (cancel_timer i m))) = {e \<in> set (queue m). t_id (snd e) \<noteq> i}
    \<and> distinct (ids (snd (cancel_timer i m))) \<and> last_id (snd (cancel_timer i m)) = last_id m"
  using assms erase_id_ids[of "queue m" i]
  by (auto simp: cancel_timer_def ids_def split: option.splits)

lemma set_timer_of_ids:
  "timer_of j (set_timer_of k i c) = (if (j = Recv_timeout) = (k = Recv_timeout) then i else timer_of j c)"
  by (cases j; cases k) (simp_all add: timer_of_def set_timer_of_def)

lemma timer_of_manager [simp]: "timer_of j (c\<lparr>manager := m\<rparr>) = timer_of j c"
  by (simp add: timer_of_def split: timer_kind.split)

lemma recv_send_of:
  "recv_timer c = timer_of Recv_timeout c" "send_timer c = timer_of Send_timeout c"
  by (simp_all add: timer_of_def)

lemma stop_timer_ok:
  assumes ok: "timeouts_ok c" and k: "k \<noteq> Reconnect"
  shows "timeouts_ok (stop_timer k c) \<and> (\<forall>e\<in>set (queue (manager (stop_timer k c))). callback (snd e) \<noteq> k)
    \<and> timer_of k (stop_timer k c) = 0 \<and> socket_fd (stop_timer k c) = socket_fd c"
proof -
  let ?m = "snd (cancel_timer (timer_of k c) (manager c))"
  have m: "set (queue ?m) = {e \<in> set (queue (manager c)). t_id (snd e) \<noteq> timer_of k c}"
    "distinct (ids ?m)" "last_id ?m = last_id (manager c)" "reads ?m = reads (manager c)"
  proof -
    have "distinct (ids (manager c))" "\<forall>e\<in>set (queue (manager c)). t_id (snd e) \<noteq> 0"
      using ok unfolding timeouts_ok_def by blast+
    note c = cancel_timer_ids[OF this, of "timer_of k c"]
    show "set (queue ?m) = {e \<in> set (queue (manager c)). t_id (snd e) \<noteq> timer_of k c}"
      "distinct (ids ?m)" "last_id ?m = last_id (manager c)" "reads ?m = reads (manager c)"
      using c by simp_all
  qed
  have s: "stop_timer k c = set_timer_of k 0 (c\<lparr>manager := ?m\<rparr>)" by (simp add: stop_timer_def)
  have other: "callback (snd e) \<noteq> k" if "e \<in> set (queue ?m)" for e
    using that m(1) ok by (auto simp: timeouts_ok_def)
  have same: "((callback (snd e) = Recv_timeout) = (k = Recv_timeout)) = (callback (snd e) = k)"
    if "e \<in> set (queue ?m)" for e
    using that m(1) ok k by (cases k; cases "callback (snd e)") (auto simp: timeouts_ok_def)
  have entries: "\<not> deleted c \<and> callback (snd e) \<noteq> Reconnect
      \<and> t_id (snd e) = timer_of (callback (snd e)) (set_timer_of k 0 (c\<lparr>manager := ?m\<rparr>)) \<and> t_id (snd e) \<noteq> 0"
    if "e \<in> set (queue ?m)" for e
  proof -
    have "e \<in> set (queue (manager c))" using that m(1) by blast
    then have "\<not> deleted c \<and> callback (snd e) \<noteq> Reconnect \<and> t_id (snd e) = timer_of (callback (snd e)) c \<and> t_id (snd e) \<noteq> 0"
      using ok unfolding timeouts_ok_def by blast
    then show ?thesis using same[OF that] other[OF that] by (auto simp: set_timer_of_ids)
  qed
  have base: "cls c = Connection_class \<and> ptype c = e_connection" "deleted c \<or> socket_fd c \<noteq> -1"
    "timer_of Recv_timeout c = timer_of Send_timeout c \<longrightarrow> timer_of Recv_timeout c = 0"
    "timer_of Recv_timeout c \<le> last_id (manager c)" "timer_of Send_timeout c \<le> last_id (manager c)"
    "unat (last_id (manager c)) \<le> reads (manager c)"
    using ok unfolding timeouts_ok_def recv_send_of by blast+
  let ?s = "set_timer_of k 0 (c\<lparr>manager := ?m\<rparr>)"
  have f: "manager ?s = ?m" "deleted ?s = deleted c" "cls ?s = cls c" "socket_fd ?s = socket_fd c"
    "ptype ?s = ptype c" by simp_all
  have tm: "timer_of Recv_timeout ?s = timer_of Send_timeout ?s \<longrightarrow> timer_of Recv_timeout ?s = 0"
    "timer_of Recv_timeout ?s \<le> last_id ?m" "timer_of Send_timeout ?s \<le> last_id ?m"
    "unat (last_id ?m) \<le> reads ?m"
    using base(3-6) m(3,4) by (auto simp: set_timer_of_ids)
  have "timeouts_ok (stop_timer k c)"
    unfolding timeouts_ok_def s f recv_send_of using base(1,2) m(2) entries tm by blast
  then show ?thesis using other by (simp add: s set_timer_of_ids)
qed

lemma fresh_id:
  assumes "unat (last_id m) \<le> reads m" and "reads m < 2 ^ 64 - 1"
  shows "unat (last_id m + 1) = unat (last_id m) + 1" and "last_id m < last_id m + 1" and "last_id m + 1 \<noteq> 0"
proof -
  have l: "unat (last_id m) + 1 < 2 ^ 64" using assms by simp
  show u: "unat (last_id m + 1) = unat (last_id m) + 1"
    using l by (simp add: unat_word_ariths)
  show "last_id m < last_id m + 1" using u by (simp add: word_less_nat_alt)
  show "last_id m + 1 \<noteq> 0" using u by (metis Suc_eq_plus1 nat.distinct(1) unsigned_0)
qed

lemma start_timer_ok:
  assumes ok: "timeouts_ok c" and "\<not> deleted c" and k: "k \<noteq> Reconnect"
    and lim: "reads (manager (start_timer clk k t c)) < 2 ^ 64 - 1"
  shows "timeouts_ok (start_timer clk k t c)"
proof (cases "t = 0")
  case True
  then show ?thesis using stop_timer_ok[OF ok k] by (simp add: start_timer_def)
next
  case False
  let ?c = "stop_timer k c"
  note st = stop_timer_ok[OF ok k]
  have d: "\<not> deleted ?c" using assms(2) by simp
  have u: "(ucast t :: u64) \<noteq> 0"
  proof
    assume "(ucast t :: u64) = 0"
    then have "unat (ucast t :: u64) = 0" by simp
    moreover have "unat t < 2 ^ 64" by (rule order.strict_trans[OF unsigned_less]) simp
    ultimately have "unat t = 0" by (simp add: unsigned_ucast_eq take_bit_nat_eq_self)
    then show False using False by (simp add: unat_eq_0)
  qed
  let ?m = "manager ?c"
  let ?i = "last_id ?m + 1"
  let ?item = "\<lparr>t_id = ?i, delay = ucast t, timestamp = clk (reads ?m) + ucast t, callback = k, relative = False\<rparr>"
  let ?q = "mm_insert (timestamp ?item) ?item (queue ?m)"
  let ?m' = "?m\<lparr>reads := Suc (reads ?m), last_id := ?i, queue := ?q\<rparr>"
  have s: "start_timer clk k t c = set_timer_of k ?i (?c\<lparr>manager := ?m'\<rparr>)"
    using False u st by (simp add: start_timer_def cancel_timer_def set_timer_def get_timestamp_def Let_def)
  have ok': "timeouts_ok ?c" and none: "\<forall>e\<in>set (queue ?m). callback (snd e) \<noteq> k" using st by blast+
  have lim': "reads ?m < 2 ^ 64 - 1" using lim by (simp add: s)
  have b: "unat (last_id ?m) \<le> reads ?m" "recv_timer ?c \<le> last_id ?m" "send_timer ?c \<le> last_id ?m"
    "distinct (ids ?m)" using ok' unfolding timeouts_ok_def by blast+
  note fr = fresh_id[OF b(1) lim']
  have q: "set ?q = insert (timestamp ?item, ?item) (set (queue ?m))" by (rule tq.ins_set)
  have lt: "timer_of j ?c < ?i" for j using b(2,3) fr(2) by (auto simp: timer_of_def split: timer_kind.split)
  have old: "callback (snd e) \<noteq> Reconnect" "t_id (snd e) = timer_of (callback (snd e)) ?c" "t_id (snd e) \<noteq> 0"
      "callback (snd e) \<noteq> k" if "e \<in> set (queue ?m)" for e
    using ok' none that unfolding timeouts_ok_def by blast+
  have "t_id (snd e) \<noteq> ?i" if "e \<in> set (queue ?m)" for e
    using old(2)[OF that] lt[of "callback (snd e)"] by (metis less_irrefl)
  then have "?i \<notin> set (ids ?m)" unfolding ids_def by (metis (mono_tags, lifting) image_iff list.set_map)
  moreover have "mset (ids ?m') = add_mset ?i (mset (ids ?m))"
    by (simp add: ids_def mm_insert_mset)
  ultimately have dist: "distinct (ids ?m')"
    using b(4) by (metis distinct.simps(2) mset.simps(2) mset_eq_imp_distinct_iff)
  have entries: "\<not> deleted ?c \<and> callback (snd e) \<noteq> Reconnect
      \<and> t_id (snd e) = timer_of (callback (snd e)) (set_timer_of k ?i (?c\<lparr>manager := ?m'\<rparr>)) \<and> t_id (snd e) \<noteq> 0"
    if "e \<in> set ?q" for e
  proof (cases "e = (timestamp ?item, ?item)")
    case True
    then show ?thesis using k d fr(3) by (simp add: set_timer_of_ids)
  next
    case False
    then have "e \<in> set (queue ?m)" using that q by blast
    note o = old[OF this]
    have "(callback (snd e) = Recv_timeout) \<noteq> (k = Recv_timeout)"
      using o(1,4) k by (cases k; cases "callback (snd e)") simp_all
    then show ?thesis using o d by (simp add: set_timer_of_ids)
  qed
  let ?s = "set_timer_of k ?i (?c\<lparr>manager := ?m'\<rparr>)"
  have f: "manager ?s = ?m'" "deleted ?s = deleted ?c" "cls ?s = cls ?c" "socket_fd ?s = socket_fd ?c"
    "ptype ?s = ptype ?c" by simp_all
  have q': "queue ?m' = ?q" "last_id ?m' = ?i" "reads ?m' = Suc (reads ?m)" by simp_all
  have tm: "timer_of Recv_timeout ?s = timer_of Send_timeout ?s \<longrightarrow> timer_of Recv_timeout ?s = 0"
    using lt[of Recv_timeout] lt[of Send_timeout] k by (cases k) (auto simp: set_timer_of_ids)
  have le: "timer_of j ?s \<le> ?i" for j using lt[of j] by (auto simp: set_timer_of_ids)
  have "unat ?i \<le> Suc (reads ?m)" using fr(1) b(1) by simp
  moreover have "cls ?c = Connection_class" "ptype ?c = e_connection" "deleted ?c \<or> socket_fd ?c \<noteq> -1" using ok' unfolding timeouts_ok_def by blast+
  ultimately show ?thesis
    unfolding s timeouts_ok_def f recv_send_of q' using entries dist tm le by blast
qed

lemma conn_close_plain: "cls c = Connection_class \<Longrightarrow> conn_close clk c = connection_close True c"
  by (simp add: conn_close_def)

lemma close_ok:
  assumes "timeouts_ok c"
  shows "timeouts_ok (conn_close clk c)"
proof -
  let ?c = "c\<lparr>close_calls := Suc (close_calls c)\<rparr>"
  have d: "timeouts_ok ?c" using tcore_ok[of ?c c] assms by (simp add: tcore_def)
  have k: "cls c = Connection_class" "ptype c = e_connection" using assms by (simp_all add: timeouts_ok_def)
  show ?thesis
  proof (cases "socket_fd c = -1")
    case True
    then have "\<forall>e. e \<notin> set (queue (manager c))" using assms unfolding timeouts_ok_def by blast
    then have "queue (manager c) = []" by (metis list.set_intros(1) neq_Nil_conv)
    then show ?thesis
      using assms True by (simp add: timeouts_ok_def conn_close_plain connection_close_def)
  next
    case False
    let ?e = "stop_timer Send_timeout (stop_timer Recv_timeout ?c)"
    have e: "timeouts_ok ?e" and s: "\<forall>x\<in>set (queue (manager ?e)). callback (snd x) \<noteq> Send_timeout"
      using stop_timer_ok[of "stop_timer Recv_timeout ?c" Send_timeout] stop_timer_ok[OF d, of Recv_timeout] by simp_all
    have "timeouts_ok (stop_timer Recv_timeout ?c)" using stop_timer_ok[OF d, of Recv_timeout] by simp
    then have "distinct (ids (manager (stop_timer Recv_timeout ?c)))"
      "\<forall>x\<in>set (queue (manager (stop_timer Recv_timeout ?c))). t_id (snd x) \<noteq> 0"
      unfolding timeouts_ok_def by blast+
    from cancel_timer_ids[OF this, of "timer_of Send_timeout (stop_timer Recv_timeout ?c)"]
    have "set (queue (manager ?e)) \<subseteq> set (queue (manager (stop_timer Recv_timeout ?c)))"
      by (auto simp: manager_stop_timer)
    then have "\<forall>x\<in>set (queue (manager ?e)). callback (snd x) \<noteq> Recv_timeout"
      using stop_timer_ok[OF d, of Recv_timeout] by blast
    moreover have "\<forall>x\<in>set (queue (manager ?e)). callback (snd x) \<noteq> Reconnect"
      using e unfolding timeouts_ok_def by blast
    ultimately have "x \<notin> set (queue (manager ?e))" for x using s by (cases "callback (snd x)") blast+
    then have "queue (manager ?e) = []" by (metis list.set_intros(1) neq_Nil_conv)
    moreover have "conn_close clk c
        = ?e\<lparr>interest := None, socket_fd := -1, bound := False, deleted := True\<rparr>"
    proof -
      have "socket_fd ?c \<noteq> -1" using False by simp
      then show ?thesis
        unfolding conn_close_plain[OF k(1)] connection_close_def Let_def k(2) by (simp only: if_True simp_thms)
    qed
    ultimately show ?thesis using e by (simp add: timeouts_ok_def)
  qed
qed

lemma timeouts_ok_without:
  assumes "timeouts_ok c" and "queue (manager c) = e # rest"
  shows "timeouts_ok (c\<lparr>manager := (manager c)\<lparr>queue := rest\<rparr>\<rparr>)"
proof -
  have "set rest \<subseteq> set (queue (manager c))" using assms(2) by auto
  moreover have "distinct (ids (manager c)) \<longrightarrow> distinct (ids ((manager c)\<lparr>queue := rest\<rparr>))"
    by (simp add: ids_def assms(2))
  ultimately have "timeouts_ok c \<longrightarrow> ?thesis"
    unfolding timeouts_ok_def by (simp del: not_None_eq) blast
  then show ?thesis using assms(1) by blast
qed

lemma again_ok':
  assumes "timeouts_ok c" and "queue (manager c) = e # rest"
    and "d = c\<lparr>manager := (manager c)\<lparr>queue := rest\<rparr>\<rparr>"
  shows "timeouts_ok (d\<lparr>manager := snd (again clk (snd e) (manager d))\<rparr>)"
proof -
  obtain ts where m: "snd (again clk (snd e) (manager d))
      = (manager d)\<lparr>reads := Suc (reads (manager d)), queue := mm_insert ts ((snd e)\<lparr>timestamp := ts\<rparr>) rest\<rparr>"
    by (auto simp: again_def get_timestamp_def Let_def assms(3))
  let ?item = "(snd e)\<lparr>timestamp := ts\<rparr>"
  have q: "set (mm_insert ts ?item rest) = insert (ts, ?item) (set rest)" by (rule tq.ins_set)
  have "mset (map (\<lambda>e. t_id (snd e)) (mm_insert ts ?item rest)) = mset (map (\<lambda>e. t_id (snd e)) (e # rest))"
    by (simp add: mm_insert_mset)
  then have dist: "distinct (map (\<lambda>e. t_id (snd e)) (mm_insert ts ?item rest))"
    using assms(1,2) by (metis ids_def mset_eq_imp_distinct_iff timeouts_ok_def)
  let ?m = "(manager d)\<lparr>reads := Suc (reads (manager d)), queue := mm_insert ts ?item rest\<rparr>"
  let ?s = "d\<lparr>manager := ?m\<rparr>"
  have f: "cls ?s = cls c" "ptype ?s = ptype c" "deleted ?s = deleted c" "socket_fd ?s = socket_fd c"
    "recv_timer ?s = recv_timer c" "send_timer ?s = send_timer c" "last_id ?m = last_id (manager c)"
    "reads ?m = Suc (reads (manager c))" "queue ?m = mm_insert ts ?item rest" "manager ?s = ?m"
    by (simp_all add: assms(3))
  have t: "timer_of k ?s = timer_of k c" for k by (simp add: assms(3))
  have entries: "\<not> deleted c \<and> callback (snd x) \<noteq> Reconnect \<and> t_id (snd x) = timer_of (callback (snd x)) c \<and> t_id (snd x) \<noteq> 0"
    if "x \<in> set (mm_insert ts ?item rest)" for x
  proof -
    have "\<forall>x\<in>set (e # rest). \<not> deleted c \<and> callback (snd x) \<noteq> Reconnect
        \<and> t_id (snd x) = timer_of (callback (snd x)) c \<and> t_id (snd x) \<noteq> 0"
      using assms(1,2) unfolding timeouts_ok_def by metis
    then show ?thesis using that q by auto
  qed
  have "distinct (ids ?m)" using dist by (simp add: ids_def)
  moreover have "unat (last_id (manager c)) \<le> Suc (reads (manager c))" using assms(1) unfolding timeouts_ok_def by simp
  ultimately show ?thesis
    using assms(1) entries unfolding m timeouts_ok_def f t by blast
qed

lemma run_cmds_none: "run_cmds clk h n [] c = Some (Done c)"
  by (cases n) simp_all

lemma run_timer_ok:
  assumes "quiet h" and ok: "timeouts_ok c" and run: "run_timer clk h n env c = Some (Done c')"
  shows "timeouts_ok c'"
proof (cases "queue (manager c)")
  case Nil
  then show ?thesis using run ok by (simp add: run_timer_def)
next
  case (Cons e rest)
  let ?c = "c\<lparr>manager := (manager c)\<lparr>queue := rest\<rparr>\<rparr>"
  have ok': "timeouts_ok ?c" by (rule timeouts_ok_without[OF ok Cons])
  have k: "callback (snd e) \<noteq> Reconnect" "cls ?c = Connection_class"
    using ok Cons by (simp_all add: timeouts_ok_def)
  obtain b where h: "on_timeout h (callback (snd e)) ?c = ([], b)"
    using assms(1) by (metis prod.collapse quiet_def)
  obtain rep d where cb: "timer_callback clk h n env (callback (snd e)) ?c = Some (Done (rep, d))"
    and c': "c' = (if rep then d\<lparr>manager := snd (again clk (snd e) (manager d))\<rparr> else d)"
    using run Cons by (auto simp: run_timer_def rbind_Done_iff)
  have del: "deleted (conn_close clk ?c)" by (rule deleted_close[OF k(2)])
  have "b \<and> d = ?c \<and> rep"
    using cb k h del by (auto simp: timer_callback_def rbind_Done_iff run_cmds_none split: if_splits)
  then show ?thesis using again_ok'[OF ok Cons refl] c' by simp
qed

definition tkeeps :: "handlers \<Rightarrow> conn \<Rightarrow> conn \<Rightarrow> bool" where
  "tkeeps h c c' \<longleftrightarrow> grows c c'
     \<and> (quiet h \<longrightarrow> reads (manager c') < 2 ^ 64 - 1 \<longrightarrow> timeouts_ok c \<longrightarrow> timeouts_ok c')"

lemma tcore_tkeeps: "tcore c' = tcore c \<Longrightarrow> grows c c' \<Longrightarrow> tkeeps h c c'"
  using tcore_ok[of c' c] by (simp add: tkeeps_def)

interpretation touts: conn_plain clk h "tkeeps h" for clk h
proof
  show "tkeeps h c d \<Longrightarrow> tkeeps h d e \<Longrightarrow> tkeeps h c e" for c d e
    by (auto simp: tkeeps_def grows_def)
  show "tkeeps h c (conn_close clk c)" for c
    by (simp add: tkeeps_def grows_close close_ok)
  show "\<not> deleted c \<Longrightarrow> tkeeps h c (start_recv_timeout_timer clk c)" for c
    using start_timer_ok[of c Recv_timeout clk "recv_timeout c"] grows_start_timer
    by (simp add: tkeeps_def start_recv_timeout_timer_def)
  show "tkeeps h c (do_monitor_events ev c)" for c ev
    by (rule tcore_tkeeps)
       (simp_all add: tcore_def grows_def do_monitor_events_def epoll_mod_def epoll_add_def Let_def)
qed (simp_all add: tcore_tkeeps tcore_def grows_def)

interpretation timeouts: conn_life clk h "tkeeps h" for clk h
proof
  show "ptype c = e_connector \<Longrightarrow> on_connector clk h n ev c = Some (Done c') \<Longrightarrow> tkeeps h c c'" for c n ev c'
    using grows_on_connector by (auto simp: tkeeps_def timeouts_ok_def)
  show "run_timer clk h n env c = Some (Done c') \<Longrightarrow> tkeeps h c c'" for n env c c'
    using run_timer_ok grows_run_timer by (simp add: tkeeps_def)
qed

lemma same_ids_one:
  assumes "distinct (map (\<lambda>e. t_id (snd e)) q)" and "\<forall>e\<in>set q. P e \<longrightarrow> t_id (snd e) = i"
  shows "length (filter P q) \<le> 1"
proof -
  have d: "distinct (map (\<lambda>e. t_id (snd e)) (filter P q))" using assms(1) by (rule distinct_map_filter)
  show ?thesis
  proof (cases "filter P q")
    case (Cons a as)
    have "as = []"
    proof (rule ccontr)
      assume "as \<noteq> []"
      then obtain b bs where as: "as = b # bs" by (cases as) auto
      then have "{a, b} \<subseteq> set (filter P q)" using Cons by simp
      then have "t_id (snd a) = t_id (snd b)" using assms(2) by simp
      then show False using d Cons as by simp
    qed
    then show ?thesis using Cons by simp
  qed simp
qed


text \<open>A connection with a receive timeout of a second, which receives twice and is closed.\<close>

definition timed_start :: conn where
  "timed_start = accepted_conn \<lparr>queue = [], last_id = 0, reads = 0\<rparr> (5, no_address, [])"

definition timed_events :: "handlers \<Rightarrow> conn \<Rightarrow> conn run" where
  "timed_events hs c =
     rbind (run_cmd (\<lambda>n. 7) hs (run_cmds (\<lambda>n. 7) hs 0) (Set_recv_timeout 1000) c) (\<lambda>c.
       rbind (run_cmd (\<lambda>n. 7) hs (run_cmds (\<lambda>n. 7) hs 0) Async_recv c) (\<lambda>c.
         run_cmd (\<lambda>n. 7) hs (run_cmds (\<lambda>n. 7) hs 0) Async_recv c))"

lemma timed_run:
  "case timed_events echo timed_start of
     Some (Done c) \<Rightarrow> map (\<lambda>e. (fst e, t_id (snd e))) (queue (manager c)) = [(1007, 2)] \<and> reads (manager c) = 2
   | _ \<Rightarrow> False"
  by code_simp



section \<open>Where the code leaves what it means to do\<close>

text \<open>A timeout callback that starts the next receive and asks to be repeated: two timers.\<close>

lemma timeout_left_behind:
  "case timed_events (echo\<lparr>on_timeout := \<lambda>k c. ([Async_recv], True)\<rparr>) timed_start of
     Some (Done c) \<Rightarrow>
       (case run_timer (\<lambda>n. 7) (echo\<lparr>on_timeout := \<lambda>k c. ([Async_recv], True)\<rparr>) 1
               \<lparr>new_fd = -1, sys_bind = \<lambda>a. True,
                 connect_sys = \<lparr>resolve = \<lambda>s. None, ntop_ok = True, pton_ok = True, connect_errno = None,
                                select_one = False, isset = False\<rparr>\<rparr> c of
          Some (Done c) \<Rightarrow> map (\<lambda>e. t_id (snd e)) (queue (manager c)) = [3, 2] \<and> recv_timer c = 3
        | _ \<Rightarrow> False)
   | _ \<Rightarrow> False"
  by code_simp

lemma live_alive: "\<not> deleted c \<Longrightarrow> live c = Some (Done c)"
  by simp

text \<open>
  A timeout, or a send callback, that gives the connection up: the object is used after its
  deletion.
\<close>

lemma timeout_after_delete:
  assumes "cls c = Connection_class" and "\<not> deleted c" and "k \<noteq> Reconnect" and "on_timeout h k c = ([], False)"
  shows "timer_callback clk h n env k c = Some Undef"
proof -
  have "live (conn_close clk c) = Some Undef" using deleted_close[OF assms(1)] by (simp add: live_def)
  then show ?thesis
    using assms(3,4) unfolding timer_callback_def live_alive[OF assms(2)] by (simp add: run_cmds_none live_alive[OF assms(2)])
qed

lemma send_after_delete:
  assumes "cls c = Connection_class" and "\<not> deleted c" and "int_size (send_buf c) \<noteq> 0"
    and "send_rounds (sends c) (take (nat (int_size (send_buf c))) (send_buf c)) 0 = Some (fin, m, rs)"
    and "fin \<noteq> Peer_closed" and "fin \<noteq> Gave_up" and "0 < m" and "\<And>c. on_send h m c = ([], False)"
  shows "do_send clk h n c = Some Undef"
proof -
  let ?c = "c\<lparr>wire := wire c @ take m (send_buf c), sends := rs, send_buf := drop m (send_buf c), unflushed := False\<rparr>"
  have "live (conn_close clk ?c) = Some Undef" using deleted_close[of ?c clk] assms(1) by (simp add: live_def)
  then show ?thesis
    using assms(3-8) unfolding do_send_by_def live_alive[OF assms(2)] by (simp add: Let_def run_cmds_none)
qed

text \<open>An error of \<open>send\<close> the code does not know: what was sent stays in the buffer, to be sent again.\<close>

lemma sent_twice:
  assumes "\<not> deleted c" and "int_size (send_buf c) \<noteq> 0"
    and "send_rounds (sends c) (take (nat (int_size (send_buf c))) (send_buf c)) 0 = Some (Gave_up, m, rs)"
  shows "\<exists>c'. do_send clk h n c = Some (Done c') \<and> wire c' = wire c @ take m (send_buf c) \<and> send_buf c' = send_buf c"
proof -
  show ?thesis using assms(2,3) unfolding do_send_by_def live_alive[OF assms(1)] by (simp add: Let_def)
qed

end
