(* ===== verification/Http_Boost.thy ===== *)
theory Http_Boost
  imports Http_Parser
begin

text \<open>
  The second HTTP client of the program, \<^verbatim>\<open>Include/http/Source/HttpBase.cpp\<close> and
  \<^verbatim>\<open>HttpBoost.cpp\<close>: the parts of a URL, the text of a request and the chain of completion
  handlers that sends it and gathers the response. The operations of Boost.Asio are outside the
  repository: one ends with an error code and, where it reads, with bytes added to the buffer.
\<close>


section \<open>URLs\<close>

definition http_success :: int where "http_success = 0"
definition http_error_http_head :: int where "http_error_http_head = - 3"

text \<open>The three results are reference parameters: without a scheme they stay as they are.\<close>

type_synonym url_parts = "string \<times> string \<times> string"

definition parse_authority :: "string \<Rightarrow> url_parts" where
  "parse_authority temp_data =
     (let idx = find_from temp_data ''/'' 0;
          out_path = (case idx of None \<Rightarrow> ''/'' | Some i \<Rightarrow> drop i temp_data);
          out_server = take (case idx of None \<Rightarrow> length temp_data | Some i \<Rightarrow> i) temp_data
      in case find_from out_server '':'' 0 of
           None \<Rightarrow> (out_server, ''80'', out_path)
         | Some i \<Rightarrow> (take i out_server, drop (i + 1) out_server, out_path))"

definition parseUrl :: "string \<Rightarrow> url_parts \<Rightarrow> int \<times> url_parts" where
  "parseUrl addr out =
     (if find_from addr ''http://'' 0 = Some 0
      then (http_success, parse_authority (drop (length ''http://'') addr))
      else if find_from addr ''https://'' 0 = Some 0
      then (http_success, parse_authority (drop (length ''https://'') addr))
      else (http_error_http_head, out))"


section \<open>Requests\<close>

text \<open>
  \<open>buildPostRequest\<close> keeps positions in \<open>int\<close>s: \<open>npos\<close> is \<open>-1\<close> there, and one more is 0. They
  are converted back to \<open>size_t\<close> for \<open>substr\<close> and for the comparison with \<open>npos\<close>.
\<close>

definition npos :: int where "npos = 2 ^ 64 - 1"

definition position :: "nat option \<Rightarrow> int" where
  "position p = (case p of None \<Rightarrow> npos | Some i \<Rightarrow> int i)"

definition to_int :: "int \<Rightarrow> int" where "to_int i = signed_take_bit 31 i"
definition to_size :: "int \<Rightarrow> int" where "to_size i = take_bit 64 i"

definition split_json :: "string \<Rightarrow> (string \<times> string) outcome" where
  "split_json path =
     (let json_pos_begin = to_int (to_size (position (find_from path ''['' 0) + 1));
          json_pos_end = to_int (position (find_from path '']'' 0))
      in if to_size json_pos_begin \<noteq> npos
         then let temp_json_lenth = to_int npos;
                  temp_json_lenth =
                    (if json_pos_end \<noteq> temp_json_lenth then to_int (json_pos_end - json_pos_begin)
                     else temp_json_lenth)
              in obind (substr path (nat (to_size json_pos_begin)) (nat (to_size temp_json_lenth)))
                   (\<lambda>temp_json. obind (substr path 0 (nat (to_size (to_int (json_pos_begin - 1)))))
                   (\<lambda>temp_path. Done (temp_path, temp_json)))
         else Done (path, []))"

definition buildPostRequest :: "string \<Rightarrow> string \<Rightarrow> string \<Rightarrow> string outcome" where
  "buildPostRequest server path out_request =
     obind (split_json path) (\<lambda>(temp_path, temp_json).
       Done (out_request
         @ ''POST '' @ c_str temp_path @ '' HTTP/1.0'' @ crlf
         @ ''Host: '' @ c_str server @ crlf
         @ ''Content-Length: '' @ show_nat (length temp_json) @ crlf
         @ ''Content-Type: application/x-www-form-urlencoded'' @ crlf
         @ ''Accept: */*'' @ crlf
         @ ''Connection: close'' @ crlf @ crlf
         @ c_str temp_json))"

definition buildGetRequest :: "string \<Rightarrow> string \<Rightarrow> string \<Rightarrow> string outcome" where
  "buildGetRequest server path out_request =
     Done (out_request
         @ ''GET '' @ c_str path @ '' HTTP/1.0'' @ crlf
         @ ''Host: '' @ c_str server @ crlf
         @ ''Accept: */*'' @ crlf
         @ ''Connection: close'' @ crlf @ crlf)"


section \<open>Reading from a stream buffer\<close>

text \<open>\<open>std::istream\<close> over the bytes of the buffer, with its end-of-file and failure bits.\<close>

record istream =
  is_buf :: string
  is_eof :: bool
  is_fail :: bool

definition stream_of :: "string \<Rightarrow> istream" where
  "stream_of b = \<lparr>is_buf = b, is_eof = False, is_fail = False\<rparr>"

definition good :: "istream \<Rightarrow> bool" where
  "good s \<longleftrightarrow> \<not> is_eof s \<and> \<not> is_fail s"

text \<open>The sentry of an extraction skips white space; it fails at the end of the stream.\<close>

definition sentry :: "istream \<Rightarrow> istream" where
  "sentry s =
     (if \<not> good s then s\<lparr>is_fail := True\<rparr>
      else case dropWhile is_space (is_buf s) of
             [] \<Rightarrow> s\<lparr>is_buf := [], is_eof := True, is_fail := True\<rparr>
           | c # cs \<Rightarrow> s\<lparr>is_buf := c # cs\<rparr>)"

definition read_word :: "istream \<Rightarrow> string \<times> istream" where
  "read_word s =
     (let s = sentry s in
      if is_fail s then ([], s)
      else let rest = dropWhile (\<lambda>c. \<not> is_space c) (is_buf s)
           in (takeWhile (\<lambda>c. \<not> is_space c) (is_buf s), s\<lparr>is_buf := rest, is_eof := (rest = [])\<rparr>))"

text \<open>
  An \<open>unsigned int\<close> in base ten: an optional sign and digits. Without digits the value is 0,
  beyond the range the largest, and both fail; after a minus sign the value is negated.
\<close>

definition read_uint :: "istream \<Rightarrow> nat \<times> istream" where
  "read_uint s =
     (let s = sentry s in
      if is_fail s then (0, s)
      else let neg = (take 1 (is_buf s) = ''-'');
               b = (if neg \<or> take 1 (is_buf s) = ''+'' then drop 1 (is_buf s) else is_buf s);
               digits = takeWhile is_digit b;
               rest = drop (length digits) b;
               v = digits_value 0 digits;
               s = s\<lparr>is_buf := rest, is_eof := (rest = [])\<rparr>
           in if digits = [] then (0, s\<lparr>is_fail := True\<rparr>)
              else if 2 ^ 32 \<le> v then (2 ^ 32 - 1, s\<lparr>is_fail := True\<rparr>)
              else (if neg then nat ((- int v) mod 2 ^ 32) else v, s))"

definition getline :: "istream \<Rightarrow> string \<times> istream" where
  "getline s =
     (if \<not> good s then ([], s\<lparr>is_fail := True\<rparr>)
      else let line = takeWhile (\<lambda>c. c \<noteq> CHR 0x0A) (is_buf s);
               rest = drop (length line) (is_buf s)
           in case rest of
                [] \<Rightarrow> (line, s\<lparr>is_buf := [], is_eof := True, is_fail := (line = [])\<rparr>)
              | _ # rest \<Rightarrow> (line, s\<lparr>is_buf := rest\<rparr>))"

lemma getline_shorter:
  "getline s = (h, s') \<Longrightarrow> \<not> is_fail s' \<Longrightarrow> length (is_buf s') < length (is_buf s)"
  by (auto simp: getline_def Let_def split: if_splits list.splits)
    (metis Suc_le_eq diff_le_self length_Cons length_drop)

function skip_headers :: "istream \<Rightarrow> istream" where
  "skip_headers s =
     (case getline s of (header, s') \<Rightarrow>
        if \<not> is_fail s' \<and> header \<noteq> [CHR 0x0D] then skip_headers s' else s')"
  by pat_completeness auto
termination
  by (relation "measure (\<lambda>s. length (is_buf s))") (auto dest: getline_shorter[OF sym])

declare skip_headers.simps [simp del]


section \<open>The chain of handlers\<close>

text \<open>
  The operation under way, named after the handler it ends in. \<open>Idle\<close>: none, and the service
  returns from \<open>run\<close>.
\<close>

datatype pending = Idle | Resolve | Connect | Write_request | Read_status_line | Read_headers | Read_content

record boost_client =
  bc_endpoint :: "string \<times> string"
  bc_request :: string
  bc_sent :: string
  bc_response :: string
  bc_data :: string
  bc_pending :: pending

definition new_boost_client :: boost_client where
  "new_boost_client = \<lparr>bc_endpoint = ([], []), bc_request = [], bc_sent = [], bc_response = [],
     bc_data = [], bc_pending = Idle\<rparr>"

text \<open>The result of \<open>parseUrl\<close> is not looked at; an exception ends the call.\<close>

definition handle_request_resolve ::
    "string \<Rightarrow> (string \<Rightarrow> string \<Rightarrow> string \<Rightarrow> string outcome) \<Rightarrow> boost_client \<Rightarrow> boost_client" where
  "handle_request_resolve addr func c =
     (case snd (parseUrl addr ([], [], [])) of
        (server, port, path) \<Rightarrow>
          (case func server path (bc_request c) of
             Done r \<Rightarrow> c\<lparr>bc_endpoint := (server, port), bc_request := r, bc_data := [], bc_pending := Resolve\<rparr>
           | _ \<Rightarrow> c\<lparr>bc_data := []\<rparr>))"

datatype asio_error = No_error | End_of_file | Failed

definition handle_resolve :: "asio_error \<Rightarrow> boost_client \<Rightarrow> boost_client" where
  "handle_resolve err c = (if err \<noteq> No_error then c else c\<lparr>bc_pending := Connect\<rparr>)"

definition handle_connect :: "asio_error \<Rightarrow> boost_client \<Rightarrow> boost_client" where
  "handle_connect err c = (if err \<noteq> No_error then c else c\<lparr>bc_pending := Write_request\<rparr>)"

definition handle_write_request :: "asio_error \<Rightarrow> boost_client \<Rightarrow> boost_client" where
  "handle_write_request err c = (if err \<noteq> No_error then c else c\<lparr>bc_pending := Read_status_line\<rparr>)"

definition handle_read_status_line :: "asio_error \<Rightarrow> boost_client \<Rightarrow> boost_client" where
  "handle_read_status_line err c =
     (if err \<noteq> No_error then c
      else case read_word (stream_of (bc_response c)) of (http_version, s) \<Rightarrow>
           case read_uint s of (status, s) \<Rightarrow>
           case getline s of (status_message, s) \<Rightarrow>
             let c = c\<lparr>bc_response := is_buf s\<rparr> in
             if is_fail s \<or> take 5 http_version \<noteq> ''HTTP/'' then c
             else if status \<noteq> 200 then c
             else c\<lparr>bc_pending := Read_headers\<rparr>)"

text \<open>
  \<open>debug\<close> is a build with \<open>_DEBUG\<close>: there the buffer is printed, which takes the bytes out of
  it. In other builds they stay.
\<close>

definition append_response :: "bool \<Rightarrow> boost_client \<Rightarrow> boost_client" where
  "append_response debug c =
     c\<lparr>bc_data := bc_data c @ bc_response c, bc_response := (if debug then [] else bc_response c)\<rparr>"

definition handle_read_headers :: "bool \<Rightarrow> asio_error \<Rightarrow> boost_client \<Rightarrow> boost_client" where
  "handle_read_headers debug err c =
     (if err \<noteq> No_error then c
      else let c = c\<lparr>bc_response := is_buf (skip_headers (stream_of (bc_response c)))\<rparr>;
               c = (if length (bc_response c) > 0 then append_response debug c else c)
           in c\<lparr>bc_pending := Read_content\<rparr>)"

definition handle_read_content :: "bool \<Rightarrow> asio_error \<Rightarrow> boost_client \<Rightarrow> boost_client" where
  "handle_read_content debug err c =
     (if err = No_error then (append_response debug c)\<lparr>bc_pending := Read_content\<rparr> else c)"

text \<open>
  One turn of the service: the operation under way ends with an error code and the bytes it
  read, and its handler runs. The write takes the whole request.
\<close>

definition asio_step :: "bool \<Rightarrow> asio_error \<times> string \<Rightarrow> boost_client \<Rightarrow> boost_client" where
  "asio_step debug ev c =
     (case ev of (err, bytes) \<Rightarrow>
        let p = bc_pending c; i = c\<lparr>bc_pending := Idle\<rparr>; r = i\<lparr>bc_response := bc_response c @ bytes\<rparr> in
        case p of
          Idle \<Rightarrow> c
        | Resolve \<Rightarrow> handle_resolve err i
        | Connect \<Rightarrow> handle_connect err i
        | Write_request \<Rightarrow>
            handle_write_request err
              (if err = No_error then i\<lparr>bc_sent := bc_sent c @ bc_request c, bc_request := []\<rparr> else i)
        | Read_status_line \<Rightarrow> handle_read_status_line err r
        | Read_headers \<Rightarrow> handle_read_headers debug err r
        | Read_content \<Rightarrow> handle_read_content debug err r)"

definition asio_run :: "bool \<Rightarrow> (asio_error \<times> string) list \<Rightarrow> boost_client \<Rightarrow> boost_client" where
  "asio_run debug evs c = fold (asio_step debug) evs c"

text \<open>
  \<open>lin::post\<close> and \<open>lin::get\<close> over the events of the network; they return when no operation is
  under way, with what was gathered.
\<close>

definition getResponse :: "boost_client \<Rightarrow> string" where
  "getResponse c = bc_data c"

definition lin_call ::
    "(string \<Rightarrow> string \<Rightarrow> string \<Rightarrow> string outcome) \<Rightarrow> bool \<Rightarrow> string \<Rightarrow> (asio_error \<times> string) list
      \<Rightarrow> string option" where
  "lin_call func debug addr evs =
     (let c = asio_run debug evs (handle_request_resolve addr func new_boost_client)
      in if bc_pending c = Idle then Some (getResponse c) else None)"

definition lin_post :: "bool \<Rightarrow> string \<Rightarrow> (asio_error \<times> string) list \<Rightarrow> string option" where
  "lin_post = lin_call buildPostRequest"

definition lin_get :: "bool \<Rightarrow> string \<Rightarrow> (asio_error \<times> string) list \<Rightarrow> string option" where
  "lin_get = lin_call buildGetRequest"

end
