(* ===== verification/Http_Boost_Correct.thy ===== *)
theory Http_Boost_Correct
  imports Http_Boost Http_Parser_Correct
begin

text \<open>
  Correctness of the Boost HTTP client: where a URL leads, what the server's request decoder
  reads in a request it sends, and what its response buffer holds in the end.
\<close>


section \<open>URLs\<close>

lemma parse_authority_parts:
  assumes "CHR ''/'' \<notin> set srv" and "CHR '':'' \<notin> set srv" and "CHR ''/'' \<notin> set prt"
  shows "parse_authority (srv @ CHR ''/'' # path) = (srv, ''80'', CHR ''/'' # path)"
    and "parse_authority srv = (srv, ''80'', ''/'')"
    and "parse_authority (srv @ CHR '':'' # prt @ CHR ''/'' # path) = (srv, prt, CHR ''/'' # path)"
proof -
  have n: "find_sub '':'' srv = None" "find_sub ''/'' srv = None"
    using assms by (simp_all add: find_sub_char_None)
  have s: "find_sub ''/'' (srv @ CHR ''/'' # path) = Some (length srv)"
    using find_sub_char[OF assms(1)] by simp
  from assms have "find_sub ''/'' ((srv @ CHR '':'' # prt) @ CHR ''/'' # path) = Some (length (srv @ CHR '':'' # prt))"
    by (intro find_sub_char) simp
  then have l: "find_sub ''/'' (srv @ CHR '':'' # prt @ CHR ''/'' # path) = Some (length srv + length prt + 1)"
    by simp
  have c: "find_sub '':'' (srv @ CHR '':'' # prt) = Some (length srv)"
    using find_sub_char[OF assms(2)] by simp
  show "parse_authority (srv @ CHR ''/'' # path) = (srv, ''80'', CHR ''/'' # path)"
    "parse_authority srv = (srv, ''80'', ''/'')"
    by (simp_all add: parse_authority_def n s)
  have "take (length srv + length prt + 1) (srv @ CHR '':'' # prt @ CHR ''/'' # path) = srv @ CHR '':'' # prt"
    "drop (length srv + length prt + 1) (srv @ CHR '':'' # prt @ CHR ''/'' # path) = CHR ''/'' # path"
    by simp_all
  then show "parse_authority (srv @ CHR '':'' # prt @ CHR ''/'' # path) = (srv, prt, CHR ''/'' # path)"
    by (simp add: parse_authority_def l c)
qed

lemma parseUrl_http: "parseUrl (''http://'' @ rest) out = (http_success, parse_authority rest)"
proof -
  have "find_sub ''http://'' (''http://'' @ rest) = Some 0" by (subst find_sub.simps) simp
  then show ?thesis by (simp add: parseUrl_def)
qed

text \<open>The port of a secure URL without one is 80 as well, and it is spoken to without TLS.\<close>

lemma parseUrl_https: "parseUrl (''https://'' @ rest) out = (http_success, parse_authority rest)"
proof -
  have "find_sub ''https://'' (''https://'' @ rest) = Some 0"
    "find_sub ''http://'' (''https://'' @ rest) \<noteq> Some 0"
    by (subst find_sub.simps, simp)+
  then show ?thesis by (simp add: parseUrl_def)
qed


section \<open>Requests\<close>

lemma to_int_small: "0 \<le> i \<Longrightarrow> i < 2 ^ 31 \<Longrightarrow> to_int i = i"
  by (simp add: to_int_def signed_take_bit_int_eq_self)

lemma to_size_small: "0 \<le> i \<Longrightarrow> i < 2 ^ 64 \<Longrightarrow> to_size i = i"
  by (simp add: to_size_def take_bit_int_eq_self)

lemma npos_int: "to_int npos = - 1"
  by (simp add: to_int_def npos_def)

lemma minus_one_size: "to_size (- 1) = npos"
  by (simp add: to_size_def npos_def mask_eq_exp_minus_1)

lemma npos_next: "to_int (to_size (npos + 1)) = 0"
  by (simp add: to_int_def to_size_def npos_def)

text \<open>The JSON text of a path stands between its first brackets.\<close>

lemma split_json_brackets:
  assumes "CHR ''['' \<notin> set p" and "CHR '']'' \<notin> set p" and "CHR '']'' \<notin> set json"
    and "length (p @ ''['' @ json @ '']'' @ tail) < 2 ^ 31"
  shows "split_json (p @ ''['' @ json @ '']'' @ tail) = Done (p, json)"
proof -
  let ?path = "p @ ''['' @ json @ '']'' @ tail" and ?b = "int (length p) + 1"
  have f: "find_sub ''['' ?path = Some (length p)"
    using find_sub_char[OF assms(1)] by simp
  have "find_sub '']'' ((p @ ''['' @ json) @ CHR '']'' # tail) = Some (length (p @ ''['' @ json))"
    using assms(2,3) by (intro find_sub_char) simp
  then have g: "find_sub '']'' ?path = Some (length p + 1 + length json)" by simp
  have len: "int (length p) + int (length json) + 2 \<le> 2 ^ 31" using assms(4) by simp
  have b: "to_int (to_size ?b) = ?b" "to_size ?b = ?b" "to_int (int (length p)) = int (length p)"
    "to_size (int (length p)) = int (length p)"
    using len by (simp_all add: to_size_small to_int_small)
  have e: "to_int (int (length p + 1 + length json)) = ?b + int (length json)"
    using len by (subst to_int_small) simp_all
  have l: "to_int (?b + int (length json) - ?b) = int (length json)"
    "to_size (int (length json)) = int (length json)"
    using len by (simp_all add: to_size_small to_int_small)
  have n: "?b \<noteq> npos" "?b + int (length json) \<noteq> - 1" using len by (simp_all add: npos_def)
  have "nat ?b = length p + 1" by simp
  then show ?thesis
    using f g b e l n by (simp add: split_json_def position_def npos_int substr_def Let_def)
qed

text \<open>
  A path without brackets is sent twice: the position after \<open>npos\<close> is 0, so the whole path is
  taken for the JSON text as well.
\<close>

lemma split_json_none:
  assumes "CHR ''['' \<notin> set path" and "CHR '']'' \<notin> set path" and "length path < 2 ^ 31"
  shows "split_json path = Done (path, path)"
proof -
  have f: "find_sub ''['' path = None" "find_sub '']'' path = None"
    using assms by (simp_all add: find_sub_char_None)
  have n: "to_size 0 = 0" "to_int (- 1) = - 1" "(0 :: int) \<noteq> npos" "nat npos = 2 ^ 64 - 1"
    by (simp_all add: to_size_def to_int_def npos_def)
  show ?thesis
    using f n npos_next npos_int minus_one_size assms(3)
    by (simp add: split_json_def position_def substr_def Let_def)
qed

definition post_entrys :: "string \<Rightarrow> nat \<Rightarrow> entry_t list" where
  "post_entrys srv n =
     [(''Host'', srv), (''Content-Length'', show_nat n),
      (''Content-Type'', ''application/x-www-form-urlencoded''), (''Accept'', ''*/*''),
      (''Connection'', ''close'')]"

lemma show_nat_line_ok: "line_ok (show_nat n)"
proof -
  have "x \<noteq> CHR 0x0D" "x \<noteq> CHR 0x00" if "x \<in> set (show_nat n)" for x
    using show_nat_digits[OF that] by (auto simp: is_digit_def)
  then show ?thesis unfolding line_ok_def by blast
qed

lemma to_uint64_show_nat: "n < 2 ^ 63 \<Longrightarrow> nat (to_uint64 (show_nat n)) = n"
proof -
  assume "n < 2 ^ 63"
  then have "atoll (show_int (int n)) = int n" by (intro atoll_show_int) auto
  with \<open>n < 2 ^ 63\<close> show ?thesis by (simp add: show_int_def to_uint64_def take_bit_int_eq_self)
qed

lemma post_entrys_ok: "line_ok srv \<Longrightarrow> list_all entry_ok (post_entrys srv n)"
  using show_nat_line_ok by (simp add: post_entrys_def entry_ok_def) (simp add: line_ok_def)

lemma post_text:
  assumes "CHR 0x00 \<notin> set srv" and "CHR 0x00 \<notin> set p" and "CHR 0x00 \<notin> set json"
    and "split_json path = Done (p, json)"
  shows "buildPostRequest srv path [] = Done ((''POST'' @ '' '' @ p @ '' '' @ ''HTTP/1.0'') @ crlf
    @ concat (map encode_entry (post_entrys srv (length json))) @ crlf @ json)"
  using assms by (simp add: buildPostRequest_def post_entrys_def encode_entry_def c_str_id)

lemma fold_post_entrys:
  assumes "n < 2 ^ 63"
  shows "fold put_request_entry (post_entrys srv n) r =
    r\<lparr>host := srv, content_length := n,
      entrys := entrys r @ [(''Content-Type'', ''application/x-www-form-urlencoded''),
        (''Accept'', ''*/*''), (''Connection'', ''close'')]\<rparr>"
  using to_uint64_show_nat[OF assms]
  by (simp add: post_entrys_def put_request_entry_def add_entry_def)

lemma post_decoded:
  assumes "line_ok srv" and "line_ok p" and "CHR '' '' \<notin> set p" and "CHR ''?'' \<notin> set p"
    and "CHR 0x00 \<notin> set json" and "length json < 2 ^ 63"
  shows "request_decode_header r0 ((''POST'' @ '' '' @ p @ '' '' @ ''HTTP/1.0'') @ crlf
      @ concat (map encode_entry (post_entrys srv (length json))) @ crlf @ json)
    = Done (r0\<lparr>http_method := ''POST'', url := p, version := ''HTTP/1.0'', host := srv,
        entrys := entrys r0 @ [(''Content-Type'', ''application/x-www-form-urlencoded''),
          (''Accept'', ''*/*''), (''Connection'', ''close'')],
        content_length := length json\<rparr>, True)"
    (is "request_decode_header r0 ?s = _")
proof -
  have es: "list_all entry_ok (post_entrys srv (length json))" by (rule post_entrys_ok[OF assms(1)])
  have "CHR 0x00 \<notin> set ?s"
    using assms(2,5) entrys_no_NUL[OF es] by (auto simp: line_ok_def crlf_def)
  then have c: "c_str ?s = ?s" by (rule c_str_id)
  have ok: "line_ok ''POST''" "line_ok ''HTTP/1.0''" "CHR '' '' \<notin> set ''POST''" by (simp_all add: line_ok_def)
  note h = header_parts[OF refl ok(1) assms(2) ok(2) ok(3) assms(3) es, where rest = json]
  have q: "find_sub ''?'' p = None" using assms(4) by (simp add: find_sub_char_None)
  show ?thesis
    unfolding request_decode_header_def c Let_def h option.case
    by (simp add: decode_url_parameters_def q h(8) fold_post_entrys[OF assms(6)] flip: append_assoc)
qed


section \<open>The response\<close>

lemma getline_line:
  assumes "CHR 0x0A \<notin> set l"
  shows "getline (stream_of (l @ crlf @ r)) = (l @ [CHR 0x0D], stream_of r)"
proof -
  have "takeWhile (\<lambda>c. c \<noteq> CHR 0x0A) (l @ CHR 0x0D # CHR 0x0A # r) = l @ [CHR 0x0D]"
    using assms by (subst takeWhile_append2) auto
  then show ?thesis by (simp add: getline_def stream_of_def good_def crlf_def Let_def)
qed

lemma skip_header_lines:
  "list_all (\<lambda>l. l \<noteq> [] \<and> CHR 0x0A \<notin> set l) ls \<Longrightarrow>
   skip_headers (stream_of (concat (map (\<lambda>l. l @ crlf) ls) @ crlf @ d)) = stream_of d"
proof (induction ls)
  case Nil
  from getline_line[of "[]" d] show ?case
    by (subst skip_headers.simps) (simp add: stream_of_def)
next
  case (Cons l ls)
  let ?r = "concat (map (\<lambda>l. l @ crlf) ls) @ crlf @ d"
  have "skip_headers (stream_of (l @ crlf @ ?r)) = skip_headers (stream_of ?r)"
    using getline_line[of l ?r] Cons.prems
    by (subst skip_headers.simps) (cases l; simp add: stream_of_def)
  with Cons show ?case by simp
qed

definition status_line :: "string \<Rightarrow> string \<Rightarrow> string" where
  "status_line v reason = ''HTTP/'' @ v @ '' 200 '' @ reason @ crlf"

lemma read_status_line:
  assumes "list_all (\<lambda>c. \<not> is_space c) v" and "CHR 0x0A \<notin> set reason"
  shows "\<exists>s1 s2 m. read_word (stream_of (status_line v reason @ u)) = (''HTTP/'' @ v, s1)
    \<and> read_uint s1 = (200, s2) \<and> getline s2 = (m, stream_of u)"
proof -
  let ?r2 = "CHR '' '' # reason @ crlf @ u" and ?s = "status_line v reason @ u"
  have sp: "is_space (CHR '' '')" "\<not> is_space (CHR ''H'')" "\<not> is_space (CHR ''T'')"
    "\<not> is_space (CHR ''P'')" "\<not> is_space (CHR ''/'')" "\<not> is_space (CHR ''2'')"
    by (simp_all add: is_space_def)
  have dg: "is_digit (CHR ''2'')" "is_digit (CHR ''0'')" "\<not> is_digit (CHR '' '')"
    by (simp_all add: is_digit_def)
  have v: "\<And>x. x \<in> set v \<Longrightarrow> \<not> is_space x" using assms(1) by (simp add: list_all_iff)
  have tw: "takeWhile (\<lambda>c. \<not> is_space c) ?s = ''HTTP/'' @ v"
    "dropWhile (\<lambda>c. \<not> is_space c) ?s = CHR '' '' # ''200'' @ ?r2"
    using v sp by (simp_all add: status_line_def takeWhile_append2 dropWhile_append2)
  have dw: "dropWhile is_space ?s = ?s" using sp by (simp add: status_line_def)
  let ?s1 = "stream_of (CHR '' '' # ''200'' @ ?r2)" and ?s2 = "stream_of ?r2"
  have "sentry (stream_of ?s) = stream_of ?s"
    using dw by (simp add: sentry_def stream_of_def good_def status_line_def)
  then have 1: "read_word (stream_of ?s) = (''HTTP/'' @ v, ?s1)"
    using tw by (simp add: read_word_def) (simp add: stream_of_def)
  have "sentry ?s1 = stream_of (''200'' @ ?r2)" using sp by (simp add: sentry_def stream_of_def good_def)
  moreover have "takeWhile is_digit (''200'' @ ?r2) = ''200''" using dg by simp
  moreover have "digits_value 0 ''200'' = 200" using dg by simp
  ultimately have 2: "read_uint ?s1 = (200, ?s2)"
    by (simp add: read_uint_def) (simp add: stream_of_def)
  have "getline ?s2 = ((CHR '' '' # reason) @ [CHR 0x0D], stream_of u)"
    using getline_line[of "CHR '' '' # reason" u] assms(2) by simp
  with 1 2 show ?thesis by blast
qed

text \<open>What the content handler gathers: in a release build, the buffer as a whole each time.\<close>

fun gathered :: "string \<Rightarrow> string list \<Rightarrow> string" where
  "gathered b [] = []"
| "gathered b (c # cs) = (b @ c) @ gathered (b @ c) cs"

lemma gathered_prefixes:
  "b @ gathered b cs = concat (map (\<lambda>k. b @ concat (take k cs)) [0..<Suc (length cs)])"
proof (induction cs arbitrary: b)
  case (Cons c cs)
  have "[0..<Suc (length (c # cs))] = 0 # map Suc [0..<Suc (length cs)]"
    unfolding map_Suc_upt by (simp add: upt_conv_Cons del: upt_Suc)
  then show ?case using Cons.IH[of "b @ c"] by (simp add: comp_def del: upt_Suc)
qed simp

lemma read_contents:
  "bc_pending c = Read_content \<Longrightarrow>
   \<exists>r. asio_run False (map (\<lambda>x. (No_error, x)) cs) c
     = c\<lparr>bc_response := r, bc_data := bc_data c @ gathered (bc_response c) cs\<rparr>"
proof (induction cs arbitrary: c)
  case Nil
  show ?case by (intro exI[of _ "bc_response c"]) (simp add: asio_run_def)
next
  case (Cons x cs)
  let ?c = "c\<lparr>bc_response := bc_response c @ x, bc_data := bc_data c @ bc_response c @ x\<rparr>"
  have "asio_step False (No_error, x) c = ?c"
    using Cons.prems by (simp add: asio_step_def handle_read_content_def append_response_def)
  moreover obtain r where "asio_run False (map (\<lambda>x. (No_error, x)) cs) ?c
      = ?c\<lparr>bc_response := r, bc_data := bc_data ?c @ gathered (bc_response ?c) cs\<rparr>"
    using Cons.IH[of ?c] Cons.prems by auto
  ultimately show ?case by (intro exI[of _ r]) (simp add: asio_run_def)
qed

lemma read_contents_debug:
  "bc_pending c = Read_content \<Longrightarrow> bc_response c = [] \<Longrightarrow>
   asio_run True (map (\<lambda>x. (No_error, x)) cs) c = c\<lparr>bc_data := bc_data c @ concat cs\<rparr>"
proof (induction cs arbitrary: c)
  case (Cons x cs)
  let ?c = "c\<lparr>bc_data := bc_data c @ x\<rparr>"
  have "asio_step True (No_error, x) c = ?c"
    using Cons.prems by (simp add: asio_step_def handle_read_content_def append_response_def)
  with Cons.IH[of ?c] Cons.prems show ?case by (simp add: asio_run_def)
qed (simp add: asio_run_def)

lemma asio_run_append: "asio_run b (xs @ ys) c = asio_run b ys (asio_run b xs c)"
  by (simp add: asio_run_def)

lemma asio_run_Cons: "asio_run b (x # xs) c = asio_run b xs (asio_step b x c)"
  by (simp add: asio_run_def)

text \<open>The events of a call that is answered: the response comes in two reads and then in pieces.\<close>

definition answer :: "string \<Rightarrow> string \<Rightarrow> string list \<Rightarrow> (asio_error \<times> string) list" where
  "answer t1 t2 cs =
     [(No_error, []), (No_error, []), (No_error, []), (No_error, t1), (No_error, t2)]
     @ map (\<lambda>x. (No_error, x)) cs @ [(End_of_file, [])]"

definition response_text :: "string \<Rightarrow> string \<Rightarrow> string list \<Rightarrow> string \<Rightarrow> string" where
  "response_text v reason ls d = status_line v reason @ concat (map (\<lambda>l. l @ crlf) ls) @ crlf @ d"

definition head_ok :: "string \<Rightarrow> string \<Rightarrow> string list \<Rightarrow> bool" where
  "head_ok v reason ls \<longleftrightarrow> list_all (\<lambda>c. \<not> is_space c) v \<and> CHR 0x0A \<notin> set reason
     \<and> list_all (\<lambda>l. l \<noteq> [] \<and> CHR 0x0A \<notin> set l) ls"

lemma read_head:
  assumes ok: "head_ok v reason ls" and t: "t1 @ t2 = response_text v reason ls d"
    and t1: "prefix (status_line v reason) t1" and c: "bc_pending c = Resolve" "bc_response c = []" "bc_data c = []"
  shows "asio_run debug [(No_error, []), (No_error, []), (No_error, []), (No_error, t1), (No_error, t2)] c
    = c\<lparr>bc_pending := Read_content, bc_sent := bc_sent c @ bc_request c, bc_request := [],
        bc_data := d, bc_response := (if debug then [] else d)\<rparr>"
proof -
  obtain u where u: "t1 = status_line v reason @ u" using t1 by (auto simp: prefix_def)
  then have u2: "u @ t2 = concat (map (\<lambda>l. l @ crlf) ls) @ crlf @ d"
    using t by (simp add: response_text_def)
  obtain s1 s2 m where s: "read_word (stream_of t1) = (''HTTP/'' @ v, s1)"
    "read_uint s1 = (200, s2)" "getline s2 = (m, stream_of u)"
    using read_status_line ok u unfolding head_ok_def by blast
  have k: "skip_headers (stream_of (u @ t2)) = stream_of d"
    unfolding u2 by (rule skip_header_lines) (use ok in \<open>simp add: head_ok_def\<close>)
  let ?c1 = "c\<lparr>bc_pending := Read_status_line, bc_sent := bc_sent c @ bc_request c, bc_request := []\<rparr>"
  have 1: "asio_run debug [(No_error, []), (No_error, []), (No_error, [])] c = ?c1"
    using c by (simp add: asio_run_def asio_step_def handle_resolve_def handle_connect_def handle_write_request_def)
  let ?c2 = "?c1\<lparr>bc_pending := Read_headers, bc_response := u\<rparr>"
  have 2: "asio_step debug (No_error, t1) ?c1 = ?c2"
    using c s by (simp add: asio_step_def handle_read_status_line_def) (simp add: stream_of_def)
  have 3: "asio_step debug (No_error, t2) ?c2
    = c\<lparr>bc_pending := Read_content, bc_sent := bc_sent c @ bc_request c, bc_request := [],
        bc_data := d, bc_response := (if debug then [] else d)\<rparr>"
    using c k by (simp add: asio_step_def handle_read_headers_def stream_of_def Let_def append_response_def)
  have "asio_run debug ([(No_error, []), (No_error, []), (No_error, [])] @ [(No_error, t1), (No_error, t2)]) c
    = asio_step debug (No_error, t2) (asio_step debug (No_error, t1) ?c1)"
    unfolding asio_run_append 1 by (simp add: asio_run_def)
  then show ?thesis unfolding 2 3 by simp
qed

lemma end_of_content:
  "bc_pending c = Read_content \<Longrightarrow> bc_pending (asio_run debug [(End_of_file, [])] c) = Idle
     \<and> bc_data (asio_run debug [(End_of_file, [])] c) = bc_data c"
  by (simp add: asio_run_def asio_step_def handle_read_content_def)

lemma get_started:
  "\<exists>e r. handle_request_resolve addr buildGetRequest new_boost_client
     = new_boost_client\<lparr>bc_endpoint := e, bc_request := r, bc_pending := Resolve\<rparr>"
  by (cases "snd (parseUrl addr ([], [], []))")
    (simp add: handle_request_resolve_def buildGetRequest_def new_boost_client_def)

lemma gathered_length: "length (concat cs) \<le> length (gathered b cs)"
proof (induction cs arbitrary: b)
  case (Cons c cs)
  from Cons.IH[of "b @ c"] show ?case by simp
qed simp

lemma gathered_once:
  assumes "\<forall>c\<in>set cs. c \<noteq> []"
  shows "d @ gathered d cs = d @ concat cs \<longleftrightarrow> cs = [] \<or> d = [] \<and> length cs = 1"
proof (cases cs)
  case (Cons c cs')
  then have c: "c \<noteq> []" using assms by simp
  show ?thesis
  proof (cases cs')
    case (Cons c' cs'')
    have "length (gathered (d @ c @ c') cs'') \<ge> length (concat cs'')" by (rule gathered_length)
    then have "length (gathered d cs) > length (concat cs)"
      using c \<open>cs = c # cs'\<close> Cons by (simp add: length_greater_0_conv[symmetric] del: length_greater_0_conv)
    then have "gathered d cs \<noteq> concat cs" by (metis less_irrefl)
    moreover have "\<not> (cs = [] \<or> d = [] \<and> length cs = 1)" using Cons \<open>cs = c # cs'\<close> by simp
    ultimately show ?thesis by simp
  qed (use Cons in simp)
qed simp


section \<open>Properties\<close>

text \<open>
  C37: The second client's response. When the status line, the header lines and a first part of
  the content have come and then further pieces, a debug build returns the content. A release
  build never takes the bytes it has copied out of its buffer, so it returns all the content so
  far once more for each piece: its answer is right only if there is nothing to repeat.
\<close>

theorem boost_response:
  assumes "head_ok v reason ls" and "t1 @ t2 = response_text v reason ls d"
    and "prefix (status_line v reason) t1"
  shows "lin_get True addr (answer t1 t2 cs) = Some (d @ concat cs)
    \<and> lin_get False addr (answer t1 t2 cs)
        = Some (concat (map (\<lambda>k. d @ concat (take k cs)) [0..<Suc (length cs)]))
    \<and> ((\<forall>c\<in>set cs. c \<noteq> []) \<longrightarrow>
        (lin_get False addr (answer t1 t2 cs) = Some (d @ concat cs) \<longleftrightarrow> cs = [] \<or> d = [] \<and> length cs = 1))"
proof -
  obtain e r where start: "handle_request_resolve addr buildGetRequest new_boost_client
      = new_boost_client\<lparr>bc_endpoint := e, bc_request := r, bc_pending := Resolve\<rparr>" (is "_ = ?c")
    using get_started by blast
  let ?h = "[(No_error, []), (No_error, []), (No_error, []), (No_error, t1), (No_error, t2)]"
  have head: "asio_run debug ?h ?c = ?c\<lparr>bc_pending := Read_content, bc_sent := bc_sent ?c @ bc_request ?c,
      bc_request := [], bc_data := d, bc_response := (if debug then [] else d)\<rparr>" for debug
    by (rule read_head[OF assms]) (simp_all add: new_boost_client_def)
  have "lin_get True addr (answer t1 t2 cs) = Some (d @ concat cs)"
    using end_of_content read_contents_debug
    by (simp add: lin_get_def lin_call_def answer_def start head asio_run_append getResponse_def
        del: append_Cons append_Nil)
  moreover
  let ?b = "?c\<lparr>bc_pending := Read_content, bc_sent := bc_sent ?c @ bc_request ?c,
      bc_request := [], bc_data := d, bc_response := d\<rparr>"
  obtain r' where "asio_run False (map (\<lambda>x. (No_error, x)) cs) ?b
      = ?b\<lparr>bc_response := r', bc_data := bc_data ?b @ gathered (bc_response ?b) cs\<rparr>"
    using read_contents[of ?b cs] by auto
  then have "lin_get False addr (answer t1 t2 cs) = Some (d @ gathered d cs)"
    using end_of_content
    by (simp add: lin_get_def lin_call_def answer_def start head asio_run_append getResponse_def
        del: append_Cons append_Nil)
  ultimately show ?thesis using gathered_once[of cs d] by (simp add: gathered_prefixes del: upt_Suc)
qed

lemma boost_response_value:
  "concat (map (\<lambda>k. ''ab'' @ concat (take k [''cd'', ''ef''])) [0, 1, 2 :: nat]) = ''ababcdabcdef''"
  by simp

theorem boost_response_witness:
  "let evs = answer (''HTTP/1.0 200 OK'' @ crlf) (''Server: robot'' @ crlf @ crlf @ ''ab'') [''cd'', ''ef'']
   in lin_get True ''http://10.0.0.1/status'' evs = Some ''abcdef''
      \<and> lin_get False ''http://10.0.0.1/status'' evs = Some ''ababcdabcdef''"
proof -
  have 1: "head_ok ''1.0'' ''OK'' [''Server: robot'']" by (simp add: head_ok_def is_space_def)
  have 2: "(''HTTP/1.0 200 OK'' @ crlf) @ ''Server: robot'' @ crlf @ crlf @ ''ab''
      = response_text ''1.0'' ''OK'' [''Server: robot''] ''ab''"
    by (simp add: response_text_def status_line_def)
  have 3: "prefix (status_line ''1.0'' ''OK'') (''HTTP/1.0 200 OK'' @ crlf)"
    by (simp add: status_line_def)
  have 4: "[0..<Suc (length [''cd'', ''ef''])] = [0, 1, 2]" by (simp add: upt_conv_Cons)
  show ?thesis
    using boost_response[OF 1 2 3, of "''http://10.0.0.1/status''" "[''cd'', ''ef'']"]
    unfolding 4 boost_response_value Let_def by simp
qed

lemma resolve_started:
  assumes "snd (parseUrl addr ([], [], [])) = (srv, prt, path)" and "func srv path [] = Done r"
  shows "handle_request_resolve addr func new_boost_client
    = \<lparr>bc_endpoint = (srv, prt), bc_request = r, bc_sent = [], bc_response = [], bc_data = [], bc_pending = Resolve\<rparr>"
  using assms by (simp add: handle_request_resolve_def new_boost_client_def)



end
