(* ===== verification/Serial_Port.thy ===== *)
theory Serial_Port
  imports Cxx_String
begin

text \<open>
  The serial ports, \<^verbatim>\<open>Include/com/Source/linux_serial.cpp\<close> and \<^verbatim>\<open>linux_serialport_imp.cpp\<close>: the
  table of open ports, the settings kept for them and the class on top. The operating system is
  a part of the state (the settings of a terminal, the descriptors that are open) and the
  answers it gives to a call; the flag values are those of Linux, as termios(3) has them.
\<close>


section \<open>Terminal settings\<close>

record termios =
  c_iflag :: u32
  c_oflag :: u32
  c_cflag :: u32
  c_lflag :: u32
  vtime :: nat
  vmin :: nat

definition CBAUD :: u32 where "CBAUD = 0x100F"
definition CSIZE :: u32 where "CSIZE = 0x30"
definition CS5 :: u32 where "CS5 = 0"
definition CS6 :: u32 where "CS6 = 0x10"
definition CS7 :: u32 where "CS7 = 0x20"
definition CS8 :: u32 where "CS8 = 0x30"
definition CSTOPB :: u32 where "CSTOPB = 0x40"
definition CREAD :: u32 where "CREAD = 0x80"
definition PARENB :: u32 where "PARENB = 0x100"
definition PARODD :: u32 where "PARODD = 0x200"
definition CLOCAL :: u32 where "CLOCAL = 0x800"
definition CMSPAR :: u32 where "CMSPAR = 0x40000000"
definition CRTSCTS :: u32 where "CRTSCTS = 0x80000000"
definition INPCK :: u32 where "INPCK = 0x10"
definition IXON :: u32 where "IXON = 0x400"
definition IXANY :: u32 where "IXANY = 0x800"
definition IXOFF :: u32 where "IXOFF = 0x1000"

lemmas flag_defs = CBAUD_def CSIZE_def CS5_def CS6_def CS7_def CS8_def CSTOPB_def CREAD_def
  PARENB_def PARODD_def CLOCAL_def CMSPAR_def CRTSCTS_def INPCK_def IXON_def IXANY_def IXOFF_def

text \<open>The speeds, as numbers and as the codes of the settings.\<close>

definition speed_table1 :: "nat list" where
  "speed_table1 = [0, 50, 75, 110, 134, 150, 200, 300, 600, 1200, 1800, 2400, 4800, 9600,
     19200, 38400, 57600, 115200, 230400, 460800, 500000, 576000, 921600]"

definition B9600 :: u32 where "B9600 = 13"

definition speed_table2 :: "u32 list" where
  "speed_table2 = [0, 1, 2, 3, 4, 5, 6, 7, 8, 9, 10, 11, 12, B9600, 14, 15,
     0x1001, 0x1002, 0x1003, 0x1004, 0x1005, 0x1006, 0x1007]"

definition zero_termios :: termios where
  "zero_termios = \<lparr>c_iflag = 0, c_oflag = 0, c_cflag = 0, c_lflag = 0, vtime = 0, vmin = 0\<rparr>"

text \<open>The library keeps a speed in the control flags; 0 as the input speed is a flag of its own.\<close>

definition cfsetospeed :: "u32 \<Rightarrow> termios \<Rightarrow> termios" where
  "cfsetospeed sp t = t\<lparr>c_cflag := (c_cflag t AND NOT CBAUD) OR sp\<rparr>"

definition cfsetispeed :: "u32 \<Rightarrow> termios \<Rightarrow> termios" where
  "cfsetispeed sp t =
     (if sp = 0 then t\<lparr>c_iflag := c_iflag t OR 0x80000000\<rparr>
      else t\<lparr>c_iflag := c_iflag t AND NOT 0x80000000, c_cflag := (c_cflag t AND NOT CBAUD) OR sp\<rparr>)"

definition cfmakeraw :: "termios \<Rightarrow> termios" where
  "cfmakeraw t = t\<lparr>c_iflag := c_iflag t AND NOT 0x5EB, c_oflag := c_oflag t AND NOT 1,
     c_lflag := c_lflag t AND NOT 0x804B, c_cflag := (c_cflag t AND NOT (CSIZE OR PARENB)) OR CS8,
     vmin := 1, vtime := 0\<rparr>"


section \<open>Ports\<close>

text \<open>
  The builds: the macro that is defined, or none. The device of a port, for \<open>SerialOpen\<close> and for
  the two routines that look at the mode of a port that is not open; \<open>None\<close>: that build has no
  such routine.
\<close>

datatype board = HZ300B | HZ300C | ZKTY_TGW3030 | ZKTY | LINUX | Moxa

definition open_device :: "board \<Rightarrow> int \<Rightarrow> string" where
  "open_device b p =
     (case b of
        HZ300B \<Rightarrow> if p > 2 then ''/dev/ttyS'' @ show_int (p - 3) else ''/dev/ttyAM'' @ show_int p
      | HZ300C \<Rightarrow> if p > 2 then ''/dev/ttyS'' @ show_int (p - 3) else ''/dev/ttyAM'' @ show_int p
      | ZKTY_TGW3030 \<Rightarrow> ''/dev/ttymxc'' @ show_int p
      | ZKTY \<Rightarrow> ''/dev/ttyO'' @ show_int (p - 1)
      | LINUX \<Rightarrow> if p = 1 \<or> p = 2 then ''/dev/ttyS'' @ show_int (p - 1) else ''/dev/ttyAP'' @ show_int (p - 3)
      | Moxa \<Rightarrow> ''/dev/ttyM'' @ show_int p)"

definition set_mode_device :: "board \<Rightarrow> int \<Rightarrow> string option" where
  "set_mode_device b p =
     (case b of
        HZ300B \<Rightarrow> Some (''/dev/ttyM'' @ show_int p)
      | ZKTY \<Rightarrow> Some (''/dev/ttyO'' @ show_int (p - 1))
      | LINUX \<Rightarrow> Some (if p \<ge> 1 then ''/dev/ttyAP'' @ show_int (p - 1) else ''/dev/ttyS'' @ show_int p)
      | _ \<Rightarrow> None)"

definition get_mode_device :: "board \<Rightarrow> int \<Rightarrow> string" where
  "get_mode_device b p =
     (case b of
        HZ300B \<Rightarrow> if p > 1 then ''/dev/ttyS'' @ show_int (p - 2) else ''/dev/ttyAM'' @ show_int p
      | ZKTY \<Rightarrow> ''/dev/ttyO'' @ show_int (p - 1)
      | LINUX \<Rightarrow> if p \<ge> 1 then ''/dev/ttyAP'' @ show_int (p - 1) else ''/dev/ttyS'' @ show_int p
      | _ \<Rightarrow> ''/dev/ttyM'' @ show_int p)"

text \<open>
  The three arrays of the file and the system behind them: the settings of the terminal a
  descriptor is open on, whether reads from it return at once, what was written to it, and the
  descriptors that are open.
\<close>

record serial =
  fd_map :: "int list"
  oldtio :: "termios list"
  newtio :: "termios list"
  tty :: "int \<Rightarrow> termios"
  nodelay :: "int \<Rightarrow> bool"
  wire :: "int \<Rightarrow> bytes"
  open_fds :: "int set"

definition MAX_PORT_NUM :: nat where "MAX_PORT_NUM = 20"

definition serial_start :: "(int \<Rightarrow> termios) \<Rightarrow> serial" where
  "serial_start t = \<lparr>fd_map = replicate MAX_PORT_NUM (- 1), oldtio = replicate MAX_PORT_NUM zero_termios,
     newtio = replicate MAX_PORT_NUM zero_termios, tty = t, nodelay = (\<lambda>_. False),
     wire = (\<lambda>_. []), open_fds = {}\<rparr>"

definition SERIAL_OK :: int where "SERIAL_OK = 0"
definition SERIAL_ERROR_FD :: int where "SERIAL_ERROR_FD = - 1"
definition SERIAL_ERROR_OPEN :: int where "SERIAL_ERROR_OPEN = - 2"
definition SERIAL_PARAMETER_ERROR :: int where "SERIAL_PARAMETER_ERROR = - 3"

lemmas serial_code_defs = SERIAL_OK_def SERIAL_ERROR_FD_def SERIAL_ERROR_OPEN_def SERIAL_PARAMETER_ERROR_def

text \<open>A port number indexes the arrays; nothing checks it.\<close>

definition port_ok :: "int \<Rightarrow> bool" where
  "port_ok p \<longleftrightarrow> 0 \<le> p \<and> nat p < MAX_PORT_NUM"

definition FindFD :: "int \<Rightarrow> serial \<Rightarrow> int outcome" where
  "FindFD p s =
     (if \<not> port_ok p then Undef
      else Done (if fd_map s ! nat p = - 1 then SERIAL_ERROR_FD else fd_map s ! nat p))"

definition tcsetattr_new :: "int \<Rightarrow> int \<Rightarrow> serial \<Rightarrow> serial" where
  "tcsetattr_new fd p s = s\<lparr>tty := (tty s)(fd := newtio s ! nat p)\<rparr>"

definition set_new :: "int \<Rightarrow> (termios \<Rightarrow> termios) \<Rightarrow> serial \<Rightarrow> serial" where
  "set_new p f s = s\<lparr>newtio := (newtio s)[nat p := f (newtio s ! nat p)]\<rparr>"

text \<open>Every routine looks the descriptor up first and returns the error if there is none.\<close>

type_synonym serial_result = "(int \<times> serial) outcome"

definition with_fd :: "int \<Rightarrow> serial \<Rightarrow> (int \<Rightarrow> serial_result) \<Rightarrow> serial_result" where
  "with_fd p s f = obind (FindFD p s) (\<lambda>fd. if fd < 0 then Done (fd, s) else f fd)"

text \<open>
  What the system answers to an open: a descriptor for a device, and whether the settings are
  taken. Later settings of an open terminal are.
\<close>

record serial_os =
  sys_open :: "string \<Rightarrow> int"
  setattr_ok :: bool

definition SerialOpen :: "board \<Rightarrow> serial_os \<Rightarrow> int \<Rightarrow> serial \<Rightarrow> serial_result" where
  "SerialOpen b os p s =
     (if \<not> port_ok p then Undef
      else if fd_map s ! nat p \<noteq> - 1 then Done (SERIAL_ERROR_OPEN, s)
      else let fd = sys_open os (open_device b p) in
        if fd < 0 then Done (SERIAL_ERROR_OPEN, s)
        else let tio = zero_termios\<lparr>c_cflag := B9600 OR CS8 OR CREAD OR CLOCAL, vmin := 1\<rparr>;
                 s = s\<lparr>open_fds := insert fd (open_fds s), fd_map := (fd_map s)[nat p := fd],
                       oldtio := (oldtio s)[nat p := tty s fd], newtio := (newtio s)[nat p := tio]\<rparr>
             in if b = LINUX \<or> b = Moxa then Done (fd, if setattr_ok os then tcsetattr_new fd p s else s)
                else let s = set_new p cfmakeraw s
                     in if setattr_ok os then Done (fd, tcsetattr_new fd p s) else Done (- 1, s))"

text \<open>\<open>write\<close> and \<open>read\<close> answer with -1 or a number of bytes.\<close>

definition SerialWrite :: "int \<Rightarrow> int \<Rightarrow> bytes \<Rightarrow> serial \<Rightarrow> serial_result" where
  "SerialWrite n p str s =
     with_fd p s (\<lambda>fd. Done (n, s\<lparr>wire := (wire s)(fd := wire s fd @ take (nat n) str)\<rparr>))"

definition SerialNonBlockRead :: "int \<Rightarrow> int \<Rightarrow> serial \<Rightarrow> serial_result" where
  "SerialNonBlockRead n p s = with_fd p s (\<lambda>fd. Done (n, s\<lparr>nodelay := (nodelay s)(fd := True)\<rparr>))"

definition SerialBlockRead :: "int \<Rightarrow> int \<Rightarrow> serial \<Rightarrow> serial_result" where
  "SerialBlockRead n p s = with_fd p s (\<lambda>fd. Done (n, s\<lparr>nodelay := (nodelay s)(fd := False)\<rparr>))"

definition SerialClose :: "int \<Rightarrow> serial \<Rightarrow> serial_result" where
  "SerialClose p s =
     with_fd p s (\<lambda>fd. Done (SERIAL_OK,
       s\<lparr>tty := (tty s)(fd := oldtio s ! nat p), open_fds := open_fds s - {fd},
         fd_map := (fd_map s)[nat p := - 1]\<rparr>))"

definition SerialDataInInputQueue :: "int \<Rightarrow> int \<Rightarrow> serial \<Rightarrow> serial_result" where
  "SerialDataInInputQueue n p s = with_fd p s (\<lambda>fd. Done (n, s))"

definition SerialDataInOutputQueue :: "int \<Rightarrow> int \<Rightarrow> serial \<Rightarrow> serial_result" where
  "SerialDataInOutputQueue n p s = with_fd p s (\<lambda>fd. Done (n, s))"

text \<open>\<open>!\<close> of a flag that is not zero is 0.\<close>

definition logical_not :: "u32 \<Rightarrow> u32" where
  "logical_not w = (if w = 0 then 1 else 0)"

definition SerialFlowControl :: "int \<Rightarrow> int \<Rightarrow> serial \<Rightarrow> serial_result" where
  "SerialFlowControl p control s =
     with_fd p s (\<lambda>fd.
       if control = 0 then Done (SERIAL_OK, tcsetattr_new fd p (set_new p (\<lambda>t.
            t\<lparr>c_cflag := c_cflag t AND logical_not CRTSCTS,
              c_iflag := c_iflag t AND logical_not (IXON OR IXOFF OR IXANY)\<rparr>) s))
       else if control = 1 then Done (SERIAL_OK, tcsetattr_new fd p (set_new p (\<lambda>t.
            t\<lparr>c_cflag := c_cflag t OR CRTSCTS\<rparr>) s))
       else if control = 2 then Done (SERIAL_OK, tcsetattr_new fd p (set_new p (\<lambda>t.
            t\<lparr>c_iflag := c_iflag t OR (IXON OR IXOFF OR IXANY)\<rparr>) s))
       else Done (SERIAL_PARAMETER_ERROR, s))"

text \<open>The loop over the table; its end is an index past both tables.\<close>

function speed_loop :: "nat \<Rightarrow> nat \<Rightarrow> nat" where
  "speed_loop speed i =
     (if i < length speed_table1 \<and> \<not> speed_table1 ! i \<ge> speed then speed_loop speed (i + 1) else i)"
  by pat_completeness auto
termination by (relation "measure (\<lambda>(_, i). length speed_table1 - i)") auto

declare speed_loop.simps [simp del]

definition SerialSetSpeed :: "int \<Rightarrow> u32 \<Rightarrow> serial \<Rightarrow> serial_result" where
  "SerialSetSpeed p speed s =
     with_fd p s (\<lambda>fd.
       let i = speed_loop (unat speed) 1 in
       if length speed_table2 \<le> i then Undef
       else Done (SERIAL_OK, tcsetattr_new fd p
              (set_new p (\<lambda>t. cfsetospeed (speed_table2 ! i) (cfsetispeed (speed_table2 ! i) t)) s)))"

text \<open>
  The mode of a port: a port that is not open is opened for the call. \<open>ret\<close> and \<open>mode\<close> are the
  answers of \<open>ioctl\<close>. The call is commented out in the builds for HZ300B and ZKTY, so that
  \<open>mode\<close> has no value there.
\<close>

definition for_mode :: "serial_os \<Rightarrow> string \<Rightarrow> int \<Rightarrow> serial \<Rightarrow> (int \<Rightarrow> serial \<Rightarrow> serial_result) \<Rightarrow> serial_result" where
  "for_mode os device p s f =
     obind (FindFD p s) (\<lambda>fd.
       if fd < 0
       then let fd = sys_open os device in
            if fd < 0 then Done (SERIAL_ERROR_OPEN, s)
            else obind (f fd (s\<lparr>open_fds := insert fd (open_fds s)\<rparr>)) (\<lambda>(r, s).
                 Done (r, s\<lparr>open_fds := open_fds s - {fd}\<rparr>))
       else f fd s)"

definition SerialSetMode :: "board \<Rightarrow> serial_os \<Rightarrow> int \<Rightarrow> int \<Rightarrow> serial \<Rightarrow> serial_result option" where
  "SerialSetMode b os ret p s =
     map_option (\<lambda>device. for_mode os device p s (\<lambda>fd s. Done (if b = LINUX then ret else 0, s)))
       (set_mode_device b p)"

definition SerialGetMode :: "board \<Rightarrow> serial_os \<Rightarrow> int \<Rightarrow> int \<Rightarrow> int \<Rightarrow> serial \<Rightarrow> serial_result" where
  "SerialGetMode b os ret mode p s =
     for_mode os (get_mode_device b p) p s (\<lambda>fd s.
       if b = HZ300B \<or> b = ZKTY then Undef
       else Done (if ret < 0 then ret else mode, s))"

definition set_parity :: "int \<Rightarrow> termios \<Rightarrow> termios" where
  "set_parity parity t =
     (if parity = 0 then t\<lparr>c_cflag := c_cflag t AND NOT PARENB, c_iflag := c_iflag t AND NOT INPCK\<rparr>
      else if parity = 1 then t\<lparr>c_cflag := (c_cflag t OR PARODD) OR PARENB\<rparr>
      else if parity = 2 then t\<lparr>c_cflag := (c_cflag t OR PARENB) AND NOT PARODD\<rparr>
      else if parity = 3 then t\<lparr>c_cflag := (c_cflag t OR (PARENB OR CMSPAR)) AND NOT PARODD\<rparr>
      else if parity = 4 then t\<lparr>c_cflag := c_cflag t OR (PARENB OR CMSPAR OR PARODD)\<rparr>
      else t)"

definition set_databits :: "int \<Rightarrow> termios \<Rightarrow> termios" where
  "set_databits databits t =
     (let t = t\<lparr>c_cflag := c_cflag t AND NOT CSIZE\<rparr> in
      if databits = 5 then t\<lparr>c_cflag := c_cflag t OR CS5\<rparr>
      else if databits = 6 then t\<lparr>c_cflag := c_cflag t OR CS6\<rparr>
      else if databits = 7 then t\<lparr>c_cflag := c_cflag t OR CS7\<rparr>
      else if databits = 8 then t\<lparr>c_cflag := c_cflag t OR CS8\<rparr>
      else t)"

definition set_stopbit :: "int \<Rightarrow> termios \<Rightarrow> termios" where
  "set_stopbit stopbit t =
     (if stopbit = 1 then t\<lparr>c_cflag := c_cflag t AND NOT CSTOPB\<rparr>
      else if stopbit = 2 then t\<lparr>c_cflag := c_cflag t OR CSTOPB\<rparr>
      else t)"

definition SerialSetParam :: "int \<Rightarrow> int \<Rightarrow> int \<Rightarrow> int \<Rightarrow> serial \<Rightarrow> serial_result" where
  "SerialSetParam p parity databits stopbit s =
     with_fd p s (\<lambda>fd. Done (SERIAL_OK, tcsetattr_new fd p
       (set_new p (\<lambda>t. set_stopbit stopbit (set_databits databits (set_parity parity t))) s)))"

text \<open>It sends a break; the buffers stay as they are.\<close>

definition SerialCleanBuff :: "int \<Rightarrow> serial \<Rightarrow> serial_result" where
  "SerialCleanBuff p s = with_fd p s (\<lambda>fd. Done (SERIAL_OK, s))"


section \<open>The class\<close>

text \<open>\<open>None\<close> is a member the constructor does not set.\<close>

record port_object =
  m_nPort :: "int option"
  m_nTimeOut :: "int option"
  m_b_open :: bool

definition new_port_object :: port_object where
  "new_port_object = \<lparr>m_nPort = None, m_nTimeOut = None, m_b_open = False\<rparr>"

definition SUCCEED :: int where "SUCCEED = 0"
definition FAIL :: int where "FAIL = - 1"

type_synonym class_result = "(int \<times> port_object \<times> serial) outcome"

definition the_port :: "port_object \<Rightarrow> int outcome" where
  "the_port c = (case m_nPort c of None \<Rightarrow> Undef | Some p \<Rightarrow> Done p)"

definition port_open :: "board \<Rightarrow> serial_os \<Rightarrow> int \<Rightarrow> port_object \<Rightarrow> serial \<Rightarrow> class_result" where
  "port_open b os p c s =
     obind (SerialOpen b os p s) (\<lambda>(r, s).
       if r = SERIAL_ERROR_OPEN then Done (FAIL, c\<lparr>m_nPort := Some p\<rparr>, s)
       else Done (SUCCEED, c\<lparr>m_nPort := Some p, m_b_open := True\<rparr>, s))"

definition set_para :: "int \<Rightarrow> int \<Rightarrow> int \<Rightarrow> int \<Rightarrow> int \<Rightarrow> port_object \<Rightarrow> serial \<Rightarrow> class_result" where
  "set_para baud parity databits stopbit timeout c s =
     obind (the_port c) (\<lambda>p.
     obind (SerialSetSpeed p (of_int baud) s) (\<lambda>(_, s).
     obind (SerialSetParam p parity databits stopbit s) (\<lambda>(_, s).
       Done (SUCCEED, c\<lparr>m_nTimeOut := Some timeout\<rparr>, s))))"

definition port_write :: "int \<Rightarrow> bytes \<Rightarrow> port_object \<Rightarrow> serial \<Rightarrow> class_result" where
  "port_write n buf c s =
     obind (the_port c) (\<lambda>p. obind (SerialWrite n p buf s) (\<lambda>(_, s). Done (SUCCEED, c, s)))"

definition clear_read_buff :: "port_object \<Rightarrow> serial \<Rightarrow> class_result" where
  "clear_read_buff c s =
     obind (the_port c) (\<lambda>p. obind (SerialCleanBuff p s) (\<lambda>(r, s).
       Done (if r = SERIAL_OK then SUCCEED else FAIL, c, s)))"

definition port_close :: "port_object \<Rightarrow> serial \<Rightarrow> class_result" where
  "port_close c s =
     (if \<not> m_b_open c then Done (SUCCEED, c, s)
      else obind (the_port c) (\<lambda>p. obind (SerialClose p s) (\<lambda>(r, s).
        if r = SERIAL_OK then Done (SUCCEED, c\<lparr>m_b_open := False\<rparr>, s) else Done (FAIL, c, s))))"

text \<open>
  \<open>read\<close>: a round is what the system says in one turn of the loop: the length of the input
  queue, the bytes a read gives (\<open>None\<close>: an error, -1) and the clock in microseconds. The bytes
  are copied behind those before without regard to \<open>len\<close>, the size of the caller's buffer: more
  than it holds is undefined, and so is the copy of -1 bytes. \<open>None\<close>: the loop goes on.
\<close>

record round =
  in_queue :: int
  got :: "bytes option"
  clock_us :: nat

definition late :: "nat \<Rightarrow> nat \<Rightarrow> int \<Rightarrow> bool outcome" where
  "late start now timeout =
     (if timeout * 1000 < - (2 ^ 31) \<or> 2 ^ 31 \<le> timeout * 1000 then Undef
      else Done ((of_nat now - of_nat start :: u64) > of_int (timeout * 1000)))"

fun read_loop :: "nat \<Rightarrow> nat \<Rightarrow> port_object \<Rightarrow> bool \<Rightarrow> bytes \<Rightarrow> round list \<Rightarrow> serial
    \<Rightarrow> (bytes \<times> serial) outcome option" where
  "read_loop len start c b_start_read buf [] s = None"
| "read_loop len start c b_start_read buf (r # rs) s =
     (case obind (the_port c) (\<lambda>p. SerialDataInInputQueue (in_queue r) p s) of
        Done (n, s) \<Rightarrow>
          if n > 0
          then if length buf \<ge> 1024 then Some (Done (buf, s))
               else (case obind (the_port c) (\<lambda>p. SerialNonBlockRead 0 p s) of
                       Done (_, s) \<Rightarrow>
                         (case got r of
                            None \<Rightarrow> Some Undef
                          | Some bs \<Rightarrow>
                              if length (take 1024 bs) + length buf > len then Some Undef
                              else read_loop len start c True (buf @ take 1024 bs) rs s)
                     | e \<Rightarrow> Some Undef)
          else if b_start_read then Some (Done (buf, s))
          else (case m_nTimeOut c of
                  None \<Rightarrow> Some Undef
                | Some timeout \<Rightarrow>
                    (case late start (clock_us r) timeout of
                       Done l \<Rightarrow> if l then Some (Done (buf, s))
                                 else read_loop len start c b_start_read buf rs s
                     | e \<Rightarrow> Some Undef))
      | e \<Rightarrow> Some Undef)"

definition port_read :: "nat \<Rightarrow> nat \<Rightarrow> port_object \<Rightarrow> round list \<Rightarrow> serial \<Rightarrow> (bytes \<times> serial) outcome option" where
  "port_read len start c rs s = read_loop len start c False [] rs s"

end
