(* ===== verification/Serial_Port_Correct.thy ===== *)
theory Serial_Port_Correct
  imports Serial_Port
begin

text \<open>
  Correctness of the serial ports: the settings in force are those kept for the port, a port
  that is closed leaves its terminal as it found it, the frame a caller asks for is the frame
  on the line, and where the class does something else.
\<close>


section \<open>Flags\<close>

text \<open>What the control flags mean on the line.\<close>

definition speed_of :: "u32 \<Rightarrow> u32" where "speed_of c = c AND CBAUD"

definition databits_of :: "u32 \<Rightarrow> int" where
  "databits_of c =
     (if c AND CSIZE = CS5 then 5 else if c AND CSIZE = CS6 then 6 else if c AND CSIZE = CS7 then 7 else 8)"

definition parity_of :: "u32 \<Rightarrow> int" where
  "parity_of c =
     (if c AND PARENB = 0 then 0
      else if c AND CMSPAR = 0 then (if c AND PARODD = 0 then 2 else 1)
      else (if c AND PARODD = 0 then 3 else 4))"

definition stopbits_of :: "u32 \<Rightarrow> int" where
  "stopbits_of c = (if c AND CSTOPB = 0 then 1 else 2)"

lemmas mask_simps = flag_defs and.assoc bit.conj_disj_distrib2

text \<open>Each step changes its own flags and no others.\<close>

lemma set_speed_flags:
  fixes t :: termios
  assumes "sp AND CBAUD = sp" and "sp \<noteq> 0"
  defines "c \<equiv> c_cflag (cfsetospeed sp (cfsetispeed sp t))"
  shows "c AND CBAUD = sp" and "CBAUD AND k = 0 \<Longrightarrow> c AND k = c_cflag t AND k"
proof -
  have c: "c = (((c_cflag t AND NOT CBAUD) OR sp) AND NOT CBAUD) OR sp"
    using assms(2) by (simp add: c_def cfsetospeed_def cfsetispeed_def)
  have m: "(x AND NOT CBAUD) AND CBAUD = 0" for x :: u32 by (simp add: mask_simps)
  show "c AND CBAUD = sp" unfolding c bit.conj_disj_distrib2 m assms(1) by simp
  assume k: "CBAUD AND k = 0"
  have sp: "sp AND k = 0" by (metis assms(1) k and.assoc and_zero_eq)
  have n: "(x AND NOT CBAUD) AND k = x AND k" for x :: u32
  proof -
    have "k = (CBAUD OR NOT CBAUD) AND k" by simp
    also have "\<dots> = (CBAUD AND k) OR (NOT CBAUD AND k)" by (rule bit.conj_disj_distrib2)
    finally have "NOT CBAUD AND k = k" using k by simp
    then show ?thesis by (simp add: and.assoc)
  qed
  show "c AND k = c_cflag t AND k" unfolding c bit.conj_disj_distrib2 n sp by simp
qed

lemma set_parity_flags:
  assumes "k \<in> {CBAUD, CSIZE, CSTOPB, CREAD, CLOCAL, CRTSCTS}"
  shows "c_cflag (set_parity parity t) AND k = c_cflag t AND k"
  using assms by (auto simp: set_parity_def mask_simps)

lemma set_databits_flags:
  assumes "k \<in> {CBAUD, PARENB, PARODD, CMSPAR, CSTOPB, CREAD, CLOCAL, CRTSCTS}"
  shows "c_cflag (set_databits databits t) AND k = c_cflag t AND k"
  using assms by (auto simp: set_databits_def Let_def mask_simps)

lemma set_stopbit_flags:
  assumes "k \<in> {CBAUD, CSIZE, PARENB, PARODD, CMSPAR, CREAD, CLOCAL, CRTSCTS}"
  shows "c_cflag (set_stopbit stopbit t) AND k = c_cflag t AND k"
  using assms by (auto simp: set_stopbit_def mask_simps)

lemma set_parity_of:
  assumes "parity \<in> {0, 1, 2, 3, 4}" and "c_cflag t AND CMSPAR = 0 \<or> parity \<in> {0, 3, 4}"
  shows "parity_of (c_cflag (set_parity parity t)) = parity"
  using assms by (auto simp: set_parity_def parity_of_def mask_simps)

text \<open>After mark or space parity the stick bit stays: odd parity becomes mark, even becomes space.\<close>

lemma set_parity_stick:
  assumes "c_cflag t AND CMSPAR \<noteq> 0"
  shows "parity_of (c_cflag (set_parity 1 t)) = 4 \<and> parity_of (c_cflag (set_parity 2 t)) = 3"
  using assms by (auto simp: set_parity_def parity_of_def mask_simps)

lemma set_databits_of:
  "databits \<in> {5, 6, 7, 8} \<Longrightarrow> databits_of (c_cflag (set_databits databits t)) = databits"
  by (auto simp: set_databits_def databits_of_def Let_def mask_simps)

lemma set_stopbit_of:
  "stopbit \<in> {1, 2} \<Longrightarrow> stopbits_of (c_cflag (set_stopbit stopbit t)) = stopbit"
  by (auto simp: set_stopbit_def stopbits_of_def mask_simps)

lemma frame_set:
  assumes sp: "sp AND CBAUD = sp" "sp \<noteq> 0"
    and par: "parity \<in> {0, 1, 2, 3, 4}" and db: "databits \<in> {5, 6, 7, 8}" and sb: "stopbit \<in> {1, 2}"
    and stick: "c_cflag t AND CMSPAR = 0 \<or> parity \<in> {0, 3, 4}"
  defines "c \<equiv> c_cflag (set_stopbit stopbit (set_databits databits (set_parity parity
      (cfsetospeed sp (cfsetispeed sp t)))))"
  shows "speed_of c = sp" and "databits_of c = databits" and "parity_of c = parity"
    and "stopbits_of c = stopbit"
    and "k \<in> {CREAD, CLOCAL, CRTSCTS} \<Longrightarrow> c AND k = c_cflag t AND k"
proof -
  let ?t1 = "cfsetospeed sp (cfsetispeed sp t)"
  let ?t2 = "set_parity parity ?t1" let ?t3 = "set_databits databits ?t2"
  have no: "CBAUD AND CREAD = 0" "CBAUD AND CLOCAL = 0" "CBAUD AND CRTSCTS = 0" "CBAUD AND CMSPAR = 0"
    by (simp_all add: flag_defs)
  show "speed_of c = sp"
    using set_speed_flags(1)[OF sp, of t] set_parity_flags[of CBAUD parity ?t1]
      set_databits_flags[of CBAUD databits ?t2] set_stopbit_flags[of CBAUD stopbit ?t3]
    unfolding c_def speed_of_def by simp
  have "c_cflag (set_stopbit stopbit ?t3) AND CSIZE = c_cflag ?t3 AND CSIZE"
    by (rule set_stopbit_flags) simp
  then have "databits_of c = databits_of (c_cflag ?t3)" unfolding c_def by (simp only: databits_of_def)
  then show "databits_of c = databits" using set_databits_of[OF db, of ?t2] by simp
  have "c_cflag ?t1 AND CMSPAR = 0 \<or> parity \<in> {0, 3, 4}"
    using stick set_speed_flags(2)[OF sp no(4), of t] by simp
  note par_t2 = set_parity_of[OF par this]
  have "c_cflag (set_stopbit stopbit ?t3) AND k = c_cflag ?t2 AND k" if "k \<in> {PARENB, PARODD, CMSPAR}" for k
    using that set_databits_flags[of k databits ?t2] set_stopbit_flags[of k stopbit ?t3] by auto
  then have "parity_of c = parity_of (c_cflag ?t2)" unfolding c_def parity_of_def by simp
  then show "parity_of c = parity" using par_t2 by simp
  show "stopbits_of c = stopbit" unfolding c_def by (rule set_stopbit_of[OF sb])
  assume "k \<in> {CREAD, CLOCAL, CRTSCTS}"
  then have k: "CBAUD AND k = 0" "k \<in> {CBAUD, CSIZE, CSTOPB, CREAD, CLOCAL, CRTSCTS}"
    "k \<in> {CBAUD, PARENB, PARODD, CMSPAR, CSTOPB, CREAD, CLOCAL, CRTSCTS}"
    "k \<in> {CBAUD, CSIZE, PARENB, PARODD, CMSPAR, CREAD, CLOCAL, CRTSCTS}"
    using no by auto
  show "c AND k = c_cflag t AND k"
    unfolding c_def set_stopbit_flags[OF k(4)] set_databits_flags[OF k(3)] set_parity_flags[OF k(2)]
    by (rule set_speed_flags(2)[OF sp k(1)])
qed


section \<open>Speeds\<close>

lemma speed_loop_props:
  "i \<le> 23 \<Longrightarrow> i \<le> speed_loop sp i \<and> speed_loop sp i \<le> 23
    \<and> (speed_loop sp i < 23 \<longrightarrow> sp \<le> speed_table1 ! speed_loop sp i)
    \<and> (\<forall>j. i \<le> j \<and> j < speed_loop sp i \<longrightarrow> speed_table1 ! j < sp)"
proof (induction sp i rule: speed_loop.induct)
  case (1 sp i)
  have len: "length speed_table1 = 23" by (simp add: speed_table1_def)
  show ?case
  proof (cases "i < length speed_table1 \<and> \<not> speed_table1 ! i \<ge> sp")
    case True
    then have s: "speed_loop sp i = speed_loop sp (i + 1)" by (subst speed_loop.simps) simp
    have "i + 1 \<le> 23" using True len by simp
    with 1(1)[OF True] True show ?thesis unfolding s
      by (metis Suc_eq_plus1 Suc_leD le_antisym not_less_eq_eq not_less)
  next
    case False
    then have "speed_loop sp i = i" by (subst speed_loop.simps) auto
    with False 1(2) len show ?thesis by auto
  qed
qed

lemma speed_loop_in_table:
  assumes "sp \<le> 921600"
  shows "speed_loop sp 1 < length speed_table2"
proof -
  have l: "length speed_table2 = 23" "speed_table1 ! 22 = 921600"
    by (simp_all add: speed_table2_def speed_table1_def)
  have "\<not> (22 < speed_loop sp 1)"
  proof
    assume "22 < speed_loop sp 1"
    then have "speed_table1 ! 22 < sp" using speed_loop_props[of 1 sp] by simp
    with assms l(2) show False by simp
  qed
  then show ?thesis using l by simp
qed

lemma speed_code:
  assumes "1 \<le> i" and "i < length speed_table2"
  shows "speed_table2 ! i AND CBAUD = speed_table2 ! i \<and> speed_table2 ! i \<noteq> 0"
proof -
  have "\<forall>x\<in>set (drop 1 speed_table2). x AND CBAUD = x \<and> x \<noteq> 0"
    by (simp add: speed_table2_def CBAUD_def B9600_def)
  moreover have "speed_table2 ! i \<in> set (drop 1 speed_table2)"
    using assms by (auto simp: in_set_conv_nth intro!: exI[of _ "i - 1"])
  ultimately show ?thesis by blast
qed


section \<open>The table of ports\<close>

lemma FindFD_ok: "port_ok p \<Longrightarrow> FindFD p s = Done (fd_map s ! nat p)"
  by (simp add: FindFD_def SERIAL_ERROR_FD_def)

lemma with_fd_Done:
  assumes "with_fd p s f = Done (r, s')"
  obtains "port_ok p" "fd_map s ! nat p < 0" "s' = s" "r = fd_map s ! nat p"
  | "port_ok p" "\<not> fd_map s ! nat p < 0" "f (fd_map s ! nat p) = Done (r, s')"
proof (cases "port_ok p")
  case True
  with assms that show thesis by (auto simp: with_fd_def FindFD_ok split: if_splits)
qed (use assms in \<open>simp add: with_fd_def FindFD_def\<close>)

text \<open>
  The state is in order: the arrays have their size, a port is closed or has a descriptor of
  its own that is open, the terminal has the settings kept for it, and no other descriptor is
  open.
\<close>

definition serial_inv :: "serial \<Rightarrow> bool" where
  "serial_inv s \<longleftrightarrow> length (fd_map s) = MAX_PORT_NUM \<and> length (oldtio s) = MAX_PORT_NUM
     \<and> length (newtio s) = MAX_PORT_NUM
     \<and> (\<forall>p<MAX_PORT_NUM. fd_map s ! p \<noteq> - 1 \<longrightarrow>
          0 \<le> fd_map s ! p \<and> tty s (fd_map s ! p) = newtio s ! p
          \<and> (\<forall>q<MAX_PORT_NUM. q \<noteq> p \<longrightarrow> fd_map s ! q \<noteq> fd_map s ! p))
     \<and> open_fds s = set (fd_map s) - {- 1}"

lemma serial_inv_lengths:
  "serial_inv s \<Longrightarrow> length (fd_map s) = MAX_PORT_NUM \<and> length (oldtio s) = MAX_PORT_NUM
     \<and> length (newtio s) = MAX_PORT_NUM"
  by (simp add: serial_inv_def)

lemma serial_inv_start: "serial_inv (serial_start t)"
  by (auto simp: serial_inv_def serial_start_def)

lemma serial_inv_port:
  "serial_inv s \<Longrightarrow> p < MAX_PORT_NUM \<Longrightarrow> fd_map s ! p \<noteq> - 1 \<Longrightarrow>
    0 \<le> fd_map s ! p \<and> tty s (fd_map s ! p) = newtio s ! p
      \<and> (\<forall>q<MAX_PORT_NUM. q \<noteq> p \<longrightarrow> fd_map s ! q \<noteq> fd_map s ! p)"
  by (simp add: serial_inv_def)

lemma serial_inv_set:
  assumes inv: "serial_inv s" and p: "port_ok p" and fd: "fd_map s ! nat p \<noteq> - 1"
  shows "serial_inv (tcsetattr_new (fd_map s ! nat p) p (set_new p f s))"
proof -
  have P: "nat p < MAX_PORT_NUM" using p by (simp add: port_ok_def)
  from serial_inv_port[OF inv P fd] serial_inv_lengths[OF inv] inv P show ?thesis
    unfolding serial_inv_def tcsetattr_new_def set_new_def by (auto simp: nth_list_update)
qed

lemma serial_inv_close:
  assumes inv: "serial_inv s" and p: "port_ok p" and fd: "fd_map s ! nat p \<noteq> - 1"
  shows "serial_inv (s\<lparr>tty := (tty s)(fd_map s ! nat p := x), open_fds := open_fds s - {fd_map s ! nat p},
      fd_map := (fd_map s)[nat p := - 1]\<rparr>)"
proof -
  have P: "nat p < MAX_PORT_NUM" using p by (simp add: port_ok_def)
  note l = serial_inv_lengths[OF inv]
  have u: "\<forall>q<MAX_PORT_NUM. q \<noteq> nat p \<longrightarrow> fd_map s ! q \<noteq> fd_map s ! nat p"
    using serial_inv_port[OF inv P fd] by blast
  have "set ((fd_map s)[nat p := - 1]) - {- 1} = set (fd_map s) - {- 1} - {fd_map s ! nat p}"
  proof (intro equalityI subsetI)
    fix y assume "y \<in> set ((fd_map s)[nat p := - 1]) - {- 1}"
    then obtain q where q: "q < MAX_PORT_NUM" "y = (fd_map s)[nat p := - 1] ! q" "y \<noteq> - 1"
      using l by (auto simp: in_set_conv_nth)
    then have "q \<noteq> nat p" using P l by auto
    with q u l show "y \<in> set (fd_map s) - {- 1} - {fd_map s ! nat p}" by auto
  next
    fix y assume "y \<in> set (fd_map s) - {- 1} - {fd_map s ! nat p}"
    then obtain q where q: "q < MAX_PORT_NUM" "y = fd_map s ! q" "y \<noteq> - 1" "y \<noteq> fd_map s ! nat p"
      using l by (auto simp: in_set_conv_nth)
    then have "(fd_map s)[nat p := - 1] ! q = y" by (cases "q = nat p") auto
    with q l show "y \<in> set ((fd_map s)[nat p := - 1]) - {- 1}"
      by (metis Diff_iff length_list_update nth_mem singletonD)
  qed
  with inv l u P show ?thesis unfolding serial_inv_def by (auto simp: nth_list_update)
qed

lemma serial_inv_open:
  assumes inv: "serial_inv s" and p: "port_ok p" and fd: "fd_map s ! nat p = - 1"
    and new: "0 \<le> n" "n \<notin> open_fds s"
  shows "serial_inv (s\<lparr>open_fds := insert n (open_fds s), fd_map := (fd_map s)[nat p := n],
      oldtio := (oldtio s)[nat p := x], newtio := (newtio s)[nat p := y], tty := (tty s)(n := y)\<rparr>)"
proof -
  have P: "nat p < MAX_PORT_NUM" using p by (simp add: port_ok_def)
  note l = serial_inv_lengths[OF inv]
  have n: "n \<notin> set (fd_map s)" using inv new by (auto simp: serial_inv_def)
  then have u: "\<forall>q<MAX_PORT_NUM. fd_map s ! q \<noteq> n" using l by (metis nth_mem)
  have "set ((fd_map s)[nat p := n]) - {- 1} = insert n (set (fd_map s) - {- 1})"
  proof (intro equalityI subsetI)
    fix z assume "z \<in> set ((fd_map s)[nat p := n]) - {- 1}"
    then show "z \<in> insert n (set (fd_map s) - {- 1})" using set_update_subset_insert by fastforce
  next
    fix z assume z: "z \<in> insert n (set (fd_map s) - {- 1})"
    show "z \<in> set ((fd_map s)[nat p := n]) - {- 1}"
    proof (cases "z = n")
      case True
      then show ?thesis using P l new(1) by (auto simp: set_update_memI)
    next
      case False
      with z obtain q where q: "q < MAX_PORT_NUM" "z = fd_map s ! q" "z \<noteq> - 1"
        using l by (auto simp: in_set_conv_nth)
      then have "q \<noteq> nat p" using fd by auto
      then have "(fd_map s)[nat p := n] ! q = z" using q by simp
      with q l show ?thesis by (metis Diff_iff length_list_update nth_mem singletonD)
    qed
  qed
  with inv l u P new show ?thesis unfolding serial_inv_def by (auto simp: nth_list_update)
qed


section \<open>Sequences of calls\<close>

text \<open>A call, with what the system answers to it.\<close>

datatype serial_call =
    Open serial_os int
  | Write int int bytes
  | Read_now int int
  | Read_block int int
  | Close int
  | In_queue int int
  | Out_queue int int
  | Flow int int
  | Speed int u32
  | Set_mode serial_os int int
  | Get_mode serial_os int int int
  | Param int int int int
  | Clean int

fun run_call :: "board \<Rightarrow> serial_call \<Rightarrow> serial \<Rightarrow> serial_result" where
  "run_call b (Open os p) s = SerialOpen b os p s"
| "run_call b (Write n p str) s = SerialWrite n p str s"
| "run_call b (Read_now n p) s = SerialNonBlockRead n p s"
| "run_call b (Read_block n p) s = SerialBlockRead n p s"
| "run_call b (Close p) s = SerialClose p s"
| "run_call b (In_queue n p) s = SerialDataInInputQueue n p s"
| "run_call b (Out_queue n p) s = SerialDataInOutputQueue n p s"
| "run_call b (Flow p control) s = SerialFlowControl p control s"
| "run_call b (Speed p sp) s = SerialSetSpeed p sp s"
| "run_call b (Set_mode os ret p) s = (case SerialSetMode b os ret p s of None \<Rightarrow> Undef | Some r \<Rightarrow> r)"
| "run_call b (Get_mode os ret md p) s = SerialGetMode b os ret md p s"
| "run_call b (Param p parity databits stopbit) s = SerialSetParam p parity databits stopbit s"
| "run_call b (Clean p) s = SerialCleanBuff p s"

text \<open>The system gives a descriptor that is not in use, and a new terminal takes its settings.\<close>

fun answer_ok :: "board \<Rightarrow> serial_call \<Rightarrow> serial \<Rightarrow> bool" where
  "answer_ok b (Open os p) s \<longleftrightarrow> setattr_ok os \<and> sys_open os (open_device b p) \<notin> open_fds s"
| "answer_ok b (Set_mode os ret p) s \<longleftrightarrow>
     (case set_mode_device b p of None \<Rightarrow> True | Some d \<Rightarrow> sys_open os d \<notin> open_fds s)"
| "answer_ok b (Get_mode os ret md p) s \<longleftrightarrow> sys_open os (get_mode_device b p) \<notin> open_fds s"
| "answer_ok b c s \<longleftrightarrow> True"

inductive serial_run :: "board \<Rightarrow> serial \<Rightarrow> serial_call list \<Rightarrow> serial \<Rightarrow> bool" for b where
  run_Nil: "serial_run b s [] s"
| run_Cons: "answer_ok b c s \<Longrightarrow> run_call b c s = Done (r, s') \<Longrightarrow> serial_run b s' cs s''
    \<Longrightarrow> serial_run b s (c # cs) s''"

lemma serial_inv_same:
  "serial_inv s \<Longrightarrow> fd_map s' = fd_map s \<Longrightarrow> oldtio s' = oldtio s \<Longrightarrow> newtio s' = newtio s
    \<Longrightarrow> tty s' = tty s \<Longrightarrow> open_fds s' = open_fds s \<Longrightarrow> serial_inv s'"
  by (simp add: serial_inv_def)

lemma open_Done:
  assumes "SerialOpen b os p s = Done (r, s')" and "setattr_ok os"
  obtains (same) "s' = s" "r = SERIAL_ERROR_OPEN"
  | (new) n y where "port_ok p" "fd_map s ! nat p = - 1" "n = sys_open os (open_device b p)" "0 \<le> n" "r = n"
      "length (newtio s) = MAX_PORT_NUM \<Longrightarrow>
       s' = s\<lparr>open_fds := insert n (open_fds s), fd_map := (fd_map s)[nat p := n],
      oldtio := (oldtio s)[nat p := tty s n], newtio := (newtio s)[nat p := y], tty := (tty s)(n := y)\<rparr>"
proof (cases "port_ok p \<and> fd_map s ! nat p = - 1 \<and> 0 \<le> sys_open os (open_device b p)")
  case True
  then have P: "nat p < MAX_PORT_NUM" by (simp add: port_ok_def)
  let ?n = "sys_open os (open_device b p)"
  let ?tio = "zero_termios\<lparr>c_cflag := B9600 OR CS8 OR CREAD OR CLOCAL, vmin := 1\<rparr>"
  let ?y = "if b = LINUX \<or> b = Moxa then ?tio else cfmakeraw ?tio"
  from assms True P have "r = ?n" "length (newtio s) = MAX_PORT_NUM \<Longrightarrow>
    s' = s\<lparr>open_fds := insert ?n (open_fds s), fd_map := (fd_map s)[nat p := ?n],
      oldtio := (oldtio s)[nat p := tty s ?n], newtio := (newtio s)[nat p := ?y], tty := (tty s)(?n := ?y)\<rparr>"
    by (auto simp: SerialOpen_def Let_def tcsetattr_new_def set_new_def split: if_splits)
  with True new show thesis by blast
next
  case False
  with assms same show thesis by (auto simp: SerialOpen_def Let_def split: if_splits)
qed

text \<open>Asking for the mode of a port that is not open opens it and closes it again.\<close>

lemma for_mode_Done:
  assumes "for_mode os d p s f = Done (r, s')" and "sys_open os d \<notin> open_fds s"
    and "\<And>fd u x u'. f fd u = Done (x, u') \<Longrightarrow> u' = u"
  shows "s' = s"
proof -
  have "port_ok p" using assms(1) by (auto simp: for_mode_def FindFD_def split: if_splits)
  with assms show ?thesis
    by (fastforce simp: for_mode_def FindFD_ok Let_def split: if_splits)
qed

lemma get_mode_Done:
  "SerialGetMode b os ret md p s = Done (r, s') \<Longrightarrow> sys_open os (get_mode_device b p) \<notin> open_fds s \<Longrightarrow> s' = s"
  unfolding SerialGetMode_def by (erule for_mode_Done) (auto split: if_splits)

lemma set_mode_Done:
  "SerialSetMode b os ret p s = Some (Done (r, s')) \<Longrightarrow> set_mode_device b p = Some d
    \<Longrightarrow> sys_open os d \<notin> open_fds s \<Longrightarrow> s' = s"
  unfolding SerialSetMode_def by (simp, erule for_mode_Done) auto

text \<open>What a call does: it sets, opens, closes, or leaves the table and the settings alone.\<close>

lemma run_call_effect:
  assumes ok: "answer_ok b c s" and run: "run_call b c s = Done (r, s')"
  obtains (same) "fd_map s' = fd_map s" "oldtio s' = oldtio s" "newtio s' = newtio s" "tty s' = tty s"
      "open_fds s' = open_fds s"
  | (set) p f where "port_ok p" "fd_map s ! nat p \<noteq> - 1" "0 \<le> fd_map s ! nat p"
      "s' = tcsetattr_new (fd_map s ! nat p) p (set_new p f s)"
  | (close) p where "c = Close p" "port_ok p" "fd_map s ! nat p \<noteq> - 1"
      "s' = s\<lparr>tty := (tty s)(fd_map s ! nat p := oldtio s ! nat p),
        open_fds := open_fds s - {fd_map s ! nat p}, fd_map := (fd_map s)[nat p := - 1]\<rparr>"
  | (new) p os n y where "c = Open os p" "port_ok p" "fd_map s ! nat p = - 1" "0 \<le> n" "n \<notin> open_fds s" "r = n"
      "length (newtio s) = MAX_PORT_NUM \<Longrightarrow>
       s' = s\<lparr>open_fds := insert n (open_fds s), fd_map := (fd_map s)[nat p := n],
      oldtio := (oldtio s)[nat p := tty s n], newtio := (newtio s)[nat p := y], tty := (tty s)(n := y)\<rparr>"
proof (cases c)
  case (Open os p)
  with run ok have o: "SerialOpen b os p s = Done (r, s')" "setattr_ok os"
    "sys_open os (open_device b p) \<notin> open_fds s" by simp_all
  show thesis using open_Done[OF o(1,2)] same new[OF Open] o(3) by blast
next
  case (Write n p str)
  with run same show thesis by (auto simp: SerialWrite_def elim!: with_fd_Done)
next
  case (Read_now n p)
  with run same show thesis by (auto simp: SerialNonBlockRead_def elim!: with_fd_Done)
next
  case (Read_block n p)
  with run same show thesis by (auto simp: SerialBlockRead_def elim!: with_fd_Done)
next
  case (Close p)
  with run same close show thesis by (auto simp: SerialClose_def elim!: with_fd_Done)
next
  case (In_queue n p)
  with run same show thesis by (auto simp: SerialDataInInputQueue_def elim!: with_fd_Done)
next
  case (Out_queue n p)
  with run same show thesis by (auto simp: SerialDataInOutputQueue_def elim!: with_fd_Done)
next
  case (Flow p control)
  with run same set[of p] show thesis
    by (fastforce simp: SerialFlowControl_def elim!: with_fd_Done split: if_splits)
next
  case (Speed p sp)
  with run same set[of p] show thesis
    by (fastforce simp: SerialSetSpeed_def Let_def elim!: with_fd_Done split: if_splits)
next
  case (Get_mode os ret md p)
  with run ok get_mode_Done same show thesis by fastforce
next
  case (Set_mode os ret p)
  with run obtain d where "SerialSetMode b os ret p s = Some (Done (r, s'))" "set_mode_device b p = Some d"
    by (auto simp: SerialSetMode_def split: option.splits)
  with ok Set_mode set_mode_Done have "s' = s" by fastforce
  with same show thesis by simp
next
  case (Param p parity databits stopbit)
  with run same set[of p] show thesis by (fastforce simp: SerialSetParam_def elim!: with_fd_Done)
next
  case (Clean p)
  with run same show thesis by (auto simp: SerialCleanBuff_def elim!: with_fd_Done)
qed

lemma run_call_inv:
  assumes "serial_inv s" and "answer_ok b c s" and "run_call b c s = Done (r, s')"
  shows "serial_inv s'"
  using assms(2,3)
proof (cases rule: run_call_effect)
  case same
  then show ?thesis using serial_inv_same[OF assms(1)] by blast
next
  case (set p f)
  then show ?thesis using serial_inv_set[OF assms(1)] by blast
next
  case (close p)
  then show ?thesis using serial_inv_close[OF assms(1)] by blast
next
  case (new p os n y)
  with serial_inv_lengths[OF assms(1)] show ?thesis using serial_inv_open[OF assms(1)] by simp
qed

lemma serial_run_inv: "serial_run b s cs s' \<Longrightarrow> serial_inv s \<Longrightarrow> serial_inv s'"
  by (induction rule: serial_run.induct) (auto intro: run_call_inv)


definition ex_os :: serial_os where
  "ex_os = \<lparr>sys_open = (\<lambda>d. if d = ''/dev/ttyM2'' then 7 else - 1), setattr_ok = True\<rparr>"

lemma ex_open:
  "\<exists>s. serial_run Moxa (serial_start (\<lambda>_. zero_termios)) [Open ex_os 2] s \<and> fd_map s ! 2 = 7
     \<and> fd_map s = (replicate 20 (- 1))[2 := 7] \<and> c_cflag (newtio s ! 2) = 0x8BD"
proof -
  have d: "open_device Moxa 2 = ''/dev/ttyM2''"
    by code_simp
  have o: "sys_open ex_os (open_device Moxa 2) = 7" "setattr_ok ex_os" by (simp_all add: ex_os_def d)
  obtain r s where r: "SerialOpen Moxa ex_os 2 (serial_start (\<lambda>_. zero_termios)) = Done (r, s)"
    and s: "fd_map s = (replicate 20 (- 1))[2 := 7]" "c_cflag (newtio s ! 2) = 0x8BD"
    using o by (simp add: SerialOpen_def port_ok_def MAX_PORT_NUM_def serial_start_def tcsetattr_new_def
        zero_termios_def B9600_def flag_defs Let_def)
  have "serial_run Moxa (serial_start (\<lambda>_. zero_termios)) [Open ex_os 2] s"
    by (rule run_Cons[OF _ _ run_Nil]) (use r o in \<open>simp_all add: serial_start_def\<close>)
  then show ?thesis using s by auto
qed



section \<open>Opening and closing\<close>

text \<open>While a port is open its descriptor and the settings it found stay.\<close>

definition opened_as :: "int \<Rightarrow> int \<Rightarrow> termios \<Rightarrow> serial \<Rightarrow> bool" where
  "opened_as p n t s \<longleftrightarrow> port_ok p \<and> n \<noteq> - 1 \<and> fd_map s ! nat p = n \<and> oldtio s ! nat p = t"

lemma port_eq: "port_ok p \<Longrightarrow> port_ok q \<Longrightarrow> nat p = nat q \<longleftrightarrow> p = q"
  by (auto simp: port_ok_def)

lemma run_call_opened:
  assumes "serial_inv s" and "answer_ok b c s" and "run_call b c s = Done (r, s')"
    and "opened_as p n t s" and "c \<noteq> Close p"
  shows "opened_as p n t s'"
  using assms(2,3)
proof (cases rule: run_call_effect)
  case same
  then show ?thesis using assms(4) by (simp add: opened_as_def)
next
  case (set q f)
  then show ?thesis using assms(4) by (simp add: opened_as_def tcsetattr_new_def set_new_def)
next
  case (close q)
  then have "nat q \<noteq> nat p" using assms(4,5) port_eq by (auto simp: opened_as_def)
  with close assms(4) show ?thesis by (simp add: opened_as_def)
next
  case (new q os m y)
  then have "nat q \<noteq> nat p" using assms(4) by (auto simp: opened_as_def)
  with new assms(4) serial_inv_lengths[OF assms(1)] show ?thesis by (simp add: opened_as_def)
qed

lemma serial_run_opened:
  "serial_run b s cs s' \<Longrightarrow> serial_inv s \<Longrightarrow> opened_as p n t s \<Longrightarrow> Close p \<notin> set cs \<Longrightarrow> opened_as p n t s'"
proof (induction rule: serial_run.induct)
  case (run_Cons c s r s' cs s'')
  then have "serial_inv s'" "opened_as p n t s'"
    using run_call_inv run_call_opened by auto
  with run_Cons show ?case by simp
qed


lemma ex_open_step:
  "\<exists>s. run_call Moxa (Open ex_os 2) (serial_start t) = Done (7, s)"
proof -
  have d: "open_device Moxa 2 = ''/dev/ttyM2''" by code_simp
  have "sys_open ex_os (open_device Moxa 2) = 7" by (simp add: ex_os_def d)
  then show ?thesis
    by (simp add: SerialOpen_def port_ok_def MAX_PORT_NUM_def serial_start_def Let_def)
qed



section \<open>The frame\<close>

text \<open>The index of a speed in the tables: the first entry that is not below it.\<close>

definition table_index :: "nat \<Rightarrow> nat \<Rightarrow> bool" where
  "table_index sp i \<longleftrightarrow> 1 \<le> i \<and> i < length speed_table2 \<and> sp \<le> speed_table1 ! i
     \<and> (\<forall>j. 1 \<le> j \<and> j < i \<longrightarrow> speed_table1 ! j < sp)"

lemma speed_loop_index: "sp \<le> 921600 \<Longrightarrow> table_index sp (speed_loop sp 1)"
  using speed_loop_props[of 1 sp] speed_loop_in_table[of sp]
  by (simp add: table_index_def speed_table2_def)

lemma set_speed_Done:
  assumes "port_ok p" and "0 \<le> fd_map s ! nat p" and "unat sp \<le> 921600"
  shows "SerialSetSpeed p sp s = Done (SERIAL_OK, tcsetattr_new (fd_map s ! nat p) p
    (set_new p (\<lambda>t. cfsetospeed (speed_table2 ! speed_loop (unat sp) 1)
      (cfsetispeed (speed_table2 ! speed_loop (unat sp) 1) t)) s))"
  using assms speed_loop_in_table[of "unat sp"]
  by (simp add: SerialSetSpeed_def with_fd_def FindFD_ok Let_def)



text \<open>A speed below the first of the table is raised to it.\<close>

lemma low_speed: "speed_loop 49 1 = 1 \<and> speed_table2 ! 1 = 1"
  by (simp add: speed_loop.simps speed_table1_def speed_table2_def)

text \<open>
  Turning flow control off turns everything off: \<open>!\<close> instead of \<open>~\<close> clears all the control and
  input flags, the speed, the data bits and the receiver among them.
\<close>

lemma flow_off_clears:
  assumes "port_ok p" and "0 \<le> fd_map s ! nat p" and "length (newtio s) = MAX_PORT_NUM"
  shows "\<exists>s'. SerialFlowControl p 0 s = Done (SERIAL_OK, s') \<and> c_cflag (tty s' (fd_map s ! nat p)) = 0
    \<and> c_iflag (tty s' (fd_map s ! nat p)) = 0 \<and> speed_of (c_cflag (tty s' (fd_map s ! nat p))) = speed_table2 ! 0"
proof -
  have "logical_not CRTSCTS = 0" "logical_not (IXON OR IXOFF OR IXANY) = 0"
    by (simp_all add: logical_not_def flag_defs)
  then show ?thesis
    using assms
    by (simp add: SerialFlowControl_def with_fd_def FindFD_ok tcsetattr_new_def set_new_def port_ok_def
        speed_of_def speed_table2_def)
qed

text \<open>The routines for the mode of a port that is not open look at another device.\<close>

lemma mode_device_differs:
  "set_mode_device LINUX 1 \<noteq> Some (open_device LINUX 1) \<and> get_mode_device HZ300B 3 \<noteq> open_device HZ300B 3
   \<and> set_mode_device HZ300B 3 \<noteq> Some (open_device HZ300B 3)"
  by code_simp

text \<open>\<open>open\<close> takes a port whose settings the system refused for open.\<close>

lemma open_refused:
  assumes "port_ok p" and "fd_map s ! nat p = - 1" and "0 \<le> sys_open os (open_device ZKTY p)"
    and "\<not> setattr_ok os"
  shows "\<exists>s'. SerialOpen ZKTY os p s = Done (- 1, s')
    \<and> port_open ZKTY os p c s = Done (SUCCEED, c\<lparr>m_nPort := Some p, m_b_open := True\<rparr>, s')"
  using assms by (simp add: SerialOpen_def port_open_def Let_def SERIAL_ERROR_OPEN_def)

text \<open>\<open>write\<close> reports success whatever the system answers, and on a port that is not open.\<close>

lemma write_succeeds:
  "m_nPort c = Some p \<Longrightarrow> port_ok p \<Longrightarrow> \<exists>s'. port_write n buf c s = Done (SUCCEED, c, s')"
  by (simp add: port_write_def the_port_def SerialWrite_def with_fd_def FindFD_ok)


section \<open>Reading\<close>

text \<open>The bytes of the rounds in which the input queue was not empty.\<close>

definition arrived :: "round list \<Rightarrow> bytes" where
  "arrived rs = concat (map (\<lambda>r. if 0 < in_queue r then take 1024 (the (got r)) else []) rs)"

definition timeout_ok :: "int \<Rightarrow> bool" where
  "timeout_ok t \<longleftrightarrow> - (2 ^ 31) \<le> t * 1000 \<and> t * 1000 < 2 ^ 31"

lemma late_Done: "timeout_ok t \<Longrightarrow> \<exists>l. late a b t = Done l"
  by (simp add: timeout_ok_def late_def)

lemma queue_Done:
  "port_ok p \<Longrightarrow> 0 \<le> fd_map s ! nat p \<Longrightarrow> SerialDataInInputQueue n p s = Done (n, s)"
  by (simp add: SerialDataInInputQueue_def with_fd_def FindFD_ok)

lemma nonblock_Done:
  "port_ok p \<Longrightarrow> \<exists>r s'. SerialNonBlockRead n p s = Done (r, s') \<and> fd_map s' = fd_map s"
  by (simp add: SerialNonBlockRead_def with_fd_def FindFD_ok)

lemma arrived_Cons:
  "arrived (r # rs) = (if 0 < in_queue r then take 1024 (the (got r)) else []) @ arrived rs"
  by (simp add: arrived_def)

text \<open>What \<open>read\<close> may come to after \<open>buf\<close>: it goes on, or returns what has arrived.\<close>

definition read_result :: "bytes \<Rightarrow> round list \<Rightarrow> (bytes \<times> serial) outcome option \<Rightarrow> bool" where
  "read_result buf rs x \<longleftrightarrow> x = None
     \<or> (\<exists>k s'. x = Some (Done (buf @ arrived (take k rs), s')) \<and> length (buf @ arrived (take k rs)) \<le> 2047)"

lemma read_result_stop: "length buf \<le> 2047 \<Longrightarrow> read_result buf rs (Some (Done (buf, s)))"
  unfolding read_result_def by (intro disjI2 exI[of _ 0] exI[of _ s]) (simp add: arrived_def)

lemma read_result_next:
  assumes "read_result (buf @ (if 0 < in_queue r then take 1024 (the (got r)) else [])) rs x"
  shows "read_result buf (r # rs) x"
  using assms unfolding read_result_def
proof (elim disjE exE conjE)
  fix k s'
  assume "x = Some (Done ((buf @ (if 0 < in_queue r then take 1024 (the (got r)) else [])) @ arrived (take k rs), s'))"
    "length ((buf @ (if 0 < in_queue r then take 1024 (the (got r)) else [])) @ arrived (take k rs)) \<le> 2047"
  then show "x = None \<or> (\<exists>k s'. x = Some (Done (buf @ arrived (take k (r # rs)), s'))
      \<and> length (buf @ arrived (take k (r # rs))) \<le> 2047)"
    by (intro disjI2 exI[of _ "Suc k"] exI[of _ s']) (simp only: take_Suc_Cons arrived_Cons append_assoc)
qed simp

lemma read_loop_bounded:
  assumes c: "m_nPort c = Some p" "port_ok p" "m_nTimeOut c = Some t" "timeout_ok t" and len: "2047 \<le> len"
  shows "\<forall>r\<in>set rs. got r \<noteq> None \<Longrightarrow> length buf \<le> 2047 \<Longrightarrow> 0 \<le> fd_map s ! nat p \<Longrightarrow>
    read_result buf rs (read_loop len start c b buf rs s)"
proof (induction rs arbitrary: b buf s)
  case Nil
  show ?case by (simp add: read_result_def)
next
  case (Cons r rs)
  have q: "obind (the_port c) (\<lambda>p. SerialDataInInputQueue (in_queue r) p s) = Done (in_queue r, s)"
    using c(1,2) Cons.prems(3) by (simp add: the_port_def queue_Done)
  show ?case
  proof (cases "in_queue r > 0")
    case pos: True
    obtain m s1 where rd: "obind (the_port c) (\<lambda>p. SerialNonBlockRead 0 p s) = Done (m, s1)"
      "fd_map s1 = fd_map s"
      using nonblock_Done[OF c(2)] c(1) by (fastforce simp: the_port_def)
    show ?thesis
    proof (cases "length buf \<ge> 1024")
      case True
      then have "read_loop len start c b buf (r # rs) s = Some (Done (buf, s))" using pos q by simp
      with read_result_stop[OF Cons.prems(2)] show ?thesis by simp
    next
      case False
      obtain bs where bs: "got r = Some bs" using Cons.prems(1) by auto
      have l: "length (buf @ take 1024 bs) \<le> 2047" using False by simp
      have "read_loop len start c b buf (r # rs) s = read_loop len start c True (buf @ take 1024 bs) rs s1"
        using pos False q rd(1) bs l len by simp
      moreover have "read_result (buf @ take 1024 bs) rs (read_loop len start c True (buf @ take 1024 bs) rs s1)"
        using Cons.IH[OF _ l, of s1 True] Cons.prems(1,3) rd(2) by simp
      ultimately show ?thesis using pos bs by (intro read_result_next) simp
    qed
  next
    case neg: False
    obtain l where lt: "late start (clock_us r) t = Done l" using late_Done[OF c(4)] by blast
    have "read_loop len start c b buf (r # rs) s
        = (if b \<or> l then Some (Done (buf, s)) else read_loop len start c b buf rs s)"
      using neg q lt c(3) by simp
    moreover have "read_result buf rs (read_loop len start c b buf rs s)"
      using Cons.IH[of buf s b] Cons.prems by simp
    ultimately show ?thesis
      using neg read_result_stop[OF Cons.prems(2)] by (auto intro: read_result_next)
  qed
qed

text \<open>
  C26: Reading from a port. With a buffer of 2047 bytes a read of an open port is never undefined,
  as long as the system's reads succeed and the timeout in microseconds is an int: it waits, or
  it returns the bytes that have arrived, in order and at most 2047 of them. Any smaller buffer,
  whatever length the caller passes, can be overrun.
\<close>

theorem serial_read_bounds:
  assumes "m_nPort c = Some p" and "port_ok p" and "0 \<le> fd_map s ! nat p"
    and "m_nTimeOut c = Some t" and "timeout_ok t"
  shows "(2047 \<le> len \<and> (\<forall>r\<in>set rs. got r \<noteq> None) \<longrightarrow>
      port_read len start c rs s = None
      \<or> (\<exists>k s'. port_read len start c rs s = Some (Done (arrived (take k rs), s'))
           \<and> length (arrived (take k rs)) \<le> 2047))
    \<and> (len < 2047 \<longrightarrow> (\<exists>rs. (\<forall>r\<in>set rs. got r \<noteq> None) \<and> port_read len start c rs s = Some Undef))"
proof (intro conjI impI)
  assume "2047 \<le> len \<and> (\<forall>r\<in>set rs. got r \<noteq> None)"
  then have "read_result [] rs (read_loop len start c False [] rs s)"
    using assms by (intro read_loop_bounded) simp_all
  then show "port_read len start c rs s = None
      \<or> (\<exists>k s'. port_read len start c rs s = Some (Done (arrived (take k rs), s'))
           \<and> length (arrived (take k rs)) \<le> 2047)"
    by (simp add: read_result_def port_read_def)
next
  assume len: "len < 2047"
  let ?r = "\<lambda>n. \<lparr>in_queue = 1, got = Some (replicate n 0), clock_us = 0\<rparr> :: round"
  obtain m s1 where rd: "SerialNonBlockRead 0 p s = Done (m, s1)" "fd_map s1 = fd_map s"
    using nonblock_Done[OF assms(2)] by blast
  obtain m2 s2 where rd2: "SerialNonBlockRead 0 p s1 = Done (m2, s2)"
    using nonblock_Done[OF assms(2)] by blast
  note q = queue_Done[OF assms(2,3)] queue_Done[of p s1, OF assms(2)]
  have "port_read len start c [?r 1023, ?r 1024] s = Some Undef"
  proof (cases "1023 > len")
    case True
    then show ?thesis using q rd assms(1) by (simp add: port_read_def the_port_def)
  next
    case False
    then show ?thesis using len q rd rd2 assms(1,3) by (simp add: port_read_def the_port_def)
  qed
  then show "\<exists>rs. (\<forall>r\<in>set rs. got r \<noteq> None) \<and> port_read len start c rs s = Some Undef"
    by (intro exI[of _ "[?r 1023, ?r 1024]"]) simp
qed

definition ex_port :: port_object where
  "ex_port = \<lparr>m_nPort = Some 2, m_nTimeOut = Some 200, m_b_open = True\<rparr>"

theorem serial_read_bounds_witness:
  "\<exists>s rs. serial_run Moxa (serial_start (\<lambda>_. zero_termios)) [Open ex_os 2] s
     \<and> port_read 1500 0 ex_port rs s = Some Undef"
proof -
  obtain s where s: "serial_run Moxa (serial_start (\<lambda>_. zero_termios)) [Open ex_os 2] s" "fd_map s ! 2 = 7"
    using ex_open by blast
  have p: "m_nPort ex_port = Some 2" "port_ok 2" "0 \<le> fd_map s ! nat 2" "m_nTimeOut ex_port = Some 200"
    "timeout_ok 200"
    using s(2) by (simp_all add: ex_port_def port_ok_def MAX_PORT_NUM_def timeout_ok_def)
  have "\<exists>rs. (\<forall>r\<in>set rs. got r \<noteq> None) \<and> port_read 1500 0 ex_port rs s = Some Undef"
    using serial_read_bounds[OF p, of 1500 "[]" 0] by simp
  then show ?thesis using s(1) by blast
qed

end
