(* ===== verification/Mysql_Client.thy ===== *)
theory Mysql_Client
  imports Net_Socket Robot_Config
begin

text \<open>
  The database, \<^verbatim>\<open>Include/mysql/mysql.hpp\<close>, \<^verbatim>\<open>mysql_helper.hpp\<close> and \<^verbatim>\<open>Include/common/db.hpp\<close>, and the
  connection of the run log, \<^verbatim>\<open>Include/mysql/Header/mysql_logs.h\<close>. The client library is loaded
  at run time and is not part of the repository: its answers are parameters, and the calls made
  to it are recorded.
\<close>


section \<open>Results\<close>

text \<open>A result set: the columns by name (a hash map, kept here in key order), the names in order and the rows.\<close>

record db_result =
  columns :: "(string \<times> nat) list"
  head_row :: "string list"
  rows :: "string list list"

definition no_result :: db_result where
  "no_result = \<lparr>columns = [], head_row = [], rows = []\<rparr>"

definition result_clear :: "db_result \<Rightarrow> db_result" where
  "result_clear r = r\<lparr>columns := [], head_row := [], rows := []\<rparr>"

definition has_column :: "db_result \<Rightarrow> string \<Rightarrow> bool" where
  "has_column r nm = (map_of (columns r) nm \<noteq> None)"

definition columns_size :: "db_result \<Rightarrow> nat" where
  "columns_size r = length (columns r)"

definition rows_size :: "db_result \<Rightarrow> nat" where
  "rows_size r = length (rows r)"

text \<open>The two ways to a field. \<open>None\<close> is a null pointer.\<close>

definition get_named :: "db_result \<Rightarrow> nat \<Rightarrow> string \<Rightarrow> string option" where
  "get_named r row_num nm =
     (if rows r = [] \<or> row_num > length (rows r) - 1 \<or> columns r = [] then None
      else case map_of (columns r) nm of
             None \<Rightarrow> None
           | Some i \<Rightarrow>
               if rows r ! row_num = [] \<or> i > length (rows r ! row_num) - 1 then None
               else Some (rows r ! row_num ! i))"

definition get_at :: "db_result \<Rightarrow> nat \<Rightarrow> nat \<Rightarrow> string option" where
  "get_at r row_num column_num =
     (if length (rows r) = 0 \<or> row_num > length (rows r) - 1 \<or> columns r = []
         \<or> rows r ! row_num = [] \<or> column_num > length (rows r ! row_num) - 1 then None
      else Some (rows r ! row_num ! column_num))"

text \<open>The calls the iterators make, in order.\<close>

definition foreach_columns :: "db_result \<Rightarrow> (nat \<times> string) list" where
  "foreach_columns r = map (\<lambda>i. (i, head_row r ! i)) [0..<length (head_row r)]"

definition row_calls :: "db_result \<Rightarrow> string list \<Rightarrow> (nat \<times> string \<times> string) list" where
  "row_calls r row = map (\<lambda>m. (m, head_row r ! m, row ! m)) [0..<length row]"

definition foreach_row :: "db_result \<Rightarrow> nat \<Rightarrow> (nat \<times> string \<times> string) list" where
  "foreach_row r row_num =
     (if rows r = [] \<or> row_num > length (rows r) - 1 then [] else row_calls r (rows r ! row_num))"

definition foreach_rows :: "db_result \<Rightarrow> (nat \<times> nat \<times> string \<times> string) list" where
  "foreach_rows r = concat (map (\<lambda>i. map (\<lambda>c. (i, c)) (row_calls r (rows r ! i))) [0..<length (rows r)])"

text \<open>
  What the library holds of a query: the names of the fields, the number of rows it reports and
  the rows it gives out; \<open>None\<close> is the null pointer of SQL's \<open>NULL\<close>. A field is read as a C
  string, and a null pointer gives an empty one.
\<close>

record mysql_res =
  res_fields :: "string list"
  num_rows :: nat
  fetched :: "string option list list"

definition cell :: "string option \<Rightarrow> string" where
  "cell x = (case x of None \<Rightarrow> [] | Some t \<Rightarrow> c_str t)"

definition resize :: "nat \<Rightarrow> 'a \<Rightarrow> 'a list \<Rightarrow> 'a list" where
  "resize n x xs = take n xs @ replicate (n - length xs) x"

fun emplace_fields :: "string list \<Rightarrow> nat \<Rightarrow> (string \<times> nat) list \<Rightarrow> (string \<times> nat) list" where
  "emplace_fields [] i m = m"
| "emplace_fields (f # fs) i m = emplace_fields fs (i + 1) (kv_emplace f i m)"

fun fetch_rows :: "string option list list \<Rightarrow> nat \<Rightarrow> nat \<Rightarrow> string list list \<Rightarrow> string list list outcome" where
  "fetch_rows [] ncolumn i rs = Done rs"
| "fetch_rows (row # more_rows) ncolumn i rs =
     (if length rs \<le> i \<or> length row < ncolumn then Undef
      else fetch_rows more_rows ncolumn (i + 1) (rs[i := map cell (take ncolumn row)]))"

definition parse_result :: "mysql_res \<Rightarrow> db_result \<Rightarrow> db_result outcome" where
  "parse_result res r =
     (let ncolumn = length (res_fields res);
          r = r\<lparr>columns := emplace_fields (map c_str (res_fields res)) 0 [],
                head_row := map c_str (res_fields res)\<rparr>
      in obind (fetch_rows (fetched res) ncolumn 0 (resize (num_rows res) [] (rows r)))
           (\<lambda>rs. Done (r\<lparr>rows := rs\<rparr>)))"


section \<open>The library\<close>

text \<open>
  \<open>mysql_dll\<close>: the library is opened and its functions are looked up one by one; the first that
  is missing ends the loading.
\<close>

definition mysql_symbols :: "string list" where
  "mysql_symbols =
    [''mysql_get_parameters'', ''mysql_thread_init'', ''mysql_thread_end'', ''mysql_num_rows'',
     ''mysql_num_fields'', ''mysql_eof'', ''mysql_fetch_field_direct'', ''mysql_fetch_fields'',
     ''mysql_row_tell'', ''mysql_field_tell'', ''mysql_field_count'', ''mysql_affected_rows'',
     ''mysql_insert_id'', ''mysql_errno'', ''mysql_error'', ''mysql_sqlstate'',
     ''mysql_warning_count'', ''mysql_info'', ''mysql_thread_id'', ''mysql_character_set_name'',
     ''mysql_set_character_set'', ''mysql_init'', ''mysql_ssl_set'', ''mysql_get_ssl_cipher'',
     ''mysql_change_user'', ''mysql_real_connect'', ''mysql_select_db'', ''mysql_query'',
     ''mysql_send_query'', ''mysql_real_query'', ''mysql_store_result'', ''mysql_use_result'',
     ''mysql_get_character_set_info'', ''mysql_shutdown'', ''mysql_dump_debug_info'',
     ''mysql_refresh'', ''mysql_kill'', ''mysql_set_server_option'', ''mysql_ping'',
     ''mysql_stat'', ''mysql_get_server_info'', ''mysql_get_client_info'',
     ''mysql_get_client_version'', ''mysql_get_host_info'', ''mysql_get_server_version'',
     ''mysql_get_proto_info'', ''mysql_list_dbs'', ''mysql_list_tables'',
     ''mysql_list_processes'', ''mysql_options'', ''mysql_free_result'', ''mysql_data_seek'',
     ''mysql_row_seek'', ''mysql_field_seek'', ''mysql_fetch_row'', ''mysql_fetch_lengths'',
     ''mysql_fetch_field'', ''mysql_list_fields'', ''mysql_escape_string'', ''mysql_hex_string'',
     ''mysql_real_escape_string'', ''mysql_debug'', ''myodbc_remove_escape'',
     ''mysql_thread_safe'', ''mysql_embedded'', ''mysql_read_query_result'', ''mysql_stmt_init'',
     ''mysql_stmt_prepare'', ''mysql_stmt_execute'', ''mysql_stmt_fetch'',
     ''mysql_stmt_fetch_column'', ''mysql_stmt_store_result'', ''mysql_stmt_param_count'',
     ''mysql_stmt_attr_set'', ''mysql_stmt_attr_get'', ''mysql_stmt_bind_param'',
     ''mysql_stmt_bind_result'', ''mysql_stmt_close'', ''mysql_stmt_reset'',
     ''mysql_stmt_free_result'', ''mysql_stmt_send_long_data'', ''mysql_stmt_result_metadata'',
     ''mysql_stmt_param_metadata'', ''mysql_stmt_errno'', ''mysql_stmt_error'',
     ''mysql_stmt_sqlstate'', ''mysql_stmt_row_seek'', ''mysql_stmt_row_tell'',
     ''mysql_stmt_data_seek'', ''mysql_stmt_num_rows'', ''mysql_stmt_affected_rows'',
     ''mysql_stmt_insert_id'', ''mysql_stmt_field_count'', ''mysql_commit'', ''mysql_rollback'',
     ''mysql_autocommit'', ''mysql_more_results'', ''mysql_next_result'',
     ''mysql_stmt_next_result'', ''mysql_close'']"

record dll =
  dll_open :: bool
  dll_funcs :: "string list"

fun load_symbols :: "(string \<Rightarrow> bool) \<Rightarrow> string list \<Rightarrow> dll \<Rightarrow> bool \<times> dll" where
  "load_symbols has_sym [] d = (True, d)"
| "load_symbols has_sym (x # xs) d =
     (if \<not> has_sym x then (False, d) else load_symbols has_sym xs (d\<lparr>dll_funcs := dll_funcs d @ [x]\<rparr>))"

definition dll_load :: "bool \<Rightarrow> (string \<Rightarrow> bool) \<Rightarrow> dll \<Rightarrow> bool \<times> dll" where
  "dll_load dlopen_ok has_sym d =
     (if dll_open d then (True, d)
      else if \<not> dlopen_ok then (False, d)
      else load_symbols has_sym mysql_symbols (d\<lparr>dll_open := True\<rparr>))"

definition dll_unload :: "dll \<Rightarrow> dll" where
  "dll_unload d = (if dll_open d then d\<lparr>dll_open := False\<rparr> else d)"


section \<open>A connection\<close>

record connect_info =
  ci_addr :: string
  ci_database :: string
  ci_user :: string
  ci_password :: string
  ci_charset :: string
  ci_flags :: nat
  ci_conn_timeout :: nat
  ci_rw_timeout :: nat
  ci_auto_commit :: bool

definition new_connect_info :: connect_info where
  "new_connect_info = \<lparr>ci_addr = [], ci_database = [], ci_user = [], ci_password = [],
     ci_charset = ''utf8'', ci_flags = 0, ci_conn_timeout = 0, ci_rw_timeout = 0, ci_auto_commit = True\<rparr>"

text \<open>A call to the library, with the handle it is about.\<close>

datatype option_name = Connect_timeout | Read_timeout | Write_timeout | Reconnect

datatype db_call =
    Init nat
  | Options nat option_name nat
  | Real_connect nat "string option" string string string nat "string option" nat
  | Set_charset nat string
  | Autocommit nat bool
  | Query nat string
  | Store_result nat
  | Free_result
  | Affected_rows nat
  | Close_handle nat

record mysql =
  info :: connect_info
  handle :: "nat option"
  calls :: "db_call list"

definition new_mysql :: "connect_info \<Rightarrow> mysql" where
  "new_mysql i = \<lparr>info = i, handle = None, calls = []\<rparr>"

definition called :: "db_call list \<Rightarrow> mysql \<Rightarrow> mysql" where
  "called cs m = m\<lparr>calls := calls m @ cs\<rparr>"

text \<open>What the library answers to an opening, to a request and for a result.\<close>

record open_reply =
  r_init :: "nat option"
  r_connect :: bool
  r_autocommit :: int

record request_reply =
  r_query :: int
  r_open :: open_reply
  r_query2 :: int

record result_reply =
  r_store :: "mysql_res option"
  r_errno :: int
  r_affected :: int

definition db_close :: "mysql \<Rightarrow> bool \<times> mysql" where
  "db_close m =
     (case handle m of
        None \<Rightarrow> (True, m)
      | Some h \<Rightarrow> (True, (called [Close_handle h] m)\<lparr>handle := None\<rparr>))"

definition option_calls :: "connect_info \<Rightarrow> nat \<Rightarrow> db_call list" where
  "option_calls i h =
     (if ci_conn_timeout i > 0 then [Options h Connect_timeout (ci_conn_timeout i)] else [])
     @ (if ci_rw_timeout i > 0
        then [Options h Read_timeout (ci_rw_timeout i), Options h Write_timeout (ci_rw_timeout i)] else [])
     @ [Options h Reconnect 1]"

definition connect_call :: "connect_info \<Rightarrow> nat \<Rightarrow> db_call" where
  "connect_call i h =
     (case parse_addr (ci_addr i) \<lparr>ip = [], port = 0, v6 = False\<rparr> of
        (ok, addr) \<Rightarrow>
          let unix_socket = \<not> ok in
          Real_connect h (if unix_socket then None else Some (c_str (ip addr)))
            (c_str (ci_user i)) (c_str (ci_password i)) (c_str (ci_database i))
            (if unix_socket then 0 else port addr)
            (if unix_socket then Some (c_str (ci_addr i)) else None) (ci_flags i))"

definition db_open :: "open_reply \<Rightarrow> mysql \<Rightarrow> bool \<times> mysql" where
  "db_open a m =
     (case handle m of
        Some h \<Rightarrow> (True, m)
      | None \<Rightarrow>
          (case r_init a of
             None \<Rightarrow> (False, m)
           | Some h \<Rightarrow>
               let m = (called (Init h # option_calls (info m) h @ [connect_call (info m) h]) m)\<lparr>handle := Some h\<rparr> in
               if \<not> r_connect a then (False, (called [Close_handle h] m)\<lparr>handle := None\<rparr>)
               else let m = (if ci_charset (info m) \<noteq> []
                             then called [Set_charset h (c_str (ci_charset (info m)))] m else m);
                        m = called [Autocommit h (ci_auto_commit (info m))] m
                    in if r_autocommit a \<noteq> 0 then (False, (called [Close_handle h] m)\<lparr>handle := None\<rparr>)
                       else (True, m)))"

definition is_opened :: "mysql \<Rightarrow> bool" where
  "is_opened m = (handle m \<noteq> None)"

definition CR_SERVER_GONE_ERROR :: int where "CR_SERVER_GONE_ERROR = 2006"
definition CR_SERVER_LOST :: int where "CR_SERVER_LOST = 2013"

text \<open>
  \<open>request\<close>: \<open>r_query\<close> is 0 or the error of the first query. If the server was lost the connection
  is opened anew and the query made once more.
\<close>

definition request_again :: "request_reply \<Rightarrow> string \<Rightarrow> mysql \<Rightarrow> bool \<times> mysql" where
  "request_again a sql m =
     (case db_open (r_open a) (snd (db_close m)) of
        (False, m) \<Rightarrow> (False, m)
      | (True, m) \<Rightarrow>
          (case handle m of
             None \<Rightarrow> (False, m)
           | Some h \<Rightarrow> (r_query2 a = 0, called [Query h (c_str sql)] m)))"

definition db_request :: "request_reply \<Rightarrow> string \<Rightarrow> mysql \<Rightarrow> bool \<times> mysql" where
  "db_request a sql m =
     (case handle m of
        None \<Rightarrow> (False, m)
      | Some h \<Rightarrow>
          let m = called [Query h (c_str sql)] m in
          if r_query a = 0 then (True, m)
          else if r_query a \<noteq> CR_SERVER_LOST \<and> r_query a \<noteq> CR_SERVER_GONE_ERROR then (False, m)
          else request_again a sql m)"

text \<open>The result of a query; \<open>use\<close> is what the caller does with it before it is freed.\<close>

definition store_result :: "result_reply \<Rightarrow> mysql \<Rightarrow> mysql_res option \<times> mysql" where
  "store_result q m =
     (case handle m of
        None \<Rightarrow> (None, m)
      | Some h \<Rightarrow>
          let m = called [Store_result h] m in
          (case r_store q of
             None \<Rightarrow> (None, if r_errno q \<noteq> 0 then snd (db_close m) else m)
           | Some res \<Rightarrow> (Some res, called [Free_result] m)))"

definition db_exists :: "request_reply \<Rightarrow> result_reply \<Rightarrow> string \<Rightarrow> mysql \<Rightarrow> bool \<times> mysql" where
  "db_exists a q table m =
     (case handle m of
        None \<Rightarrow> (False, m)
      | Some _ \<Rightarrow>
          (case db_request a (c_str (''show tables like '' @ [CHR 0x27] @ c_str table @ [CHR 0x27])) m of
             (False, m) \<Rightarrow> (False, m)
           | (True, m) \<Rightarrow>
               (case store_result q m of
                  (None, m) \<Rightarrow> (False, m)
                | (Some res, m) \<Rightarrow> (num_rows res > 0, m))))"

definition db_select ::
    "request_reply \<Rightarrow> result_reply \<Rightarrow> string \<Rightarrow> db_result option \<Rightarrow> mysql
      \<Rightarrow> (bool \<times> db_result option \<times> mysql) outcome" where
  "db_select a q sql result m =
     (case db_request a sql m of
        (False, m) \<Rightarrow> Done (False, result, m)
      | (True, m) \<Rightarrow>
          (case store_result q m of
             (None, m) \<Rightarrow> Done (False, result, m)
           | (Some res, m) \<Rightarrow>
               (case result of
                  None \<Rightarrow> Done (True, None, m)
                | Some r \<Rightarrow> obind (parse_result res r) (\<lambda>r. Done (True, Some r, m)))))"

definition affected :: "result_reply \<Rightarrow> int" where
  "affected q = signed_take_bit 31 (r_affected q)"

definition db_execute :: "request_reply \<Rightarrow> result_reply \<Rightarrow> string \<Rightarrow> mysql \<Rightarrow> bool \<times> mysql" where
  "db_execute a q sql m =
     (case db_request a sql m of
        (False, m) \<Rightarrow> (False, m)
      | (True, m) \<Rightarrow>
          (affected q \<noteq> - 1, case handle m of None \<Rightarrow> m | Some h \<Rightarrow> called [Affected_rows h] m))"

definition affect_count :: "result_reply \<Rightarrow> mysql \<Rightarrow> int \<times> mysql" where
  "affect_count q m =
     (case handle m of None \<Rightarrow> (- 1, m) | Some h \<Rightarrow> (affected q, called [Affected_rows h] m))"

definition begin_transaction :: "request_reply \<Rightarrow> result_reply \<Rightarrow> mysql \<Rightarrow> bool \<times> mysql" where
  "begin_transaction a q m = db_execute a q ''start transaction'' m"

definition db_commit :: "request_reply \<Rightarrow> result_reply \<Rightarrow> mysql \<Rightarrow> bool \<times> mysql" where
  "db_commit a q m = db_execute a q ''commit'' m"


section \<open>The pool\<close>

text \<open>
  An object for each thread that asks. Objects are shared: they are numbered, and \<open>clear\<close>
  destroys those nobody else holds.
\<close>

record mysql_pool =
  p_info :: connect_info
  p_map :: "(nat \<times> nat) list"
  p_objs :: "mysql list"

definition pool_init :: "connect_info \<Rightarrow> mysql_pool \<Rightarrow> mysql_pool" where
  "pool_init i p = p\<lparr>p_info := i\<rparr>"

definition pool_get :: "open_reply \<Rightarrow> nat \<Rightarrow> mysql_pool \<Rightarrow> nat \<times> mysql_pool" where
  "pool_get a thread p =
     (case map_of (p_map p) thread of
        Some i \<Rightarrow> (i, p)
      | None \<Rightarrow>
          let m = snd (db_open a (new_mysql (p_info p))); i = length (p_objs p)
          in (i, p\<lparr>p_objs := p_objs p @ [m], p_map := (thread, i) # p_map p\<rparr>))"

definition pool_clear :: "nat set \<Rightarrow> mysql_pool \<Rightarrow> mysql_pool" where
  "pool_clear held p =
     p\<lparr>p_objs := map (\<lambda>i. if i \<in> snd ` set (p_map p) \<and> i \<notin> held then snd (db_close (p_objs p ! i)) else p_objs p ! i)
          [0..<length (p_objs p)],
       p_map := []\<rparr>"


section \<open>The run log\<close>

text \<open>\<open>mysql_logs\<close>: the connection it makes from the configuration, and one entry.\<close>

definition log_info :: "config \<Rightarrow> connect_info" where
  "log_info c = new_connect_info\<lparr>ci_addr := sql_ip (sql_config c) @ '':'' @ sql_port (sql_config c),
     ci_user := sql_user (sql_config c), ci_password := sql_passwd (sql_config c),
     ci_database := sql_dbname (sql_config c)\<rparr>"

definition new_mysql_logs :: "open_reply \<Rightarrow> config \<Rightarrow> mysql" where
  "new_mysql_logs a c =
     (case pool_get a 0 (pool_init (log_info c) \<lparr>p_info = new_connect_info, p_map = [], p_objs = []\<rparr>) of
        (i, p) \<Rightarrow> p_objs p ! i)"

definition recordlog_sql ::
    "local_time \<Rightarrow> request_reply \<Rightarrow> result_reply \<Rightarrow> string \<Rightarrow> string \<Rightarrow> mysql \<Rightarrow> bool \<times> mysql" where
  "recordlog_sql now a q action remarks m = db_execute a q (record_log now action remarks) m"

end
