(* ===== verification/Mysql_Client_Correct.thy ===== *)
theory Mysql_Client_Correct
  imports Mysql_Client
begin

text \<open>
  Correctness of the database: the handles of the client library are used while they are open
  and none is left, what a result set gives back, what the run log sends and when it stops.
\<close>


section \<open>Handles\<close>

text \<open>The library's view: which handles are open after a sequence of calls, if each was allowed.\<close>

fun handle_of :: "db_call \<Rightarrow> nat option" where
  "handle_of (Init h) = None"
| "handle_of (Options h o' v) = Some h"
| "handle_of (Real_connect h host user pw db prt sock fl) = Some h"
| "handle_of (Set_charset h cs) = Some h"
| "handle_of (Autocommit h b) = Some h"
| "handle_of (Query h sql) = Some h"
| "handle_of (Store_result h) = Some h"
| "handle_of Free_result = None"
| "handle_of (Affected_rows h) = Some h"
| "handle_of (Close_handle h) = Some h"

fun run_calls :: "db_call list \<Rightarrow> nat set \<Rightarrow> nat set option" where
  "run_calls [] L = Some L"
| "run_calls (Init h # cs) L = (if h \<in> L then None else run_calls cs (insert h L))"
| "run_calls (Close_handle h # cs) L = (if h \<notin> L then None else run_calls cs (L - {h}))"
| "run_calls (c # cs) L = (if \<forall>h. handle_of c = Some h \<longrightarrow> h \<in> L then run_calls cs L else None)"

lemma run_calls_append: "run_calls (xs @ ys) L = Option.bind (run_calls xs L) (run_calls ys)"
  by (induction xs L rule: run_calls.induct) auto

definition handles :: "nat option \<Rightarrow> nat set" where
  "handles x = (case x of None \<Rightarrow> {} | Some h \<Rightarrow> {h})"

definition db_inv :: "mysql \<Rightarrow> bool" where
  "db_inv m \<longleftrightarrow> run_calls (calls m) {} = Some (handles (handle m))"

lemma db_inv_step:
  "db_inv m \<Longrightarrow> calls m' = calls m @ cs \<Longrightarrow> run_calls cs (handles (handle m)) = Some (handles (handle m'))
    \<Longrightarrow> db_inv m'"
  by (simp add: db_inv_def run_calls_append)

lemma db_inv_new: "db_inv (new_mysql i)"
  by (simp add: db_inv_def new_mysql_def handles_def)

lemma db_close_handle: "handle (snd (db_close m)) = None"
  by (simp add: db_close_def split: option.splits)

lemma db_close_inv:
  assumes "db_inv m"
  shows "db_inv (snd (db_close m))"
proof (cases "handle m")
  case (Some h)
  then show ?thesis
    using db_inv_step[OF assms, of "snd (db_close m)" "[Close_handle h]"]
    by (simp add: db_close_def called_def handles_def)
qed (use assms in \<open>simp add: db_close_def\<close>)

lemma run_option_calls: "run_calls (option_calls i h @ cs) {h} = run_calls cs {h}"
  by (simp add: option_calls_def)

lemma run_connect_call: "run_calls (connect_call i h # cs) {h} = run_calls cs {h}"
  by (simp add: connect_call_def Let_def split: prod.splits)

lemma db_open_calls:
  assumes "handle m = None"
  shows "\<exists>cs. calls (snd (db_open a m)) = calls m @ cs
    \<and> run_calls cs {} = Some (handles (handle (snd (db_open a m))))"
proof (cases "r_init a")
  case None
  then show ?thesis using assms by (simp add: db_open_def handles_def)
next
  case (Some h)
  let ?c = "Init h # option_calls (info m) h @ [connect_call (info m) h]"
  have c: "run_calls (?c @ cs) {} = run_calls cs {h}" for cs
    by (simp add: run_option_calls run_connect_call)
  show ?thesis
    using assms Some c[of "[Close_handle h]"] c[of "[]"] c[of "[Set_charset h x, Autocommit h y]" for x y]
      c[of "[Autocommit h y]" for y] c[of "[Set_charset h x, Autocommit h y, Close_handle h]" for x y]
      c[of "[Autocommit h y, Close_handle h]" for y]
    by (auto simp: db_open_def called_def handles_def Let_def)
qed

lemma db_open_inv: "db_inv m \<Longrightarrow> db_inv (snd (db_open a m))"
proof (cases "handle m")
  case None
  assume "db_inv m"
  with db_open_calls[OF None, of a] None show ?thesis
    using db_inv_step by (fastforce simp: handles_def)
qed (simp add: db_open_def)

lemma db_open_ok: "db_open a m = (True, m') \<Longrightarrow> handle m' \<noteq> None"
  by (auto simp: db_open_def called_def Let_def split: option.splits if_splits)

lemma db_call_inv:
  "db_inv m \<Longrightarrow> handle m = Some h \<Longrightarrow> handle_of c = Some h \<or> handle_of c = None
    \<Longrightarrow> (\<forall>h. c \<noteq> Init h \<and> c \<noteq> Close_handle h) \<Longrightarrow> db_inv (called [c] m)"
  by (rule db_inv_step[where cs = "[c]"], simp_all add: called_def) (cases c; auto simp: handles_def)

lemma db_request_inv: "db_inv m \<Longrightarrow> db_inv (snd (db_request a sql m))"
proof (cases "handle m")
  case (Some h)
  assume inv: "db_inv m"
  let ?m = "called [Query h (c_str sql)] m"
  have q: "db_inv ?m" using db_call_inv[OF inv Some] by simp
  have o: "db_inv (snd (db_open (r_open a) (snd (db_close ?m))))" by (intro db_open_inv db_close_inv q)
  have "db_inv (snd (request_again a sql ?m))"
  proof (cases "db_open (r_open a) (snd (db_close ?m))")
    case (Pair ok m2)
    with o db_call_inv[of m2] show ?thesis
      by (cases ok; cases "handle m2") (simp_all add: request_again_def)
  qed
  with q Some show ?thesis by (simp add: db_request_def Let_def)
qed (simp add: db_request_def)

lemma store_result_inv: "db_inv m \<Longrightarrow> db_inv (snd (store_result q m))"
proof (cases "handle m")
  case (Some h)
  assume inv: "db_inv m"
  let ?m = "called [Store_result h] m"
  have q: "db_inv ?m" using db_call_inv[OF inv Some] by simp
  have "db_inv (called [Free_result] ?m)" using db_call_inv[OF q, of h] Some by (simp add: called_def)
  with q db_close_inv[OF q] Some show ?thesis by (auto simp: store_result_def Let_def split: option.splits)
qed (simp add: store_result_def)

lemma db_execute_inv: "db_inv m \<Longrightarrow> db_inv (snd (db_execute a q sql m))"
proof -
  assume "db_inv m"
  then have "db_inv (snd (db_request a sql m))" by (rule db_request_inv)
  then show ?thesis
    using db_call_inv[of "snd (db_request a sql m)"]
    by (cases "db_request a sql m"; cases "fst (db_request a sql m)"; cases "handle (snd (db_request a sql m))")
       (simp_all add: db_execute_def)
qed

text \<open>The operations of an object, with the library's answers.\<close>

datatype db_op =
    Op_open open_reply
  | Op_close
  | Op_request request_reply string
  | Op_exists request_reply result_reply string
  | Op_select request_reply result_reply string "db_result option"
  | Op_execute request_reply result_reply string
  | Op_affect result_reply
  | Op_begin request_reply result_reply
  | Op_commit request_reply result_reply

fun run_op :: "db_op \<Rightarrow> mysql \<Rightarrow> (bool \<times> mysql) outcome" where
  "run_op (Op_open a) m = Done (db_open a m)"
| "run_op Op_close m = Done (db_close m)"
| "run_op (Op_request a sql) m = Done (db_request a sql m)"
| "run_op (Op_exists a q table) m = Done (db_exists a q table m)"
| "run_op (Op_select a q sql r) m = obind (db_select a q sql r m) (\<lambda>(ok, _, m). Done (ok, m))"
| "run_op (Op_execute a q sql) m = Done (db_execute a q sql m)"
| "run_op (Op_affect q) m = Done (case affect_count q m of (n, m) \<Rightarrow> (n \<noteq> - 1, m))"
| "run_op (Op_begin a q) m = Done (begin_transaction a q m)"
| "run_op (Op_commit a q) m = Done (db_commit a q m)"

fun run_ops :: "db_op list \<Rightarrow> mysql \<Rightarrow> mysql outcome" where
  "run_ops [] m = Done m"
| "run_ops (x # xs) m = obind (run_op x m) (\<lambda>(_, m). run_ops xs m)"

lemma run_op_inv: "run_op x m = Done (b, m') \<Longrightarrow> db_inv m \<Longrightarrow> db_inv m'"
proof (induction x m rule: run_op.induct)
  case (1 a m)
  then show ?case using db_open_inv[of m a] by (metis outcome.inject snd_conv run_op.simps(1))
next
  case (2 m)
  then show ?case using db_close_inv[of m] by (metis outcome.inject snd_conv run_op.simps(2))
next
  case (3 a sql m)
  then show ?case using db_request_inv[of m a sql] by (metis outcome.inject snd_conv run_op.simps(3))
next
  case (4 a q table m)
  define sql where "sql = c_str (''show tables like '' @ [CHR 0x27] @ c_str table @ [CHR 0x27])"
  obtain ok m2 where r: "db_request a sql m = (ok, m2)" by fastforce
  then have "db_inv m2" using db_request_inv[of m a sql] 4 by simp
  then have "db_inv (snd (store_result q m2))" by (rule store_result_inv)
  with \<open>db_inv m2\<close> 4 r show ?case
    unfolding run_op.simps db_exists_def sql_def[symmetric]
    by (cases "store_result q m2"; cases ok; cases "handle m") (auto split: option.splits)
next
  case (5 a q sql r m)
  obtain ok m2 where r: "db_request a sql m = (ok, m2)" by fastforce
  then have "db_inv m2" using db_request_inv[of m a sql] 5 by simp
  then have "db_inv (snd (store_result q m2))" by (rule store_result_inv)
  with \<open>db_inv m2\<close> 5 r show ?case
    by (cases "store_result q m2"; cases ok)
       (auto simp: db_select_def split: option.splits)
next
  case (6 a q sql m)
  then show ?case using db_execute_inv[of m a q sql] by (metis outcome.inject snd_conv run_op.simps(6))
next
  case (7 q m)
  then show ?case
    using db_call_inv[of m] by (auto simp: affect_count_def split: option.splits)
next
  case (8 a q m)
  then show ?case
    using db_execute_inv[of m a q] by (metis outcome.inject snd_conv run_op.simps(8) begin_transaction_def)
next
  case (9 a q m)
  then show ?case
    using db_execute_inv[of m a q] by (metis outcome.inject snd_conv run_op.simps(9) db_commit_def)
qed

lemma run_ops_inv: "run_ops xs m = Done m' \<Longrightarrow> db_inv m \<Longrightarrow> db_inv m'"
  by (induction xs arbitrary: m) (auto intro: run_op_inv)

text \<open>
  C27: No handle is lost and none is used that is closed. Whatever is done with a connection
  object and whatever the library answers, every call was about a handle that was open at the
  time, the object's handle is the only one open, and after the destructor none is.
\<close>

theorem db_handles:
  assumes "run_ops xs (new_mysql i) = Done m"
  shows "run_calls (calls m) {} = Some (handles (handle m))
    \<and> run_calls (calls (snd (db_close m))) {} = Some {}"
proof -
  have "db_inv m" using run_ops_inv[OF assms db_inv_new] .
  moreover from db_close_inv[OF this] have "db_inv (snd (db_close m))" .
  ultimately show ?thesis by (simp add: db_inv_def db_close_handle handles_def)
qed


theorem db_handles_witness:
  "\<exists>m. run_ops [Op_open \<lparr>r_init = Some 4, r_connect = True, r_autocommit = 0\<rparr>,
       Op_request \<lparr>r_query = 2006, r_open = \<lparr>r_init = Some 4, r_connect = False, r_autocommit = 0\<rparr>, r_query2 = 0\<rparr> ''x'']
       (new_mysql new_connect_info) = Done m
     \<and> run_calls (calls m) {} = Some (handles (handle m))"
proof -
  obtain m where m: "run_ops [Op_open \<lparr>r_init = Some 4, r_connect = True, r_autocommit = 0\<rparr>,
       Op_request \<lparr>r_query = 2006, r_open = \<lparr>r_init = Some 4, r_connect = False, r_autocommit = 0\<rparr>, r_query2 = 0\<rparr> ''x'']
       (new_mysql new_connect_info) = Done m"
    by (simp add: case_prod_beta)
  with db_handles[OF m] show ?thesis by blast
qed


section \<open>Result sets\<close>

lemma fetch_rows_all:
  "length rs = i + length more_rows \<Longrightarrow> \<forall>row\<in>set more_rows. ncol \<le> length row \<Longrightarrow>
   fetch_rows more_rows ncol i rs = Done (take i rs @ map (\<lambda>row. map cell (take ncol row)) more_rows)"
proof (induction more_rows arbitrary: i rs)
  case (Cons row more_rows)
  let ?rs = "rs[i := map cell (take ncol row)]"
  have "take (Suc i) ?rs = take i rs @ [map cell (take ncol row)]"
    using Cons.prems(1) by (simp add: take_Suc_conv_app_nth)
  then show ?case using Cons.IH[of ?rs "Suc i"] Cons.prems by simp
qed simp

lemma emplace_fields_props:
  "sorted_wrt (<) (map fst m) \<Longrightarrow> distinct fs \<Longrightarrow> set fs \<inter> fst ` set m = {} \<Longrightarrow>
   (\<forall>j<length fs. map_of (emplace_fields fs i m) (fs ! j) = Some (i + j))
   \<and> (\<forall>x. x \<notin> set fs \<longrightarrow> map_of (emplace_fields fs i m) x = map_of m x)
   \<and> length (emplace_fields fs i m) = length m + length fs"
proof (induction fs arbitrary: i m)
  case (Cons f fs)
  have new: "map_of m f = None" using Cons.prems(3) by (force simp: map_of_eq_None_iff)
  let ?m = "kv_emplace f i m"
  have m: "map_of ?m = (map_of m)(f \<mapsto> i)" using map_of_kv_emplace[OF Cons.prems(1)] new by simp
  then have d: "fst ` set ?m = insert f (fst ` set m)"
    by (metis dom_fun_upd dom_map_of_conv_image_fst option.distinct(1))
  have s: "sorted_wrt (<) (map fst ?m)" by (rule kv_emplace_sorted[OF Cons.prems(1)])
  then have "distinct (map fst ?m)" "distinct (map fst m)"
    using Cons.prems(1) strict_sorted_iff by auto
  then have "length ?m = card (fst ` set ?m)" "length m = card (fst ` set m)"
    by (metis distinct_card length_map list.set_map)+
  moreover have "f \<notin> fst ` set m" using Cons.prems(3) by auto
  ultimately have len: "length ?m = length m + 1" unfolding d by simp
  have IH: "(\<forall>j<length fs. map_of (emplace_fields fs (i + 1) ?m) (fs ! j) = Some (i + 1 + j))
      \<and> (\<forall>x. x \<notin> set fs \<longrightarrow> map_of (emplace_fields fs (i + 1) ?m) x = map_of ?m x)
      \<and> length (emplace_fields fs (i + 1) ?m) = length ?m + length fs"
    using Cons.prems(2,3) d by (intro Cons.IH[OF s]) auto
  show ?case
  proof (intro conjI allI impI)
    fix j assume "j < length (f # fs)"
    then show "map_of (emplace_fields (f # fs) i m) ((f # fs) ! j) = Some (i + j)"
      using IH Cons.prems(2) m by (cases j) auto
  next
    fix x assume "x \<notin> set (f # fs)"
    then show "map_of (emplace_fields (f # fs) i m) x = map_of m x" using IH m by simp
  next
    show "length (emplace_fields (f # fs) i m) = length m + length (f # fs)" using IH len by simp
  qed
qed simp


definition ex_open :: open_reply where
  "ex_open = \<lparr>r_init = Some 1, r_connect = True, r_autocommit = 0\<rparr>"

definition ex_accept :: request_reply where
  "ex_accept = \<lparr>r_query = 0, r_open = ex_open, r_query2 = 0\<rparr>"

definition ex_res :: mysql_res where
  "ex_res = \<lparr>res_fields = [''id'', ''remarks''], num_rows = 2,
     fetched = [[Some ''1'', None], [Some ''2'', Some ''ok'']]\<rparr>"



section \<open>The run log\<close>

lemma log_parse_addr:
  assumes "sql_ip (sql_config c) \<noteq> []" and "CHR '':'' \<notin> set (sql_ip (sql_config c))"
  shows "parse_addr (ci_addr (log_info c)) a
    = (True, a\<lparr>ip := sql_ip (sql_config c), port := nat (take_bit 16 (atoi (sql_port (sql_config c))))\<rparr>)"
proof -
  have "find_from (ci_addr (log_info c)) '':'' 0 = Some (length (sql_ip (sql_config c)))"
    using find_colon[OF assms(2)] by (simp add: log_info_def)
  then show ?thesis using assms(1) by (simp add: parse_addr_def log_info_def)
qed

lemma new_log: "new_mysql_logs a c = snd (db_open a (new_mysql (log_info c)))"
  by (simp add: new_mysql_logs_def pool_get_def pool_init_def Let_def)

definition open_ok :: "open_reply \<Rightarrow> nat \<Rightarrow> bool" where
  "open_ok a h \<longleftrightarrow> r_init a = Some h \<and> r_connect a \<and> r_autocommit a = 0"

definition open_fails :: "open_reply \<Rightarrow> bool" where
  "open_fails a \<longleftrightarrow> r_init a = None \<or> \<not> r_connect a \<or> r_autocommit a \<noteq> 0"

definition opening_calls :: "connect_info \<Rightarrow> nat \<Rightarrow> db_call list" where
  "opening_calls i h = Init h # option_calls i h @ [connect_call i h]
     @ (if ci_charset i \<noteq> [] then [Set_charset h (c_str (ci_charset i))] else [])
     @ [Autocommit h (ci_auto_commit i)]"

lemma db_open_success:
  "handle m = None \<Longrightarrow> open_ok a h \<Longrightarrow>
   db_open a m = (True, m\<lparr>handle := Some h, calls := calls m @ opening_calls (info m) h\<rparr>)"
  by (cases m) (simp add: db_open_def open_ok_def opening_calls_def called_def Let_def)

lemma db_open_failure:
  "handle m = None \<Longrightarrow> open_fails a \<Longrightarrow> \<exists>m'. db_open a m = (False, m') \<and> handle m' = None"
  by (auto simp: db_open_def open_fails_def called_def Let_def split: option.splits)

lemma request_lost:
  fixes sql :: string
  assumes "handle m = Some h" and "r_query b = CR_SERVER_LOST \<or> r_query b = CR_SERVER_GONE_ERROR"
  defines "m0 \<equiv> m\<lparr>handle := None, calls := calls m @ [Query h (c_str sql), Close_handle h]\<rparr>"
  shows "db_request b sql m
    = (case db_open (r_open b) m0 of
         (False, m) \<Rightarrow> (False, m)
       | (True, m) \<Rightarrow>
           (case handle m of
              None \<Rightarrow> (False, m)
            | Some h \<Rightarrow> (r_query2 b = 0, called [Query h (c_str sql)] m)))"
proof -
  have q: "r_query b \<noteq> 0" using assms(2) by (auto simp: CR_SERVER_LOST_def CR_SERVER_GONE_ERROR_def)
  have "snd (db_close (called [Query h (c_str sql)] m)) = m0"
    using assms(1) by (cases m) (simp add: m0_def db_close_def called_def)
  then show ?thesis
    using assms(1,2) q by (auto simp: db_request_def request_again_def Let_def)
qed

text \<open>Without a handle nothing is sent, and no operation but opening gets one.\<close>

lemma no_handle_silent:
  "handle m = None \<Longrightarrow> db_execute a q sql m = (False, m) \<and> db_select a q sql r m = Done (False, r, m)
     \<and> db_exists a q table m = (False, m) \<and> db_request a sql m = (False, m)"
  by (simp add: db_execute_def db_select_def db_exists_def db_request_def)

text \<open>
  A run of the log: entries one after the other, each with its time, the answers the library gives
  while it is written, and its two texts.
\<close>

definition log_run ::
    "(local_time \<times> request_reply \<times> result_reply \<times> string \<times> string) list \<Rightarrow> mysql \<Rightarrow> mysql" where
  "log_run es m = fold (\<lambda>(now, b, q, action, remarks) m. snd (recordlog_sql now b q action remarks m)) es m"

lemma db_open_info: "info (snd (db_open a m)) = info m"
  by (auto simp: db_open_def called_def Let_def split: option.splits)

lemma db_request_info: "info (snd (db_request a sql m)) = info m"
proof -
  have "info (snd (request_again a sql m')) = info m'" for m'
    using db_open_info[of "r_open a" "snd (db_close m')"]
    by (auto simp: request_again_def db_close_def called_def split: prod.splits bool.splits option.splits)
  then show ?thesis by (auto simp: db_request_def called_def Let_def split: option.splits)
qed

lemma recordlog_info: "info (snd (recordlog_sql now b q action remarks m)) = info m"
  using db_request_info[of b "record_log now action remarks" m]
  by (auto simp: recordlog_sql_def db_execute_def called_def split: prod.splits bool.splits option.splits)

lemma log_run_info: "info (log_run es m) = info m"
  unfolding log_run_def by (induction es arbitrary: m) (auto simp: recordlog_info)

lemma log_silent: "handle m = None \<Longrightarrow> recordlog_sql now b q action remarks m = (False, m)"
  by (simp add: recordlog_sql_def no_handle_silent)

lemma log_run_silent: "handle m = None \<Longrightarrow> log_run es m = m"
  unfolding log_run_def by (induction es) (auto simp: log_silent)

lemma log_accepted:
  "handle m = Some h \<Longrightarrow> r_query b = 0 \<Longrightarrow> recordlog_sql now b q action remarks m
   = (affected q \<noteq> - 1, m\<lparr>calls := calls m @ [Query h (c_str (record_log now action remarks)), Affected_rows h]\<rparr>)"
  by (simp add: recordlog_sql_def db_execute_def db_request_def called_def)

lemma log_refused:
  "handle m = Some h \<Longrightarrow> r_query b \<noteq> 0 \<Longrightarrow> r_query b \<noteq> CR_SERVER_LOST \<Longrightarrow> r_query b \<noteq> CR_SERVER_GONE_ERROR \<Longrightarrow>
   recordlog_sql now b q action remarks m
   = (False, m\<lparr>calls := calls m @ [Query h (c_str (record_log now action remarks))]\<rparr>)"
  by (simp add: recordlog_sql_def db_execute_def db_request_def called_def Let_def)

lemma log_reopened:
  fixes now :: local_time and action remarks :: string
  assumes "handle m = Some h" and "r_query b = CR_SERVER_LOST \<or> r_query b = CR_SERVER_GONE_ERROR"
    and "open_ok (r_open b) h2"
  defines "sql \<equiv> c_str (record_log now action remarks)"
  defines "m2 \<equiv> m\<lparr>handle := Some h2, calls := calls m @ [Query h sql, Close_handle h]
      @ opening_calls (info m) h2 @ [Query h2 sql]\<rparr>"
  shows "recordlog_sql now b q action remarks m
    = (if r_query2 b = 0 then (affected q \<noteq> - 1, called [Affected_rows h2] m2) else (False, m2))"
  using request_lost[OF assms(1,2), of "record_log now action remarks"]
    db_open_success[of "m\<lparr>handle := None, calls := calls m @ [Query h sql, Close_handle h]\<rparr>", OF _ assms(3)]
  by (simp add: recordlog_sql_def db_execute_def called_def sql_def m2_def)

lemma log_lost:
  assumes "handle m = Some h" and "r_query b = CR_SERVER_LOST \<or> r_query b = CR_SERVER_GONE_ERROR"
    and "open_fails (r_open b)"
  shows "\<exists>m'. recordlog_sql now b q action remarks m = (False, m') \<and> handle m' = None"
proof -
  obtain m' where "db_open (r_open b) (m\<lparr>handle := None, calls := calls m
      @ [Query h (c_str (record_log now action remarks)), Close_handle h]\<rparr>) = (False, m')" "handle m' = None"
    using db_open_failure[of "m\<lparr>handle := None, calls := calls m
      @ [Query h (c_str (record_log now action remarks)), Close_handle h]\<rparr>", OF _ assms(3)] by auto
  then show ?thesis
    using request_lost[OF assms(1,2), of "record_log now action remarks"]
    by (simp add: recordlog_sql_def db_execute_def)
qed

text \<open>
  C8: The entries of the run log, for a configuration whose host is not empty and has no \<open>':'\<close>
  (an IPv6 host is cut at its first colon). Every connection the log opens, the first and each
  later one, is asked for the host of the configuration and its port modulo \<open>2 ^ 16\<close>. After any
  run of entries with any answers of the library: an entry the server accepts is one INSERT
  statement; one it refuses with an error other than a lost server is one statement and fails; if
  the server was lost, the handle is closed, and when a new connection succeeds the same statement
  is sent once more on it and that second answer decides; when the new connection fails the entry
  fails and the log has no connection. A log without a connection, after such a failure or because
  the first opening failed, loses every later entry without a word to the server: no one opens the
  connection again.
\<close>

theorem log_entries:
  fixes a :: open_reply and b :: request_reply and q :: result_reply and c :: config
    and now :: local_time and action remarks :: string
    and es later :: "(local_time \<times> request_reply \<times> result_reply \<times> string \<times> string) list"
  assumes "sql_ip (sql_config c) \<noteq> []" and "CHR '':'' \<notin> set (sql_ip (sql_config c))"
  defines "m \<equiv> log_run es (new_mysql_logs a c)" and "sql \<equiv> c_str (record_log now action remarks)"
    and "lost \<equiv> r_query b = CR_SERVER_LOST \<or> r_query b = CR_SERVER_GONE_ERROR"
    and "entry \<equiv> recordlog_sql now b q action remarks"
  shows "(\<forall>h. connect_call (log_info c) h
        = Real_connect h (Some (c_str (sql_ip (sql_config c)))) (c_str (sql_user (sql_config c)))
            (c_str (sql_passwd (sql_config c))) (c_str (sql_dbname (sql_config c)))
            (nat (take_bit 16 (atoi (sql_port (sql_config c))))) None 0)
    \<and> (\<forall>h. open_ok a h \<longrightarrow> new_mysql_logs a c
         = \<lparr>info = log_info c, handle = Some h, calls = opening_calls (log_info c) h\<rparr>)
    \<and> (open_fails a \<longrightarrow> handle (new_mysql_logs a c) = None)
    \<and> (handle m = None \<longrightarrow> entry m = (False, m) \<and> log_run later m = m)
    \<and> (\<forall>h. handle m = Some h \<longrightarrow>
         (r_query b = 0 \<longrightarrow> entry m = (affected q \<noteq> - 1, m\<lparr>calls := calls m @ [Query h sql, Affected_rows h]\<rparr>))
       \<and> (r_query b \<noteq> 0 \<and> \<not> lost \<longrightarrow> entry m = (False, m\<lparr>calls := calls m @ [Query h sql]\<rparr>))
       \<and> (\<forall>h2. lost \<and> open_ok (r_open b) h2 \<longrightarrow> entry m
           = (r_query2 b = 0 \<and> affected q \<noteq> - 1,
              m\<lparr>handle := Some h2, calls := calls m @ [Query h sql, Close_handle h]
                  @ opening_calls (log_info c) h2 @ [Query h2 sql]
                  @ (if r_query2 b = 0 then [Affected_rows h2] else [])\<rparr>))
       \<and> (lost \<and> open_fails (r_open b) \<longrightarrow> (\<exists>m'. entry m = (False, m') \<and> handle m' = None)))"
proof -
  have n: "new_mysql_logs a c = \<lparr>info = log_info c, handle = Some h, calls = opening_calls (log_info c) h\<rparr>"
    if "open_ok a h" for h
    using db_open_success[of "new_mysql (log_info c)" a h] that by (simp add: new_log new_mysql_def)
  have f: "handle (new_mysql_logs a c) = None" if "open_fails a"
    using db_open_failure[of "new_mysql (log_info c)" a] that by (auto simp: new_log new_mysql_def)
  have "info (new_mysql_logs a c) = log_info c"
    using db_open_info[of a "new_mysql (log_info c)"] by (simp add: new_log new_mysql_def)
  then have i: "info m = log_info c" by (simp add: m_def log_run_info)
  show ?thesis
  proof (intro conjI allI impI)
    fix h
    show "connect_call (log_info c) h
        = Real_connect h (Some (c_str (sql_ip (sql_config c)))) (c_str (sql_user (sql_config c)))
            (c_str (sql_passwd (sql_config c))) (c_str (sql_dbname (sql_config c)))
            (nat (take_bit 16 (atoi (sql_port (sql_config c))))) None 0"
      using log_parse_addr[OF assms(1,2)] by (simp add: connect_call_def log_info_def new_connect_info_def)
  next
    fix h h2 assume "handle m = Some h" "lost \<and> open_ok (r_open b) h2"
    then show "entry m = (r_query2 b = 0 \<and> affected q \<noteq> - 1,
              m\<lparr>handle := Some h2, calls := calls m @ [Query h sql, Close_handle h]
                  @ opening_calls (log_info c) h2 @ [Query h2 sql]
                  @ (if r_query2 b = 0 then [Affected_rows h2] else [])\<rparr>)"
      using log_reopened[of m h b h2] i by (simp add: entry_def lost_def sql_def called_def)
  qed (use n f log_accepted log_refused log_lost log_silent log_run_silent in
      \<open>auto simp: entry_def lost_def sql_def\<close>)
qed

definition ex_config :: config where
  "ex_config = \<lparr>sql_config = \<lparr>sql_ip = ''10.0.0.5'', sql_port = ''3306'', sql_user = ''robot'',
       sql_passwd = ''pw'', sql_dbname = ''hz''\<rparr>,
     ser_config = \<lparr>server_ip = [], server_port = 0, doc_root = [], threads = 1, robot_ip = [], robot_port = [],
       ea_ip = [], ea_port = [], timeout = 0, cn_photo = 0\<rparr>,
     photo_conf = \<lparr>photo_type = 0, tablenum = 0, param = []\<rparr>, c_robot_ip = []\<rparr>"

definition ex_lost :: request_reply where
  "ex_lost = \<lparr>r_query = 2013, r_open = ex_open\<lparr>r_connect := False\<rparr>, r_query2 = 0\<rparr>"

theorem log_entries_witness:
  "\<forall>now q. connect_call (log_info ex_config) 1 = Real_connect 1 (Some ''10.0.0.5'') ''robot'' ''pw'' ''hz'' 3306 None 0
   \<and> (let m = new_mysql_logs ex_open ex_config in
      recordlog_sql now ex_accept q ''a'' ''b'' m
      = (affected q \<noteq> - 1, m\<lparr>calls := calls m @ [Query 1 (c_str (record_log now ''a'' ''b'')), Affected_rows 1]\<rparr>)
      \<and> (\<exists>m'. recordlog_sql now ex_lost q ''a'' ''b'' m = (False, m') \<and> handle m' = None))"
proof (intro allI)
  fix now :: local_time and q :: result_reply
  have 1: "sql_ip (sql_config ex_config) \<noteq> []" "CHR '':'' \<notin> set (sql_ip (sql_config ex_config))" "open_ok ex_open 1"
    by (simp_all add: ex_config_def open_ok_def ex_open_def)
  have 2: "r_query ex_lost = CR_SERVER_LOST" "open_fails (r_open ex_lost)" "r_query ex_accept = 0"
    by (simp_all add: ex_lost_def CR_SERVER_LOST_def open_fails_def ex_open_def ex_accept_def)
  have 3: "atoi ''3306'' = 3306" by code_simp
  note th = log_entries[OF 1(1,2), where es = "[]" and a = ex_open and now = now and q = q
    and action = "''a''" and remarks = "''b''", unfolded log_run_def fold.simps id_apply]
  have "handle (new_mysql_logs ex_open ex_config) = Some 1" using th 1(3) by simp
  then show "connect_call (log_info ex_config) 1 = Real_connect 1 (Some ''10.0.0.5'') ''robot'' ''pw'' ''hz'' 3306 None 0
   \<and> (let m = new_mysql_logs ex_open ex_config in
      recordlog_sql now ex_accept q ''a'' ''b'' m
      = (affected q \<noteq> - 1, m\<lparr>calls := calls m @ [Query 1 (c_str (record_log now ''a'' ''b'')), Affected_rows 1]\<rparr>)
      \<and> (\<exists>m'. recordlog_sql now ex_lost q ''a'' ''b'' m = (False, m') \<and> handle m' = None))"
    using th 2 by (simp add: ex_config_def c_str_def 3)
qed


section \<open>The pool and the library\<close>

text \<open>Each thread has an object of its own and gets the same one every time.\<close>

definition pool_inv :: "mysql_pool \<Rightarrow> bool" where
  "pool_inv p \<longleftrightarrow> distinct (map fst (p_map p)) \<and> distinct (map snd (p_map p))
     \<and> (\<forall>i\<in>snd ` set (p_map p). i < length (p_objs p))"

lemma pool_get_own:
  assumes "pool_inv p" and "pool_get a t p = (i, p')"
  shows "pool_inv p' \<and> map_of (p_map p') t = Some i \<and> i < length (p_objs p')
    \<and> (\<forall>t' j. t' \<noteq> t \<and> map_of (p_map p') t' = Some j \<longrightarrow> j \<noteq> i)
    \<and> (\<forall>b. pool_get b t p' = (i, p'))"
proof (cases "map_of (p_map p) t")
  case None
  let ?n = "length (p_objs p)"
  have p': "i = ?n" "p_map p' = (t, ?n) # p_map p" "length (p_objs p') = Suc ?n"
    using assms(2) None by (auto simp: pool_get_def Let_def)
  have "t \<notin> fst ` set (p_map p)" using None by (simp add: map_of_eq_None_iff)
  moreover have "?n \<notin> snd ` set (p_map p)" using assms(1) by (auto simp: pool_inv_def)
  moreover have "j \<in> snd ` set (p_map p)" if "map_of (p_map p) t' = Some j" for t' j
    using map_of_SomeD[OF that] by force
  ultimately show ?thesis using assms(1) p' by (fastforce simp: pool_inv_def pool_get_def)
next
  case (Some k)
  then have p': "p' = p" "k = i" using assms(2) by (auto simp: pool_get_def)
  have "k \<in> snd ` set (p_map p)" using map_of_SomeD[OF Some] by force
  moreover have "j \<noteq> k" if "t' \<noteq> t" "map_of (p_map p) t' = Some j" for t' j
  proof
    assume "j = k"
    then have "(t', k) \<in> set (p_map p)" "(t, k) \<in> set (p_map p)"
      using map_of_SomeD[OF Some] map_of_SomeD[OF that(2)] by simp_all
    with assms(1) that(1) show False
      by (metis pool_inv_def distinct_map inj_onD prod.inject snd_conv)
  qed
  ultimately show ?thesis using assms(1) Some p' by (auto simp: pool_inv_def pool_get_def)
qed

text \<open>
  A library that lacks a function is found out once: the library stays open, and the next call
  takes it for loaded.
\<close>

lemma load_symbols_fails:
  "x \<in> set xs \<Longrightarrow> \<not> has_sym x \<Longrightarrow> \<exists>d'. load_symbols has_sym xs d = (False, d') \<and> dll_open d' = dll_open d
    \<and> (x \<in> set (dll_funcs d') \<longrightarrow> x \<in> set (dll_funcs d))"
proof (induction xs arbitrary: d)
  case (Cons y ys)
  show ?case
  proof (cases "has_sym y")
    case True
    with Cons.prems have "x \<in> set ys" "y \<noteq> x" by auto
    with Cons.IH[of "d\<lparr>dll_funcs := dll_funcs d @ [y]\<rparr>"] Cons.prems(2) True show ?thesis by auto
  qed auto
qed simp

lemma dll_load_again:
  assumes "x \<in> set mysql_symbols" and "\<not> has_sym x" and "\<not> dll_open d" and "x \<notin> set (dll_funcs d)"
  shows "\<exists>d'. dll_load True has_sym d = (False, d') \<and> x \<notin> set (dll_funcs d')
    \<and> dll_load True has_sym d' = (True, d')"
  using load_symbols_fails[where d = "d\<lparr>dll_open := True\<rparr>" and has_sym = has_sym, OF assms(1) assms(2)] assms(3,4)
  by (auto simp: dll_load_def)

end
