(* ===== verification/Mem_Pool.thy ===== *)
theory Mem_Pool
  imports Prelude "HOL-Library.Multiset"
begin

text \<open>
  The object pool, \<^verbatim>\<open>Include/util/pool.hpp\<close>: elements are given out from blocks that are
  allocated when none is left. A pointer to an element is its block and its index; the memory
  the blocks come from numbers them.
\<close>

type_synonym ptr = "nat \<times> nat"

record obj_pool =
  elements :: "ptr list"
  blucks :: "nat list"
  bluck_size :: nat
  auto_expand :: bool
  next_bluck :: nat

definition new_pool :: "nat \<Rightarrow> bool \<Rightarrow> nat \<Rightarrow> obj_pool" where
  "new_pool n expand b = \<lparr>elements = [], blucks = [], bluck_size = n, auto_expand = expand, next_bluck = b\<rparr>"

definition expand_bluck :: "obj_pool \<Rightarrow> obj_pool" where
  "expand_bluck p =
     p\<lparr>elements := fold (\<lambda>i es. (next_bluck p, i) # es) [0..<bluck_size p] (elements p),
       blucks := next_bluck p # blucks p, next_bluck := next_bluck p + 1\<rparr>"

text \<open>The first element of an empty list is undefined: that is a pool of blocks of size 0.\<close>

definition pool_take :: "obj_pool \<Rightarrow> (ptr option \<times> obj_pool) outcome" where
  "pool_take p =
     (if elements p = [] \<and> \<not> auto_expand p then Done (None, p)
      else let p = (if elements p = [] then expand_bluck p else p) in
        case elements p of
          [] \<Rightarrow> Undef
        | x # es \<Rightarrow> Done (Some x, p\<lparr>elements := es\<rparr>))"

definition pool_put :: "ptr \<Rightarrow> obj_pool \<Rightarrow> obj_pool" where
  "pool_put x p = p\<lparr>elements := x # elements p\<rparr>"

definition obj_clear :: "obj_pool \<Rightarrow> obj_pool" where
  "obj_clear p = p\<lparr>blucks := [], elements := []\<rparr>"


section \<open>The contract of a pool\<close>

text \<open>
  What a user of a pool relies on: it is in order with respect to the items in use; a taken item
  was not in use, one put back is no more, and items are neither lost nor made but by growing.
\<close>

locale item_pool =
  fixes pool_ok :: "'p \<Rightarrow> 'x multiset \<Rightarrow> bool"
    and items :: "'p \<Rightarrow> 'x set"
    and take_item :: "'p \<Rightarrow> ('x option \<times> 'p) outcome"
    and put_item :: "'x \<Rightarrow> 'p \<Rightarrow> 'p"
  assumes take_some: "pool_ok p used \<Longrightarrow> take_item p = Done (Some x, p') \<Longrightarrow>
      x \<notin># used \<and> x \<in> items p' \<and> pool_ok p' (add_mset x used)"
    and take_none: "pool_ok p used \<Longrightarrow> take_item p = Done (None, p') \<Longrightarrow> p' = p"
    and put_ok: "pool_ok p (add_mset x used) \<Longrightarrow> pool_ok (put_item x p) used"
    and grows: "take_item p = Done (r, p') \<Longrightarrow> items p \<subseteq> items p'"
    and keeps: "items (put_item x p) = items p"
begin

text \<open>Users that put back only what they took: steps on the pool and the items in use.\<close>

inductive uses :: "'p \<times> 'x multiset \<Rightarrow> 'p \<times> 'x multiset \<Rightarrow> bool" where
  uses_none: "uses s s"
| uses_take: "uses s (p, used) \<Longrightarrow> take_item p = Done (Some x, p') \<Longrightarrow> uses s (p', add_mset x used)"
| uses_fail: "uses s (p, used) \<Longrightarrow> take_item p = Done (None, p') \<Longrightarrow> uses s (p', used)"
| uses_put: "uses s (p, add_mset x used) \<Longrightarrow> uses s (put_item x p, used)"

lemma uses_ok: "uses s t \<Longrightarrow> pool_ok (fst s) (snd s) \<Longrightarrow> pool_ok (fst t) (snd t) \<and> items (fst s) \<subseteq> items (fst t)"
proof (induction rule: uses.induct)
  case (uses_take s p used x p')
  then show ?case using take_some[of p used x p'] grows[of p "Some x" p'] by auto
next
  case (uses_fail s p used p')
  then show ?case using take_none[of p used p'] by auto
next
  case (uses_put s p x used)
  then show ?case using put_ok[of p x used] keeps[of x p] by auto
qed simp

end


section \<open>The pool keeps the contract\<close>

definition pool_items :: "obj_pool \<Rightarrow> ptr set" where
  "pool_items p = set (blucks p) \<times> {..<bluck_size p}"

definition pool_in_order :: "obj_pool \<Rightarrow> ptr multiset \<Rightarrow> bool" where
  "pool_in_order p used \<longleftrightarrow> mset (elements p) + used = mset_set (pool_items p)
     \<and> distinct (blucks p) \<and> (\<forall>b\<in>set (blucks p). b < next_bluck p)"

lemma fold_push: "fold (\<lambda>i es. f i # es) xs es = rev (map f xs) @ es"
  by (induction xs arbitrary: es) simp_all

lemma finite_pool_items [simp]: "finite (pool_items p)"
  by (simp add: pool_items_def)

lemma expand_in_order:
  assumes "pool_in_order p used"
  shows "pool_in_order (expand_bluck p) used"
proof -
  let ?b = "next_bluck p" and ?n = "bluck_size p"
  have new: "?b \<notin> set (blucks p)" using assms by (auto simp: pool_in_order_def)
  have "pool_items (expand_bluck p) = Pair ?b ` {..<?n} \<union> pool_items p"
    by (auto simp: pool_items_def expand_bluck_def)
  moreover have "Pair ?b ` {..<?n} \<inter> pool_items p = {}" using new by (auto simp: pool_items_def)
  ultimately have "mset_set (pool_items (expand_bluck p)) = mset_set (Pair ?b ` {..<?n}) + mset_set (pool_items p)"
    by (simp add: mset_set_Union)
  moreover have "mset_set (Pair ?b ` {..<?n}) = mset (map (Pair ?b) [0..<?n])"
    by (metis atLeast_upt distinct_map distinct_upt inj_onI list.set_map mset_set_set prod.inject)
  ultimately show ?thesis
    using assms new
    by (auto simp: pool_in_order_def expand_bluck_def fold_push less_Suc_eq ac_simps)
qed

lemma take_in_order:
  assumes "pool_in_order p used" and "pool_take p = Done (Some x, p')"
  shows "x \<notin># used \<and> x \<in> pool_items p' \<and> pool_in_order p' (add_mset x used)"
proof -
  let ?q = "if elements p = [] then expand_bluck p else p"
  obtain es where q: "elements ?q = x # es" "p' = ?q\<lparr>elements := es\<rparr>"
    using assms(2) by (auto simp: pool_take_def Let_def split: if_splits list.splits)
  have ok: "pool_in_order ?q used" using expand_in_order[OF assms(1)] assms(1) by simp
  then have m: "add_mset x (mset es + used) = mset_set (pool_items ?q)"
    using q(1) by (simp add: pool_in_order_def)
  then have "x \<in># mset_set (pool_items ?q)" by (metis union_single_eq_member)
  then have x: "x \<in> pool_items ?q" by simp
  moreover have "pool_items p' = pool_items ?q" by (simp add: q(2) pool_items_def)
  moreover have "x \<notin># used"
  proof
    assume "x \<in># used"
    then have "2 \<le> count (add_mset x (mset es + used)) x"
      by (simp add: Suc_le_eq numeral_2_eq_2)
    then show False unfolding m using x by (simp add: count_mset_set)
  qed
  ultimately show ?thesis using ok m q by (simp add: pool_in_order_def pool_items_def)
qed

interpretation op: item_pool pool_in_order pool_items pool_take pool_put
proof
  fix p p' :: obj_pool and used x r
  show "pool_in_order p used \<Longrightarrow> pool_take p = Done (Some x, p') \<Longrightarrow>
      x \<notin># used \<and> x \<in> pool_items p' \<and> pool_in_order p' (add_mset x used)"
    by (rule take_in_order)
  show "pool_in_order p used \<Longrightarrow> pool_take p = Done (None, p') \<Longrightarrow> p' = p"
    by (auto simp: pool_take_def Let_def split: if_splits list.splits)
  show "pool_in_order p (add_mset x used) \<Longrightarrow> pool_in_order (pool_put x p) used"
    by (simp add: pool_in_order_def pool_put_def pool_items_def)
  show "pool_take p = Done (r, p') \<Longrightarrow> pool_items p \<subseteq> pool_items p'"
    by (auto simp: pool_take_def Let_def pool_items_def expand_bluck_def split: if_splits list.splits)
  show "pool_items (pool_put x p) = pool_items p" by (simp add: pool_items_def pool_put_def)
qed

text \<open>
  C40: The object pool. After any sequence of take and put by users that put back only what they
  took, from a new pool: every element of every block is either in the pool or in use, and only
  once; what take gives next is in use by nobody.
\<close>

theorem pool_ownership:
  assumes "op.uses (new_pool n expand b, {#}) (p, used)"
  shows "mset (elements p) + used = mset_set (set (blucks p) \<times> {..<bluck_size p})
    \<and> (\<forall>x p'. pool_take p = Done (Some x, p') \<longrightarrow> x \<notin># used)"
proof -
  have "pool_in_order (new_pool n expand b) {#}"
    by (simp add: pool_in_order_def new_pool_def pool_items_def)
  then have "pool_in_order p used" using op.uses_ok[OF assms] by simp
  then show ?thesis using op.take_some[of p used] by (auto simp: pool_in_order_def pool_items_def)
qed

theorem pool_ownership_witness:
  "\<exists>p x. op.uses (new_pool 2 True 0, {#}) (p, {#x#}) \<and> mset (elements p) + {#x#} = mset_set ({0} \<times> {..<2})"
proof -
  have "pool_take (new_pool 2 True 0) = Done (Some (0, 1), \<lparr>elements = [(0, 0)], blucks = [0], bluck_size = 2,
      auto_expand = True, next_bluck = 1\<rparr>)"
    by (simp add: pool_take_def new_pool_def expand_bluck_def numeral_2_eq_2)
  from op.uses_take[OF op.uses_none this]
  have u: "op.uses (new_pool 2 True 0, {#}) (\<lparr>elements = [(0, 0)], blucks = [0], bluck_size = 2,
      auto_expand = True, next_bluck = 1\<rparr>, {#(0, 1)#})" by simp
  from pool_ownership[OF this] u show ?thesis by (intro exI conjI) (assumption, simp)
qed

text \<open>
  An item that is put back after the pool was cleared is given out again, although its block has
  been freed.
\<close>

lemma clear_dangling:
  assumes "pool_take p = Done (Some x, p')"
  shows "\<exists>q. pool_take (pool_put x (obj_clear p')) = Done (Some x, q) \<and> blucks q = []"
  by (simp add: pool_take_def pool_put_def obj_clear_def)

lemma empty_blocks_undefined: "pool_take (new_pool 0 True b) = Undef"
  by (simp add: pool_take_def new_pool_def expand_bluck_def)

end
