(* ===== verification/Clock_Format.thy ===== *)
theory Clock_Format
  imports Cxx_String
begin

text \<open>
  The clock as text, \<^verbatim>\<open>Include/util/tool.hpp\<close>: a time in milliseconds since 1970 broken down into
  the fields of the Gregorian calendar, and its text. Times before 1970 do not come from the
  clock and are left out.
\<close>


section \<open>The calendar\<close>

text \<open>\<open>gmtime\<close> of the C library: years, then months, are taken off the days.\<close>

definition leap :: "nat \<Rightarrow> bool" where
  "leap y \<longleftrightarrow> y mod 4 = 0 \<and> (y mod 100 \<noteq> 0 \<or> y mod 400 = 0)"

definition year_days :: "nat \<Rightarrow> nat" where
  "year_days y = (if leap y then 366 else 365)"

definition month_days :: "nat \<Rightarrow> nat list" where
  "month_days y = [31, if leap y then 29 else 28, 31, 30, 31, 30, 31, 31, 30, 31, 30, 31]"

function year_loop :: "nat \<Rightarrow> nat \<Rightarrow> nat \<times> nat" where
  "year_loop y d = (if d < year_days y then (y, d) else year_loop (y + 1) (d - year_days y))"
  by pat_completeness auto
termination by (relation "measure snd") (auto simp: year_days_def split: if_splits)

declare year_loop.simps [simp del]

fun month_loop :: "nat list \<Rightarrow> nat \<Rightarrow> nat \<Rightarrow> nat \<times> nat" where
  "month_loop [] m d = (m, d)"
| "month_loop (n # ns) m d = (if d < n then (m, d) else month_loop ns (m + 1) (d - n))"

record time_fields =
  tf_timestamp :: nat
  tf_year :: nat
  tf_month :: nat
  tf_day :: nat
  tf_hour :: nat
  tf_minute :: nat
  tf_second :: nat
  tf_milliseconds :: nat
  tf_wday :: nat
  tf_yday :: nat

text \<open>The broken-down time of a number of seconds, in the numbering of the struct.\<close>

definition gmtime :: "nat \<Rightarrow> time_fields" where
  "gmtime secs =
     (let days = secs div 86400; rest = secs mod 86400;
          (y, yd) = year_loop 1970 days; (m, md) = month_loop (month_days y) 0 yd
      in \<lparr>tf_timestamp = 0, tf_year = y, tf_month = m + 1, tf_day = md + 1, tf_hour = rest div 3600,
          tf_minute = rest mod 3600 div 60, tf_second = rest mod 60, tf_milliseconds = 0,
          tf_wday = (days + 4) mod 7, tf_yday = yd\<rparr>)"


section \<open>The class\<close>

text \<open>\<open>get_time\<close>: the time at eight hours east of Greenwich.\<close>

definition east :: nat where "east = 8 * 60 * 60 * 1000"

definition get_time_of :: "nat \<Rightarrow> time_fields" where
  "get_time_of timestamp = gmtime ((timestamp + east) div 1000)"

definition get_time :: "nat \<Rightarrow> time_fields" where
  "get_time timestamp =
     (get_time_of timestamp)\<lparr>tf_timestamp := timestamp, tf_milliseconds := timestamp mod 1000\<rparr>"

text \<open>\<open>%0nd\<close> of \<open>printf\<close>.\<close>

definition pad :: "nat \<Rightarrow> nat \<Rightarrow> string" where
  "pad w n = replicate (w - length (show_nat n)) (CHR ''0'') @ show_nat n"

definition date_text :: "time_fields \<Rightarrow> string" where
  "date_text t = pad 4 (tf_year t) @ ''-'' @ pad 2 (tf_month t) @ ''-'' @ pad 2 (tf_day t) @ '' ''
     @ pad 2 (tf_hour t) @ '':'' @ pad 2 (tf_minute t) @ '':'' @ pad 2 (tf_second t)"

definition time_str :: "time_fields \<Rightarrow> string" where
  "time_str t = date_text t @ '':'' @ pad 3 (tf_milliseconds t)"

text \<open>\<open>get_datetime\<close>: the local time and, if asked for, the microseconds.\<close>

definition get_datetime :: "time_fields \<Rightarrow> nat \<Rightarrow> bool \<Rightarrow> string" where
  "get_datetime stime tv_usec ms = date_text stime @ (if ms then '':'' @ pad 6 tv_usec else [])"


section \<open>The calendar is right\<close>

text \<open>The days before a year and before a month, counted up.\<close>

fun days_before :: "nat \<Rightarrow> nat" where
  "days_before y = (if y \<le> 1970 then 0 else year_days (y - 1) + days_before (y - 1))"

declare days_before.simps [simp del]

definition day_number :: "nat \<Rightarrow> nat \<Rightarrow> nat \<Rightarrow> nat" where
  "day_number y m d = days_before y + sum_list (take (m - 1) (month_days y)) + (d - 1)"

definition stamp_of :: "time_fields \<Rightarrow> nat" where
  "stamp_of t = (((day_number (tf_year t) (tf_month t) (tf_day t) * 24 + tf_hour t) * 60 + tf_minute t) * 60
     + tf_second t) * 1000 + tf_milliseconds t - east"

lemma year_days_pos: "0 < year_days y"
  by (simp add: year_days_def)

lemma days_before_Suc: "1970 \<le> y \<Longrightarrow> days_before (Suc y) = year_days y + days_before y"
  by (subst days_before.simps) simp

lemma year_loop_props:
  "1970 \<le> y \<Longrightarrow> year_loop y d = (y', d') \<Longrightarrow>
    y \<le> y' \<and> d' < year_days y' \<and> days_before y + d = days_before y' + d'"
proof (induction y d arbitrary: y' d' rule: year_loop.induct)
  case (1 y d)
  show ?case
  proof (cases "d < year_days y")
    case True
    with 1(3) show ?thesis by (subst (asm) year_loop.simps) simp
  next
    case False
    then have "year_loop (y + 1) (d - year_days y) = (y', d')"
      using 1(3) by (subst (asm) year_loop.simps) simp
    with 1(1)[OF False] 1(2) False days_before_Suc[of y] show ?thesis by fastforce
  qed
qed

lemma sum_month_days: "sum_list (month_days y) = year_days y"
  by (simp add: month_days_def year_days_def)

lemma month_loop_props:
  "month_loop ns m d = (m', d') \<Longrightarrow> d < sum_list ns \<Longrightarrow>
    m \<le> m' \<and> m' - m < length ns \<and> d' < ns ! (m' - m) \<and> d = sum_list (take (m' - m) ns) + d'"
proof (induction ns arbitrary: m d)
  case (Cons n ns)
  show ?case
  proof (cases "d < n")
    case False
    then have "month_loop ns (Suc m) (d - n) = (m', d')" "d - n < sum_list ns" using Cons.prems by auto
    from Cons.IH[OF this] False have "Suc m \<le> m'" "m' - Suc m < length ns" "d' < ns ! (m' - Suc m)"
      "d = n + sum_list (take (m' - Suc m) ns) + d'" by auto
    moreover have "m' - m = Suc (m' - Suc m)" using calculation(1) by simp
    ultimately show ?thesis by simp
  qed (use Cons.prems in simp)
qed simp

lemma month_days_bound: "i < 12 \<Longrightarrow> month_days y ! i \<le> 31"
proof -
  have "\<forall>x\<in>set (month_days y). x \<le> 31" by (simp add: month_days_def)
  moreover have "length (month_days y) = 12" by (simp add: month_days_def)
  ultimately show "i < 12 \<Longrightarrow> month_days y ! i \<le> 31" by (metis nth_mem)
qed

lemma dvd_minute: "(60 :: nat) dvd 3600"
  by simp

lemma clock_sum:
  "(s :: nat) = d * 86400 + r \<Longrightarrow> r = h * 3600 + q \<Longrightarrow> q = mi * 60 + se
    \<Longrightarrow> ((d * 24 + h) * 60 + mi) * 60 + se = s"
  by simp

text \<open>The fields are a date of the calendar and name the second they come from.\<close>

lemma gmtime_props:
  fixes s :: nat
  defines "t \<equiv> gmtime s"
  shows "1970 \<le> tf_year t \<and> 1 \<le> tf_month t \<and> tf_month t \<le> 12 \<and> 1 \<le> tf_day t
    \<and> tf_day t \<le> month_days (tf_year t) ! (tf_month t - 1)
    \<and> tf_hour t < 24 \<and> tf_minute t < 60 \<and> tf_second t < 60
    \<and> ((day_number (tf_year t) (tf_month t) (tf_day t) * 24 + tf_hour t) * 60 + tf_minute t) * 60 + tf_second t = s"
proof -
  obtain y yd where y: "year_loop 1970 (s div 86400) = (y, yd)" by fastforce
  obtain m md where m: "month_loop (month_days y) 0 yd = (m, md)" by fastforce
  have Y: "1970 \<le> y" "yd < year_days y" "s div 86400 = days_before y + yd"
    using year_loop_props[OF _ y] by (simp_all add: days_before.simps[of 1970])
  have M: "m < 12" "md < month_days y ! m" "yd = sum_list (take m (month_days y)) + md"
    using month_loop_props[OF m] Y(2) by (simp_all add: sum_month_days) (simp add: month_days_def)
  have d: "day_number y (m + 1) (md + 1) = s div 86400" using Y(3) M(3) by (simp add: day_number_def)
  have 1: "s = s div 86400 * 86400 + s mod 86400" by simp
  have 2: "s mod 86400 = s mod 86400 div 3600 * 3600 + s mod 86400 mod 3600" by simp
  have "s mod 86400 mod 3600 mod 60 = s mod 86400 mod 60" by (rule mod_mod_cancel[OF dvd_minute])
  then have 3: "s mod 86400 mod 3600 = s mod 86400 mod 3600 div 60 * 60 + s mod 86400 mod 60"
    by (metis div_mult_mod_eq)
  note sum = clock_sum[OF 1 2 3]
  have t: "tf_year t = y" "tf_month t = m + 1" "tf_day t = md + 1" "tf_hour t = s mod 86400 div 3600"
    "tf_minute t = s mod 86400 mod 3600 div 60" "tf_second t = s mod 86400 mod 60"
    unfolding t_def gmtime_def by (simp_all only: y m Let_def prod.case time_fields.select_convs)
  have "s mod 86400 div 3600 < 24" "s mod 86400 mod 3600 div 60 < 60" "s mod 86400 mod 60 < 60"
    by (simp_all add: less_mult_imp_div_less)
  moreover have "1 \<le> m + 1" "m + 1 \<le> 12" "1 \<le> md + 1" "md + 1 \<le> month_days y ! (m + 1 - 1)"
    using M by simp_all
  ultimately show ?thesis unfolding t d using Y(1) sum by blast
qed


section \<open>The text\<close>

lemma show_nat_length: "n < 10 ^ w \<Longrightarrow> 0 < w \<Longrightarrow> length (show_nat n) \<le> w"
proof (induction n arbitrary: w rule: show_nat.induct)
  case (1 n)
  show ?case
  proof (cases "n < 10")
    case True
    with 1(3) show ?thesis by (subst show_nat.simps) simp
  next
    case False
    then obtain v where w: "w = Suc v" "0 < v" using 1(2,3) by (cases w; cases "w - 1") auto
    have "n div 10 < 10 ^ v" using 1(2) w(1) by (simp add: less_mult_imp_div_less)
    from 1(1)[OF False this w(2)] False w(1) show ?thesis by (subst show_nat.simps) simp
  qed
qed

lemma pad_length: "n < 10 ^ w \<Longrightarrow> 0 < w \<Longrightarrow> length (pad w n) = w"
  using show_nat_length[of n w] by (simp add: pad_def)

lemma digits_value_zeros: "digits_value 0 (replicate k (CHR ''0'') @ s) = digits_value 0 s"
  by (induction k) (simp_all add: is_digit_def)

lemma pad_value: "digits_value 0 (pad w n) = n"
  by (simp add: pad_def digits_value_zeros digits_value_show)

text \<open>The fields of the text by their positions, and the time they name.\<close>

definition field_at :: "string \<Rightarrow> nat \<Rightarrow> nat \<Rightarrow> nat" where
  "field_at s pos w = digits_value 0 (take w (drop pos s))"

definition read_time :: "string \<Rightarrow> nat" where
  "read_time s = (((day_number (field_at s 0 4) (field_at s 5 2) (field_at s 8 2) * 24 + field_at s 11 2) * 60
     + field_at s 14 2) * 60 + field_at s 17 2) * 1000 + field_at s 20 3 - east"

lemma take_drop_block:
  "length a = n \<Longrightarrow> length b = w \<Longrightarrow> take w (drop n (a @ b @ c)) = b"
  by simp

lemma time_str_parts:
  assumes "tf_year t < 10 ^ 4" and "tf_month t < 10 ^ 2" and "tf_day t < 10 ^ 2" and "tf_hour t < 10 ^ 2"
    and "tf_minute t < 10 ^ 2" and "tf_second t < 10 ^ 2" and "tf_milliseconds t < 10 ^ 3"
  defines "s \<equiv> time_str t"
  shows "length s = 23 \<and> field_at s 0 4 = tf_year t \<and> field_at s 5 2 = tf_month t \<and> field_at s 8 2 = tf_day t
    \<and> field_at s 11 2 = tf_hour t \<and> field_at s 14 2 = tf_minute t \<and> field_at s 17 2 = tf_second t
    \<and> field_at s 20 3 = tf_milliseconds t"
proof -
  have l: "length (pad 4 (tf_year t)) = 4" "length (pad 2 (tf_month t)) = 2" "length (pad 2 (tf_day t)) = 2"
    "length (pad 2 (tf_hour t)) = 2" "length (pad 2 (tf_minute t)) = 2" "length (pad 2 (tf_second t)) = 2"
    "length (pad 3 (tf_milliseconds t)) = 3"
    using assms by (simp_all only: pad_length zero_less_numeral)
  show ?thesis
    unfolding s_def field_at_def time_str_def date_text_def
    by (simp add: l pad_value)
qed

text \<open>
  The text of a time. For any time from 1970 to the end of the year 9999 the text get_time
  makes has 23 characters, so it fits its buffer of 32, its fields are a date of the Gregorian
  calendar eight hours east of Greenwich, and they name the millisecond it was made from.
\<close>

theorem time_text_roundtrip:
  assumes "tf_year (get_time ts) \<le> 9999"
  shows "length (time_str (get_time ts)) = 23 \<and> length (time_str (get_time ts)) < 32
    \<and> tf_month (get_time ts) \<in> {1..12}
    \<and> tf_day (get_time ts) \<in> {1..month_days (tf_year (get_time ts)) ! (tf_month (get_time ts) - 1)}
    \<and> tf_hour (get_time ts) < 24 \<and> tf_minute (get_time ts) < 60 \<and> tf_second (get_time ts) < 60
    \<and> read_time (time_str (get_time ts)) = ts"
proof -
  let ?t = "get_time ts"
  note g = gmtime_props[of "(ts + east) div 1000"]
  have f: "tf_year ?t = tf_year (gmtime ((ts + east) div 1000))" "tf_month ?t = tf_month (gmtime ((ts + east) div 1000))"
    "tf_day ?t = tf_day (gmtime ((ts + east) div 1000))" "tf_hour ?t = tf_hour (gmtime ((ts + east) div 1000))"
    "tf_minute ?t = tf_minute (gmtime ((ts + east) div 1000))" "tf_second ?t = tf_second (gmtime ((ts + east) div 1000))"
    "tf_milliseconds ?t = ts mod 1000"
    by (simp_all add: get_time_def get_time_of_def)
  have "month_days (tf_year ?t) ! (tf_month ?t - 1) \<le> 31"
    using g by (intro month_days_bound) (unfold f, linarith)
  then have d: "tf_day ?t \<le> 31" using g unfolding f by linarith
  have s: "length (time_str ?t) = 23 \<and> field_at (time_str ?t) 0 4 = tf_year ?t
    \<and> field_at (time_str ?t) 5 2 = tf_month ?t \<and> field_at (time_str ?t) 8 2 = tf_day ?t
    \<and> field_at (time_str ?t) 11 2 = tf_hour ?t \<and> field_at (time_str ?t) 14 2 = tf_minute ?t
    \<and> field_at (time_str ?t) 17 2 = tf_second ?t \<and> field_at (time_str ?t) 20 3 = tf_milliseconds ?t"
    by (rule time_str_parts) (use assms d g f in auto)
  have "(ts + east) div 1000 * 1000 + ts mod 1000 = ts + east"
  proof -
    have "(ts + east) mod 1000 = ts mod 1000" by (simp add: east_def mod_add_eq[symmetric])
    then show ?thesis by (metis div_mult_mod_eq)
  qed
  with g have "read_time (time_str ?t) = ts" unfolding read_time_def using s f by simp
  with g s d show ?thesis unfolding f by auto
qed

theorem time_text_roundtrip_witness:
  "tf_year (get_time 5) = 1970 \<and> length (time_str (get_time 5)) = 23
   \<and> read_time (time_str (get_time 5)) = 5"
proof -
  have "tf_year (get_time 5) = 1970"
    by (simp add: get_time_def get_time_of_def gmtime_def east_def year_loop.simps year_days_def month_days_def)
  with time_text_roundtrip[of 5] show ?thesis by simp
qed

end
