(* ===== verification/Shine_String_Build.thy ===== *)
theory Shine_String_Build
  imports Shine_String
begin

text \<open>
  How the string class of \<^verbatim>\<open>Include/util/string.hpp\<close> builds texts: assignment and appending of
  characters and numbers, the \<open>printf\<close> formats and the conversion between character sets. What
  \<open>vsnprintf\<close> prints for a format and its arguments and what \<open>iconv\<close> converts are parameters.
\<close>


section \<open>Operands\<close>

text \<open>
  The overloads: a character, signed or not; an integer of 16 to 64 bits; a floating number, as
  \<open>snprintf\<close> prints it; a C string; a string.
\<close>

datatype operand = Char8 char | Integer int | Floating string | C_string string | Shine_string string

fun operand_text :: "operand \<Rightarrow> string" where
  "operand_text (Char8 c) = [c]"
| "operand_text (Integer i) = string_of_integer i"
| "operand_text (Floating printed) = number_to_string printed"
| "operand_text (C_string s) = c_str s"
| "operand_text (Shine_string s) = s"

definition string_assign :: "operand \<Rightarrow> string \<Rightarrow> string" where
  "string_assign v s = operand_text v"

definition string_shift :: "operand \<Rightarrow> string \<Rightarrow> string" where
  "string_shift v s = s @ operand_text v"

definition string_append :: "operand \<Rightarrow> string \<Rightarrow> string" where
  "string_append v s = s @ operand_text v"

text \<open>Element access throws outside the text; a position is an \<open>int\<close> and becomes a \<open>size_t\<close>.\<close>

definition string_at :: "string \<Rightarrow> int \<Rightarrow> char outcome" where
  "string_at s pos =
     (let p = nat (take_bit 64 pos) in if p < length s then Done (s ! p) else Throws Out_of_range)"

lemma string_at_bounds: "pos < 0 \<Longrightarrow> - (2 ^ 31) \<le> pos \<Longrightarrow> length s < 2 ^ 63 \<Longrightarrow> string_at s pos = Throws Out_of_range"
proof -
  assume a: "pos < 0" "- (2 ^ 31) \<le> pos" "length s < 2 ^ 63"
  have "take_bit 64 pos = pos mod 2 ^ 64" by (simp add: take_bit_eq_mod)
  also have "\<dots> = (pos + 2 ^ 64) mod 2 ^ 64" by simp
  also have "\<dots> = pos + 2 ^ 64" using a(1,2) by (intro mod_pos_pos_trivial) auto
  finally have "2 ^ 63 \<le> take_bit 64 pos" using a(2) by simp
  then show ?thesis using a(3) by (simp add: string_at_def Let_def)
qed

text \<open>A text built of operands is their texts in order, and an integer is read back from it.\<close>

lemma build_text: "fold string_append vs s = s @ concat (map operand_text vs)"
  by (induction vs arbitrary: s) (simp_all add: string_append_def)


section \<open>Formats\<close>

definition string_resize :: "nat \<Rightarrow> string \<Rightarrow> string outcome" where
  "string_resize n s =
     (if 2 ^ 63 \<le> n then Throws Length_error
      else Done (take n s @ replicate (n - length s) (CHR 0x00)))"

text \<open>
  \<open>vsnprintf\<close> writes what fits before a NUL into the characters of the string and leaves the rest.
  The size is -1 when it fails.
\<close>

definition vsnprintf_into :: "string \<Rightarrow> string \<Rightarrow> string" where
  "vsnprintf_into t buf =
     (if buf = [] then []
      else let k = min (length t) (length buf - 1) in take k t @ [CHR 0x00] @ drop (k + 1) buf)"

definition assert_size :: "string option \<Rightarrow> u64" where
  "assert_size printed = (case printed of None \<Rightarrow> - 1 | Some t \<Rightarrow> of_nat (length t))"

definition string_format :: "string option \<Rightarrow> string \<Rightarrow> string outcome" where
  "string_format printed s =
     (let n = assert_size printed in
      obind (string_resize (unat (n + 1)) s) (\<lambda>s.
        string_resize (unat n) (vsnprintf_into (case printed of None \<Rightarrow> [] | Some t \<Rightarrow> t) s)))"

definition format_create :: "string option \<Rightarrow> string outcome" where
  "format_create printed = string_format printed []"

definition format_append :: "string option \<Rightarrow> string \<Rightarrow> string outcome" where
  "format_append printed s = obind (format_create printed) (\<lambda>tmp. Done (s @ tmp))"

lemma string_format_text:
  assumes "length t < 2 ^ 63 - 1"
  shows "string_format (Some t) s = Done t" and "format_append (Some t) s = Done (s @ t)"
proof -
  have n: "unat (of_nat (length t) :: u64) = length t" "unat (of_nat (length t) + 1 :: u64) = length t + 1"
  proof -
    have "of_nat (length t) + 1 = (of_nat (length t + 1) :: u64)" by simp
    then show "unat (of_nat (length t) + 1 :: u64) = length t + 1"
      using unat_of_nat64[of "length t + 1"] assms by (simp add: add.commute)
    show "unat (of_nat (length t) :: u64) = length t" using unat_of_nat64 assms by simp
  qed
  have f: "string_format (Some t) s = Done t" for s
    using assms by (auto simp: string_format_def assert_size_def n string_resize_def vsnprintf_into_def Let_def)
  show "string_format (Some t) s = Done t" by (rule f)
  show "format_append (Some t) s = Done (s @ t)" by (simp add: format_append_def format_create_def f)
qed

text \<open>When the format cannot be printed the size wraps around, and the exception is not caught.\<close>

lemma string_format_failed: "string_format None s = Throws Length_error"
proof -
  have "unat (- 1 :: u64) = 2 ^ 64 - 1" by (simp add: unsigned_minus_1_eq_mask mask_eq_exp_minus_1)
  then show ?thesis by (simp add: string_format_def assert_size_def string_resize_def Let_def)
qed


section \<open>Character sets\<close>

text \<open>
  \<open>convert\<close>: the converted bytes go to a cleared buffer of twice the input and one more byte, and
  are read back as a C string. A buffer without a NUL is read past its end.
\<close>

definition convert :: "(string \<Rightarrow> nat \<Rightarrow> string) \<Rightarrow> string \<Rightarrow> string outcome" where
  "convert iconv input =
     (if length input = 0 then Done []
      else let output_len = 2 * length input + 1;
               out = take output_len (iconv input output_len);
               p_buf = out @ replicate (output_len - length out) (CHR 0x00)
           in if CHR 0x00 \<in> set p_buf then Done (c_str p_buf) else Undef)"

lemma convert_fits:
  assumes "length (iconv input (2 * length input + 1)) \<le> 2 * length input"
    and "CHR 0x00 \<notin> set (iconv input (2 * length input + 1))" and "input \<noteq> []"
  shows "convert iconv input = Done (iconv input (2 * length input + 1))"
proof -
  define out where "out = iconv input (2 * length input + 1)"
  have c: "c_str (out @ CHR 0x00 # x) = out" for x
    using assms(2) unfolding c_str_def out_def[symmetric] by (subst takeWhile_append2) auto
  have l: "length out \<le> 2 * length input" using assms(1) by (simp only: out_def)
  then have "2 * length input + 1 - length out = Suc (2 * length input - length out)" by simp
  moreover have "take (2 * length input + 1) out = out" using l by simp
  ultimately have "convert iconv input = Done (c_str (out @ CHR 0x00 # replicate (2 * length input - length out) (CHR 0x00)))"
    using assms(3) unfolding convert_def Let_def out_def[symmetric] by simp
  then show ?thesis by (simp only: c out_def[symmetric])
qed

end
