(* ===== verification/Tiny_Xml_Text.thy ===== *)
theory Tiny_Xml_Text
  imports Cxx_String
begin

text \<open>
  The character level of the bundled XML parser TinyXML 2.6.2,
  \<^verbatim>\<open>Include/xml/Source/tinyxmlparser.cpp\<close> and \<^verbatim>\<open>Include/xml/Header/tinyxml.h\<close>: white
  space, names, entities, the comparison with a tag, and the text up to an end tag. A
  \<open>const char*\<close> is the rest of the text up to its NUL, \<open>Some []\<close> the pointer at the NUL and
  \<open>None\<close> the null pointer. The build defines neither \<^verbatim>\<open>TIXML_USE_STL\<close> nor \<^verbatim>\<open>NDEBUG\<close>, so an
  assertion that fails ends the process.
\<close>


section \<open>Faults\<close>

text \<open>
  What a call can do other than return: fail an assertion, read past the NUL that ends the
  text, loop for ever, or (in the model only) run out of fuel.
\<close>

datatype xml_fault = Assert_Failed | Past_End | Hangs | No_Fuel

type_synonym 'a xml_run = "xml_fault + 'a"

fun xbind :: "'a xml_run \<Rightarrow> ('a \<Rightarrow> 'b xml_run) \<Rightarrow> 'b xml_run" where
  "xbind (Inl e) f = Inl e"
| "xbind (Inr a) f = f a"

lemma xbind_cong [fundef_cong]:
  "x = y \<Longrightarrow> (\<And>a. y = Inr a \<Longrightarrow> f a = g a) \<Longrightarrow> xbind x f = xbind y g"
  by (cases y) auto

lemma xbind_Inr_iff: "xbind x f = Inr b \<longleftrightarrow> (\<exists>a. x = Inr a \<and> f a = Inr b)"
  by (cases x) auto

lemma xbind_InrE [elim!]:
  assumes "xbind x f = Inr b"
  obtains a where "x = Inr a" and "f a = Inr b"
  using assms by (cases x) auto

lemma xbind_Inl_iff: "xbind x f = Inl e \<longleftrightarrow> x = Inl e \<or> (\<exists>a. x = Inr a \<and> f a = Inl e)"
  by (cases x) auto

type_synonym cptr = "string option"

text \<open>\<open>p && *p\<close> in the code.\<close>

definition has_text :: "cptr \<Rightarrow> bool" where
  "has_text p \<longleftrightarrow> p \<noteq> None \<and> p \<noteq> Some []"

lemma live_simps [simp]: "\<not> has_text None" "has_text (Some s) \<longleftrightarrow> s \<noteq> []"
  by (auto simp: has_text_def)

text \<open>The characters a pointer still has before it: none for the null pointer.\<close>

definition rest_len :: "cptr \<Rightarrow> nat" where
  "rest_len p = (case p of None \<Rightarrow> 0 | Some s \<Rightarrow> length s)"

lemma rest_len_simps [simp]: "rest_len None = 0" "rest_len (Some s) = length s"
  by (simp_all add: rest_len_def)


section \<open>Characters\<close>

datatype xml_encoding = Enc_Unknown | Enc_UTF8 | Enc_Legacy

text \<open>\<open>utf8ByteTable\<close>: the length of a character from its first byte.\<close>

definition utf8_byte_table :: "char \<Rightarrow> nat" where
  "utf8_byte_table c =
     (if code c < 0xC2 then 1
      else if code c < 0xE0 then 2
      else if code c < 0xF0 then 3
      else if code c < 0xF5 then 4
      else 1)"

text \<open>
  \<open>ConvertUTF32ToUTF8\<close>: the last bytes first, each time the low six bits; a number that needs
  more than four bytes gives none.
\<close>

definition tail_byte :: "u64 \<Rightarrow> char" where
  "tail_byte w = chr (ucast ((w OR 0x80) AND 0xBF))"

definition lead_byte :: "u64 \<Rightarrow> u64 \<Rightarrow> char" where
  "lead_byte mark w = chr (ucast (w OR mark))"

definition convert_utf32_to_utf8 :: "u64 \<Rightarrow> string" where
  "convert_utf32_to_utf8 w =
     (if w < 0x80 then [lead_byte 0 w]
      else if w < 0x800 then [lead_byte 0xC0 (drop_bit 6 w), tail_byte w]
      else if w < 0x10000 then
        [lead_byte 0xE0 (drop_bit 6 (drop_bit 6 w)), tail_byte (drop_bit 6 w), tail_byte w]
      else if w < 0x200000 then
        [lead_byte 0xF0 (drop_bit 6 (drop_bit 6 (drop_bit 6 w))),
         tail_byte (drop_bit 6 (drop_bit 6 w)), tail_byte (drop_bit 6 w), tail_byte w]
      else [])"

definition is_letter :: "char \<Rightarrow> bool" where
  "is_letter c \<longleftrightarrow> is_upper c \<or> is_lower c"

definition xml_is_alpha :: "char \<Rightarrow> bool" where
  "xml_is_alpha c = (if code c < 127 then is_letter c else True)"

definition xml_is_alnum :: "char \<Rightarrow> bool" where
  "xml_is_alnum c = (if code c < 127 then is_alnum c else True)"

definition is_white :: "char \<Rightarrow> bool" where
  "is_white c \<longleftrightarrow> is_space c \<or> c = CHR 0x0A \<or> c = CHR 0x0D"

definition xml_to_lower :: "xml_encoding \<Rightarrow> char \<Rightarrow> char" where
  "xml_to_lower enc c =
     (if enc = Enc_UTF8 then if code c < 128 then to_lower_char c else c else to_lower_char c)"

text \<open>The three marks of width zero the parser takes for white space in a UTF-8 text.\<close>

fun is_bom :: "string \<Rightarrow> bool" where
  "is_bom (a # b # c # _) \<longleftrightarrow> a = CHR 0xEF \<and> b = CHR 0xBB \<and> c = CHR 0xBF"
| "is_bom _ \<longleftrightarrow> False"

fun is_zero_width :: "string \<Rightarrow> bool" where
  "is_zero_width (a # b # c # s) \<longleftrightarrow>
     is_bom (a # b # c # s) \<or> (a = CHR 0xEF \<and> b = CHR 0xBF \<and> (c = CHR 0xBE \<or> c = CHR 0xBF))"
| "is_zero_width _ \<longleftrightarrow> False"

fun skip_white_loop :: "xml_encoding \<Rightarrow> string \<Rightarrow> string" where
  "skip_white_loop enc [] = []"
| "skip_white_loop enc (c # s) =
     (if enc = Enc_UTF8 \<and> is_zero_width (c # s) then skip_white_loop enc (drop 2 s)
      else if is_white c then skip_white_loop enc s
      else c # s)"

definition skip_white_space :: "xml_encoding \<Rightarrow> cptr \<Rightarrow> cptr" where
  "skip_white_space enc p =
     (case p of None \<Rightarrow> None | Some s \<Rightarrow> if s = [] then None else Some (skip_white_loop enc s))"


section \<open>Names and tags\<close>

definition name_start :: "char \<Rightarrow> bool" where
  "name_start c \<longleftrightarrow> xml_is_alpha c \<or> c = CHR ''_''"

definition name_char :: "char \<Rightarrow> bool" where
  "name_char c \<longleftrightarrow>
     xml_is_alnum c \<or> c = CHR ''_'' \<or> c = CHR ''-'' \<or> c = CHR ''.'' \<or> c = CHR '':''"

definition read_name :: "cptr \<Rightarrow> (string \<times> cptr) xml_run" where
  "read_name p =
     (case p of
        None \<Rightarrow> Inl Assert_Failed
      | Some [] \<Rightarrow> Inr ([], None)
      | Some (c # s) \<Rightarrow>
          if name_start c then Inr (takeWhile name_char (c # s), Some (dropWhile name_char (c # s)))
          else Inr ([], None))"

text \<open>
  \<open>StringEqual\<close>: whether the text starts with the tag. It asserts that there is a text and
  that it is not at its end.
\<close>

fun starts_with :: "xml_encoding \<Rightarrow> bool \<Rightarrow> string \<Rightarrow> string \<Rightarrow> bool" where
  "starts_with enc ic [] s = True"
| "starts_with enc ic (t # tag) [] = False"
| "starts_with enc ic (t # tag) (c # s) =
     ((if ic then xml_to_lower enc c = xml_to_lower enc t else c = t) \<and> starts_with enc ic tag s)"

definition string_equal :: "xml_encoding \<Rightarrow> bool \<Rightarrow> cptr \<Rightarrow> string \<Rightarrow> bool xml_run" where
  "string_equal enc ic p tag =
     (case p of
        None \<Rightarrow> Inl Assert_Failed
      | Some s \<Rightarrow> if s = [] then Inl Assert_Failed else Inr (starts_with enc ic tag s))"


section \<open>Entities\<close>

definition xml_entities :: "(string \<times> char) list" where
  "xml_entities =
     [(''&amp;'', CHR ''&''), (''&lt;'', CHR ''<''), (''&gt;'', CHR ''>''),
      (''&quot;'', CHR 0x22), (''&apos;'', CHR 0x27)]"

text \<open>
  The number of a character reference, read from its last digit to its first: \<open>mult\<close> is an
  unsigned int and wraps, \<open>ucs\<close> an unsigned long. The walk stops at the first \<open>x\<close> (or \<open>#\<close>)
  it meets; a character that is no digit is an error.
\<close>

definition hex_digit_value :: "char \<Rightarrow> u32 option" where
  "hex_digit_value c =
     (if is_digit c then Some (of_nat (code c - 48))
      else if 97 \<le> code c \<and> code c \<le> 102 then Some (of_nat (code c - 97 + 10))
      else if 65 \<le> code c \<and> code c \<le> 70 then Some (of_nat (code c - 65 + 10))
      else None)"

definition dec_digit_value :: "char \<Rightarrow> u32 option" where
  "dec_digit_value c = (if is_digit c then Some (of_nat (code c - 48)) else None)"

fun ref_number :: "(char \<Rightarrow> u32 option) \<Rightarrow> u32 \<Rightarrow> char \<Rightarrow> u32 \<Rightarrow> u64 \<Rightarrow> string \<Rightarrow> u64 option" where
  "ref_number digit base stop mult ucs [] = Some ucs"
| "ref_number digit base stop mult ucs (c # s) =
     (if c = stop then Some ucs
      else case digit c of
             None \<Rightarrow> None
           | Some d \<Rightarrow> ref_number digit base stop (mult * base) (ucs + ucast (mult * d)) s)"

text \<open>The value of a reference: in UTF-8 its encoding, else the low byte.\<close>

definition ref_value :: "xml_encoding \<Rightarrow> u64 \<Rightarrow> string" where
  "ref_value enc ucs = (if enc = Enc_UTF8 then convert_utf32_to_utf8 ucs else [chr (ucast ucs)])"

text \<open>
  \<open>GetEntity\<close> on the text after the ampersand: the bytes of the value and the pointer past the
  entity. The digits end at the next semicolon of the text, wherever it is. An ampersand that
  starts no entity is passed over, with no byte of value.
\<close>

definition char_reference :: "xml_encoding \<Rightarrow> (char \<Rightarrow> u32 option) \<Rightarrow> u32 \<Rightarrow> char \<Rightarrow> string
    \<Rightarrow> string \<times> cptr" where
  "char_reference enc digit base stop s =
     (case dropWhile (\<lambda>c. c \<noteq> CHR '';'') s of
        [] \<Rightarrow> ([], None)
      | _ # r \<Rightarrow>
          (case ref_number digit base stop 1 0 (rev (takeWhile (\<lambda>c. c \<noteq> CHR '';'') s)) of
             None \<Rightarrow> ([], None)
           | Some ucs \<Rightarrow> (ref_value enc ucs, Some r)))"

definition named_entity :: "string \<Rightarrow> (string \<times> char) option" where
  "named_entity s = find (\<lambda>(e, c). take (length e) s = e) xml_entities"

definition get_entity :: "xml_encoding \<Rightarrow> string \<Rightarrow> string \<times> cptr" where
  "get_entity enc s =
     (case s of
        _ # a # b # r \<Rightarrow>
          if a = CHR ''#'' then
            if b = CHR ''x'' then
              if r = [] then ([], None) else char_reference enc hex_digit_value 16 (CHR ''x'') r
            else char_reference enc dec_digit_value 10 (CHR ''#'') (b # r)
          else (case named_entity s of
                  Some (e, c) \<Rightarrow> ([c], Some (drop (length e) s))
                | None \<Rightarrow> ([], Some (drop 1 s)))
      | _ \<Rightarrow> ([], Some (drop 1 s)))"

text \<open>
  \<open>GetChar\<close>: the bytes of the next character and the pointer past it. The bytes are copied up
  to the NUL, but the pointer moves by the length the first byte announces, past the NUL when
  the character is cut short.
\<close>

definition get_char :: "xml_encoding \<Rightarrow> string \<Rightarrow> (string \<times> cptr) xml_run" where
  "get_char enc s =
     (let n = (if enc = Enc_UTF8 then utf8_byte_table (hd s) else 1) in
      if n = 1 then
        if hd s = CHR ''&'' then Inr (get_entity enc s) else Inr ([hd s], Some (tl s))
      else if length s < n then Inl Past_End
      else Inr (take n s, Some (drop n s)))"

end
