(* ===== verification/Tiny_Xml_Parser.thy ===== *)
theory Tiny_Xml_Parser
  imports Tiny_Xml_Text
begin

text \<open>
  The parser of TinyXML, \<^verbatim>\<open>Include/xml/Source/tinyxmlparser.cpp\<close>: the text up to a tag, the
  positions of \<open>TiXmlParsingData::Stamp\<close>, the error of the document, and the \<open>Parse\<close> of each
  kind of node, of the document and of \<open>LoadFile\<close> in \<^verbatim>\<open>tinyxml.cpp\<close>. Each parse is the one the
  document starts, so there is always parsing data; a node that fails to parse stays in the
  tree with what it has read. The readers of an element and of its value call each other; their
  fuel is the number of nested or successive calls.
\<close>


section \<open>Progress of the character functions\<close>

lemma skip_white_loop_length: "length (skip_white_loop enc s) \<le> length s"
  by (induction enc s rule: skip_white_loop.induct) auto

lemma skip_white_space_length: "rest_len (skip_white_space enc p) \<le> rest_len p"
  using skip_white_loop_length by (auto simp: skip_white_space_def split: option.splits)

lemma char_reference_length: "s \<noteq> [] \<Longrightarrow> rest_len (snd (char_reference enc d b stop s)) < length s"
proof -
  assume "s \<noteq> []"
  have "length (dropWhile (\<lambda>c. c \<noteq> CHR '';'') s) \<le> length s" by (rule length_dropWhile_le)
  with \<open>s \<noteq> []\<close> show ?thesis
    by (auto simp: char_reference_def split: list.splits option.splits)
qed

lemma named_entity_nonempty: "named_entity s = Some (e, c) \<Longrightarrow> e \<noteq> []"
  by (auto simp: named_entity_def xml_entities_def split: if_splits)

lemma get_entity_length: "s \<noteq> [] \<Longrightarrow> rest_len (snd (get_entity enc s)) < length s"
proof -
  assume s: "s \<noteq> []"
  show ?thesis
  proof (cases "\<exists>x a b r. s = x # a # b # r")
    case True
    then obtain x a b r where s: "s = x # a # b # r" by blast
    have 1: "rest_len (snd (char_reference enc hex_digit_value 16 (CHR ''x'') r)) < length s"
      if "r \<noteq> []" using char_reference_length[OF that, of enc hex_digit_value 16 "CHR ''x''"] s by simp
    have 2: "rest_len (snd (char_reference enc dec_digit_value 10 (CHR ''#'') (b # r))) < length s"
      using char_reference_length[of "b # r" enc dec_digit_value 10 "CHR ''#''"] s by simp
    have 3: "named_entity s = Some (e, c) \<Longrightarrow> rest_len (Some (drop (length e) s)) < length s" for e c
      using named_entity_nonempty[of s e c] s by (cases e) auto
    show ?thesis
      using 1 2 3 s by (auto simp: get_entity_def split: option.splits)
  next
    case False
    then have "get_entity enc s = ([], Some (drop 1 s))"
      by (auto simp: get_entity_def split: list.splits)
    with s show ?thesis by (cases s) auto
  qed
qed

lemma get_char_length:
  assumes "get_char enc s = Inr (v, p)" and "s \<noteq> []"
  shows "rest_len p < length s"
proof -
  have "0 < utf8_byte_table (hd s)" by (simp add: utf8_byte_table_def)
  with assms get_entity_length[of s enc] show ?thesis
    by (cases s) (auto simp: get_char_def Let_def split: if_splits)
qed


section \<open>Text up to a tag\<close>

text \<open>
  The two loops of \<open>ReadText\<close>. The first keeps the white space; the second turns each run of
  white space into one space, put before the next character, so that none is left at the end.
\<close>

function keep_loop :: "xml_encoding \<Rightarrow> bool \<Rightarrow> string \<Rightarrow> cptr \<Rightarrow> string \<Rightarrow> (string \<times> cptr) xml_run" where
  "keep_loop enc ic tag p acc =
     (case p of
        None \<Rightarrow> Inr (acc, None)
      | Some s \<Rightarrow>
          if s = [] \<or> starts_with enc ic tag s then Inr (acc, Some s)
          else xbind (get_char enc s) (\<lambda>(v, p'). keep_loop enc ic tag p' (acc @ v)))"
  by pat_completeness auto
termination
  by (relation "measure (\<lambda>(enc, ic, tag, p, acc). rest_len p)") (auto dest: get_char_length)

function condense_loop :: "xml_encoding \<Rightarrow> bool \<Rightarrow> string \<Rightarrow> bool \<Rightarrow> cptr \<Rightarrow> string
    \<Rightarrow> (string \<times> cptr) xml_run" where
  "condense_loop enc ic tag white p acc =
     (case p of
        None \<Rightarrow> Inr (acc, None)
      | Some s \<Rightarrow>
          if s = [] \<or> starts_with enc ic tag s then Inr (acc, Some s)
          else if is_white (hd s) then condense_loop enc ic tag True (Some (tl s)) acc
          else xbind (get_char enc s) (\<lambda>(v, p').
                 condense_loop enc ic tag False p' (acc @ (if white then '' '' else []) @ v)))"
  by pat_completeness auto
termination
  by (relation "measure (\<lambda>(enc, ic, tag, white, p, acc). rest_len p)")
    (auto dest: get_char_length)

declare keep_loop.simps [simp del] condense_loop.simps [simp del]

lemma keep_loop_stop [simp]:
  "keep_loop enc ic tag None acc = Inr (acc, None)"
  "s = [] \<or> starts_with enc ic tag s \<Longrightarrow> keep_loop enc ic tag (Some s) acc = Inr (acc, Some s)"
  by (simp_all add: keep_loop.simps)

lemma keep_loop_step:
  "\<not> (s = [] \<or> starts_with enc ic tag s) \<Longrightarrow> keep_loop enc ic tag (Some s) acc =
     xbind (get_char enc s) (\<lambda>(v, p). keep_loop enc ic tag p (acc @ v))"
  by (simp add: keep_loop.simps)

lemma condense_loop_stop [simp]:
  "condense_loop enc ic tag w None acc = Inr (acc, None)"
  "s = [] \<or> starts_with enc ic tag s \<Longrightarrow>
     condense_loop enc ic tag w (Some s) acc = Inr (acc, Some s)"
  by (simp_all add: condense_loop.simps)

lemma condense_loop_white:
  "\<not> (s = [] \<or> starts_with enc ic tag s) \<Longrightarrow> is_white (hd s) \<Longrightarrow>
     condense_loop enc ic tag w (Some s) acc = condense_loop enc ic tag True (Some (tl s)) acc"
  by (simp add: condense_loop.simps)

lemma condense_loop_step:
  "\<not> (s = [] \<or> starts_with enc ic tag s) \<Longrightarrow> \<not> is_white (hd s) \<Longrightarrow>
     condense_loop enc ic tag w (Some s) acc =
       xbind (get_char enc s) (\<lambda>(v, p).
         condense_loop enc ic tag False p (acc @ (if w then '' '' else []) @ v))"
  by (simp add: condense_loop.simps)

text \<open>\<open>condense\<close> is the static \<open>condenseWhiteSpace\<close>, true unless the program changes it.\<close>

definition read_text :: "bool \<Rightarrow> xml_encoding \<Rightarrow> bool \<Rightarrow> string \<Rightarrow> bool \<Rightarrow> cptr
    \<Rightarrow> (string \<times> cptr) xml_run" where
  "read_text condense enc trim tag ic p =
     xbind (if \<not> trim \<or> \<not> condense then keep_loop enc ic tag p []
            else condense_loop enc ic tag False (skip_white_space enc p) [])
       (\<lambda>(v, p).
          let p = (if has_text p then map_option (drop (length tag)) p else p) in
          Inr (v, if has_text p then p else None))"


section \<open>Positions\<close>

text \<open>
  One round of the loop of \<open>Stamp\<close>. Both ends of a line count as one, a tab goes to the next
  stop. In a UTF-8 text a mark of width zero takes no column; when the first byte of a mark is
  one of the last two of the text, the pointer does not move.
\<close>

type_synonym stamp_state = "string \<times> int \<times> int"

fun stamp_step :: "int \<Rightarrow> xml_encoding \<Rightarrow> stamp_state \<Rightarrow> stamp_state" where
  "stamp_step tab enc ([], row, col) = ([], row, col)"
| "stamp_step tab enc (c # s, row, col) =
     (if c = CHR 0x0D then (case s of d # r \<Rightarrow> if d = CHR 0x0A then r else s | [] \<Rightarrow> s, row + 1, 0)
      else if c = CHR 0x0A then (case s of d # r \<Rightarrow> if d = CHR 0x0D then r else s | [] \<Rightarrow> s, row + 1, 0)
      else if c = CHR 0x09 then (s, row, (col div tab + 1) * tab)
      else if c = CHR 0xEF then
        if enc = Enc_UTF8 then
          (case s of
             a # b # r \<Rightarrow> (r, row, if is_zero_width (c # s) then col else col + 1)
           | _ \<Rightarrow> (c # s, row, col))
        else (s, row, col + 1)
      else if enc = Enc_UTF8 then (drop (utf8_byte_table c) (c # s), row, col + 1)
      else (s, row, col + 1))"

text \<open>The loop itself: \<open>None\<close> is a loop that never ends. \<open>now\<close> is the rest of the text at the
  place to stamp.\<close>

partial_function (option) stamp_loop :: "int \<Rightarrow> xml_encoding \<Rightarrow> string \<Rightarrow> stamp_state
    \<Rightarrow> stamp_state option" where
  "stamp_loop tab enc now x =
     (if length (fst x) \<le> length now then Some x
      else stamp_loop tab enc now (stamp_step tab enc x))"

datatype xml_error =
    Xml_Error | Xml_Opening_File | Xml_Parsing_Element | Xml_Failed_To_Read_Element_Name
  | Xml_Reading_Element_Value | Xml_Reading_Attributes | Xml_Parsing_Empty | Xml_Reading_End_Tag
  | Xml_Parsing_Unknown | Xml_Parsing_Comment | Xml_Parsing_Declaration | Xml_Document_Empty
  | Xml_Embedded_Null | Xml_Parsing_CData | Xml_Document_Top_Only

type_synonym xml_pos = "int \<times> int"

definition no_pos :: xml_pos where
  "no_pos = (-1, -1)"

text \<open>The parsing data of a run, and the error of the document it parses.\<close>

record pst =
  ps_stamp :: string
  ps_row :: int
  ps_col :: int
  ps_tab :: int
  ps_error :: "(xml_error \<times> xml_pos) option"

definition cursor :: "pst \<Rightarrow> xml_pos" where
  "cursor st = (ps_row st, ps_col st)"

definition stamp :: "xml_encoding \<Rightarrow> cptr \<Rightarrow> pst \<Rightarrow> pst xml_run" where
  "stamp enc p st =
     (case p of
        None \<Rightarrow> Inl Assert_Failed
      | Some now \<Rightarrow>
          if ps_tab st < 1 then Inr st
          else (case stamp_loop (ps_tab st) enc now (ps_stamp st, ps_row st, ps_col st) of
                  None \<Rightarrow> Inl Hangs
                | Some (s, row, col) \<Rightarrow>
                    Inr (st\<lparr>ps_stamp := s, ps_row := row, ps_col := col\<rparr>)))"

text \<open>Only the first error is kept; it has a position when it has a place in the text.\<close>

definition set_error :: "xml_error \<Rightarrow> cptr \<Rightarrow> xml_encoding \<Rightarrow> pst \<Rightarrow> pst xml_run" where
  "set_error e p enc st =
     (if ps_error st \<noteq> None then Inr st
      else case p of
             None \<Rightarrow> Inr (st\<lparr>ps_error := Some (e, no_pos)\<rparr>)
           | Some _ \<Rightarrow>
               xbind (stamp enc p st) (\<lambda>st. Inr (st\<lparr>ps_error := Some (e, cursor st)\<rparr>)))"

text \<open>The same for a node that may be outside a document, where the error is lost.\<close>

definition report :: "bool \<Rightarrow> xml_error \<Rightarrow> cptr \<Rightarrow> xml_encoding \<Rightarrow> pst \<Rightarrow> pst xml_run" where
  "report in_doc e p enc st = (if in_doc then set_error e p enc st else Inr st)"

end
