(* ===== verification/Tiny_Xml_Document.thy ===== *)
theory Tiny_Xml_Document
  imports Tiny_Xml_Parser
begin

text \<open>
  The nodes of TinyXML and their \<open>Parse\<close>, the parse of a document and \<open>LoadFile\<close>
  (\<^verbatim>\<open>tinyxmlparser.cpp\<close>, \<^verbatim>\<open>tinyxml.cpp\<close>). A parser returns the node as far as it has been read,
  the pointer past it (null for an error) and the state.
\<close>


section \<open>Nodes\<close>

record xml_attribute =
  attr_pos :: xml_pos
  attr_name :: string
  attr_value :: string

datatype xml_node =
    TElement (node_pos: xml_pos) (elem_name: string) (elem_attrs: "xml_attribute list")
      (elem_children: "xml_node list")
  | TText (node_pos: xml_pos) (text_value: string) (text_cdata: bool)
  | TComment (node_pos: xml_pos) (comment_value: string)
  | TUnknown (node_pos: xml_pos) (unknown_value: string)
  | TDeclaration (node_pos: xml_pos) (decl_version: string) (decl_encoding: string)
      (decl_standalone: string)

datatype node_kind = Is_Declaration | Is_Comment | Is_CData | Is_Unknown | Is_Element

definition identify :: "xml_encoding \<Rightarrow> cptr \<Rightarrow> node_kind option" where
  "identify enc p =
     (case skip_white_space enc p of
        None \<Rightarrow> None
      | Some [] \<Rightarrow> None
      | Some (c # s) \<Rightarrow>
          if c \<noteq> CHR ''<'' then None
          else if starts_with enc True ''<?xml'' (c # s) then Some Is_Declaration
          else if starts_with enc False ''<!--'' (c # s) then Some Is_Comment
          else if starts_with enc False ''<![CDATA['' (c # s) then Some Is_CData
          else if starts_with enc False ''<!'' (c # s) then Some Is_Unknown
          else if s \<noteq> [] \<and> (xml_is_alpha (hd s) \<or> hd s = CHR ''_'') then Some Is_Element
          else Some Is_Unknown)"


section \<open>Attributes\<close>

text \<open>
  A value without quotes ends at white space, \<open>/\<close> or \<open>>\<close>; a quote in it is an error.
\<close>

definition is_quote :: "char \<Rightarrow> bool" where
  "is_quote c \<longleftrightarrow> c = CHR 0x27 \<or> c = CHR 0x22"

definition plain_char :: "char \<Rightarrow> bool" where
  "plain_char c \<longleftrightarrow> \<not> is_white c \<and> c \<noteq> CHR ''/'' \<and> c \<noteq> CHR ''>''"

definition read_unquoted :: "xml_encoding \<Rightarrow> bool \<Rightarrow> string \<Rightarrow> pst \<Rightarrow> (string \<times> cptr \<times> pst) xml_run" where
  "read_unquoted enc in_doc s st =
     (let v = takeWhile (\<lambda>c. plain_char c \<and> \<not> is_quote c) s;
          r = dropWhile (\<lambda>c. plain_char c \<and> \<not> is_quote c) s in
      if r \<noteq> [] \<and> is_quote (hd r) then
        xbind (report in_doc Xml_Reading_Attributes (Some r) enc st) (\<lambda>st. Inr (v, None, st))
      else Inr (v, Some r, st))"

definition read_attr_value :: "bool \<Rightarrow> xml_encoding \<Rightarrow> bool \<Rightarrow> string \<Rightarrow> pst
    \<Rightarrow> (string \<times> cptr \<times> pst) xml_run" where
  "read_attr_value condense enc in_doc s st =
     (if s \<noteq> [] \<and> is_quote (hd s) then
        xbind (read_text condense enc False [hd s] False (Some (tl s)))
          (\<lambda>(v, p). Inr (v, p, st))
      else read_unquoted enc in_doc s st)"

text \<open>What follows the name: the \<open>=\<close> and the value.\<close>

definition attribute_fail :: "xml_encoding \<Rightarrow> bool \<Rightarrow> xml_attribute \<Rightarrow> cptr \<Rightarrow> pst
    \<Rightarrow> (xml_attribute \<times> cptr \<times> pst) xml_run" where
  "attribute_fail enc in_doc a q st =
     xbind (report in_doc Xml_Reading_Attributes q enc st) (\<lambda>st. Inr (a, None, st))"

definition attribute_tail :: "bool \<Rightarrow> xml_encoding \<Rightarrow> bool \<Rightarrow> xml_attribute \<Rightarrow> cptr \<Rightarrow> pst
    \<Rightarrow> (xml_attribute \<times> cptr \<times> pst) xml_run" where
  "attribute_tail condense enc in_doc a q st =
     (case q of
        Some (c # s) \<Rightarrow>
          if c \<noteq> CHR ''='' then attribute_fail enc in_doc a q st
          else
            (case skip_white_space enc (Some s) of
               Some (d # t) \<Rightarrow>
                 xbind (read_attr_value condense enc in_doc (d # t) st) (\<lambda>(v, r, st).
                   Inr (a\<lparr>attr_value := v\<rparr>, r, st))
             | r \<Rightarrow> attribute_fail enc in_doc a r st)
      | _ \<Rightarrow> attribute_fail enc in_doc a q st)"

definition attribute_parse :: "bool \<Rightarrow> xml_encoding \<Rightarrow> bool \<Rightarrow> cptr \<Rightarrow> pst
    \<Rightarrow> (xml_attribute \<times> cptr \<times> pst) xml_run" where
  "attribute_parse condense enc in_doc p st =
     (let p = skip_white_space enc p in
      if \<not> has_text p then Inr (\<lparr>attr_pos = no_pos, attr_name = [], attr_value = []\<rparr>, None, st)
      else
        xbind (stamp enc p st) (\<lambda>st.
        xbind (read_name p) (\<lambda>(nm, q).
          let a = \<lparr>attr_pos = cursor st, attr_name = nm, attr_value = []\<rparr> in
          if has_text q then attribute_tail condense enc in_doc a (skip_white_space enc q) st
          else attribute_fail enc in_doc a p st)))"


section \<open>The leaves\<close>

text \<open>The text before the first occurrence of a tag, and the rest from there on.\<close>

fun until :: "string \<Rightarrow> string \<Rightarrow> string \<times> string" where
  "until tag [] = ([], [])"
| "until tag (c # s) =
     (if take (length tag) (c # s) = tag then ([], c # s)
      else (c # fst (until tag s), snd (until tag s)))"

definition text_parse :: "bool \<Rightarrow> xml_encoding \<Rightarrow> bool \<Rightarrow> bool \<Rightarrow> cptr \<Rightarrow> pst
    \<Rightarrow> (xml_node \<times> cptr \<times> pst) xml_run" where
  "text_parse condense enc in_doc cdata p st =
     xbind (stamp enc p st) (\<lambda>st.
     xbind (string_equal enc False p ''<![CDATA['') (\<lambda>starts.
       if cdata \<or> starts then
         if \<not> starts then
           xbind (report in_doc Xml_Parsing_CData p enc st) (\<lambda>st'.
             Inr (TText (cursor st) [] True, None, st'))
         else
           let (v, r) = until '']]>'' (drop 9 (the p)) in
           xbind (read_text condense enc False '']]>'' False (Some r)) (\<lambda>(_, q).
             Inr (TText (cursor st) v True, q, st))
       else
         xbind (read_text condense enc True ''<'' False p) (\<lambda>(v, q).
           Inr (TText (cursor st) v False,
                if has_text q then Some (CHR ''<'' # the q) else None, st))))"

text \<open>\<open>p-1\<close> in the last line of \<open>TiXmlText::Parse\<close> is the \<open><\<close> that \<open>ReadText\<close> passed.\<close>

definition blank_text :: "string \<Rightarrow> bool" where
  "blank_text v \<longleftrightarrow> list_all is_white v"

definition comment_parse :: "xml_encoding \<Rightarrow> bool \<Rightarrow> cptr \<Rightarrow> pst \<Rightarrow> (xml_node \<times> cptr \<times> pst) xml_run" where
  "comment_parse enc in_doc p st =
     (let p = skip_white_space enc p in
      xbind (stamp enc p st) (\<lambda>st.
      xbind (string_equal enc False p ''<!--'') (\<lambda>starts.
        if \<not> starts then
          xbind (report in_doc Xml_Parsing_Comment p enc st) (\<lambda>st'.
            Inr (TComment (cursor st) [], None, st'))
        else
          let (v, r) = until ''-->'' (drop 4 (the p)) in
          Inr (TComment (cursor st) v, Some (drop 3 r), st))))"

definition unknown_parse :: "xml_encoding \<Rightarrow> bool \<Rightarrow> cptr \<Rightarrow> pst \<Rightarrow> (xml_node \<times> cptr \<times> pst) xml_run" where
  "unknown_parse enc in_doc p st =
     (let p = skip_white_space enc p in
      xbind (stamp enc p st) (\<lambda>st.
        if \<not> has_text p \<or> hd (the p) \<noteq> CHR ''<'' then
          xbind (report in_doc Xml_Parsing_Unknown p enc st) (\<lambda>st'.
            Inr (TUnknown (cursor st) [], None, st'))
        else
          let s = tl (the p) in
          Inr (TUnknown (cursor st) (takeWhile (\<lambda>c. c \<noteq> CHR ''>'') s),
               Some (drop 1 (dropWhile (\<lambda>c. c \<noteq> CHR ''>'') s)), st)))"


section \<open>Progress of the attribute parser\<close>

lemma name_start_char: "name_start c \<Longrightarrow> name_char c"
  by (auto simp: name_start_def name_char_def xml_is_alpha_def xml_is_alnum_def is_letter_def is_alnum_def
      split: if_splits)

lemma read_name_length:
  assumes "read_name (Some s) = Inr (nm, q)" and "s \<noteq> []"
  shows "rest_len q < length s"
proof (cases s)
  case (Cons c t)
  have "length (dropWhile name_char t) \<le> length t" by (rule length_dropWhile_le)
  with Cons assms name_start_char[of c] show ?thesis
    by (auto simp: read_name_def split: if_splits)
qed (use assms in simp)

lemma keep_loop_length: "keep_loop enc ic tag p acc = Inr (v, q) \<Longrightarrow> rest_len q \<le> rest_len p"
proof (induction enc ic tag p acc rule: keep_loop.induct)
  case (1 enc ic tag p acc)
  show ?case
  proof (cases p)
    case None
    with "1.prems" show ?thesis by simp
  next
    case (Some s)
    show ?thesis
    proof (cases "s = [] \<or> starts_with enc ic tag s")
      case True
      with Some "1.prems" show ?thesis by auto
    next
      case False
      with Some "1.prems" obtain w p' where g: "get_char enc s = Inr (w, p')"
        and k: "keep_loop enc ic tag p' (acc @ w) = Inr (v, q)"
        by (auto simp: keep_loop_step)
      from "1.IH"[OF Some False g refl k] get_char_length[OF g] False Some show ?thesis by simp
    qed
  qed
qed

lemma condense_loop_length:
  "condense_loop enc ic tag white p acc = Inr (v, q) \<Longrightarrow> rest_len q \<le> rest_len p"
proof (induction enc ic tag white p acc rule: condense_loop.induct)
  case (1 enc ic tag white p acc)
  show ?case
  proof (cases p)
    case None
    with "1.prems" show ?thesis by simp
  next
    case (Some s)
    show ?thesis
    proof (cases "s = [] \<or> starts_with enc ic tag s")
      case True
      with Some "1.prems" show ?thesis by auto
    next
      case False
      show ?thesis
      proof (cases "is_white (hd s)")
        case True
        with Some False "1.prems" have "condense_loop enc ic tag True (Some (tl s)) acc = Inr (v, q)"
          by (simp add: condense_loop_white)
        from "1.IH"(1)[OF Some False True this] Some show ?thesis by simp
      next
        case w: False
        with Some False "1.prems" obtain u p' where g: "get_char enc s = Inr (u, p')"
          and k: "condense_loop enc ic tag False p' (acc @ (if white then '' '' else []) @ u) = Inr (v, q)"
          by (auto simp: condense_loop_step)
        from "1.IH"(2)[OF Some False w g refl k] get_char_length[OF g] False Some show ?thesis by simp
      qed
    qed
  qed
qed

lemma read_text_length:
  assumes "read_text condense enc trim tag ic p = Inr (v, q)"
  shows "rest_len q \<le> rest_len p"
proof -
  from assms obtain r where
    r: "(if \<not> trim \<or> \<not> condense then keep_loop enc ic tag p []
         else condense_loop enc ic tag False (skip_white_space enc p) []) = Inr (v, r)"
    and q: "rest_len q \<le> rest_len r"
  proof -
    have "rest_len (map_option (drop (length tag)) b) \<le> rest_len b" for b by (cases b) auto
    then show thesis using that assms
      by (auto simp: read_text_def Let_def simp del: live_simps split: if_splits option.splits)
  qed
  have "rest_len r \<le> rest_len p"
    using r keep_loop_length condense_loop_length[THEN order_trans, OF _ skip_white_space_length]
    by (auto split: if_splits)
  with q show ?thesis by simp
qed

lemma read_unquoted_length:
  "read_unquoted enc d s st = Inr (v, q, st') \<Longrightarrow> rest_len q \<le> length s"
  using length_dropWhile_le[of "\<lambda>c. plain_char c \<and> \<not> is_quote c" s]
  by (auto simp: read_unquoted_def Let_def split: if_splits)

lemma read_attr_value_length:
  assumes "read_attr_value cw enc d s st = Inr (v, q, st')"
  shows "rest_len q \<le> length s"
  using assms read_text_length[of cw enc False "[hd s]" False "Some (tl s)" v q]
    read_unquoted_length[of enc d s st v q st']
  by (auto simp: read_attr_value_def split: if_splits)

lemma skip_white_space_SomeD:
  assumes "skip_white_space enc p = Some t"
  obtains s where "p = Some s" and "s \<noteq> []" and "t = skip_white_loop enc s" and "length t \<le> length s"
  using assms skip_white_loop_length[of enc]
  by (auto simp: skip_white_space_def split: option.splits if_splits)

lemma attribute_parse_length:
  assumes "attribute_parse cw enc d p st = Inr (a, q, st')" and "has_text p"
  shows "rest_len q < rest_len p"
proof -
  have lp: "0 < rest_len p" using assms(2) by (cases p) auto
  show ?thesis
  proof (cases q)
    case None
    with lp show ?thesis by simp
  next
    case (Some q')
    with assms(1) obtain s1 nm q1 st1 c s e t v where
      s1: "skip_white_space enc p = Some s1" "s1 \<noteq> []"
      and r: "read_name (Some s1) = Inr (nm, q1)"
      and q1: "skip_white_space enc q1 = Some (c # s)"
      and s: "skip_white_space enc (Some s) = Some (e # t)"
      and v: "read_attr_value cw enc d (e # t) st1 = Inr (v, Some q', st')"
      by (cases "skip_white_space enc p")
        (auto simp: attribute_parse_def attribute_tail_def attribute_fail_def Let_def
          split: if_splits option.splits list.splits)
    have 1: "rest_len q1 < length s1" by (rule read_name_length[OF r s1(2)])
    have 2: "length s1 \<le> rest_len p" using skip_white_space_length[of enc p] s1 by simp
    have "length (e # t) \<le> length s" using skip_white_space_length[of enc "Some s"] s by simp
    moreover have "length (c # s) \<le> rest_len q1" using skip_white_space_length[of enc q1] q1 by simp
    ultimately show ?thesis using read_attr_value_length[OF v] 1 2 Some by simp
  qed
qed


section \<open>Declarations\<close>

text \<open>
  The attributes of a declaration have no document, so what is wrong with them is not
  reported. \<open>StringEqual\<close> asserts that the text has not ended after the white space.
\<close>

lemma skip_white_loop_head:
  "skip_white_loop enc s = c # t \<Longrightarrow> \<not> is_white c"
  by (induction enc s rule: skip_white_loop.induct) (auto split: if_splits)

lemma skip_white_loop_cases: "skip_white_loop enc s = s \<or> length (skip_white_loop enc s) < length s"
proof (cases s)
  case (Cons c t)
  have "length (skip_white_loop enc (drop 2 t)) \<le> length (drop 2 t)"
    by (rule skip_white_loop_length)
  with Cons skip_white_loop_length[of enc t] show ?thesis
    by (auto simp: less_Suc_eq_le)
qed simp

lemma skip_over_length:
  assumes s: "s \<noteq> []" "hd s \<noteq> CHR ''>''" and t: "skip_white_loop enc s = c # t"
  shows "length (dropWhile (\<lambda>c. c \<noteq> CHR ''>'' \<and> \<not> is_white c) (c # t)) < length s"
proof -
  have l: "length (dropWhile (\<lambda>c. c \<noteq> CHR ''>'' \<and> \<not> is_white c) x) \<le> length x" for x
    by (rule length_dropWhile_le)
  show ?thesis
    using skip_white_loop_cases[of enc s]
  proof
    assume "skip_white_loop enc s = s"
    then have "s = c # t" using t by simp
    moreover have "\<not> is_white c" by (rule skip_white_loop_head[OF t])
    moreover have "length (dropWhile (\<lambda>c. c \<noteq> CHR ''>'' \<and> \<not> is_white c) t) \<le> length t" by (rule l)
    ultimately show ?thesis using s by (simp add: less_Suc_eq_le)
  next
    assume "length (skip_white_loop enc s) < length s"
    then show ?thesis using l[of "c # t"] t by (metis order_le_less_trans)
  qed
qed

type_synonym decl_values = "string \<times> string \<times> string"

function declaration_loop :: "bool \<Rightarrow> xml_encoding \<Rightarrow> cptr \<Rightarrow> decl_values \<Rightarrow> pst
    \<Rightarrow> (decl_values \<times> cptr \<times> pst) xml_run" where
  "declaration_loop cw enc p vs st =
     (case p of
        None \<Rightarrow> Inr (vs, None, st)
      | Some s \<Rightarrow>
          if s = [] then Inr (vs, None, st)
          else if hd s = CHR ''>'' then Inr (vs, Some (tl s), st)
          else
            (case skip_white_loop enc s of
               [] \<Rightarrow> Inl Assert_Failed
             | c # t \<Rightarrow>
                 let (ver, en, sa) = vs; q = Some (c # t) in
                 if starts_with enc True ''version'' (c # t) then
                   xbind (attribute_parse cw enc False q st) (\<lambda>(a, p, st).
                     declaration_loop cw enc p (c_str (attr_value a), en, sa) st)
                 else if starts_with enc True ''encoding'' (c # t) then
                   xbind (attribute_parse cw enc False q st) (\<lambda>(a, p, st).
                     declaration_loop cw enc p (ver, c_str (attr_value a), sa) st)
                 else if starts_with enc True ''standalone'' (c # t) then
                   xbind (attribute_parse cw enc False q st) (\<lambda>(a, p, st).
                     declaration_loop cw enc p (ver, en, c_str (attr_value a)) st)
                 else declaration_loop cw enc
                        (Some (dropWhile (\<lambda>c. c \<noteq> CHR ''>'' \<and> \<not> is_white c) (c # t))) vs st))"
  by pat_completeness auto

lemma declaration_attr_length:
  assumes "skip_white_loop enc s = c # t" and "attribute_parse cw enc False (Some (c # t)) st = Inr (a, q, st')"
  shows "rest_len q < length s"
  using attribute_parse_length[OF assms(2)] skip_white_loop_length[of enc s] assms(1) by simp

termination declaration_loop
  by (relation "measure (\<lambda>(cw, enc, p, vs, st). rest_len p)")
    (auto dest: declaration_attr_length skip_over_length simp del: dropWhile.simps)

declare declaration_loop.simps [simp del]

definition declaration_parse :: "bool \<Rightarrow> xml_encoding \<Rightarrow> bool \<Rightarrow> cptr \<Rightarrow> pst
    \<Rightarrow> (xml_node \<times> cptr \<times> pst) xml_run" where
  "declaration_parse cw enc in_doc p st =
     (let p = skip_white_space enc p in
      if \<not> has_text p \<or> \<not> starts_with enc True ''<?xml'' (the p) then
        xbind (report in_doc Xml_Parsing_Declaration None enc st) (\<lambda>st.
          Inr (TDeclaration no_pos [] [] [], None, st))
      else
        xbind (stamp enc p st) (\<lambda>st0.
        xbind (declaration_loop cw enc (Some (drop 5 (the p))) ([], [], []) st0)
          (\<lambda>((ver, en, sa), q, st). Inr (TDeclaration (cursor st0) ver en sa, q, st))))"


section \<open>Elements\<close>

text \<open>
  The attributes up to the end of the tag: \<open>Tag_Open\<close> is the text after \<open>>\<close>, where the value
  starts, \<open>Tag_Closed\<close> the result of the parse without a value.
\<close>

datatype tag_end = Tag_Open string | Tag_Closed cptr

function attr_loop :: "bool \<Rightarrow> xml_encoding \<Rightarrow> string \<Rightarrow> xml_attribute list \<Rightarrow> pst
    \<Rightarrow> (xml_attribute list \<times> tag_end \<times> pst) xml_run" where
  "attr_loop cw enc s attrs st =
     (if s = [] then Inr (attrs, Tag_Closed (Some []), st)
      else
        (case skip_white_loop enc s of
           [] \<Rightarrow>
             xbind (set_error Xml_Reading_Attributes (Some s) enc st) (\<lambda>st.
               Inr (attrs, Tag_Closed None, st))
         | c # t \<Rightarrow>
             if c = CHR ''/'' then
               if t \<noteq> [] \<and> hd t = CHR ''>'' then Inr (attrs, Tag_Closed (Some (tl t)), st)
               else xbind (set_error Xml_Parsing_Empty (Some t) enc st) (\<lambda>st.
                      Inr (attrs, Tag_Closed None, st))
             else if c = CHR ''>'' then Inr (attrs, Tag_Open t, st)
             else
               xbind (attribute_parse cw enc True (Some (c # t)) st) (\<lambda>(a, p, st).
                 if \<not> has_text p \<or> (\<exists>b\<in>set attrs. attr_name b = attr_name a) then
                   xbind (set_error Xml_Parsing_Element (Some (c # t)) enc st) (\<lambda>st.
                     Inr (attrs, Tag_Closed None, st))
                 else attr_loop cw enc (the p) (attrs @ [a]) st)))"
  by pat_completeness auto

lemma attr_loop_arg_length:
  assumes "skip_white_loop enc s = c # t" and "attribute_parse cw enc True (Some (c # t)) st = Inr (a, Some r, st')"
  shows "length r < length s"
  using attribute_parse_length[OF assms(2)] skip_white_loop_length[of enc s] assms(1) by simp

termination attr_loop
  by (relation "measure (\<lambda>(cw, enc, s, attrs, st). length s)")
    (auto simp: has_text_def dest: attr_loop_arg_length)

declare attr_loop.simps [simp del]


text \<open>
  \<open>TiXmlElement::Parse\<close> and \<open>ReadValue\<close>. A text node is made without a parent, so it has no
  document while it is parsed; a blank one is dropped. With condensed white space it is read
  from its first character, else from the white space before it.
\<close>

definition text_child :: "bool \<Rightarrow> xml_encoding \<Rightarrow> cptr \<Rightarrow> cptr \<Rightarrow> xml_node list \<Rightarrow> pst
    \<Rightarrow> (xml_node list \<times> cptr \<times> pst) xml_run" where
  "text_child cw enc pw p children st =
     xbind (text_parse cw enc False False (if cw then p else pw) st) (\<lambda>(nd, q, st).
       Inr (if blank_text (text_value nd) then children else children @ [nd], q, st))"

type_synonym node_reader = "cptr \<Rightarrow> pst \<Rightarrow> (xml_node \<times> cptr \<times> pst) xml_run"

type_synonym value_reader = "string \<Rightarrow> pst \<Rightarrow> (xml_node list \<times> cptr \<times> pst) xml_run"

definition node_parse :: "node_reader \<Rightarrow> bool \<Rightarrow> xml_encoding \<Rightarrow> node_kind \<Rightarrow> node_reader" where
  "node_parse elem cw enc k p st =
     (case k of
        Is_Declaration \<Rightarrow> declaration_parse cw enc True p st
      | Is_Comment \<Rightarrow> comment_parse enc True p st
      | Is_CData \<Rightarrow> text_parse cw enc True True p st
      | Is_Unknown \<Rightarrow> unknown_parse enc True p st
      | Is_Element \<Rightarrow> elem p st)"

primrec read_value_loop :: "nat \<Rightarrow> bool \<Rightarrow> xml_encoding \<Rightarrow> node_reader \<Rightarrow> cptr \<Rightarrow> cptr
    \<Rightarrow> xml_node list \<Rightarrow> pst \<Rightarrow> (xml_node list \<times> cptr \<times> pst) xml_run" where
  "read_value_loop 0 cw enc elem pw p children st = Inl No_Fuel"
| "read_value_loop (Suc n) cw enc elem pw p children st =
     (if p = None then
        xbind (set_error Xml_Reading_Element_Value None enc st) (\<lambda>st. Inr (children, None, st))
      else if \<not> has_text p then Inr (children, p, st)
      else if hd (the p) \<noteq> CHR ''<'' then
        xbind (text_child cw enc pw p children st) (\<lambda>(children, q, st).
          read_value_loop n cw enc elem q (skip_white_space enc q) children st)
      else if starts_with enc False ''</'' (the p) then Inr (children, p, st)
      else
        (case identify enc p of
           None \<Rightarrow> Inr (children, None, st)
         | Some k \<Rightarrow>
             xbind (node_parse elem cw enc k p st) (\<lambda>(nd, q, st).
               read_value_loop n cw enc elem q (skip_white_space enc q) (children @ [nd]) st)))"

definition read_value :: "nat \<Rightarrow> bool \<Rightarrow> xml_encoding \<Rightarrow> node_reader \<Rightarrow> value_reader" where
  "read_value n cw enc elem s st =
     read_value_loop n cw enc elem (Some s) (skip_white_space enc (Some s)) [] st"

text \<open>The end tag: \<open></name\<close>, white space, \<open>>\<close>.\<close>

definition end_tag :: "xml_encoding \<Rightarrow> string \<Rightarrow> cptr \<Rightarrow> pst \<Rightarrow> (cptr \<times> pst) xml_run" where
  "end_tag enc nm p st =
     (let fail = (\<lambda>r st. xbind (set_error Xml_Reading_End_Tag r enc st) (\<lambda>st. Inr (None, st))) in
      if has_text p \<and> starts_with enc False (''</'' @ nm) (the p) then
        let r = skip_white_space enc (Some (drop (length (''</'' @ nm)) (the p))) in
        if has_text r \<and> hd (the r) = CHR ''>'' then Inr (Some (tl (the r)), st) else fail r st
      else fail p st)"

definition element_rest :: "value_reader \<Rightarrow> bool \<Rightarrow> xml_encoding \<Rightarrow> xml_pos \<Rightarrow> string \<Rightarrow> string
    \<Rightarrow> pst \<Rightarrow> (xml_node \<times> cptr \<times> pst) xml_run" where
  "element_rest reader cw enc pos nm r st =
     xbind (attr_loop cw enc r [] st) (\<lambda>(attrs, te, st).
       case te of
         Tag_Closed q \<Rightarrow> Inr (TElement pos nm attrs [], q, st)
       | Tag_Open s \<Rightarrow>
           xbind (reader s st) (\<lambda>(children, q, st).
           xbind (end_tag enc nm q st) (\<lambda>(q, st).
             Inr (TElement pos nm attrs children, q, st))))"

definition element_body :: "value_reader \<Rightarrow> bool \<Rightarrow> xml_encoding \<Rightarrow> node_reader" where
  "element_body reader cw enc p st =
     (let p = skip_white_space enc p in
      if \<not> has_text p then
        xbind (set_error Xml_Parsing_Element None enc st) (\<lambda>st.
          Inr (TElement no_pos [] [] [], None, st))
      else
        xbind (stamp enc p st) (\<lambda>st.
        let pos = cursor st in
        if hd (the p) \<noteq> CHR ''<'' then
          xbind (set_error Xml_Parsing_Element p enc st) (\<lambda>st. Inr (TElement pos [] [] [], None, st))
        else
          let q = skip_white_space enc (Some (tl (the p))) in
          xbind (read_name q) (\<lambda>(nm, r).
            if \<not> has_text r then
              xbind (set_error Xml_Failed_To_Read_Element_Name q enc st) (\<lambda>st.
                Inr (TElement pos nm [] [], None, st))
            else element_rest reader cw enc pos nm (the r) st)))"

primrec element_parse :: "nat \<Rightarrow> bool \<Rightarrow> xml_encoding \<Rightarrow> node_reader" where
  "element_parse 0 cw enc p st = Inl No_Fuel"
| "element_parse (Suc n) cw enc p st =
     element_body (read_value (Suc n) cw enc (element_parse n cw enc)) cw enc p st"


section \<open>Documents\<close>

record xml_document =
  doc_children :: "xml_node list"
  doc_error :: "(xml_error \<times> xml_pos) option"
  doc_bom :: bool
  doc_tab :: int

definition new_document :: xml_document where
  "new_document = \<lparr>doc_children = [], doc_error = None, doc_bom = False, doc_tab = 4\<rparr>"

text \<open>The encoding a declaration asks for; no encoding means UTF-8.\<close>

definition declared_encoding :: "string \<Rightarrow> xml_encoding" where
  "declared_encoding e =
     (if e = [] then Enc_UTF8
      else if starts_with Enc_Unknown True ''UTF-8'' e then Enc_UTF8
      else if starts_with Enc_Unknown True ''UTF8'' e then Enc_UTF8
      else Enc_Legacy)"

definition next_encoding :: "xml_encoding \<Rightarrow> xml_node \<Rightarrow> xml_encoding" where
  "next_encoding enc nd =
     (case nd of
        TDeclaration pos ver en sa \<Rightarrow> if enc = Enc_Unknown then declared_encoding (c_str en) else enc
      | _ \<Rightarrow> enc)"

primrec document_loop :: "nat \<Rightarrow> bool \<Rightarrow> xml_encoding \<Rightarrow> cptr \<Rightarrow> xml_node list \<Rightarrow> pst
    \<Rightarrow> (xml_node list \<times> cptr \<times> xml_encoding \<times> pst) xml_run" where
  "document_loop 0 cw enc p nodes st = Inl No_Fuel"
| "document_loop (Suc n) cw enc p nodes st =
     (if \<not> has_text p then Inr (nodes, p, enc, st)
      else
        (case identify enc p of
           None \<Rightarrow> Inr (nodes, p, enc, st)
         | Some k \<Rightarrow>
             xbind (node_parse (element_parse n cw enc) cw enc k p st) (\<lambda>(nd, q, st).
               let enc = next_encoding enc nd in
               document_loop n cw enc (skip_white_space enc q) (nodes @ [nd]) st)))"

text \<open>
  \<open>TiXmlDocument::Parse\<close>: the pointer past the document and the document, whose children are
  kept and added to.
\<close>

definition document_parse :: "bool \<Rightarrow> xml_encoding \<Rightarrow> string \<Rightarrow> xml_document
    \<Rightarrow> (cptr \<times> xml_document) xml_run" where
  "document_parse cw enc text d =
     (if text = [] then Inr (None, d\<lparr>doc_error := Some (Xml_Document_Empty, no_pos)\<rparr>)
      else
        let bom = (enc = Enc_Unknown \<and> is_bom text);
            enc = (if bom then Enc_UTF8 else enc);
            st = \<lparr>ps_stamp = text, ps_row = 0, ps_col = 0, ps_tab = doc_tab d, ps_error = None\<rparr> in
        xbind (document_loop (Suc (length text)) cw enc (skip_white_space enc (Some text))
                 (doc_children d) st) (\<lambda>(nodes, p, enc, st).
        xbind (if nodes = [] then set_error Xml_Document_Empty None enc st else Inr st) (\<lambda>st.
          Inr (if nodes = [] then None else p,
               d\<lparr>doc_children := nodes, doc_error := ps_error st, doc_bom := doc_bom d \<or> bom\<rparr>))))"

text \<open>
  \<open>LoadFile\<close>: the bytes of the file up to its first NUL, each end of a line turned into one
  line feed. The result is whether the document has no error.
\<close>

datatype file_read = No_File | Unreadable | Contents string

fun normalize_eol :: "string \<Rightarrow> string" where
  "normalize_eol [] = []"
| "normalize_eol (c # s) =
     (if c = CHR 0x0D then
        CHR 0x0A # (case s of d # t \<Rightarrow> if d = CHR 0x0A then normalize_eol t else normalize_eol s
                            | [] \<Rightarrow> [])
      else c # normalize_eol s)"

definition doc_set_error :: "xml_error \<Rightarrow> xml_document \<Rightarrow> xml_document" where
  "doc_set_error e d = (if doc_error d = None then d\<lparr>doc_error := Some (e, no_pos)\<rparr> else d)"

definition tinyxml_load_file :: "bool \<Rightarrow> xml_encoding \<Rightarrow> file_read \<Rightarrow> xml_document
    \<Rightarrow> (bool \<times> xml_document) xml_run" where
  "tinyxml_load_file cw enc file d =
     (case file of
        No_File \<Rightarrow> Inr (False, doc_set_error Xml_Opening_File d)
      | Unreadable \<Rightarrow> Inr (False, doc_set_error Xml_Opening_File (d\<lparr>doc_children := []\<rparr>))
      | Contents bs \<Rightarrow>
          if bs = [] then Inr (False, doc_set_error Xml_Document_Empty (d\<lparr>doc_children := []\<rparr>))
          else xbind (document_parse cw enc (normalize_eol (c_str bs)) (d\<lparr>doc_children := []\<rparr>))
                 (\<lambda>(p, d). Inr (doc_error d = None, d)))"

end
