(* ===== verification/Tiny_Xml_Print.thy ===== *)
theory Tiny_Xml_Print
  imports Tiny_Xml_Document
begin

text \<open>
  How TinyXML writes a document: \<open>EncodeString\<close>, the \<open>Print\<close> of the nodes to a file,
  \<open>SaveFile\<close>, and the visitor \<open>TiXmlPrinter\<close> (\<^verbatim>\<open>Include/xml/Source/tinyxml.cpp\<close>,
  \<^verbatim>\<open>Include/xml/Header/tinyxml.h\<close>). A file is the bytes written to it.
\<close>


section \<open>Encoding a value\<close>

definition xml_hex_digit :: "nat \<Rightarrow> char" where
  "xml_hex_digit n = (if n < 10 then char_of (48 + n) else char_of (55 + n))"

text \<open>\<open>%02X\<close> of a byte.\<close>

definition hex2 :: "nat \<Rightarrow> string" where
  "hex2 n = [xml_hex_digit (n div 16), xml_hex_digit (n mod 16)]"

definition encode_char :: "char \<Rightarrow> string" where
  "encode_char c =
     (if c = CHR ''&'' then ''&amp;''
      else if c = CHR ''<'' then ''&lt;''
      else if c = CHR ''>'' then ''&gt;''
      else if c = CHR 0x22 then ''&quot;''
      else if c = CHR 0x27 then ''&apos;''
      else if code c < 32 then ''&#x'' @ hex2 (code c) @ '';''
      else [c])"

text \<open>
  A hexadecimal reference in the value is passed through: the characters up to its semicolon,
  or all but the last character of the value when it has none.
\<close>

fun copy_ref :: "string \<Rightarrow> string \<times> string" where
  "copy_ref [] = ([], [])"
| "copy_ref (c # s) =
     (if length s < 2 \<or> hd s = CHR '';'' then ([c], s)
      else (c # fst (copy_ref s), snd (copy_ref s)))"

lemma copy_ref_length: "s \<noteq> [] \<Longrightarrow> length (snd (copy_ref s)) < length s"
proof (induction s rule: copy_ref.induct)
  case (2 c s)
  then show ?case by (cases "s = []") auto
qed simp

function xml_encode_string :: "string \<Rightarrow> string" where
  "xml_encode_string [] = []"
| "xml_encode_string (c # s) =
     (if take 3 (c # s) = ''&#x'' then fst (copy_ref (c # s)) @ xml_encode_string (snd (copy_ref (c # s)))
      else encode_char c @ xml_encode_string s)"
  by pat_completeness auto
termination
proof (relation "measure length", goal_cases)
  case (2 c s)
  then show ?case using copy_ref_length[of "c # s"] by simp
qed auto

text \<open>A value with a double quote is put between single quotes; both are encoded anyway.\<close>

definition attribute_print :: "xml_attribute \<Rightarrow> string" where
  "attribute_print a =
     (let n = xml_encode_string (attr_name a); v = xml_encode_string (attr_value a) in
      if CHR 0x22 \<in> set (attr_value a) then n @ ''='' @ [CHR 0x27] @ v @ [CHR 0x27]
      else n @ ''='' @ [CHR 0x22] @ v @ [CHR 0x22])"

text \<open>
  \<open>First\<close> and \<open>Next\<close> of the attribute list: an attribute without name and value is taken for the
  sentinel that ends the list.
\<close>

definition attr_walk :: "xml_attribute list \<Rightarrow> xml_attribute list" where
  "attr_walk as =
     (case as of
        [] \<Rightarrow> []
      | a # r \<Rightarrow> a # takeWhile (\<lambda>b. \<not> (attr_value b = [] \<and> attr_name b = [])) r)"


section \<open>Writing to a file\<close>

definition indent :: "nat \<Rightarrow> string" where
  "indent n = concat (replicate n ''    '')"

fun is_text_node :: "xml_node \<Rightarrow> bool" where
  "is_text_node (TText pos v cd) = True"
| "is_text_node _ = False"

definition declaration_print :: "string \<Rightarrow> string \<Rightarrow> string \<Rightarrow> string" where
  "declaration_print ver en sa =
     (let item = (\<lambda>nm v. if v = [] then [] else nm @ ''='' @ [CHR 0x22] @ c_str v @ [CHR 0x22] @ '' '') in
      ''<?xml '' @ item ''version'' ver @ item ''encoding'' en @ item ''standalone'' sa @ ''?>'')"

fun node_print :: "nat \<Rightarrow> xml_node \<Rightarrow> string" where
  "node_print d (TElement pos nm attrs children) =
     indent d @ ''<'' @ c_str nm @ concat (map (\<lambda>a. '' '' @ attribute_print a) (attr_walk attrs)) @
     (if children = [] then '' />''
      else if length children = 1 \<and> is_text_node (hd children) then
        ''>'' @ concat (map (node_print (d + 1)) children) @ ''</'' @ c_str nm @ ''>''
      else
        ''>'' @ concat (map (\<lambda>c. (if is_text_node c then [] else [CHR 0x0A]) @ node_print (d + 1) c) children)
        @ [CHR 0x0A] @ indent d @ ''</'' @ c_str nm @ ''>'')"
| "node_print d (TText pos v cd) =
     (if cd then [CHR 0x0A] @ indent d @ ''<![CDATA['' @ c_str v @ '']]>'' @ [CHR 0x0A]
      else xml_encode_string v)"
| "node_print d (TComment pos v) = indent d @ ''<!--'' @ c_str v @ ''-->''"
| "node_print d (TUnknown pos v) = indent d @ ''<'' @ c_str v @ ''>''"
| "node_print d (TDeclaration pos ver en sa) = declaration_print ver en sa"

definition document_print :: "xml_document \<Rightarrow> string" where
  "document_print doc = concat (map (\<lambda>n. node_print 0 n @ [CHR 0x0A]) (doc_children doc))"

definition save_file :: "xml_document \<Rightarrow> string" where
  "save_file doc =
     (if doc_bom doc then [CHR 0xEF, CHR 0xBB, CHR 0xBF] else []) @ document_print doc"


section \<open>The printer\<close>

text \<open>
  \<open>TiXmlPrinter\<close> is called back on each node; \<open>simpleTextPrint\<close> remembers that the element
  entered has one plain text only, which is then printed on the line of its tags.
\<close>

record printer =
  pr_buffer :: string
  pr_depth :: nat
  pr_simple :: bool
  pr_indent :: string
  pr_line_break :: string

definition new_printer :: printer where
  "new_printer = \<lparr>pr_buffer = [], pr_depth = 0, pr_simple = False, pr_indent = ''    '',
     pr_line_break = [CHR 0x0A]\<rparr>"

definition put :: "string \<Rightarrow> printer \<Rightarrow> printer" where
  "put s pr = pr\<lparr>pr_buffer := pr_buffer pr @ s\<rparr>"

definition do_indent :: "printer \<Rightarrow> printer" where
  "do_indent pr = put (concat (replicate (pr_depth pr) (pr_indent pr))) pr"

definition do_line_break :: "printer \<Rightarrow> printer" where
  "do_line_break pr = put (pr_line_break pr) pr"

definition plain_text_only :: "xml_node list \<Rightarrow> bool" where
  "plain_text_only children =
     (case children of [TText pos v cd] \<Rightarrow> \<not> cd | _ \<Rightarrow> False)"

definition visit_enter :: "string \<Rightarrow> xml_attribute list \<Rightarrow> xml_node list \<Rightarrow> printer \<Rightarrow> printer" where
  "visit_enter nm attrs children pr =
     (let pr = put (''<'' @ c_str nm @ concat (map (\<lambda>a. '' '' @ attribute_print a) (attr_walk attrs)))
                 (do_indent pr);
          pr = (if children = [] then do_line_break (put '' />'' pr)
                else if plain_text_only children then (put ''>'' pr)\<lparr>pr_simple := True\<rparr>
                else do_line_break (put ''>'' pr)) in
      pr\<lparr>pr_depth := pr_depth pr + 1\<rparr>)"

definition visit_exit :: "string \<Rightarrow> xml_node list \<Rightarrow> printer \<Rightarrow> printer" where
  "visit_exit nm children pr =
     (let pr = pr\<lparr>pr_depth := pr_depth pr - 1\<rparr> in
      if children = [] then pr
      else
        let pr = (if pr_simple pr then pr\<lparr>pr_simple := False\<rparr> else do_indent pr) in
        do_line_break (put (''</'' @ c_str nm @ ''>'') pr))"

definition visit_leaf :: "string \<Rightarrow> printer \<Rightarrow> printer" where
  "visit_leaf s pr = do_line_break (put s (do_indent pr))"

fun accept :: "xml_node \<Rightarrow> printer \<Rightarrow> printer" where
  "accept (TElement pos nm attrs children) pr =
     visit_exit nm children (fold accept children (visit_enter nm attrs children pr))"
| "accept (TText pos v cd) pr =
     (if cd then visit_leaf (''<![CDATA['' @ c_str v @ '']]>'') pr
      else if pr_simple pr then put (xml_encode_string v) pr
      else visit_leaf (xml_encode_string v) pr)"
| "accept (TComment pos v) pr = visit_leaf (''<!--'' @ c_str v @ ''-->'') pr"
| "accept (TUnknown pos v) pr = visit_leaf (''<'' @ c_str v @ ''>'') pr"
| "accept (TDeclaration pos ver en sa) pr = visit_leaf (declaration_print ver en sa) pr"

definition printer_string :: "xml_document \<Rightarrow> string" where
  "printer_string doc = pr_buffer (fold accept (doc_children doc) new_printer)"

end
