(* ===== verification/Tiny_Xml_Safe.thy ===== *)
theory Tiny_Xml_Safe
  imports Tiny_Xml_Document
begin

text \<open>
  The TinyXML parser always ends with the fuel it is given and never goes back in the text; on a
  text of ASCII characters it neither reads past the end nor loops in \<open>Stamp\<close>. What each reader
  keeps is one predicate on its result, \<open>run_ok\<close>, proved bottom up.
\<close>


section \<open>Results in order\<close>

definition ascii :: "string \<Rightarrow> bool" where
  "ascii s \<longleftrightarrow> list_all (\<lambda>c. code c < 128) s"

lemma ascii_simps [simp]:
  "ascii []" "ascii (c # s) \<longleftrightarrow> code c < 128 \<and> ascii s" "ascii (s @ t) \<longleftrightarrow> ascii s \<and> ascii t"
  by (auto simp: ascii_def)

lemma ascii_drop [simp, intro]: "ascii s \<Longrightarrow> ascii (drop n s)"
  by (metis append_take_drop_id ascii_simps(3))

lemma ascii_tl [simp, intro]: "ascii s \<Longrightarrow> ascii (tl s)"
  by (cases s) auto

lemma ascii_dropWhile [simp, intro]: "ascii s \<Longrightarrow> ascii (dropWhile P s)"
  by (metis ascii_simps(3) takeWhile_dropWhile_id)

definition ptr_ok :: "bool \<Rightarrow> cptr \<Rightarrow> bool" where
  "ptr_ok asc p \<longleftrightarrow> asc \<longrightarrow> (case p of None \<Rightarrow> True | Some s \<Rightarrow> ascii s)"

lemma ptr_ok_simps [simp]: "ptr_ok asc None" "ptr_ok asc (Some s) \<longleftrightarrow> (asc \<longrightarrow> ascii s)"
  by (auto simp: ptr_ok_def)

definition st_ok :: "bool \<Rightarrow> pst \<Rightarrow> bool" where
  "st_ok asc st \<longleftrightarrow> asc \<longrightarrow> ascii (ps_stamp st)"

lemma st_ok_error [simp]: "st_ok asc (st\<lparr>ps_error := e\<rparr>) = st_ok asc st"
  by (simp add: st_ok_def)

definition fault_ok :: "bool \<Rightarrow> xml_fault \<Rightarrow> bool" where
  "fault_ok asc e \<longleftrightarrow> e \<noteq> No_Fuel \<and> (asc \<longrightarrow> e = Assert_Failed)"

lemma fault_ok_assert [simp]: "fault_ok asc Assert_Failed"
  by (simp add: fault_ok_def)

definition res_ok :: "bool \<Rightarrow> ('a \<Rightarrow> bool) \<Rightarrow> 'a xml_run \<Rightarrow> bool" where
  "res_ok asc Q r = (case r of Inl e \<Rightarrow> fault_ok asc e | Inr x \<Rightarrow> Q x)"

lemma res_ok_simps [simp]: "res_ok asc Q (Inl e) = fault_ok asc e" "res_ok asc Q (Inr x) = Q x"
  by (simp_all add: res_ok_def)

lemma res_ok_bind:
  assumes "res_ok asc Q r" and "\<And>x. Q x \<Longrightarrow> res_ok asc R (f x)"
  shows "res_ok asc R (xbind r f)"
  using assms by (cases r) auto

lemma res_ok_mono: "res_ok asc Q r \<Longrightarrow> (\<And>x. Q x \<Longrightarrow> R x) \<Longrightarrow> res_ok asc R r"
  by (cases r) auto

abbreviation run_ok :: "bool \<Rightarrow> nat \<Rightarrow> ('a \<times> cptr \<times> pst) xml_run \<Rightarrow> bool" where
  "run_ok asc n \<equiv> res_ok asc (\<lambda>(x, q, st). rest_len q \<le> n \<and> ptr_ok asc q \<and> st_ok asc st)"


section \<open>Characters and text\<close>

lemma skip_white_loop_ok: "ascii s \<Longrightarrow> ascii (skip_white_loop enc s)"
  by (induction enc s rule: skip_white_loop.induct) auto

lemma skip_white_space_ok: "ptr_ok asc p \<Longrightarrow> ptr_ok asc (skip_white_space enc p)"
  by (auto simp: skip_white_space_def ptr_ok_def skip_white_loop_ok split: option.splits)

lemma drop_ptr_ok: "rest_len (map_option (drop n) p) \<le> rest_len p"
  "ptr_ok asc p \<Longrightarrow> ptr_ok asc (map_option (drop n) p)"
  by (cases p; simp)+

lemma ascii_table: "code c < 128 \<Longrightarrow> utf8_byte_table c = 1"
  by (simp add: utf8_byte_table_def)

lemma get_entity_ok: "ascii s \<Longrightarrow> ptr_ok True (snd (get_entity enc s))"
proof -
  assume s: "ascii s"
  have d: "ascii t \<Longrightarrow> dropWhile P t = c # r \<Longrightarrow> ascii r" for P t c r
    using ascii_dropWhile[of t P] by simp
  have r: "ascii t \<Longrightarrow> ptr_ok True (snd (char_reference enc dg b st t))" for dg b st t
    by (auto simp: char_reference_def split: list.splits option.splits dest: d)
  show ?thesis
  proof (cases "\<exists>x a b r. s = x # a # b # r")
    case True
    then obtain x a b t where s': "s = x # a # b # t" by blast
    have g: "get_entity enc s =
      (if a = CHR ''#'' then
         if b = CHR ''x'' then
           if t = [] then ([], None) else char_reference enc hex_digit_value 16 (CHR ''x'') t
         else char_reference enc dec_digit_value 10 (CHR ''#'') (b # t)
       else (case named_entity s of
               Some (e, c) \<Rightarrow> ([c], Some (drop (length e) s)) | None \<Rightarrow> ([], Some (drop 1 s))))"
      unfolding get_entity_def s' by simp
    have "ascii t" "ascii (b # t)" using s s' by simp_all
    with r[of t hex_digit_value 16 "CHR ''x''"] r[of "b # t" dec_digit_value 10 "CHR ''#''"]
    show ?thesis
      using ascii_drop[OF s] by (simp add: g split: option.splits prod.splits)
  next
    case False
    then have "get_entity enc s = ([], Some (drop 1 s))"
      by (auto simp: get_entity_def split: list.splits)
    with s show ?thesis by simp
  qed
qed

lemma get_char_ok:
  assumes "s \<noteq> []" and "ptr_ok asc (Some s)"
  shows "res_ok asc (\<lambda>(v, q). rest_len q < length s \<and> ptr_ok asc q) (get_char enc s)"
proof -
  define n where "n = (if enc = Enc_UTF8 then utf8_byte_table (hd s) else 1)"
  have g: "get_char enc s = (if n = 1 then
      if hd s = CHR ''&'' then Inr (get_entity enc s) else Inr ([hd s], Some (tl s))
      else if length s < n then Inl Past_End else Inr (take n s, Some (drop n s)))"
    by (simp only: get_char_def n_def Let_def)
  have n: "0 < n" by (simp add: n_def utf8_byte_table_def)
  have a: "n = 1" if "ascii s"
    using that assms(1) by (cases s) (auto simp: n_def ascii_table)
  show ?thesis
  proof (cases "n = 1")
    case True
    have "ptr_ok asc (snd (get_entity enc s))"
      using get_entity_ok[of s enc] assms(2) by (cases asc) (auto simp: ptr_ok_def)
    with True get_entity_length[OF assms(1), of enc] assms show ?thesis
      by (simp add: g case_prod_beta)
  next
    case False
    with a have "\<not> ascii s" by blast
    with False assms n show ?thesis by (simp add: g fault_ok_def)
  qed
qed

lemma keep_loop_ok:
  "ptr_ok asc p \<Longrightarrow> res_ok asc (\<lambda>(v, q). rest_len q \<le> rest_len p \<and> ptr_ok asc q) (keep_loop enc ic tag p acc)"
proof (induction "rest_len p" arbitrary: p acc rule: less_induct)
  case less
  show ?case
  proof (cases p)
    case (Some s)
    show ?thesis
    proof (cases "s = [] \<or> starts_with enc ic tag s")
      case False
      have "res_ok asc (\<lambda>(v, q). rest_len q \<le> rest_len p \<and> ptr_ok asc q) (keep_loop enc ic tag q (acc @ v))"
        if "rest_len q < length s" "ptr_ok asc q" for v q
        by (rule res_ok_mono[OF less.hyps]) (use that Some in auto)
      moreover have "res_ok asc (\<lambda>(v, q). rest_len q < length s \<and> ptr_ok asc q) (get_char enc s)"
        using False Some less.prems by (intro get_char_ok) auto
      ultimately show ?thesis
        unfolding Some keep_loop_step[OF False] by (auto intro: res_ok_bind)
    qed (use less.prems Some in auto)
  qed auto
qed

lemma condense_loop_ok:
  "ptr_ok asc p \<Longrightarrow>
     res_ok asc (\<lambda>(v, q). rest_len q \<le> rest_len p \<and> ptr_ok asc q) (condense_loop enc ic tag w p acc)"
proof (induction "rest_len p" arbitrary: p acc w rule: less_induct)
  case less
  show ?case
  proof (cases p)
    case (Some s)
    show ?thesis
    proof (cases "s = [] \<or> starts_with enc ic tag s")
      case False
      have IH: "res_ok asc (\<lambda>(v, q). rest_len q \<le> rest_len p \<and> ptr_ok asc q) (condense_loop enc ic tag w q a)"
        if "rest_len q < length s" "ptr_ok asc q" for w q a
        by (rule res_ok_mono[OF less.hyps]) (use that Some in auto)
      show ?thesis
      proof (cases "is_white (hd s)")
        case True
        with IH[of "Some (tl s)" True acc] False Some less.prems show ?thesis
          by (simp add: condense_loop_white)
      next
        case nw: False
        moreover have "res_ok asc (\<lambda>(v, q). rest_len q < length s \<and> ptr_ok asc q) (get_char enc s)"
          using False Some less.prems by (intro get_char_ok) auto
        ultimately show ?thesis
          using IH unfolding Some condense_loop_step[OF False nw] by (auto intro: res_ok_bind)
      qed
    qed (use less.prems Some in auto)
  qed auto
qed

lemma read_text_ok:
  assumes "ptr_ok asc p"
  shows "res_ok asc (\<lambda>(v, q). rest_len q \<le> rest_len p \<and> ptr_ok asc q) (read_text cw enc trim tag ic p)"
proof -
  have "res_ok asc (\<lambda>(v, q). rest_len q \<le> rest_len p \<and> ptr_ok asc q)
          (if \<not> trim \<or> \<not> cw then keep_loop enc ic tag p []
           else condense_loop enc ic tag False (skip_white_space enc p) [])"
    using keep_loop_ok[OF assms] skip_white_space_length[of enc p]
    by (auto intro: res_ok_mono[OF condense_loop_ok[OF skip_white_space_ok[OF assms]]])
  then show ?thesis unfolding read_text_def
    by (rule res_ok_bind) (auto simp: Let_def drop_ptr_ok intro: order_trans[OF drop_ptr_ok(1)])
qed


section \<open>Positions\<close>

text \<open>
  The loop of \<open>Stamp\<close> with a stop: a round that does not move is repeated for ever. Only the
  first byte of a mark among the last two bytes of a UTF-8 text does that.
\<close>

fun stamp_stuck :: "xml_encoding \<Rightarrow> string \<Rightarrow> bool" where
  "stamp_stuck enc (c # s) \<longleftrightarrow> enc = Enc_UTF8 \<and> c = CHR 0xEF \<and> length s < 2"
| "stamp_stuck enc [] \<longleftrightarrow> False"

lemma stamp_step_moves:
  assumes "s \<noteq> []" and "\<not> stamp_stuck enc s"
  shows "length (fst (stamp_step tab enc (s, row, col))) < length s"
proof (cases s)
  case (Cons c t)
  have "0 < utf8_byte_table c" by (simp add: utf8_byte_table_def)
  with assms Cons show ?thesis
    by (auto split: list.splits)
qed (use assms in simp)

lemma stamp_step_stuck: "stamp_stuck enc s \<Longrightarrow> stamp_step tab enc (s, row, col) = (s, row, col)"
  by (cases s) (auto split: list.splits)

function stamp_run :: "int \<Rightarrow> xml_encoding \<Rightarrow> string \<Rightarrow> stamp_state \<Rightarrow> stamp_state option" where
  "stamp_run tab enc now x =
     (if length (fst x) \<le> length now then Some x
      else if stamp_stuck enc (fst x) then None
      else stamp_run tab enc now (stamp_step tab enc x))"
  by pat_completeness auto
termination
proof (relation "measure (\<lambda>(tab, enc, now, x). length (fst x))", goal_cases)
  case (2 tab enc now x)
  then have "fst x \<noteq> []" by auto
  with 2 stamp_step_moves[of "fst x" enc tab "fst (snd x)" "snd (snd x)"] show ?case
    by (cases x) simp
qed simp

declare stamp_run.simps [simp del]

lemma stamp_loop_stuck:
  assumes "length now < length s" and "stamp_stuck enc s"
  shows "stamp_loop tab enc now (s, row, col) = None"
proof (rule ccontr)
  assume "stamp_loop tab enc now (s, row, col) \<noteq> None"
  then obtain y where y: "stamp_loop tab enc now (s, row, col) = Some y" by blast
  define P where "P tb ec nw x y \<longleftrightarrow> (tb, ec, nw, x) \<noteq> (tab, enc, now, s, row, col)"
    for tb ec nw x and y :: stamp_state
  have step: "P tb ec nw x z"
    if IH: "\<And>tb ec nw x y. f tb ec nw x = Some y \<Longrightarrow> P tb ec nw x y"
      and body: "(if length (fst x) \<le> length nw then Some x else f tb ec nw (stamp_step tb ec x)) = Some z"
    for f tb ec nw x z
  proof (rule ccontr)
    assume "\<not> P tb ec nw x z"
    then have eq: "tb = tab" "ec = enc" "nw = now" "x = (s, row, col)" by (auto simp: P_def)
    then have "f tab enc now (s, row, col) = Some z"
      using body assms(1) stamp_step_stuck[OF assms(2)] by simp
    from IH[OF this] show False by (simp add: P_def)
  qed
  have "P tab enc now (s, row, col) y"
    by (rule stamp_loop.raw_induct[of P "(((tab, enc), now), (s, row, col))" y,
          unfolded prod.case, OF step y])
  then show False by (simp add: P_def)
qed

lemma stamp_loop_eq: "stamp_loop tab enc now x = stamp_run tab enc now x"
proof (induction tab enc now x rule: stamp_run.induct)
  case (1 tab enc now x)
  obtain s row col where x: "x = (s, row, col)" by (cases x)
  show ?case
  proof (cases "length s \<le> length now")
    case False
    show ?thesis
    proof (cases "stamp_stuck enc s")
      case True
      with False x show ?thesis by (simp add: stamp_loop_stuck stamp_run.simps)
    next
      case nst: False
      with False x have "stamp_loop tab enc now x = stamp_loop tab enc now (stamp_step tab enc x)"
        by (subst stamp_loop.simps) simp
      also have "\<dots> = stamp_run tab enc now (stamp_step tab enc x)"
        using 1 False nst x by simp
      also have "\<dots> = stamp_run tab enc now x"
        using False nst x by (subst (2) stamp_run.simps) simp
      finally show ?thesis .
    qed
  qed (simp add: x stamp_run.simps stamp_loop.simps)
qed


lemma ascii_stamp_step:
  assumes "ascii (fst x)"
  shows "ascii (fst (stamp_step tab enc x))"
proof -
  obtain s row col where x: "x = (s, row, col)" by (cases x)
  show ?thesis
  proof (cases s)
    case (Cons c t)
    with assms x have "c \<noteq> CHR 0xEF" and t: "ascii t" by auto
    moreover have "ascii (case t of d # r \<Rightarrow> if d = e then r else t | [] \<Rightarrow> t)" for e
      using t by (cases t) auto
    ultimately show ?thesis using assms x Cons ascii_drop[of s "utf8_byte_table c"]
      by (auto simp del: ascii_drop)
  qed (use x in simp)
qed

lemma ascii_not_stuck: "ascii s \<Longrightarrow> \<not> stamp_stuck enc s"
  by (cases s) auto

lemma stamp_run_ascii:
  "ascii (fst x) \<Longrightarrow> \<exists>y. stamp_run tab enc now x = Some y \<and> ascii (fst y)"
proof (induction tab enc now x rule: stamp_run.induct)
  case (1 tab enc now x)
  show ?case
  proof (cases "length (fst x) \<le> length now")
    case True
    then show ?thesis using 1(2) by (simp add: stamp_run.simps)
  next
    case False
    then have "stamp_run tab enc now x = stamp_run tab enc now (stamp_step tab enc x)"
      using ascii_not_stuck[OF 1(2), of enc] by (subst stamp_run.simps) simp
    with 1 False ascii_not_stuck[OF 1(2), of enc] ascii_stamp_step[OF 1(2)] show ?thesis by simp
  qed
qed

lemma stamp_ok: "st_ok asc st \<Longrightarrow> res_ok asc (st_ok asc) (stamp enc p st)"
proof (cases asc)
  case True
  assume "st_ok asc st"
  with True have "ascii (fst (ps_stamp st, ps_row st, ps_col st))" by (simp add: st_ok_def)
  from stamp_run_ascii[OF this, of "ps_tab st" enc "the p"] obtain s row col where
    "stamp_run (ps_tab st) enc (the p) (ps_stamp st, ps_row st, ps_col st) = Some (s, row, col)"
    and "ascii s" by auto
  with \<open>st_ok asc st\<close> show ?thesis
    by (cases p) (simp_all add: stamp_def stamp_loop_eq st_ok_def)
next
  case False
  then show ?thesis
    by (auto simp: stamp_def st_ok_def fault_ok_def split: option.splits)
qed

lemma set_error_ok: "st_ok asc st \<Longrightarrow> res_ok asc (st_ok asc) (set_error e p enc st)"
  unfolding set_error_def
  by (auto split: option.split intro!: res_ok_bind[OF stamp_ok])

lemma report_ok: "st_ok asc st \<Longrightarrow> res_ok asc (st_ok asc) (report d e p enc st)"
  by (simp add: report_def set_error_ok)


section \<open>The leaves\<close>

lemma res_ok_conj:
  "res_ok asc Q r \<Longrightarrow> (\<And>x. r = Inr x \<Longrightarrow> R x) \<Longrightarrow> res_ok asc (\<lambda>x. R x \<and> Q x) r"
  by (cases r) auto

abbreviation keeps :: "bool \<Rightarrow> ('a \<times> cptr \<times> pst) xml_run \<Rightarrow> bool" where
  "keeps asc \<equiv> res_ok asc (\<lambda>(x, q, st). ptr_ok asc q \<and> st_ok asc st)"

lemma keeps_report [intro]:
  assumes "st_ok asc st" and "\<And>st'. st_ok asc st' \<Longrightarrow> keeps asc (f st')"
  shows "keeps asc (xbind (report d e p enc st) f)" "keeps asc (xbind (set_error e p enc st) f)"
    "keeps asc (xbind (stamp enc p st) f)"
  using assms by (auto intro!: res_ok_bind[OF report_ok] res_ok_bind[OF set_error_ok] res_ok_bind[OF stamp_ok])

lemma read_name_ok:
  "ptr_ok asc p \<Longrightarrow> res_ok asc (\<lambda>(nm, q). ptr_ok asc q) (read_name p)"
  by (auto simp: read_name_def split: option.splits list.splits)

lemma read_attr_value_ok:
  assumes "ptr_ok asc (Some s)" and "st_ok asc st"
  shows "keeps asc (read_attr_value cw enc d s st)"
proof -
  have u: "keeps asc (read_unquoted enc d s st)"
    using assms by (auto simp: read_unquoted_def Let_def)
  have "res_ok asc (\<lambda>(v, q). rest_len q \<le> rest_len (Some (tl s)) \<and> ptr_ok asc q)
          (read_text cw enc False [hd s] False (Some (tl s)))"
    using assms(1) by (intro read_text_ok) auto
  then show ?thesis
    using u assms(2) by (auto simp: read_attr_value_def intro: res_ok_bind)
qed

lemma attribute_fail_ok: "st_ok asc st \<Longrightarrow> keeps asc (attribute_fail enc d a q st)"
  by (auto simp: attribute_fail_def)

lemma attribute_tail_ok:
  assumes "ptr_ok asc q" and "st_ok asc st"
  shows "keeps asc (attribute_tail cw enc d a q st)"
proof -
  have v: "keeps asc (xbind (read_attr_value cw enc d (e # t) st)
      (\<lambda>(v, r, st). Inr (a\<lparr>attr_value := v\<rparr>, r, st)))"
    if "skip_white_space enc (Some s) = Some (e # t)" "ptr_ok asc (Some s)" for s e t
  proof -
    have "ptr_ok asc (Some (e # t))" using skip_white_space_ok[OF that(2), of enc] that(1) by simp
    from read_attr_value_ok[OF this assms(2)] show ?thesis by (rule res_ok_bind) auto
  qed
  show ?thesis
    using assms by (auto simp: attribute_tail_def attribute_fail_ok intro!: v split: option.split list.split)
qed

lemma attribute_parse_keeps:
  assumes "ptr_ok asc p" and "st_ok asc st"
  shows "keeps asc (attribute_parse cw enc d p st)"
proof -
  have p: "ptr_ok asc (skip_white_space enc p)" by (rule skip_white_space_ok[OF assms(1)])
  have "keeps asc (xbind (read_name (skip_white_space enc p)) (\<lambda>(nm, q).
      let a = \<lparr>attr_pos = cursor st, attr_name = nm, attr_value = []\<rparr> in
      if has_text q then attribute_tail cw enc d a (skip_white_space enc q) st
      else attribute_fail enc d a (skip_white_space enc p) st))" if "st_ok asc st" for st
    by (rule res_ok_bind[OF read_name_ok[OF p]])
      (auto simp: Let_def that attribute_fail_ok
        intro!: attribute_tail_ok[OF skip_white_space_ok that])
  then show ?thesis
    using assms(2) unfolding attribute_parse_def Let_def[of "skip_white_space enc p"] by auto
qed


lemma attribute_parse_ok:
  assumes "has_text p" and "ptr_ok asc p" and "st_ok asc st"
  shows "res_ok asc (\<lambda>(a, q, st). rest_len q < rest_len p \<and> ptr_ok asc q \<and> st_ok asc st)
    (attribute_parse cw enc d p st)"
  using attribute_parse_keeps[OF assms(2,3), of cw enc d] attribute_parse_length[of cw enc d p st] assms(1)
  by (cases "attribute_parse cw enc d p st") auto

lemma declaration_loop_ok:
  "ptr_ok asc p \<Longrightarrow> st_ok asc st \<Longrightarrow> run_ok asc (rest_len p) (declaration_loop cw enc p vs st)"
proof (induction "rest_len p" arbitrary: p vs st rule: less_induct)
  case less
  show ?case
  proof (cases p)
    case None
    with less.prems show ?thesis by (simp add: declaration_loop.simps)
  next
    case (Some s)
    show ?thesis
    proof (cases "s = [] \<or> hd s = CHR ''>'' \<or> skip_white_loop enc s = []")
      case True
      with Some less.prems show ?thesis
        by (subst declaration_loop.simps) (auto split: list.splits)
    next
      case False
      then obtain c t where c: "skip_white_loop enc s = c # t" by (cases "skip_white_loop enc s") auto
      obtain ver en sa where vs: "vs = (ver, en, sa)" by (cases vs)
      have IH: "run_ok asc (rest_len p) (declaration_loop cw enc q vs st)"
        if "rest_len q < rest_len p" "ptr_ok asc q" "st_ok asc st" for q vs st
        by (rule res_ok_mono[OF less.hyps[OF that]]) (use that(1) in auto)
      have pt: "ptr_ok asc (Some (c # t))"
        using less.prems(1) Some skip_white_loop_ok[of s enc] c by auto
      have attr: "run_ok asc (rest_len p) (xbind (attribute_parse cw enc False (Some (c # t)) st)
          (\<lambda>(a, q, st). declaration_loop cw enc q (f a) st))" for f
      proof (rule res_ok_bind[OF attribute_parse_ok[OF _ pt less.prems(2)]])
        fix x :: "xml_attribute \<times> cptr \<times> pst"
        assume "case x of (a, q, st) \<Rightarrow> rest_len q < rest_len (Some (c # t)) \<and> ptr_ok asc q \<and> st_ok asc st"
        moreover have "length (c # t) \<le> length s" using skip_white_loop_length[of enc s] c by simp
        ultimately show "run_ok asc (rest_len p)
            (case x of (a, q, st) \<Rightarrow> declaration_loop cw enc q (f a) st)"
          using IH Some by (cases x) auto
      qed simp
      have over: "run_ok asc (rest_len p) (declaration_loop cw enc
          (Some (dropWhile (\<lambda>c. c \<noteq> CHR ''>'' \<and> \<not> is_white c) (c # t))) vs st)"
        using skip_over_length[OF _ _ c] False less.prems Some pt
        by (intro IH) (auto simp del: dropWhile.simps)
      show ?thesis
        unfolding Some declaration_loop.simps[of cw enc "Some s"]
        using False c vs over attr[of "\<lambda>a. (c_str (attr_value a), en, sa)"]
          attr[of "\<lambda>a. (ver, c_str (attr_value a), sa)"] attr[of "\<lambda>a. (ver, en, c_str (attr_value a))"] Some
        by (simp add: Let_def del: dropWhile.simps starts_with.simps)
    qed
  qed
qed

lemma starts_with_length: "starts_with enc ic tag s \<Longrightarrow> length tag \<le> length s"
  by (induction enc ic tag s rule: starts_with.induct) auto

lemma string_equal_ok:
  "res_ok asc (\<lambda>b. has_text p \<and> (b \<longrightarrow> length tag \<le> rest_len p)) (string_equal enc ic p tag)"
  by (auto simp: string_equal_def dest: starts_with_length split: option.split)

lemma until_length: "length (snd (until tag s)) \<le> length s"
  by (induction tag s rule: until.induct) auto

lemma until_ascii: "ascii s \<Longrightarrow> ascii (snd (until tag s))"
  by (induction tag s rule: until.induct) auto

lemma ptr_ok_the: "has_text p \<Longrightarrow> ptr_ok asc p \<Longrightarrow> asc \<Longrightarrow> ascii (the p)"
  by (cases p) auto

lemma rest_len_the: "has_text p \<Longrightarrow> length (the p) = rest_len p"
  by (cases p) auto


lemma comment_parse_ok:
  assumes "ptr_ok asc p" and "st_ok asc st"
  shows "res_ok asc (\<lambda>(nd, q, st). rest_len q \<le> rest_len p - 1 \<and> ptr_ok asc q \<and> st_ok asc st)
    (comment_parse enc d p st)"
proof -
  define p' where "p' = skip_white_space enc p"
  have p': "ptr_ok asc p'" "rest_len p' \<le> rest_len p"
    unfolding p'_def by (rule skip_white_space_ok[OF assms(1)], rule skip_white_space_length)
  have len: "rest_len (Some (drop 3 (snd (until ''-->'' (drop 4 (the p')))))) \<le> rest_len p - 1"
    if "has_text p'" "4 \<le> rest_len p'"
    using until_length[of "''-->''" "drop 4 (the p')"] that p'(2) rest_len_the[OF that(1)] by simp
  have asc: "ptr_ok asc (Some (drop 3 (snd (until ''-->'' (drop 4 (the p'))))))" if "has_text p'"
    using ptr_ok_the[OF that p'(1)] by (auto intro!: until_ascii)
  show ?thesis
    unfolding comment_parse_def p'_def[symmetric] Let_def[of p']
    by (rule res_ok_bind[OF stamp_ok[OF assms(2)]], rule res_ok_bind[OF string_equal_ok])
      (use len asc in \<open>auto simp: Let_def case_prod_beta intro!: res_ok_bind[OF report_ok]\<close>)
qed

lemma unknown_parse_ok:
  assumes "ptr_ok asc p" and "st_ok asc st"
  shows "res_ok asc (\<lambda>(nd, q, st). rest_len q \<le> rest_len p - 1 \<and> ptr_ok asc q \<and> st_ok asc st)
    (unknown_parse enc d p st)"
proof -
  define p' where "p' = skip_white_space enc p"
  have p': "ptr_ok asc p'" "rest_len p' \<le> rest_len p"
    unfolding p'_def by (rule skip_white_space_ok[OF assms(1)], rule skip_white_space_length)
  have "length (dropWhile (\<lambda>c. c \<noteq> CHR ''>'') (tl (the p'))) \<le> length (tl (the p'))"
    by (rule length_dropWhile_le)
  then have len: "length (dropWhile (\<lambda>c. c \<noteq> CHR ''>'') (tl (the p'))) - Suc 0 \<le> rest_len p - Suc 0"
    if "has_text p'"
    using that p'(2) rest_len_the[OF that] by simp
  have asc: "asc \<Longrightarrow> ascii (tl (the p'))" if "has_text p'"
    using ptr_ok_the[OF that p'(1)] by auto
  show ?thesis
    unfolding unknown_parse_def p'_def[symmetric] Let_def[of p']
    by (rule res_ok_bind[OF stamp_ok[OF assms(2)]])
      (use len asc in \<open>auto simp: Let_def intro!: res_ok_bind[OF report_ok]\<close>)
qed

lemma declaration_parse_ok:
  assumes "ptr_ok asc p" and "st_ok asc st"
  shows "res_ok asc (\<lambda>(nd, q, st). rest_len q \<le> rest_len p - 1 \<and> ptr_ok asc q \<and> st_ok asc st)
    (declaration_parse cw enc d p st)"
proof -
  define p' where "p' = skip_white_space enc p"
  have p': "ptr_ok asc p'" "rest_len p' \<le> rest_len p"
    unfolding p'_def by (rule skip_white_space_ok[OF assms(1)], rule skip_white_space_length)
  have loop: "run_ok asc (rest_len p - 1) (declaration_loop cw enc (Some (drop 5 (the p'))) vs st0)"
    if "has_text p'" "st_ok asc st0" for vs st0
  proof (rule res_ok_mono[OF declaration_loop_ok[OF _ that(2)]])
    show "ptr_ok asc (Some (drop 5 (the p')))"
      using ptr_ok_the[OF that(1) p'(1)] by auto
  qed (use p'(2) rest_len_the[OF that(1)] in auto)
  show ?thesis
  proof (cases "has_text p' \<and> starts_with enc True ''<?xml'' (the p')")
    case True
    then have eq: "declaration_parse cw enc d p st =
        xbind (stamp enc p' st) (\<lambda>st0.
        xbind (declaration_loop cw enc (Some (drop 5 (the p'))) ([], [], []) st0)
          (\<lambda>((ver, en, sa), q, st). Inr (TDeclaration (cursor st0) ver en sa, q, st)))"
      by (simp add: declaration_parse_def p'_def[symmetric] Let_def)
    show ?thesis unfolding eq
      by (rule res_ok_bind[OF stamp_ok[OF assms(2)]], rule res_ok_bind[OF loop]) (use True in auto)
  next
    case False
    then have eq: "declaration_parse cw enc d p st =
        xbind (report d Xml_Parsing_Declaration None enc st) (\<lambda>st.
          Inr (TDeclaration no_pos [] [] [], None, st))"
      by (auto simp: declaration_parse_def p'_def[symmetric] Let_def)
    show ?thesis unfolding eq by (rule res_ok_bind[OF report_ok[OF assms(2)]]) auto
  qed
qed

text \<open>A text that does not start with \<open><\<close> moves by at least one character.\<close>

lemma keep_loop_stops:
  "keep_loop enc ic tag p acc = Inr (v, Some r) \<Longrightarrow> r = [] \<or> starts_with enc ic tag r"
proof (induction "rest_len p" arbitrary: p acc rule: less_induct)
  case less
  then obtain s where p: "p = Some s" by (cases p) auto
  show ?case
  proof (cases "s = [] \<or> starts_with enc ic tag s")
    case True
    with less.prems p show ?thesis by auto
  next
    case False
    with less.prems p obtain w q where g: "get_char enc s = Inr (w, q)"
      and k: "keep_loop enc ic tag q (acc @ w) = Inr (v, Some r)"
      by (auto simp: keep_loop_step)
    from less.hyps[OF _ k] get_char_length[OF g] False p show ?thesis by simp
  qed
qed

lemma condense_loop_stops:
  "condense_loop enc ic tag b p acc = Inr (v, Some r) \<Longrightarrow> r = [] \<or> starts_with enc ic tag r"
proof (induction "rest_len p" arbitrary: p b acc rule: less_induct)
  case less
  then obtain s where p: "p = Some s" by (cases p) auto
  consider "s = [] \<or> starts_with enc ic tag s" | "\<not> (s = [] \<or> starts_with enc ic tag s)" "is_white (hd s)"
    | "\<not> (s = [] \<or> starts_with enc ic tag s)" "\<not> is_white (hd s)" by blast
  then show ?case
  proof cases
    case 1
    with less.prems p show ?thesis by auto
  next
    case 2
    with less.prems p have "condense_loop enc ic tag True (Some (tl s)) acc = Inr (v, Some r)"
      by (simp add: condense_loop_white)
    from less.hyps[OF _ this] 2 p show ?thesis by simp
  next
    case 3
    with less.prems p obtain w q a where g: "get_char enc s = Inr (w, q)"
      and k: "condense_loop enc ic tag False q a = Inr (v, Some r)"
      by (auto simp: condense_loop_step)
    from less.hyps[OF _ k] get_char_length[OF g] 3 p show ?thesis by simp
  qed
qed


lemma keep_loop_shorter:
  assumes "keep_loop enc ic tag (Some s) acc = Inr (v, q)" and "s \<noteq> []" and "\<not> starts_with enc ic tag s"
  shows "rest_len q < length s"
proof -
  from assms obtain w p' where g: "get_char enc s = Inr (w, p')"
    and k: "keep_loop enc ic tag p' (acc @ w) = Inr (v, q)"
    by (auto simp: keep_loop_step)
  from get_char_length[OF g assms(2)] keep_loop_length[OF k] show ?thesis by simp
qed

lemma condense_loop_shorter:
  assumes "condense_loop enc ic tag b (Some s) acc = Inr (v, q)" and "s \<noteq> []"
    and "\<not> starts_with enc ic tag s"
  shows "rest_len q < length s"
proof (cases "is_white (hd s)")
  case True
  with assms have "condense_loop enc ic tag True (Some (tl s)) acc = Inr (v, q)"
    by (simp add: condense_loop_white)
  from condense_loop_length[OF this] assms(2) show ?thesis by (cases s) auto
next
  case False
  from assms False obtain w p' a where g: "get_char enc s = Inr (w, p')"
    and k: "condense_loop enc ic tag False p' a = Inr (v, q)"
    by (auto simp: condense_loop_step)
  from get_char_length[OF g assms(2)] condense_loop_length[OF k] show ?thesis by simp
qed

lemma starts_with_lt [simp]: "starts_with enc False ''<'' s \<longleftrightarrow> s \<noteq> [] \<and> hd s = CHR ''<''"
  by (cases s) auto

lemma read_text_progress:
  assumes r: "read_text cw enc trim ''<'' False (Some s) = Inr (v, Some q)"
    and s: "s \<noteq> []" "hd s \<noteq> CHR ''<''"
  shows "length q + 2 \<le> length s"
proof -
  from r obtain t where
    t: "(if \<not> trim \<or> \<not> cw then keep_loop enc False ''<'' (Some s) []
         else condense_loop enc False ''<'' False (skip_white_space enc (Some s)) []) = Inr (v, Some t)"
    and q: "q = drop 1 t" "t \<noteq> []"
    by (auto simp: read_text_def Let_def has_text_def split: if_splits)
  have "length t < length s"
  proof (cases "\<not> trim \<or> \<not> cw")
    case True
    with t s keep_loop_shorter[of enc False "''<''" s "[]" v "Some t"] show ?thesis by simp
  next
    case False
    define u where "u = skip_white_loop enc s"
    from False t s have k: "condense_loop enc False ''<'' False (Some u) [] = Inr (v, Some t)"
      by (simp add: skip_white_space_def u_def)
    have "length u < length s \<or> u = s" using skip_white_loop_cases[of enc s] by (auto simp: u_def)
    then show ?thesis
    proof
      assume "length u < length s"
      with condense_loop_length[OF k] show ?thesis by simp
    next
      assume "u = s"
      with condense_loop_shorter[OF k] s show ?thesis by simp
    qed
  qed
  with q show ?thesis by (cases t) auto
qed

lemma text_parse_ok:
  assumes "has_text p" and "ptr_ok asc p" and "st_ok asc st" and "cdata \<or> hd (the p) \<noteq> CHR ''<''"
  shows "res_ok asc (\<lambda>(nd, q, st). rest_len q \<le> rest_len p - 1 \<and> ptr_ok asc q \<and> st_ok asc st)
    (text_parse cw enc d cdata p st)"
proof -
  define tag where "tag = ''<![CDATA[''"
  have tl: "length tag = 9" by (simp add: tag_def)
  have pa: "asc \<Longrightarrow> ascii (the p)" using ptr_ok_the[OF assms(1,2)] .
  have plen: "length (the p) = rest_len p" by (rule rest_len_the[OF assms(1)])
  have cd: "res_ok asc (\<lambda>(nd, q, st). rest_len q \<le> rest_len p - 1 \<and> ptr_ok asc q \<and> st_ok asc st)
      (xbind (read_text cw enc False '']]>'' False (Some (snd (until '']]>'' (drop 9 (the p))))))
        (\<lambda>(_, q). Inr (nd, q, st')))" if "st_ok asc st'" "9 \<le> rest_len p" for nd :: xml_node and st'
    by (rule res_ok_bind[OF read_text_ok])
      (use until_length[of "'']]>''" "drop 9 (the p)"] pa plen that in \<open>auto intro: until_ascii\<close>)
  have plain: "res_ok asc (\<lambda>(nd, q, st). rest_len q \<le> rest_len p - 1 \<and> ptr_ok asc q \<and> st_ok asc st)
      (xbind (read_text cw enc True ''<'' False p) (\<lambda>(v, q).
        Inr (TText (cursor st') v False, if has_text q then Some (CHR ''<'' # the q) else None, st')))"
    if "st_ok asc st'" "hd (the p) \<noteq> CHR ''<''" for st'
  proof (cases "read_text cw enc True ''<'' False p")
    case (Inl e)
    with read_text_ok[OF assms(2), of cw enc True "''<''" False] show ?thesis by simp
  next
    case (Inr x)
    obtain v q where x: "x = (v, q)" by (cases x)
    obtain s where s: "p = Some s" "s \<noteq> []" using assms(1) by (cases p) auto
    have "length r + 2 \<le> length s" if "q = Some r" for r
      using read_text_progress[of cw enc True s v r] Inr x that s \<open>hd (the p) \<noteq> CHR ''<''\<close> by simp
    with Inr x s read_text_ok[OF assms(2), of cw enc True "''<''" False] that(1) show ?thesis
      by (cases q) auto
  qed
  show ?thesis
    unfolding text_parse_def tag_def[symmetric]
  proof (rule res_ok_bind[OF stamp_ok[OF assms(3)]], rule res_ok_bind[OF string_equal_ok], goal_cases)
    case (1 st' starts)
    show ?case
    proof (cases "cdata \<or> starts")
      case True
      then show ?thesis
        using cd[OF 1(1)] 1 tl by (auto simp: case_prod_beta intro!: res_ok_bind[OF report_ok])
    next
      case False
      with plain[OF 1(1)] assms(4) show ?thesis by simp
    qed
  qed
qed

lemma attr_loop_ok:
  assumes "asc \<Longrightarrow> ascii s" and "st_ok asc st"
  shows "res_ok asc (\<lambda>(attrs, te, st). st_ok asc st \<and>
      (case te of
         Tag_Closed q \<Rightarrow> rest_len q \<le> length s \<and> ptr_ok asc q
       | Tag_Open r \<Rightarrow> length r < length s \<and> (asc \<longrightarrow> ascii r))) (attr_loop cw enc s attrs st)"
  using assms
proof (induction "length s" arbitrary: s attrs st rule: less_induct)
  case less
  show ?case
  proof (cases "s = [] \<or> skip_white_loop enc s = []")
    case True
    with less.prems show ?thesis
      by (subst attr_loop.simps) (auto intro!: res_ok_bind[OF set_error_ok])
  next
    case False
    then obtain c t where c: "skip_white_loop enc s = c # t" by (cases "skip_white_loop enc s") auto
    have len: "length (c # t) \<le> length s" using skip_white_loop_length[of enc s] c by simp
    have asc: "asc \<Longrightarrow> ascii (c # t)" using skip_white_loop_ok[of s enc] less.prems(1) c by simp
    show ?thesis
    proof (cases "c = CHR ''/'' \<or> c = CHR ''>''")
      case True
      with False c len asc less.prems show ?thesis
        by (subst attr_loop.simps) (auto intro!: res_ok_bind[OF set_error_ok])
    next
      case nc: False
      have a: "res_ok asc (\<lambda>(a, q, st). rest_len q < rest_len (Some (c # t)) \<and> ptr_ok asc q \<and> st_ok asc st)
          (attribute_parse cw enc True (Some (c # t)) st)"
        by (rule attribute_parse_ok) (use asc less.prems(2) in auto)
      have eq: "attr_loop cw enc s attrs st =
          xbind (attribute_parse cw enc True (Some (c # t)) st) (\<lambda>(a, p, st).
            if \<not> has_text p \<or> (\<exists>b\<in>set attrs. attr_name b = attr_name a) then
              xbind (set_error Xml_Parsing_Element (Some (c # t)) enc st) (\<lambda>st.
                Inr (attrs, Tag_Closed None, st))
            else attr_loop cw enc (the p) (attrs @ [a]) st)"
        using False nc c by (subst attr_loop.simps) simp
      have IH: "res_ok asc (\<lambda>(attrs, te, st). st_ok asc st \<and>
          (case te of
             Tag_Closed q \<Rightarrow> rest_len q \<le> length s \<and> ptr_ok asc q
           | Tag_Open r \<Rightarrow> length r < length s \<and> (asc \<longrightarrow> ascii r))) (attr_loop cw enc (the p) as st')"
        if "has_text p" "rest_len p < length (c # t)" "ptr_ok asc p" "st_ok asc st'" for p as st'
        by (rule res_ok_mono[OF less.hyps])
          (use that len rest_len_the[OF that(1)] ptr_ok_the[OF that(1,3)]
            in \<open>auto split: tag_end.splits\<close>)
      show ?thesis unfolding eq
        by (rule res_ok_bind[OF a]) (use IH in \<open>auto intro!: res_ok_bind[OF set_error_ok]\<close>)
    qed
  qed
qed


section \<open>Elements and documents\<close>

abbreviation moves :: "bool \<Rightarrow> cptr \<Rightarrow> ('a \<times> cptr \<times> pst) xml_run \<Rightarrow> bool" where
  "moves asc p \<equiv> res_ok asc (\<lambda>(x, q, st). rest_len q \<le> rest_len p - 1 \<and> ptr_ok asc q \<and> st_ok asc st)"

definition reader_ok :: "bool \<Rightarrow> nat \<Rightarrow> node_reader \<Rightarrow> bool" where
  "reader_ok asc m elem \<longleftrightarrow>
     (\<forall>p st. has_text p \<longrightarrow> rest_len p \<le> m \<longrightarrow> ptr_ok asc p \<longrightarrow> st_ok asc st \<longrightarrow> moves asc p (elem p st))"

lemma node_parse_ok:
  assumes "reader_ok asc m elem" and "has_text p" "rest_len p \<le> m" "ptr_ok asc p" "st_ok asc st"
  shows "moves asc p (node_parse elem cw enc k p st)"
  using assms declaration_parse_ok[OF assms(4,5)] comment_parse_ok[OF assms(4,5)]
    unknown_parse_ok[OF assms(4,5)] text_parse_ok[OF assms(2,4,5), of True]
  by (cases k) (auto simp: node_parse_def reader_ok_def)

lemma skip_white_loop_lt:
  "skip_white_loop enc s \<noteq> [] \<Longrightarrow> s \<noteq> [] \<Longrightarrow> hd s = CHR ''<'' \<Longrightarrow> hd (skip_white_loop enc s) = CHR ''<''"
proof -
  assume "s \<noteq> []" "hd s = CHR ''<''"
  then obtain t where s: "s = CHR ''<'' # t" by (cases s) auto
  have "\<not> is_zero_width s" unfolding s by (cases t rule: is_bom.cases) auto
  moreover have "\<not> is_white (CHR ''<'')" by (simp add: is_white_def is_space_def)
  ultimately show ?thesis by (simp add: s)
qed

lemma skip_live:
  assumes "has_text (skip_white_space enc p)" shows "has_text p"
  using assms by (auto simp: has_text_def skip_white_space_def split: option.splits)

lemma text_child_ok:
  assumes "has_text p" and "p = skip_white_space enc pw" and "hd (the p) \<noteq> CHR ''<''"
    and "ptr_ok asc pw" and "st_ok asc st"
  shows "moves asc pw (text_child cw enc pw p children st)"
proof -
  obtain s where s: "pw = Some s" "s \<noteq> []" using skip_live[of enc pw] assms(1,2) by (cases pw) auto
  have p: "the p = skip_white_loop enc s" using s assms(2) by (simp add: skip_white_space_def)
  have ne: "skip_white_loop enc s \<noteq> []" using p assms(1) by (cases p) auto
  have arg: "has_text (if cw then p else pw)" "ptr_ok asc (if cw then p else pw)"
    "rest_len (if cw then p else pw) \<le> rest_len pw" "hd (the (if cw then p else pw)) \<noteq> CHR ''<''"
    using assms s p skip_white_space_ok[OF assms(4), of enc] skip_white_space_length[of enc pw]
      skip_white_loop_lt[OF ne s(2)]
    by auto
  have "moves asc (if cw then p else pw) (text_parse cw enc False False (if cw then p else pw) st)"
    by (rule text_parse_ok[OF arg(1,2) assms(5)]) (use arg(4) in simp)
  then show ?thesis
    unfolding text_child_def by (rule res_ok_bind) (use arg(3) in auto)
qed

lemma read_value_again:
  assumes IH: "\<And>q children st. rest_len q < n \<Longrightarrow> rest_len q \<le> m \<Longrightarrow> ptr_ok asc q \<Longrightarrow> st_ok asc st \<Longrightarrow>
      run_ok asc (rest_len q) (read_value_loop n cw enc elem q (skip_white_space enc q) children st)"
    and "has_text p" and "moves asc pw r" and "rest_len p \<le> rest_len pw" and "rest_len pw < Suc n" "rest_len pw \<le> m"
  shows "run_ok asc (rest_len pw)
    (xbind r (\<lambda>(x, q, st). read_value_loop n cw enc elem q (skip_white_space enc q) (f x) st))"
proof (rule res_ok_bind[OF assms(3)], clarify, goal_cases)
  case (1 x q st')
  have "0 < rest_len p" using assms(2) by (cases p) auto
  with 1 assms(4-6) have "rest_len q < n" "rest_len q \<le> m" by auto
  from IH[OF this 1(2,3)] show ?case
    by (rule res_ok_mono) (use 1(1) in auto)
qed

lemma read_value_loop_ok:
  assumes "reader_ok asc m elem"
  shows "p = skip_white_space enc pw \<Longrightarrow> rest_len pw < n \<Longrightarrow> rest_len pw \<le> m \<Longrightarrow> ptr_ok asc pw \<Longrightarrow>
    st_ok asc st \<Longrightarrow> run_ok asc (rest_len pw) (read_value_loop n cw enc elem pw p children st)"
proof (induction n arbitrary: pw p children st)
  case (Suc n)
  have p: "ptr_ok asc p" "rest_len p \<le> rest_len pw"
    using skip_white_space_ok[OF Suc.prems(4), of enc] skip_white_space_length[of enc pw] Suc.prems(1)
    by auto
  note again = read_value_again[OF Suc.IH[OF refl], rotated 4, OF _ _ p(2) Suc.prems(2,3)]
  show ?case
  proof (cases "has_text p")
    case False
    then show ?thesis
      using p Suc.prems(5) by (auto intro!: res_ok_bind[OF set_error_ok])
  next
    case True
    show ?thesis
    proof (cases "hd (the p) = CHR ''<''")
      case False
      from again[OF True text_child_ok[OF True Suc.prems(1) False Suc.prems(4,5)], where f = "\<lambda>x. x"]
      show ?thesis using True False by (auto simp: has_text_def)
    next
      case lt: True
      have "moves asc pw (node_parse elem cw enc k p st)" for k
        by (rule res_ok_mono[OF node_parse_ok[OF assms True]])
          (use p Suc.prems in auto)
      from again[OF True this, where f = "\<lambda>x. children @ [x]"] show ?thesis
        using True lt p Suc.prems(5) by (auto simp: has_text_def split: option.split)
    qed
  qed
qed simp

lemma end_tag_ok:
  assumes "ptr_ok asc p" and "st_ok asc st"
  shows "res_ok asc (\<lambda>(q, st). rest_len q \<le> rest_len p \<and> ptr_ok asc q \<and> st_ok asc st) (end_tag enc nm p st)"
proof -
  define r where "r = skip_white_space enc (Some (drop (length (''</'' @ nm)) (the p)))"
  have "ptr_ok asc r" "rest_len r \<le> rest_len p" if "has_text p"
    using skip_white_space_ok[of asc "Some (drop (length (''</'' @ nm)) (the p))" enc]
      skip_white_space_length[of enc "Some (drop (length (''</'' @ nm)) (the p))"]
      ptr_ok_the[OF that assms(1)] rest_len_the[OF that]
    by (auto simp: r_def)
  then show ?thesis
    unfolding end_tag_def r_def[symmetric] Let_def
    using assms ptr_ok_the[of r asc] rest_len_the[of r]
    by (auto intro!: res_ok_bind[OF set_error_ok])
qed

definition value_ok :: "bool \<Rightarrow> nat \<Rightarrow> value_reader \<Rightarrow> bool" where
  "value_ok asc m reader \<longleftrightarrow>
     (\<forall>s st. length s < m \<longrightarrow> (asc \<longrightarrow> ascii s) \<longrightarrow> st_ok asc st \<longrightarrow> run_ok asc (length s) (reader s st))"

lemma element_rest_ok:
  assumes "value_ok asc m reader" and "length r \<le> m" and "asc \<Longrightarrow> ascii r" and "st_ok asc st"
  shows "run_ok asc (length r) (element_rest reader cw enc pos nm r st)"
  unfolding element_rest_def
proof (rule res_ok_bind[OF attr_loop_ok[OF assms(3,4)]], simp, clarify, goal_cases)
  case (1 attrs te st1)
  show ?case
  proof (cases te)
    case (Tag_Open s)
    with 1 assms(1,2) have v: "run_ok asc (length s) (reader s st1)" by (simp add: value_ok_def)
    have "run_ok asc (length r) (xbind (end_tag enc nm q st2) (\<lambda>(q, st).
        Inr (TElement pos nm attrs children, q, st)))"
      if "rest_len q \<le> length s" "ptr_ok asc q" "st_ok asc st2" for children q st2
      by (rule res_ok_bind[OF end_tag_ok[OF that(2,3)]]) (use that(1) 1 Tag_Open in auto)
    then show ?thesis
      using 1 Tag_Open by (auto intro!: res_ok_bind[OF v])
  qed (use 1 in auto)
qed

lemma element_body_ok:
  assumes "value_ok asc m reader" and "has_text p" "rest_len p \<le> Suc m" "ptr_ok asc p" "st_ok asc st"
  shows "moves asc p (element_body reader cw enc p st)"
proof -
  define p' where "p' = skip_white_space enc p"
  have p': "ptr_ok asc p'" "rest_len p' \<le> rest_len p"
    unfolding p'_def by (rule skip_white_space_ok[OF assms(4)], rule skip_white_space_length)
  define q where "q = skip_white_space enc (Some (tl (the p')))"
  have q: "ptr_ok asc q" "rest_len q \<le> rest_len p - 1" if "has_text p'"
    using skip_white_space_ok[of asc "Some (tl (the p'))" enc] skip_white_space_length[of enc "Some (tl (the p'))"]
      ptr_ok_the[OF that p'(1)] rest_len_the[OF that] p'(2)
    by (auto simp: q_def)
  have rest: "moves asc p (element_rest reader cw enc (cursor st1) nm (the r) st1)"
    if "has_text r" "rest_len r \<le> rest_len q" "ptr_ok asc r" "st_ok asc st1" "has_text p'" for nm r st1
    by (rule res_ok_mono[OF element_rest_ok[OF assms(1)]])
      (use that q[OF that(5)] rest_len_the[OF that(1)] ptr_ok_the[OF that(1,3)] assms(3) in auto)
  have nm: "res_ok asc (\<lambda>(nm, r). rest_len r \<le> rest_len q \<and> ptr_ok asc r) (read_name q)" if "has_text p'"
    using read_name_ok[OF q(1)[OF that]] length_dropWhile_le[of name_char]
    by (cases q) (auto simp: read_name_def intro: le_SucI split: list.splits)
  show ?thesis
    unfolding element_body_def p'_def[symmetric] Let_def q_def[symmetric]
    using assms(5) rest
    by (auto intro!: res_ok_bind[OF set_error_ok] res_ok_bind[OF stamp_ok] res_ok_bind[OF nm])
qed


lemma element_parse_ok: "reader_ok asc n (element_parse n cw enc)"
proof (induction n)
  case 0
  have "\<not> has_text p" if "rest_len p \<le> 0" for p using that by (cases p) auto
  then show ?case by (auto simp: reader_ok_def)
next
  case (Suc n)
  have "value_ok asc n (read_value (Suc n) cw enc (element_parse n cw enc))"
    using read_value_loop_ok[OF Suc.IH refl, where pw = "Some s" and n = "Suc n" for s]
    by (auto simp: value_ok_def read_value_def simp del: read_value_loop.simps)
  from element_body_ok[OF this] show ?case by (auto simp: reader_ok_def)
qed

lemma document_loop_ok:
  assumes "rest_len p < n" and "ptr_ok asc p" and "st_ok asc st"
  shows "res_ok asc (\<lambda>(nodes, q, enc, st). st_ok asc st) (document_loop n cw enc p nodes st)"
  using assms
proof (induction n arbitrary: enc p nodes st)
  case (Suc n)
  show ?case
  proof (cases "has_text p \<and> identify enc p \<noteq> None")
    case False
    with Suc.prems(3) show ?thesis by (auto split: option.split)
  next
    case True
    then obtain k where k: "identify enc p = Some k" by auto
    have lp: "0 < rest_len p" using True by (cases p) auto
    have "moves asc p (node_parse (element_parse n cw enc) cw enc k p st)"
      by (rule node_parse_ok[OF element_parse_ok]) (use True Suc.prems in auto)
    moreover have "res_ok asc (\<lambda>(nodes, q, enc, st). st_ok asc st)
        (document_loop n cw enc' (skip_white_space enc' q) nodes' st')"
      if "rest_len q \<le> rest_len p - 1" "ptr_ok asc q" "st_ok asc st'" for q nodes' st' enc'
      by (rule Suc.IH)
        (use that lp Suc.prems(1) skip_white_space_ok[OF that(2), of enc'] skip_white_space_length[of enc' q] in auto)
    ultimately show ?thesis
      using True k by (auto simp: Let_def intro!: res_ok_bind[where Q = "\<lambda>(x, q, st).
        rest_len q \<le> rest_len p - 1 \<and> ptr_ok asc q \<and> st_ok asc st"])
  qed
qed simp

lemma document_parse_ok:
  assumes "asc \<Longrightarrow> ascii text"
  shows "res_ok asc (\<lambda>_. True) (document_parse cw enc text d)"
proof -
  define st where "st = \<lparr>ps_stamp = text, ps_row = 0, ps_col = 0, ps_tab = doc_tab d, ps_error = None\<rparr>"
  have st: "st_ok asc st" using assms by (auto simp: st_ok_def st_def)
  have p: "ptr_ok asc (skip_white_space enc' (Some text))"
    "rest_len (skip_white_space enc' (Some text)) < Suc (length text)" for enc'
    using skip_white_space_ok[of asc "Some text" enc'] skip_white_space_length[of enc' "Some text"] assms
    by auto
  have e: "st_ok asc st' \<Longrightarrow> res_ok asc (st_ok asc) (if c then set_error e q enc' st' else Inr st')"
    for c e q enc' st'
    by (simp add: set_error_ok)
  have body: "res_ok asc (\<lambda>_. True)
      (xbind (document_loop (Suc (length text)) cw enc' (skip_white_space enc' (Some text)) ns st)
        (\<lambda>(nodes, p, enc, st).
          xbind (if nodes = [] then set_error Xml_Document_Empty None enc st else Inr st) (\<lambda>st.
            Inr (if nodes = [] then None else p, f nodes st))))" for enc' ns and f :: "xml_node list \<Rightarrow> pst \<Rightarrow> xml_document"
    by (rule res_ok_bind[OF document_loop_ok[OF p(2,1) st]]) (auto intro!: res_ok_bind[OF e])
  show ?thesis
    unfolding document_parse_def st_def[symmetric] Let_def
    using body by (simp del: document_loop.simps)
qed

end
