(* ===== verification/Tiny_Xml_Roundtrip.thy ===== *)
theory Tiny_Xml_Roundtrip
  imports Tiny_Xml_Print Tiny_Xml_Safe
begin

text \<open>
  What the parser reads back from what TinyXML writes: lemmas on the characters, the attributes
  and the leaves, then on elements by induction, for documents of ASCII characters whose texts
  have no white space the parser would condense.
\<close>


section \<open>Encoded characters\<close>

lemma white_ascii [simp]: "is_white c \<Longrightarrow> code c < 128"
  by (auto simp: is_white_def is_space_def)

lemma not_zero_width: "ascii s \<Longrightarrow> \<not> is_zero_width s"
  by (cases s rule: is_zero_width.cases) auto

lemma zero_width_head: "is_zero_width (c # s) \<Longrightarrow> c = CHR 0xEF"
  by (cases "c # s" rule: is_zero_width.cases) auto

lemma skip_white_ascii:
  assumes "list_all is_white ws" and "s \<noteq> []" "code (hd s) < 128" "\<not> is_white (hd s)"
  shows "skip_white_loop enc (ws @ s) = s"
  using assms(1)
proof (induction ws)
  case Nil
  obtain c t where s: "s = c # t" using assms(2) by (cases s) auto
  have "\<not> is_zero_width s"
    using assms(3) s zero_width_head[of c t] by auto
  with s assms(4) show ?case by simp
next
  case (Cons w ws)
  have "\<not> is_zero_width ((w # ws) @ s)"
    using Cons.prems zero_width_head[of w "ws @ s"] by (auto simp: is_white_def is_space_def)
  with Cons show ?case by simp
qed

lemma skip_white_space_ascii:
  assumes "list_all is_white ws" and "s \<noteq> []" "code (hd s) < 128" "\<not> is_white (hd s)"
  shows "skip_white_space enc (Some (ws @ s)) = Some s"
  using skip_white_ascii[OF assms] assms(2) by (simp add: skip_white_space_def)

lemma get_char_plain:
  assumes "code c < 128" and "c \<noteq> CHR ''&''"
  shows "get_char enc (c # s) = Inr ([c], Some s)"
  using assms by (simp add: get_char_def utf8_byte_table_def)

lemma get_char_amp: "get_char enc (CHR ''&'' # s) = Inr (get_entity enc (CHR ''&'' # s))"
  by (simp add: get_char_def utf8_byte_table_def)

lemma get_entity_named:
  "get_entity enc (''&amp;'' @ s) = ([CHR ''&''], Some s)"
  "get_entity enc (''&lt;'' @ s) = ([CHR ''<''], Some s)"
  "get_entity enc (''&gt;'' @ s) = ([CHR ''>''], Some s)"
  "get_entity enc (''&quot;'' @ s) = ([CHR 0x22], Some s)"
  "get_entity enc (''&apos;'' @ s) = ([CHR 0x27], Some s)"
  by (simp_all add: get_entity_def named_entity_def xml_entities_def)

lemma ref_value_ascii: "code c < 128 \<Longrightarrow> ref_value enc (of_nat (code c)) = [c]"
proof -
  assume c: "code c < 128"
  have "(of_nat (code c) :: u64) < 0x80"
    using c by (simp add: word_less_nat_alt unat_of_nat64)
  moreover have "(ucast (of_nat (code c) :: u64) :: u8) = byte c"
    using c by (simp add: byte_def unsigned_of_nat take_bit_nat_eq_self)
  ultimately show ?thesis
    by (simp add: ref_value_def convert_utf32_to_utf8_def lead_byte_def)
qed

lemma hex2_table:
  "list_all (\<lambda>n. ref_number hex_digit_value 16 (CHR ''x'') 1 0 (rev (hex2 n)) = Some (of_nat n)
      \<and> CHR '';'' \<notin> set (hex2 n)) [0..<32]"
  by code_simp

lemma get_entity_control:
  assumes "code c < 32"
  shows "get_entity enc (''&#x'' @ hex2 (code c) @ '';'' @ s) = ([c], Some s)"
proof -
  have n: "ref_number hex_digit_value 16 (CHR ''x'') 1 0 (rev (hex2 (code c))) = Some (of_nat (code c))"
    "CHR '';'' \<notin> set (hex2 (code c))"
    using hex2_table assms by (auto simp: list_all_iff)
  have t: "takeWhile (\<lambda>c. c \<noteq> CHR '';'') (hex2 (code c) @ '';'' @ s) = hex2 (code c)"
    "dropWhile (\<lambda>c. c \<noteq> CHR '';'') (hex2 (code c) @ '';'' @ s) = CHR '';'' # s"
    using n(2) by (auto simp: takeWhile_append dropWhile_append)
  show ?thesis
    using n t ref_value_ascii[of c enc] assms by (simp add: get_entity_def char_reference_def)
qed

lemma get_char_encode:
  assumes "code c < 128"
  shows "get_char enc (encode_char c @ s) = Inr ([c], Some s)"
proof (cases "c = CHR ''&'' \<or> c = CHR ''<'' \<or> c = CHR ''>'' \<or> c = CHR 0x22 \<or> c = CHR 0x27")
  case True
  then show ?thesis
    using get_entity_named[of enc s] by (auto simp: encode_char_def get_char_amp)
next
  case False
  then show ?thesis
    using get_entity_control[of c enc s] get_char_plain[of c enc s] assms
    by (auto simp: encode_char_def get_char_amp)
qed

text \<open>The first character of the code of a character.\<close>

lemma code_32: "code c = 32 \<longleftrightarrow> c = CHR '' ''"
proof -
  have "code (CHR '' '') = 32" by simp
  then show ?thesis by (metis char_of_char)
qed

lemma white_code: "is_white c \<longleftrightarrow> c = CHR '' '' \<or> (9 \<le> code c \<and> code c \<le> 13)"
  by (auto simp: is_white_def is_space_def code_32)

lemma encode_char_cases:
  obtains s where "encode_char c = CHR ''&'' # s"
  | "encode_char c = [c]" "c \<noteq> CHR ''&''" "c \<noteq> CHR ''<''" "c \<noteq> CHR 0x22" "c \<noteq> CHR 0x27" "c \<noteq> CHR ''>''" "32 \<le> code c"
  by (cases "c = CHR ''&''"; cases "c = CHR ''<''"; cases "c = CHR ''>''"; cases "c = CHR 0x22";
      cases "c = CHR 0x27"; cases "code c < 32")
    (simp_all add: encode_char_def)

lemma encode_char_hd:
  "hd (encode_char c) \<noteq> CHR ''<''" "hd (encode_char c) \<noteq> CHR 0x22" "hd (encode_char c) \<noteq> CHR 0x27"
  "encode_char c \<noteq> []" "code c < 128 \<Longrightarrow> code (hd (encode_char c)) < 128"
  "c \<noteq> CHR '' '' \<Longrightarrow> \<not> is_white (hd (encode_char c))"
  by (cases rule: encode_char_cases[of c]; simp add: white_code)+


section \<open>Encoded values\<close>

text \<open>A value without the start of a hexadecimal reference, of ASCII characters.\<close>

fun no_ref :: "string \<Rightarrow> bool" where
  "no_ref [] = True"
| "no_ref (c # s) \<longleftrightarrow> take 3 (c # s) \<noteq> ''&#x'' \<and> no_ref s"

definition plain_value :: "string \<Rightarrow> bool" where
  "plain_value v \<longleftrightarrow> ascii v \<and> no_ref v"

lemma plain_value_Cons:
  "plain_value (c # v) \<Longrightarrow> code c < 128 \<and> plain_value v \<and> xml_encode_string (c # v) = encode_char c @ xml_encode_string v"
proof -
  assume "plain_value (c # v)"
  then have "take 3 (c # v) \<noteq> ''&#x''" and v: "code c < 128" "ascii v" "no_ref v"
    unfolding plain_value_def no_ref.simps ascii_simps by blast+
  then have "xml_encode_string (c # v) = encode_char c @ xml_encode_string v"
    by (subst xml_encode_string.simps(2)) (rule if_not_P)
  with v show ?thesis by (simp add: plain_value_def)
qed

lemma keep_loop_encoded:
  assumes "plain_value v" and "q = CHR 0x22 \<or> q = CHR 0x27"
  shows "keep_loop enc False [q] (Some (xml_encode_string v @ q # r)) acc = Inr (acc @ v, Some (q # r))"
  using assms(1)
proof (induction v arbitrary: acc)
  case (Cons c v)
  note c = plain_value_Cons[OF Cons.prems]
  have hd: "encode_char c @ x \<noteq> []" "\<not> starts_with enc False [q] (encode_char c @ x)" for x
    using assms(2) encode_char_hd(2-4)[of c] by (cases "encode_char c"; auto)+
  show ?case
    using c hd[of "xml_encode_string v @ q # r"] Cons.IH[of "acc @ [c]"]
    by (simp add: keep_loop_step get_char_encode)
qed simp

lemma read_quoted:
  assumes "plain_value v" and "q = CHR 0x22 \<or> q = CHR 0x27" and "r \<noteq> []"
  shows "read_attr_value True enc d (q # xml_encode_string v @ q # r) st = Inr (v, Some r, st)"
proof -
  have "is_quote q" using assms(2) by (auto simp: is_quote_def)
  with keep_loop_encoded[OF assms(1,2), of enc r "[]"] assms(3) show ?thesis
    by (simp add: read_attr_value_def read_text_def)
qed

text \<open>
  A text the parser gives back: it neither starts nor ends with a space and has no two in a row.
  The first argument is whether a space is pending.
\<close>

fun tight :: "bool \<Rightarrow> string \<Rightarrow> bool" where
  "tight w [] \<longleftrightarrow> \<not> w"
| "tight w (c # v) \<longleftrightarrow> (if c = CHR '' '' then \<not> w \<and> tight True v else tight False v)"

lemma condense_white:
  assumes "list_all is_white ws"
  shows "condense_loop enc False ''<'' w (Some (ws @ CHR ''<'' # r)) acc = Inr (acc, Some (CHR ''<'' # r))"
  using assms
proof (induction ws arbitrary: w)
  case (Cons c ws)
  then have "c \<noteq> CHR ''<''" by (auto simp: white_code)
  with Cons show ?case by (subst condense_loop_white) auto
qed simp

lemma condense_encoded:
  assumes "plain_value v" and "tight w v" and "list_all is_white ws"
  shows "condense_loop enc False ''<'' w (Some (xml_encode_string v @ ws @ CHR ''<'' # r)) acc =
    Inr (acc @ (if w then '' '' else []) @ v, Some (CHR ''<'' # r))"
  using assms(1,2)
proof (induction v arbitrary: w acc)
  case Nil
  with condense_white[OF assms(3)] show ?case by simp
next
  case (Cons c v)
  note c = plain_value_Cons[OF Cons.prems(1)]
  let ?r = "xml_encode_string v @ ws @ CHR ''<'' # r"
  have hd: "encode_char c @ ?r \<noteq> []" "\<not> starts_with enc False ''<'' (encode_char c @ ?r)"
    using encode_char_hd(1,4)[of c] by (cases "encode_char c"; auto)+
  show ?case
  proof (cases "c = CHR '' ''")
    case True
    then have "encode_char c = '' ''" by (simp add: encode_char_def)
    with True c Cons.IH[of True acc] Cons.prems(2) show ?thesis
      by (subst c[THEN conjunct2, THEN conjunct2]) (subst condense_loop_white; simp add: white_code)
  next
    case False
    have "\<not> is_white (hd (encode_char c @ ?r))"
      using encode_char_hd(4,6)[of c] False by simp
    with False hd c Cons.IH[of False] Cons.prems(2) show ?thesis
      by (simp add: condense_loop_step get_char_encode)
  qed
qed


section \<open>Positions aside\<close>

definition same_attr :: "xml_attribute \<Rightarrow> xml_attribute \<Rightarrow> bool" where
  "same_attr a b \<longleftrightarrow> attr_name a = attr_name b \<and> attr_value a = attr_value b"

fun same_node :: "xml_node \<Rightarrow> xml_node \<Rightarrow> bool" where
  "same_node (TElement p nm as cs) m \<longleftrightarrow>
     (case m of TElement q nm' bs ds \<Rightarrow> nm = nm' \<and> list_all2 same_attr as bs \<and> list_all2 same_node cs ds
      | _ \<Rightarrow> False)"
| "same_node (TText p v cd) m \<longleftrightarrow> (case m of TText q v' cd' \<Rightarrow> v = v' \<and> cd = cd' | _ \<Rightarrow> False)"
| "same_node (TComment p v) m \<longleftrightarrow> (case m of TComment q v' \<Rightarrow> v = v' | _ \<Rightarrow> False)"
| "same_node (TUnknown p v) m \<longleftrightarrow> (case m of TUnknown q v' \<Rightarrow> v = v' | _ \<Rightarrow> False)"
| "same_node (TDeclaration p ver en sa) m \<longleftrightarrow>
     (case m of TDeclaration q ver' en' sa' \<Rightarrow> ver = ver' \<and> en = en' \<and> sa = sa' | _ \<Rightarrow> False)"

text \<open>What a parse that succeeds keeps of the state.\<close>

definition undisturbed :: "pst \<Rightarrow> bool" where
  "undisturbed st \<longleftrightarrow> ascii (ps_stamp st) \<and> ps_error st = None"

lemma stamp_quiet:
  assumes "undisturbed st"
  obtains st' where "stamp enc (Some s) st = Inr st'" and "undisturbed st'"
proof (cases "ps_tab st < 1")
  case True
  with assms that show ?thesis by (simp add: stamp_def)
next
  case False
  have "ascii (fst (ps_stamp st, ps_row st, ps_col st))" using assms by (simp add: undisturbed_def)
  from stamp_run_ascii[OF this, of "ps_tab st" enc s] obtain t row col where
    "stamp_run (ps_tab st) enc s (ps_stamp st, ps_row st, ps_col st) = Some (t, row, col)" "ascii t"
    by auto
  with False assms that show ?thesis
    by (simp add: stamp_def stamp_loop_eq undisturbed_def)
qed


section \<open>Names and attributes\<close>

definition wf_name :: "string \<Rightarrow> bool" where
  "wf_name nm \<longleftrightarrow> nm \<noteq> [] \<and> name_start (hd nm) \<and> list_all name_char nm \<and> ascii nm"

lemma name_char_code:
  "name_char c \<Longrightarrow> code c \<noteq> 0 \<and> 32 < code c \<and> c \<noteq> CHR ''&'' \<and> c \<noteq> CHR ''<'' \<and> c \<noteq> CHR ''>''
     \<and> c \<noteq> CHR 0x22 \<and> c \<noteq> CHR 0x27 \<and> c \<noteq> CHR ''/'' \<and> c \<noteq> CHR ''='' \<and> c \<noteq> CHR '' '' \<and> c \<noteq> CHR ''!'' \<and> c \<noteq> CHR ''?''"
  by (auto simp: name_char_def xml_is_alnum_def is_alnum_def is_digit_def is_upper_def is_lower_def
      split: if_splits)

lemma name_char_not_white: "name_char c \<Longrightarrow> \<not> is_white c"
proof -
  assume "name_char c"
  from name_char_code[OF this] have "32 < code c" "c \<noteq> CHR '' ''" by blast+
  then show ?thesis unfolding white_code by simp
qed

lemma encode_name: "list_all name_char nm \<Longrightarrow> xml_encode_string nm = nm"
proof (induction nm)
  case (Cons c nm)
  then have "encode_char c = [c]" using name_char_code[of c] by (auto simp: encode_char_def)
  moreover have "take 3 (c # nm) \<noteq> ''&#x''" using Cons.prems name_char_code[of c] by auto
  then have "xml_encode_string (c # nm) = encode_char c @ xml_encode_string nm"
    by (subst xml_encode_string.simps(2)) (rule if_not_P)
  ultimately show ?case using Cons by simp
qed simp

lemma c_str_name: "list_all name_char nm \<Longrightarrow> c_str nm = nm"
proof (rule c_str_id)
  have "\<not> name_char (CHR 0x00)" by (simp add: name_char_def xml_is_alnum_def is_alnum_def is_digit_def
      is_upper_def is_lower_def)
  then show "list_all name_char nm \<Longrightarrow> CHR 0x00 \<notin> set nm" by (metis list_all_iff)
qed

lemma read_name_wf:
  assumes "wf_name nm" and "r \<noteq> []" "\<not> name_char (hd r)"
  shows "read_name (Some (nm @ r)) = Inr (nm, Some r)"
proof -
  obtain c t where nm: "nm = c # t" using assms(1) by (cases nm) (auto simp: wf_name_def)
  have "takeWhile name_char (nm @ r) = nm" "dropWhile name_char (nm @ r) = r"
    using assms by (cases r; auto simp: wf_name_def list_all_iff takeWhile_append dropWhile_append)+
  with assms(1) nm show ?thesis by (simp add: read_name_def wf_name_def)
qed

definition wf_attr :: "xml_attribute \<Rightarrow> bool" where
  "wf_attr a \<longleftrightarrow> wf_name (attr_name a) \<and> plain_value (attr_value a)"

lemma skip_name:
  assumes "wf_name nm" and "list_all is_white ws"
  shows "skip_white_space enc (Some (ws @ nm @ r)) = Some (nm @ r)"
proof -
  obtain c t where nm: "nm = c # t" using assms(1) by (cases nm) (auto simp: wf_name_def)
  have "\<not> is_white c" using assms(1) nm by (auto simp: wf_name_def dest: name_char_not_white)
  with skip_white_space_ascii[OF assms(2), of "nm @ r" enc] assms(1) nm show ?thesis
    by (simp add: wf_name_def)
qed

lemma attribute_parse_wf:
  assumes "wf_name nm" and "list_all is_white ws" and "undisturbed st"
    and v: "\<And>st. read_attr_value True enc d (q # body) st = Inr (v, Some r, st)"
    and q: "q = CHR 0x22 \<or> q = CHR 0x27"
  obtains a st' where
    "attribute_parse True enc d (Some (ws @ nm @ ''='' @ q # body)) st = Inr (a, Some r, st')"
    and "attr_name a = nm" and "attr_value a = v" and "undisturbed st'"
proof -
  let ?s = "nm @ ''='' @ q # body"
  obtain st' where st': "stamp enc (Some ?s) st = Inr st'" "undisturbed st'"
    using stamp_quiet[OF assms(3)] by blast
  have eq: "\<not> name_char (CHR ''='')" using name_char_code[of "CHR ''=''"] by blast
  have n: "read_name (Some ?s) = Inr (nm, Some (''='' @ q # body))"
    by (rule read_name_wf[OF assms(1)]) (simp_all add: eq)
  have s1: "skip_white_space enc (Some (''='' @ q # body)) = Some (''='' @ q # body)"
    using skip_white_space_ascii[of "[]" "''='' @ q # body" enc] by (simp add: white_code)
  have s2: "skip_white_space enc (Some (q # body)) = Some (q # body)"
    using skip_white_space_ascii[of "[]" "q # body" enc] q by (auto simp: white_code)
  have "attribute_parse True enc d (Some (ws @ ?s)) st =
      Inr (\<lparr>attr_pos = cursor st', attr_name = nm, attr_value = v\<rparr>, Some r, st')"
    using skip_name[OF assms(1,2), of enc "''='' @ q # body"] st' n s1 s2 v
    by (simp add: attribute_parse_def attribute_tail_def Let_def)
  with that st'(2) show ?thesis by (metis xml_attribute.select_convs(2,3))
qed

lemma attribute_print_parse:
  assumes "wf_attr a" and "list_all is_white ws" and "undisturbed st" and "r \<noteq> []"
  obtains b st' where
    "attribute_parse True enc d (Some (ws @ attribute_print a @ r)) st = Inr (b, Some r, st')"
    and "same_attr a b" and "undisturbed st'"
proof -
  define q where "q = (if CHR 0x22 \<in> set (attr_value a) then CHR 0x27 else CHR 0x22)"
  have q: "q = CHR 0x22 \<or> q = CHR 0x27" by (simp add: q_def)
  have nm: "wf_name (attr_name a)" and v: "plain_value (attr_value a)" using assms(1) by (simp_all add: wf_attr_def)
  have "attribute_print a @ r = attr_name a @ ''='' @ q # (xml_encode_string (attr_value a) @ q # r)"
    using nm by (simp add: attribute_print_def q_def wf_name_def encode_name Let_def)
  moreover obtain b st' where
    "attribute_parse True enc d (Some (ws @ attr_name a @ ''='' @ q # (xml_encode_string (attr_value a) @ q # r))) st
      = Inr (b, Some r, st')"
    "attr_name b = attr_name a" "attr_value b = attr_value a" "undisturbed st'"
    using attribute_parse_wf[OF nm assms(2,3) read_quoted[OF v q assms(4)] q] by blast
  ultimately show ?thesis by (intro that[of b st']) (simp_all add: same_attr_def)
qed


lemma attr_loop_step:
  assumes "wf_attr a" and "undisturbed st" and "r \<noteq> []" and "attr_name a \<notin> attr_name ` set acc"
  obtains b st' where "attr_loop True enc ('' '' @ attribute_print a @ r) acc st = attr_loop True enc r (acc @ [b]) st'"
    and "same_attr a b" and "undisturbed st'"
proof -
  obtain c t where nm: "attr_name a = c # t" "name_char c"
    using assms(1) by (cases "attr_name a") (auto simp: wf_attr_def wf_name_def)
  have print: "attribute_print a = attr_name a @ drop (length (attr_name a)) (attribute_print a)"
    using assms(1) by (simp add: attribute_print_def wf_attr_def wf_name_def encode_name Let_def)
  let ?s = "attribute_print a @ r"
  obtain u where u: "?s = c # u" using print nm by (metis append_Cons)
  have c: "c \<noteq> CHR ''/''" "c \<noteq> CHR ''>''" "\<not> is_white c" "code c < 128"
    using name_char_code[OF nm(2)] name_char_not_white[OF nm(2)] assms(1) nm
    by (blast, blast, blast, simp add: wf_attr_def wf_name_def)
  have skip: "skip_white_loop enc ('' '' @ ?s) = c # u"
    using skip_white_ascii[of "'' ''" ?s enc] c u by (simp add: white_code)
  obtain b st' where b: "attribute_parse True enc True (Some ?s) st = Inr (b, Some r, st')"
    "same_attr a b" "undisturbed st'"
    using attribute_print_parse[OF assms(1) _ assms(2,3), of "[]" enc True] by auto
  have nd: "\<not> (\<exists>x\<in>set acc. attr_name x = attr_name b)"
    using assms(4) b(2) by (metis image_eqI same_attr_def)
  have "attr_loop True enc ('' '' @ ?s) acc st = attr_loop True enc r (acc @ [b]) st'"
    using skip c b(1) assms(3) u nd by (subst attr_loop.simps) simp
  with b that show ?thesis by simp
qed

lemma attr_loop_print:
  assumes "list_all wf_attr as" and "distinct (map attr_name (acc @ as))" and "undisturbed st" and "r \<noteq> []"
  shows "\<exists>bs st'. attr_loop True enc (concat (map (\<lambda>a. '' '' @ attribute_print a) as) @ r) acc st
      = attr_loop True enc r (acc @ bs) st' \<and> list_all2 same_attr as bs \<and> undisturbed st'"
  using assms
proof (induction as arbitrary: acc st)
  case Nil
  then show ?case by (auto intro!: exI[of _ "[]"])
next
  case (Cons a as)
  let ?r = "concat (map (\<lambda>a. '' '' @ attribute_print a) as) @ r"
  obtain b st1 where b: "attr_loop True enc ('' '' @ attribute_print a @ ?r) acc st =
      attr_loop True enc ?r (acc @ [b]) st1" "same_attr a b" "undisturbed st1"
    by (rule attr_loop_step[of a st ?r acc enc]) (use Cons.prems in auto)
  have "distinct (map attr_name ((acc @ [b]) @ as))"
    using Cons.prems(2) b(2) by (simp add: same_attr_def)
  from Cons.IH[OF _ this b(3) assms(4)] Cons.prems(1) obtain bs st' where
    "attr_loop True enc ?r (acc @ [b]) st1 = attr_loop True enc r (acc @ [b] @ bs) st'"
    "list_all2 same_attr as bs" "undisturbed st'"
    by auto
  with b show ?case by (intro exI[of _ "b # bs"] exI[of _ st']) simp
qed

lemma attr_loop_empty_tag: "attr_loop True enc ('' />'' @ r) acc st = Inr (acc, Tag_Closed (Some r), st)"
  using skip_white_ascii[of "'' ''" "''/>'' @ r" enc]
  by (subst attr_loop.simps) (simp add: white_code)

lemma attr_loop_open_tag: "attr_loop True enc (''>'' @ r) acc st = Inr (acc, Tag_Open r, st)"
  using skip_white_ascii[of "[]" "''>'' @ r" enc]
  by (subst attr_loop.simps) (simp add: white_code)


section \<open>Leaves\<close>

text \<open>The end tag occurs in the value followed by it only at its end.\<close>

definition ends_at :: "string \<Rightarrow> string \<Rightarrow> bool" where
  "ends_at tag v \<longleftrightarrow> until tag (v @ tag) = (v, tag)"

lemma until_append:
  assumes "ends_at tag v"
  shows "until tag (v @ tag @ r) = (v, tag @ r)"
  using assms
proof (induction v)
  case Nil
  then show ?case by (cases tag; cases r) (auto simp: ends_at_def)
next
  case (Cons c v)
  have "take (length tag) ((c # v) @ tag @ r) = take (length tag) ((c # v) @ tag)"
    using take_append[of "length tag" "(c # v) @ tag" r] by simp
  with Cons show ?case
    by (auto simp: ends_at_def prod_eq_iff split: if_splits)
qed

definition wf_literal :: "string \<Rightarrow> string \<Rightarrow> bool" where
  "wf_literal tag v \<longleftrightarrow> ascii v \<and> CHR 0x00 \<notin> set v \<and> ends_at tag v"

lemma starts_with_append [simp]: "starts_with enc False tag (tag @ s)"
  by (induction tag) auto

lemma comment_parse_print:
  assumes "wf_literal ''-->'' v" and "undisturbed st"
  shows "\<exists>m st'. comment_parse enc d (Some (''<!--'' @ v @ ''-->'' @ r)) st = Inr (m, Some r, st')
    \<and> same_node (TComment pos v) m \<and> undisturbed st'"
proof -
  let ?s = "''<!--'' @ v @ ''-->'' @ r"
  obtain st' where st': "stamp enc (Some ?s) st = Inr st'" "undisturbed st'"
    using stamp_quiet[OF assms(2)] by blast
  have "skip_white_space enc (Some ?s) = Some ?s"
    using skip_white_space_ascii[of "[]" ?s enc] by (simp add: white_code)
  moreover have "until ''-->'' (v @ ''-->'' @ r) = (v, ''-->'' @ r)"
    using assms(1) by (intro until_append) (simp add: wf_literal_def)
  ultimately show ?thesis
    using st' by (simp add: comment_parse_def Let_def string_equal_def)
qed

lemma cdata_parse_print:
  assumes "wf_literal '']]>'' v" and "undisturbed st" and "r \<noteq> []"
  shows "\<exists>m st'. text_parse True enc d True (Some (''<![CDATA['' @ v @ '']]>'' @ r)) st = Inr (m, Some r, st')
    \<and> same_node (TText pos v True) m \<and> undisturbed st'"
proof -
  let ?s = "''<![CDATA['' @ v @ '']]>'' @ r"
  obtain st' where st': "stamp enc (Some ?s) st = Inr st'" "undisturbed st'"
    using stamp_quiet[OF assms(2)] by blast
  have u: "until '']]>'' (v @ '']]>'' @ r) = (v, '']]>'' @ r)"
    using assms(1) by (intro until_append) (simp add: wf_literal_def)
  have "read_text True enc False '']]>'' False (Some ('']]>'' @ r)) = Inr ([], Some r)"
    using assms(3) by (simp add: read_text_def)
  with st' u show ?thesis by (simp add: text_parse_def string_equal_def)
qed

definition wf_unknown :: "string \<Rightarrow> bool" where
  "wf_unknown v \<longleftrightarrow> ascii v \<and> CHR 0x00 \<notin> set v \<and> CHR ''>'' \<notin> set v \<and>
     v \<noteq> [] \<and> hd v = CHR ''!'' \<and> (tl v = [] \<or> (hd (tl v) \<noteq> CHR ''-'' \<and> hd (tl v) \<noteq> CHR ''[''))"

lemma unknown_parse_print:
  assumes "wf_unknown v" and "undisturbed st"
  shows "\<exists>m st'. unknown_parse enc d (Some (''<'' @ v @ ''>'' @ r)) st = Inr (m, Some r, st')
    \<and> same_node (TUnknown pos v) m \<and> undisturbed st'"
proof -
  let ?s = "''<'' @ v @ ''>'' @ r"
  obtain st' where st': "stamp enc (Some ?s) st = Inr st'" "undisturbed st'"
    using stamp_quiet[OF assms(2)] by blast
  have "skip_white_space enc (Some ?s) = Some ?s"
    using skip_white_space_ascii[of "[]" ?s enc] by (simp add: white_code)
  moreover have "takeWhile (\<lambda>c. c \<noteq> CHR ''>'') (v @ ''>'' @ r) = v"
    "dropWhile (\<lambda>c. c \<noteq> CHR ''>'') (v @ ''>'' @ r) = ''>'' @ r"
    using assms(1) by (auto simp: wf_unknown_def takeWhile_append dropWhile_append)
  ultimately show ?thesis
    using st' by (simp add: unknown_parse_def Let_def)
qed

lemma text_parse_print:
  assumes "plain_value v" and "tight True v" and "list_all is_white ws" and "undisturbed st" and "r \<noteq> []"
  shows "\<exists>m st'. text_parse True enc d False (Some (xml_encode_string v @ ws @ CHR ''<'' # r)) st
      = Inr (m, Some (CHR ''<'' # r), st') \<and> same_node (TText pos v False) m \<and> text_value m = v \<and> undisturbed st'"
proof -
  let ?s = "xml_encode_string v @ ws @ CHR ''<'' # r"
  obtain c w where v: "v = c # w" "c \<noteq> CHR '' ''" using assms(2) by (cases v) (auto split: if_splits)
  then have v': "plain_value (c # w)" "tight False v" using assms(1,2) by auto
  note e = plain_value_Cons[OF v'(1)]
  obtain st' where st': "stamp enc (Some ?s) st = Inr st'" "undisturbed st'"
    using stamp_quiet[OF assms(4)] by blast
  have hd: "?s \<noteq> []" "hd ?s = hd (encode_char c)"
    using e encode_char_hd(4)[of c] v(1) by simp_all
  have "\<not> starts_with enc False ''<![CDATA['' ?s"
    using hd encode_char_hd(1)[of c] by (cases ?s) auto
  then have se: "string_equal enc False (Some ?s) ''<![CDATA['' = Inr False"
    using hd(1) by (simp only: string_equal_def option.case if_False)
  have "skip_white_space enc (Some ?s) = Some ?s"
    using skip_white_space_ascii[of "[]" ?s enc] hd e encode_char_hd(5,6)[of c] v(2) by simp
  then have "read_text True enc True ''<'' False (Some ?s) = Inr (v, Some r)"
    using condense_encoded[OF assms(1) v'(2) assms(3), of enc r "[]"] assms(5)
    by (simp add: read_text_def)
  with st' se assms(5) show ?thesis by (simp add: text_parse_def)
qed


section \<open>Declarations\<close>

definition wf_decl :: "string \<Rightarrow> bool" where
  "wf_decl v \<longleftrightarrow> ascii v \<and> CHR 0x00 \<notin> set v \<and> CHR 0x22 \<notin> set v \<and> CHR ''&'' \<notin> set v"

lemma keep_loop_raw:
  assumes "wf_decl v"
  shows "keep_loop enc False [CHR 0x22] (Some (v @ CHR 0x22 # r)) acc = Inr (acc @ v, Some (CHR 0x22 # r))"
  using assms
proof (induction v arbitrary: acc)
  case (Cons c v)
  then have c: "code c < 128" "c \<noteq> CHR 0x22" "c \<noteq> CHR ''&''" "wf_decl v" by (auto simp: wf_decl_def)
  with Cons.IH[OF c(4), of "acc @ [c]"] show ?case
    by (simp add: keep_loop_step get_char_plain)
qed simp

lemma read_raw:
  assumes "wf_decl v" and "r \<noteq> []"
  shows "read_attr_value True enc d (CHR 0x22 # v @ CHR 0x22 # r) st = Inr (v, Some r, st)"
  using keep_loop_raw[OF assms(1), of enc r "[]"] assms(2)
  by (simp add: read_attr_value_def read_text_def is_quote_def)

definition decl_item :: "string \<Rightarrow> string \<Rightarrow> string" where
  "decl_item nm v = (if v = [] then [] else nm @ ''='' @ [CHR 0x22] @ v @ [CHR 0x22] @ '' '')"

lemma declaration_print_items:
  assumes "wf_decl ver" "wf_decl en" "wf_decl sa"
  shows "declaration_print ver en sa =
    ''<?xml '' @ decl_item ''version'' ver @ decl_item ''encoding'' en @ decl_item ''standalone'' sa @ ''?>''"
  using assms by (simp add: declaration_print_def decl_item_def wf_decl_def c_str_id)

definition set_decl :: "string \<Rightarrow> string \<Rightarrow> decl_values \<Rightarrow> decl_values" where
  "set_decl nm v vs =
     (case vs of (ver, en, sa) \<Rightarrow>
        if nm = ''version'' then (v, en, sa) else if nm = ''encoding'' then (ver, v, sa) else (ver, en, v))"

lemma xml_lower_id: "is_lower c \<Longrightarrow> xml_to_lower enc c = c"
  by (simp add: xml_to_lower_def to_lower_char_def is_lower_def is_upper_def)

lemma decl_names:
  assumes "nm \<in> {''version'', ''encoding'', ''standalone''}"
  shows "wf_name nm" "starts_with enc True ''version'' (nm @ s) \<longleftrightarrow> nm = ''version''"
    "starts_with enc True ''encoding'' (nm @ s) \<longleftrightarrow> nm = ''encoding''"
    "starts_with enc True ''standalone'' (nm @ s) \<longleftrightarrow> nm = ''standalone''"
    "hd nm \<noteq> CHR ''>''"
  using assms
  by (auto simp: wf_name_def name_start_def name_char_def xml_is_alpha_def xml_is_alnum_def is_letter_def
      is_alnum_def is_upper_def is_digit_def xml_lower_id is_lower_def)

lemma declaration_item:
  assumes "nm \<in> {''version'', ''encoding'', ''standalone''}" and "wf_decl v" and "undisturbed st"
    and "set_decl nm [] vs = vs"
  shows "\<exists>st'. declaration_loop True enc (Some ('' '' @ decl_item nm v @ t)) vs st =
      declaration_loop True enc (Some ('' '' @ t)) (set_decl nm v vs) st' \<and> undisturbed st'"
proof (cases "v = []")
  case True
  with assms(3,4) show ?thesis by (auto simp: decl_item_def)
next
  case False
  note nms = decl_names[OF assms(1)]
  let ?r = "'' '' @ t"
  define s where "s = nm @ ''='' @ CHR 0x22 # v @ CHR 0x22 # ?r"
  have item: "'' '' @ decl_item nm v @ t = '' '' @ s" using False by (simp add: decl_item_def s_def)
  have 1: "list_all is_white []" and 2: "?r \<noteq> []" and 3: "CHR 0x22 = CHR 0x22 \<or> CHR 0x22 = CHR 0x27"
    by simp_all
  obtain a st' where "attribute_parse True enc False
      (Some ([] @ nm @ ''='' @ CHR 0x22 # (v @ CHR 0x22 # ?r))) st = Inr (a, Some ?r, st')"
    and a: "attr_value a = v" "undisturbed st'"
    using attribute_parse_wf[OF nms(1) 1 assms(3) read_raw[OF assms(2) 2] 3] by blast
  then have attr: "attribute_parse True enc False (Some s) st = Inr (a, Some ?r, st')"
    by (simp only: append_Nil s_def)
  obtain c u where s: "s = c # u" using nms(1) by (cases s) (auto simp: s_def wf_name_def)
  have skip: "skip_white_loop enc ('' '' @ s) = c # u"
  proof -
    have "skip_white_space enc (Some ('' '' @ s)) = Some s"
      unfolding s_def by (rule skip_name[OF nms(1)]) (simp add: white_code)
    then show ?thesis using s by (simp add: skip_white_space_def del: skip_white_loop.simps)
  qed
  obtain ver en sa where vs: "vs = (ver, en, sa)" by (cases vs)
  have sw: "starts_with enc True ''version'' (c # u) \<longleftrightarrow> nm = ''version''"
    "starts_with enc True ''encoding'' (c # u) \<longleftrightarrow> nm = ''encoding''"
    "starts_with enc True ''standalone'' (c # u) \<longleftrightarrow> nm = ''standalone''"
    unfolding s[symmetric] s_def by (rule nms)+
  have z: "c_str v = v" using assms(2) by (simp add: wf_decl_def c_str_id)
  have "declaration_loop True enc (Some ('' '' @ s)) vs st = declaration_loop True enc (Some ?r) (set_decl nm v vs) st'"
    using z skip sw assms(1) a attr s vs
    by (subst declaration_loop.simps) (auto simp: Let_def set_decl_def simp del: starts_with.simps skip_white_loop.simps)
  with a(2) item show ?thesis by metis
qed

lemma declaration_end:
  "declaration_loop True enc (Some ('' ?>'' @ r)) vs st = Inr (vs, Some r, st)"
proof -
  have skip: "skip_white_loop enc ('' ?>'' @ r) = ''?>'' @ r"
    using skip_white_ascii[of "'' ''" "''?>'' @ r" enc] by (simp add: white_code)
  have "declaration_loop True enc (Some ('' ?>'' @ r)) vs st = declaration_loop True enc (Some (''>'' @ r)) vs st"
    using skip by (subst declaration_loop.simps)
      (cases vs; simp add: Let_def xml_to_lower_def to_lower_char_def is_upper_def white_code del: skip_white_loop.simps)
  also have "\<dots> = Inr (vs, Some r, st)" by (subst declaration_loop.simps) simp
  finally show ?thesis .
qed

lemma declaration_parse_print:
  assumes "wf_decl ver" "wf_decl en" "wf_decl sa" and "undisturbed st"
  shows "\<exists>m st'. declaration_parse True enc d (Some (declaration_print ver en sa @ r)) st = Inr (m, Some r, st')
    \<and> same_node (TDeclaration pos ver en sa) m \<and> undisturbed st'"
proof -
  let ?i1 = "decl_item ''version'' ver" and ?i2 = "decl_item ''encoding'' en"
    and ?i3 = "decl_item ''standalone'' sa"
  let ?t = "'' '' @ ?i1 @ ?i2 @ ?i3 @ ''?>'' @ r"
  have p: "declaration_print ver en sa @ r = ''<?xml'' @ ?t"
    using declaration_print_items[OF assms(1-3)] by simp
  obtain st0 where st0: "stamp enc (Some (''<?xml'' @ ?t)) st = Inr st0" "undisturbed st0"
    using stamp_quiet[OF assms(4)] by blast
  obtain st1 where st1: "declaration_loop True enc (Some ?t) ([], [], []) st0 =
      declaration_loop True enc (Some ('' '' @ ?i2 @ ?i3 @ ''?>'' @ r)) (ver, [], []) st1" "undisturbed st1"
    using declaration_item[OF _ assms(1) st0(2), of "''version''" "([], [], [])"] by (auto simp: set_decl_def)
  obtain st2 where st2: "declaration_loop True enc (Some ('' '' @ ?i2 @ ?i3 @ ''?>'' @ r)) (ver, [], []) st1 =
      declaration_loop True enc (Some ('' '' @ ?i3 @ ''?>'' @ r)) (ver, en, []) st2" "undisturbed st2"
    using declaration_item[OF _ assms(2) st1(2), of "''encoding''" "(ver, [], [])"] by (auto simp: set_decl_def)
  obtain st3 where st3: "declaration_loop True enc (Some ('' '' @ ?i3 @ ''?>'' @ r)) (ver, en, []) st2 =
      declaration_loop True enc (Some ('' '' @ ''?>'' @ r)) (ver, en, sa) st3" "undisturbed st3"
    using declaration_item[OF _ assms(3) st2(2), of "''standalone''" "(ver, en, [])"] by (auto simp: set_decl_def)
  have loop: "declaration_loop True enc (Some ?t) ([], [], []) st0 = Inr ((ver, en, sa), Some r, st3)"
    using st1(1) st2(1) st3(1) declaration_end[of enc r "(ver, en, sa)" st3] by simp
  have "skip_white_space enc (Some (''<?xml'' @ ?t)) = Some (''<?xml'' @ ?t)"
    using skip_white_space_ascii[of "[]" "''<?xml'' @ ?t" enc] by (simp add: white_code)
  then show ?thesis
    using st0 st3(2) loop unfolding p by (simp add: declaration_parse_def Let_def)
qed

end
