(* ===== verification/Tiny_Xml_Correct.thy ===== *)
theory Tiny_Xml_Correct
  imports Tiny_Xml_Roundtrip
begin

text \<open>
  The round trip of whole documents: what \<open>Print\<close> writes for a well-formed document is parsed
  back to the same nodes, up to their positions, without an error.
\<close>


section \<open>Well-formed documents\<close>

fun plain_text :: "xml_node \<Rightarrow> bool" where
  "plain_text (TText p v cd) \<longleftrightarrow> \<not> cd"
| "plain_text _ \<longleftrightarrow> False"

fun separated :: "xml_node list \<Rightarrow> bool" where
  "separated (a # b # ns) \<longleftrightarrow> \<not> (plain_text a \<and> plain_text b) \<and> separated (b # ns)"
| "separated _ \<longleftrightarrow> True"

fun wf_node :: "xml_node \<Rightarrow> bool" where
  "wf_node (TElement p nm as cs) \<longleftrightarrow>
     wf_name nm \<and> list_all wf_attr as \<and> distinct (map attr_name as) \<and> separated cs \<and> list_all wf_node cs"
| "wf_node (TText p v cd) \<longleftrightarrow>
     (if cd then wf_literal '']]>'' v else plain_value v \<and> tight True v \<and> \<not> blank_text v)"
| "wf_node (TComment p v) \<longleftrightarrow> wf_literal ''-->'' v"
| "wf_node (TUnknown p v) \<longleftrightarrow> wf_unknown v"
| "wf_node (TDeclaration p ver en sa) \<longleftrightarrow> wf_decl ver \<and> wf_decl en \<and> wf_decl sa"


section \<open>White space\<close>

lemma white_newline [simp]: "is_white (CHR 0x0A)" "is_white (CHR '' '')"
  by (simp_all add: white_code)

lemma white_indent [simp]: "list_all is_white (indent d)"
  by (induction d) (auto simp: indent_def)

lemma skip_white_prefix: "list_all is_white ws \<Longrightarrow> skip_white_loop enc (ws @ s) = skip_white_loop enc s"
proof (induction ws)
  case (Cons w ws)
  have "\<not> is_zero_width (w # ws @ s)"
    using Cons.prems zero_width_head[of w "ws @ s"] by (auto simp: is_white_def is_space_def)
  with Cons show ?case by simp
qed simp

lemma skip_lt: "list_all is_white ws \<Longrightarrow>
    skip_white_space enc (Some (ws @ CHR ''<'' # s)) = Some (CHR ''<'' # s)"
  using skip_white_space_ascii[of ws "CHR ''<'' # s" enc] by (simp add: white_code)

lemma skip_white_space_prefix:
  "list_all is_white ws \<Longrightarrow> s \<noteq> [] \<Longrightarrow> skip_white_space enc (Some (ws @ s)) = skip_white_space enc (Some s)"
  by (simp add: skip_white_space_def skip_white_prefix)


section \<open>One node\<close>

text \<open>
  What the value loop and the document loop need to know of a node other than a text: the white
  space its print starts with is followed by a tag that is identified, and its parse returns the
  node and the text after it.
\<close>

definition reads_back :: "xml_node \<Rightarrow> bool" where
  "reads_back n \<longleftrightarrow>
     (\<forall>d enc st r m. undisturbed st \<longrightarrow> r \<noteq> [] \<longrightarrow> length (node_print d n @ r) \<le> m \<longrightarrow>
       (\<exists>ws s k nd w st'. node_print d n @ r = ws @ CHR ''<'' # s \<and> list_all is_white ws \<and> s \<noteq> []
          \<and> hd s \<noteq> CHR ''/'' \<and> identify enc (Some (CHR ''<'' # s)) = Some k
          \<and> node_parse (element_parse m True enc) True enc k (Some (CHR ''<'' # s)) st = Inr (nd, Some (w @ r), st')
          \<and> list_all is_white w \<and> same_node n nd \<and> undisturbed st'))"

lemma reads_backI:
  assumes "\<And>d enc st r m. undisturbed st \<Longrightarrow> r \<noteq> [] \<Longrightarrow> length (node_print d n @ r) \<le> m \<Longrightarrow>
      \<exists>ws s k w. node_print d n @ r = ws @ CHR ''<'' # s \<and> list_all is_white ws \<and> s \<noteq> []
        \<and> hd s \<noteq> CHR ''/'' \<and> identify enc (Some (CHR ''<'' # s)) = Some k \<and> list_all is_white w
        \<and> (\<exists>nd st'. node_parse (element_parse m True enc) True enc k (Some (CHR ''<'' # s)) st =
             Inr (nd, Some (w @ r), st') \<and> same_node n nd \<and> undisturbed st')"
  shows "reads_back n"
  unfolding reads_back_def using assms by meson

lemma identify_lt:
  "identify enc (Some (CHR ''<'' # s)) =
     (if starts_with enc True ''<?xml'' (CHR ''<'' # s) then Some Is_Declaration
      else if starts_with enc False ''<!--'' (CHR ''<'' # s) then Some Is_Comment
      else if starts_with enc False ''<![CDATA['' (CHR ''<'' # s) then Some Is_CData
      else if starts_with enc False ''<!'' (CHR ''<'' # s) then Some Is_Unknown
      else if s \<noteq> [] \<and> (xml_is_alpha (hd s) \<or> hd s = CHR ''_'') then Some Is_Element
      else Some Is_Unknown)"
proof -
  have "skip_white_space enc (Some (CHR ''<'' # s)) = Some (CHR ''<'' # s)"
    using skip_lt[of "[]" enc s] by simp
  then show ?thesis by (simp only: identify_def option.case list.case if_False simp_thms)
qed

lemma reads_back_comment:
  assumes "wf_literal ''-->'' v"
  shows "reads_back (TComment p v)"
proof (rule reads_backI, goal_cases)
  case (1 d enc st r m)
  let ?s = "''!--'' @ v @ ''-->'' @ r"
  have "identify enc (Some (CHR ''<'' # ?s)) = Some Is_Comment"
    by (simp add: identify_lt xml_to_lower_def to_lower_char_def is_upper_def)
  moreover have "node_print d (TComment p v) @ r = indent d @ CHR ''<'' # ?s"
    using assms by (simp add: wf_literal_def c_str_id)
  moreover have "\<exists>nd st'. node_parse (element_parse m True enc) True enc Is_Comment (Some (CHR ''<'' # ?s)) st =
      Inr (nd, Some ([] @ r), st') \<and> same_node (TComment p v) nd \<and> undisturbed st'"
    using comment_parse_print[OF assms 1(1), of enc True r p] by (simp add: node_parse_def)
  ultimately show ?case
    by (intro exI[of _ "indent d"] exI[of _ ?s] exI[of _ Is_Comment] exI[of _ "[]"]) simp
qed

lemma reads_back_cdata:
  assumes "wf_literal '']]>'' v"
  shows "reads_back (TText p v True)"
proof (rule reads_backI, goal_cases)
  case (1 d enc st r m)
  let ?s = "''![CDATA['' @ v @ '']]>'' @ [CHR 0x0A] @ r"
  have "identify enc (Some (CHR ''<'' # ?s)) = Some Is_CData"
    by (simp add: identify_lt xml_to_lower_def to_lower_char_def is_upper_def)
  moreover have "node_print d (TText p v True) @ r = ([CHR 0x0A] @ indent d) @ CHR ''<'' # ?s"
    using assms by (simp add: wf_literal_def c_str_id)
  moreover have "\<exists>nd st'. node_parse (element_parse m True enc) True enc Is_CData (Some (CHR ''<'' # ?s)) st =
      Inr (nd, Some ([CHR 0x0A] @ r), st') \<and> same_node (TText p v True) nd \<and> undisturbed st'"
    using cdata_parse_print[OF assms 1(1), of "[CHR 0x0A] @ r" enc True p] by (simp add: node_parse_def)
  ultimately show ?case
    by (intro exI[of _ "[CHR 0x0A] @ indent d"] exI[of _ ?s] exI[of _ Is_CData] exI[of _ "[CHR 0x0A]"]) simp
qed

lemma reads_back_unknown:
  assumes "wf_unknown v"
  shows "reads_back (TUnknown p v)"
proof (rule reads_backI, goal_cases)
  case (1 d enc st r m)
  obtain w where v: "v = CHR ''!'' # w" "w = [] \<or> (hd w \<noteq> CHR ''-'' \<and> hd w \<noteq> CHR ''['')"
    using assms by (cases v) (auto simp: wf_unknown_def)
  let ?s = "v @ ''>'' @ r"
  have "identify enc (Some (CHR ''<'' # ?s)) = Some Is_Unknown"
    using v by (cases w) (auto simp: identify_lt xml_to_lower_def to_lower_char_def is_upper_def)
  moreover have "node_print d (TUnknown p v) @ r = indent d @ CHR ''<'' # ?s"
    using assms by (simp add: wf_unknown_def c_str_id)
  moreover have "\<exists>nd st'. node_parse (element_parse m True enc) True enc Is_Unknown (Some (CHR ''<'' # ?s)) st =
      Inr (nd, Some ([] @ r), st') \<and> same_node (TUnknown p v) nd \<and> undisturbed st'"
    using unknown_parse_print[OF assms 1(1), of enc True r p] by (simp add: node_parse_def)
  ultimately show ?case
    using v by (intro exI[of _ "indent d"] exI[of _ ?s] exI[of _ Is_Unknown] exI[of _ "[]"]) simp
qed

lemma reads_back_declaration:
  assumes "wf_decl ver" "wf_decl en" "wf_decl sa"
  shows "reads_back (TDeclaration p ver en sa)"
proof (rule reads_backI, goal_cases)
  case (1 d enc st r m)
  obtain t where t: "declaration_print ver en sa = ''<?xml'' @ t"
    using declaration_print_items[OF assms] by auto
  let ?s = "''?xml'' @ t @ r"
  have "identify enc (Some (CHR ''<'' # ?s)) = Some Is_Declaration"
    by (simp add: identify_lt)
  moreover have "node_print d (TDeclaration p ver en sa) @ r = [] @ CHR ''<'' # ?s"
    using t by simp
  moreover have "\<exists>nd st'. node_parse (element_parse m True enc) True enc Is_Declaration (Some (CHR ''<'' # ?s)) st =
      Inr (nd, Some ([] @ r), st') \<and> same_node (TDeclaration p ver en sa) nd \<and> undisturbed st'"
    using declaration_parse_print[OF assms 1(1), of enc True r p] t by (simp add: node_parse_def)
  ultimately show ?case
    by (intro exI[of _ "[]"] exI[of _ ?s] exI[of _ Is_Declaration] exI[of _ "[]"]) simp
qed


section \<open>The value of an element\<close>

lemma read_value_loop_pw:
  "read_value_loop n True enc elem pw p children st = read_value_loop n True enc elem pw' p children st"
  by (cases n) (simp_all add: text_child_def)

text \<open>The text of a list of children: each print after some white space.\<close>

definition children_text :: "nat \<Rightarrow> (xml_node \<Rightarrow> string) \<Rightarrow> xml_node list \<Rightarrow> string" where
  "children_text d pre cs = concat (map (\<lambda>c. pre c @ node_print d c) cs)"

lemma children_text_simps [simp]:
  "children_text d pre [] = []"
  "children_text d pre (c # cs) = pre c @ node_print d c @ children_text d pre cs"
  by (simp_all add: children_text_def)

lemma print_starts:
  assumes "\<not> plain_text n"
  shows "\<exists>ws s. list_all is_white ws \<and> node_print d n = ws @ CHR ''<'' # s"
proof (cases n)
  case (TElement p nm as cs)
  have "\<exists>s. node_print d (TElement p nm as cs) = indent d @ CHR ''<'' # s"
    by (subst node_print.simps) simp
  then obtain s where s: "node_print d (TElement p nm as cs) = indent d @ CHR ''<'' # s" by blast
  show ?thesis unfolding TElement s
    by (intro exI[of _ "indent d"] exI[of _ s] conjI white_indent refl)
next
  case (TText p v cd)
  with assms show ?thesis by - (rule exI[of _ "[CHR 0x0A] @ indent d"]; auto)
next
  case (TComment p v)
  then show ?thesis by - (rule exI[of _ "indent d"]; auto)
next
  case (TUnknown p v)
  then show ?thesis by - (rule exI[of _ "indent d"]; auto)
next
  case (TDeclaration p ver en sa)
  then show ?thesis by - (rule exI[of _ "[]"]; simp add: declaration_print_def Let_def)
qed

lemma children_follow:
  assumes "\<And>c. list_all is_white (pre c)" and "list_all is_white W" and "t \<noteq> []"
    and "cs = [] \<or> \<not> plain_text (hd cs)"
  shows "\<exists>ws r. children_text d pre cs @ W @ CHR ''<'' # t = ws @ CHR ''<'' # r \<and> list_all is_white ws \<and> r \<noteq> []"
proof (cases cs)
  case Nil
  with assms(2,3) show ?thesis by (intro exI[of _ W] exI[of _ t]) simp
next
  case (Cons c cs')
  with assms(4) obtain ws s where "list_all is_white ws" "node_print d c = ws @ CHR ''<'' # s"
    using print_starts[of c d] by auto
  with Cons assms(1,3) show ?thesis
    by (intro exI[of _ "pre c @ ws"] exI[of _ "s @ children_text d pre cs' @ W @ CHR ''<'' # t"]) auto
qed

lemma node_parse_step:
  assumes "skip_white_space enc (Some text) = Some (CHR ''<'' # s)" and "s \<noteq> []" "hd s \<noteq> CHR ''/''"
    and "identify enc (Some (CHR ''<'' # s)) = Some k"
    and "node_parse elem True enc k (Some (CHR ''<'' # s)) st = Inr (nd, q, st')"
  shows "read_value_loop (Suc n) True enc elem (Some text) (skip_white_space enc (Some text)) acc st =
    read_value_loop n True enc elem q (skip_white_space enc q) (acc @ [nd]) st'"
proof -
  have "\<not> starts_with enc False ''</'' (CHR ''<'' # s)" using assms(2,3) by (cases s) auto
  with assms show ?thesis by (simp del: starts_with.simps)
qed

lemma read_value_end:
  assumes "list_all is_white W" and "t = CHR ''/'' # u"
  shows "read_value_loop (Suc n) True enc elem (Some (W @ CHR ''<'' # t))
      (skip_white_space enc (Some (W @ CHR ''<'' # t))) acc st = Inr (acc, Some (CHR ''<'' # t), st)"
  using skip_lt[OF assms(1), of enc t] assms(2) by simp

lemma text_step:
  assumes v: "plain_value v" "tight True v" "\<not> blank_text v" and ws: "list_all is_white pre" "list_all is_white ws"
    and "undisturbed st" and "r \<noteq> []"
  shows "\<exists>nd st'. read_value_loop (Suc n) True enc elem (Some (pre @ xml_encode_string v @ ws @ CHR ''<'' # r))
      (skip_white_space enc (Some (pre @ xml_encode_string v @ ws @ CHR ''<'' # r))) acc st =
    read_value_loop n True enc elem (Some (CHR ''<'' # r)) (skip_white_space enc (Some (CHR ''<'' # r))) (acc @ [nd]) st'
    \<and> same_node (TText p v False) nd \<and> undisturbed st'"
proof -
  let ?s = "xml_encode_string v @ ws @ CHR ''<'' # r"
  obtain nd st' where nd: "text_parse True enc False False (Some ?s) st = Inr (nd, Some (CHR ''<'' # r), st')"
    "same_node (TText p v False) nd" "text_value nd = v" "undisturbed st'"
    using text_parse_print[OF v(1,2) ws(2) assms(6,7), of enc False p] by auto
  obtain c w where vc: "v = c # w" "c \<noteq> CHR '' ''" using v(2) by (cases v) (auto split: if_splits)
  then have v': "plain_value (c # w)" using v(1) by simp
  note e = plain_value_Cons[OF v']
  have hd: "?s \<noteq> []" "hd ?s = hd (encode_char c)"
    using e encode_char_hd(4)[of c] vc(1) by simp_all
  have lt: "hd ?s \<noteq> CHR ''<''" using hd(2) encode_char_hd(1)[of c] by simp
  have skip: "skip_white_space enc (Some (pre @ ?s)) = Some ?s"
    using skip_white_space_ascii[OF ws(1) hd(1)] hd(2) e encode_char_hd(5,6)[of c] vc(2) by simp
  have tc: "text_child True enc pw (Some ?s) acc st = Inr (acc @ [nd], Some (CHR ''<'' # r), st')" for pw
    using nd(1,3) v(3) by (simp add: text_child_def)
  have "read_value_loop (Suc n) True enc elem (Some (pre @ ?s)) (Some ?s) acc st =
      read_value_loop n True enc elem (Some (CHR ''<'' # r)) (skip_white_space enc (Some (CHR ''<'' # r))) (acc @ [nd]) st'"
    using lt hd(1) tc by (simp del: skip_white_loop.simps)
  with skip nd(2,4) show ?thesis by auto
qed

lemma read_children:
  assumes "\<And>c. list_all is_white (pre c)" and W: "list_all is_white W" and t: "t = CHR ''/'' # u"
  shows "list_all wf_node cs \<Longrightarrow> separated cs \<Longrightarrow> (\<And>c. c \<in> set cs \<Longrightarrow> \<not> plain_text c \<Longrightarrow> reads_back c) \<Longrightarrow>
    undisturbed st \<Longrightarrow> length (children_text d pre cs @ W @ CHR ''<'' # t) \<le> m \<Longrightarrow> length cs < n \<Longrightarrow>
    \<exists>ds st'. read_value_loop n True enc (element_parse m True enc) (Some (children_text d pre cs @ W @ CHR ''<'' # t))
        (skip_white_space enc (Some (children_text d pre cs @ W @ CHR ''<'' # t))) acc st
      = Inr (acc @ ds, Some (CHR ''<'' # t), st') \<and> list_all2 same_node cs ds \<and> undisturbed st'"
proof (induction cs arbitrary: n acc st)
  case Nil
  then obtain n' where "n = Suc n'" by (cases n) auto
  with read_value_end[OF W t, of n' enc] Nil(4) show ?case
    by (intro exI[of _ "[]"] exI[of _ st]) (simp del: read_value_loop.simps)
next
  case (Cons c cs)
  obtain k where n: "n = Suc k" "length cs < k" using Cons.prems(6) by (cases n) auto
  define F where "F = children_text d pre cs @ W @ CHR ''<'' # t"
  have Fne: "F \<noteq> []" by (simp add: F_def)
  have sep: "separated cs" using Cons.prems(2) by (cases cs) auto
  have wf: "list_all wf_node cs" using Cons.prems(1) by simp
  have IH: "\<exists>ds st'. read_value_loop k True enc (element_parse m True enc) q (skip_white_space enc q) (acc @ [nd]) st1
      = Inr (acc @ nd # ds, Some (CHR ''<'' # t), st') \<and> list_all2 same_node cs ds \<and> undisturbed st'"
    if q: "skip_white_space enc q = skip_white_space enc (Some F)" and "undisturbed st1" for q nd st1
  proof -
    have "length F \<le> m" using Cons.prems(5) by (simp add: F_def)
    from Cons.IH[OF wf sep _ that(2) this[unfolded F_def] n(2), of "acc @ [nd]"] Cons.prems(3)
    obtain ds st' where "read_value_loop k True enc (element_parse m True enc) (Some F)
        (skip_white_space enc (Some F)) (acc @ [nd]) st1 = Inr ((acc @ [nd]) @ ds, Some (CHR ''<'' # t), st')"
      "list_all2 same_node cs ds" "undisturbed st'"
      by (auto simp: F_def)
    with q show ?thesis
      by (auto simp: read_value_loop_pw[of k enc _ q _ _ _ "Some F"] simp del: read_value_loop.simps)
  qed
  have step: "\<exists>q nd st1. read_value_loop n True enc (element_parse m True enc)
        (Some (pre c @ node_print d c @ F)) (skip_white_space enc (Some (pre c @ node_print d c @ F))) acc st
      = read_value_loop k True enc (element_parse m True enc) q (skip_white_space enc q) (acc @ [nd]) st1
      \<and> skip_white_space enc q = skip_white_space enc (Some F) \<and> same_node c nd \<and> undisturbed st1"
  proof (cases "plain_text c")
    case True
    then obtain p v where c: "c = TText p v False" by (cases c) auto
    have "cs = [] \<or> \<not> plain_text (hd cs)" using Cons.prems(2) True by (cases cs) auto
    moreover have "t \<noteq> []" using t by simp
    ultimately obtain ws r where F: "F = ws @ CHR ''<'' # r" "list_all is_white ws" "r \<noteq> []"
      using children_follow[where pre = pre, OF assms(1) W, of t cs d] unfolding F_def by blast
    have v: "plain_value v" "tight True v" "\<not> blank_text v" using Cons.prems(1) c by auto
    obtain nd st1 where "read_value_loop n True enc (element_parse m True enc)
        (Some (pre c @ xml_encode_string v @ F)) (skip_white_space enc (Some (pre c @ xml_encode_string v @ F))) acc st
      = read_value_loop k True enc (element_parse m True enc) (Some (CHR ''<'' # r))
          (skip_white_space enc (Some (CHR ''<'' # r))) (acc @ [nd]) st1"
      "same_node c nd" "undisturbed st1"
      using text_step[OF v assms(1)[of c] F(2) Cons.prems(4) F(3)]
      unfolding c n(1) F(1) by blast
    moreover have "skip_white_space enc (Some (CHR ''<'' # r)) = skip_white_space enc (Some F)"
      using F skip_white_space_prefix[OF F(2), of "CHR ''<'' # r" enc] by simp
    ultimately show ?thesis unfolding c node_print.simps if_False by blast
  next
    case False
    have "reads_back c" using Cons.prems(3) False by simp
    moreover have "length (node_print d c @ F) \<le> m" using Cons.prems(5) by (simp add: F_def)
    ultimately obtain ws s kd nd w st1 where c: "node_print d c @ F = ws @ CHR ''<'' # s" "list_all is_white ws"
      "s \<noteq> []" "hd s \<noteq> CHR ''/''" "identify enc (Some (CHR ''<'' # s)) = Some kd"
      "node_parse (element_parse m True enc) True enc kd (Some (CHR ''<'' # s)) st = Inr (nd, Some (w @ F), st1)"
      "list_all is_white w" "same_node c nd" "undisturbed st1"
      using Cons.prems(4) Fne unfolding reads_back_def by meson
    have skip: "skip_white_space enc (Some (pre c @ node_print d c @ F)) = Some (CHR ''<'' # s)"
      unfolding c(1) using skip_lt[of "pre c @ ws" enc s] assms(1) c(2) by simp
    from node_parse_step[OF skip c(3-6), of k acc] c(7-9) skip_white_space_prefix[OF c(7) Fne, of enc]
    show ?thesis unfolding n(1) by blast
  qed
  then obtain q nd st1 where q: "read_value_loop n True enc (element_parse m True enc)
        (Some (pre c @ node_print d c @ F)) (skip_white_space enc (Some (pre c @ node_print d c @ F))) acc st
      = read_value_loop k True enc (element_parse m True enc) q (skip_white_space enc q) (acc @ [nd]) st1"
    "skip_white_space enc q = skip_white_space enc (Some F)" "same_node c nd" "undisturbed st1"
    by blast
  obtain ds st' where ds: "read_value_loop k True enc (element_parse m True enc) q (skip_white_space enc q) (acc @ [nd]) st1
      = Inr (acc @ nd # ds, Some (CHR ''<'' # t), st')" "list_all2 same_node cs ds" "undisturbed st'"
    using IH[OF q(2,4), of nd] by blast
  have eq: "children_text d pre (c # cs) @ W @ CHR ''<'' # t = pre c @ node_print d c @ F"
    by (simp add: F_def)
  show ?case unfolding eq
    using q(1,3) ds by (intro exI[of _ "nd # ds"] exI[of _ st']) simp
qed


section \<open>Elements\<close>

lemma end_tag_print: "end_tag enc nm (Some (''</'' @ nm @ ''>'' @ r)) st = Inr (Some r, st)"
proof -
  have sk: "skip_white_space enc (Some (''>'' @ r)) = Some (''>'' @ r)"
    using skip_white_space_ascii[of "[]" "''>'' @ r" enc] by (simp add: white_code)
  have sw: "starts_with enc False (''</'' @ nm) ((''</'' @ nm) @ ''>'' @ r)"
    by (rule starts_with_append)
  show ?thesis
    using sk sw by (simp add: end_tag_def Let_def)
qed

lemma attr_walk_wf: "list_all wf_attr as \<Longrightarrow> attr_walk as = as"
  by (cases as) (auto simp: attr_walk_def takeWhile_eq_all_conv list_all_iff wf_attr_def wf_name_def)

text \<open>The element up to the end of its start tag.\<close>

lemma element_start:
  assumes "wf_name nm" "list_all wf_attr as" "distinct (map attr_name as)" and "undisturbed st"
    and tail: "tail \<noteq> []" "hd tail = CHR '' '' \<or> hd tail = CHR ''>''"
  shows "\<exists>bs pos st2. list_all2 same_attr as bs \<and> undisturbed st2 \<and>
    element_body reader True enc
      (Some (CHR ''<'' # nm @ concat (map (\<lambda>a. '' '' @ attribute_print a) as) @ tail)) st =
    (case attr_loop True enc tail bs st2 of
       Inl e \<Rightarrow> Inl e
     | Inr (attrs, Tag_Closed q, st) \<Rightarrow> Inr (TElement pos nm attrs [], q, st)
     | Inr (attrs, Tag_Open s, st) \<Rightarrow>
         xbind (reader s st) (\<lambda>(children, q, st).
         xbind (end_tag enc nm q st) (\<lambda>(q, st).
           Inr (TElement pos nm attrs children, q, st))))"
proof -
  let ?A = "concat (map (\<lambda>a. '' '' @ attribute_print a) as)"
  let ?s = "nm @ ?A @ tail"
  obtain st1 where st1: "stamp enc (Some (CHR ''<'' # ?s)) st = Inr st1" "undisturbed st1"
    using stamp_quiet[OF assms(4)] by blast
  obtain bs st2 where bs: "attr_loop True enc (?A @ tail) [] st1 = attr_loop True enc tail bs st2"
    "list_all2 same_attr as bs" "undisturbed st2"
    using attr_loop_print[OF assms(2) _ st1(2) tail(1), of "[]" enc] assms(3) by auto
  have nc: "\<not> name_char (CHR '' '')" "\<not> name_char (CHR ''>'')"
    using name_char_code[of "CHR '' ''"] name_char_code[of "CHR ''>''"] by blast+
  have "hd (?A @ tail) = CHR '' '' \<or> hd (?A @ tail) = CHR ''>''" using tail by (cases as) auto
  then have "\<not> name_char (hd (?A @ tail))" using nc by metis
  then have rn: "read_name (Some ?s) = Inr (nm, Some (?A @ tail))"
    using read_name_wf[OF assms(1)] tail(1) by simp
  have sk: "skip_white_space enc (Some ?s) = Some ?s"
    using skip_name[OF assms(1), of "[]" enc "?A @ tail"] by simp
  have sl: "skip_white_space enc (Some (CHR ''<'' # ?s)) = Some (CHR ''<'' # ?s)"
    using skip_lt[of "[]" enc ?s] by simp
  have "element_body reader True enc (Some (CHR ''<'' # ?s)) st =
      element_rest reader True enc (cursor st1) nm (?A @ tail) st1"
    using sl st1(1) sk rn tail(1) by (simp add: element_body_def Let_def)
  also have "\<dots> = (case attr_loop True enc tail bs st2 of
       Inl e \<Rightarrow> Inl e
     | Inr (attrs, Tag_Closed q, st) \<Rightarrow> Inr (TElement (cursor st1) nm attrs [], q, st)
     | Inr (attrs, Tag_Open s, st) \<Rightarrow>
         xbind (reader s st) (\<lambda>(children, q, st).
         xbind (end_tag enc nm q st) (\<lambda>(q, st).
           Inr (TElement (cursor st1) nm attrs children, q, st))))"
    unfolding element_rest_def bs(1)
    by (cases "attr_loop True enc tail bs st2") (auto split: tag_end.split)
  finally show ?thesis using bs(2,3) by blast
qed

lemma element_children:
  assumes wf: "wf_node (TElement p nm as cs)" and IH: "\<And>c. c \<in> set cs \<Longrightarrow> \<not> plain_text c \<Longrightarrow> reads_back c"
    and pre: "\<And>c. list_all is_white (pre c)" and W: "list_all is_white W" and "undisturbed st"
    and "length (children_text d pre cs @ W @ ''</'' @ nm @ ''>'' @ r) \<le> n" "length cs \<le> n"
  shows "\<exists>nd st'. element_parse (Suc n) True enc
      (Some (CHR ''<'' # nm @ concat (map (\<lambda>a. '' '' @ attribute_print a) as) @ ''>'' @
        children_text d pre cs @ W @ ''</'' @ nm @ ''>'' @ r)) st = Inr (nd, Some r, st')
    \<and> same_node (TElement p nm as cs) nd \<and> undisturbed st'"
proof -
  let ?T = "children_text d pre cs @ W @ ''</'' @ nm @ ''>'' @ r"
  have w: "wf_name nm" "list_all wf_attr as" "distinct (map attr_name as)" "separated cs" "list_all wf_node cs"
    using wf by simp_all
  let ?reader = "read_value (Suc n) True enc (element_parse n True enc)"
  obtain bs pos st2 where e: "list_all2 same_attr as bs" "undisturbed st2"
    "element_body ?reader True enc
      (Some (CHR ''<'' # nm @ concat (map (\<lambda>a. '' '' @ attribute_print a) as) @ ''>'' @ ?T)) st =
      xbind (?reader ?T st2) (\<lambda>(children, q, st).
         xbind (end_tag enc nm q st) (\<lambda>(q, st). Inr (TElement pos nm bs children, q, st)))"
    using element_start[OF w(1-3) assms(5), of "''>'' @ ?T" ?reader enc] attr_loop_open_tag[of enc ?T]
    by auto
  have "CHR ''<'' # (CHR ''/'' # nm @ ''>'' @ r) = ''</'' @ nm @ ''>'' @ r" by simp
  moreover have "length cs < Suc n" using assms(7) by simp
  ultimately obtain ds st3 where v: "?reader ?T st2 = Inr (ds, Some (''</'' @ nm @ ''>'' @ r), st3)"
    "list_all2 same_node cs ds" "undisturbed st3"
    using read_children[where pre = pre and t = "CHR ''/'' # nm @ ''>'' @ r" and acc = "[]" and n = "Suc n",
        OF pre W refl w(5,4) IH e(2), of d n enc] assms(6)
    unfolding read_value_def by (metis append_Nil)
  have "element_parse (Suc n) True enc
      (Some (CHR ''<'' # nm @ concat (map (\<lambda>a. '' '' @ attribute_print a) as) @ ''>'' @ ?T)) st =
      Inr (TElement pos nm bs ds, Some r, st3)"
    unfolding element_parse.simps e(3) v(1) using end_tag_print[of enc nm r st3] by simp
  with e(1) v(2,3) show ?thesis by auto
qed


lemma lower_question: "name_char c \<Longrightarrow> xml_to_lower enc c \<noteq> xml_to_lower enc (CHR ''?'')"
proof -
  assume c: "name_char c"
  have q: "xml_to_lower enc (CHR ''?'') = CHR ''?''"
    by (simp add: xml_to_lower_def to_lower_char_def is_upper_def)
  show ?thesis
  proof (cases "is_upper c")
    case True
    then have "code (char_of (code c + 32) :: char) = code c + 32"
      by (simp add: is_upper_def)
    with True have "code (to_lower_char c) \<noteq> code (CHR ''?'')"
      by (simp add: to_lower_char_def is_upper_def)
    then have "to_lower_char c \<noteq> CHR ''?''" by metis
    moreover have "c \<noteq> CHR ''?''" using name_char_code[OF c] by blast
    ultimately show ?thesis using q by (simp add: xml_to_lower_def)
  next
    case False
    then have "xml_to_lower enc c = c" by (simp add: xml_to_lower_def to_lower_char_def)
    moreover have "c \<noteq> CHR ''?''" using name_char_code[OF c] by blast
    ultimately show ?thesis using q by simp
  qed
qed

lemma identify_element:
  assumes "wf_name nm"
  shows "identify enc (Some (CHR ''<'' # nm @ s)) = Some Is_Element"
proof -
  obtain c t where nm: "nm = c # t" using assms by (cases nm) (auto simp: wf_name_def)
  have c: "name_char c" "xml_is_alpha c \<or> c = CHR ''_''"
    using assms nm by (auto simp: wf_name_def name_start_def)
  have "c \<noteq> CHR ''!''" using name_char_code[OF c(1)] by blast
  with c lower_question[OF c(1), of enc] nm show ?thesis
    by (simp add: identify_lt)
qed

lemma reads_back_element:
  assumes wf: "wf_node (TElement p nm as cs)" and IH: "\<And>c. c \<in> set cs \<Longrightarrow> \<not> plain_text c \<Longrightarrow> reads_back c"
  shows "reads_back (TElement p nm as cs)"
proof (rule reads_backI, goal_cases)
  case (1 d enc st r m)
  let ?A = "concat (map (\<lambda>a. '' '' @ attribute_print a) as)"
  have w: "wf_name nm" "list_all wf_attr as" "distinct (map attr_name as)" using wf by simp_all
  have nm: "c_str nm = nm" "attr_walk as = as"
    using w c_str_name attr_walk_wf by (auto simp: wf_name_def)
  obtain n where m: "m = Suc n" using 1(2,3) by (cases m) auto
  have hd: "hd (nm @ x) \<noteq> CHR ''/''" "nm @ x \<noteq> []" for x
  proof -
    obtain c t where c: "nm = c # t" "name_char c" using w(1) by (cases nm) (auto simp: wf_name_def)
    then show "hd (nm @ x) \<noteq> CHR ''/''" "nm @ x \<noteq> []" using name_char_code[OF c(2)] by auto
  qed
  have done_if: ?case
    if "node_print d (TElement p nm as cs) @ r = indent d @ CHR ''<'' # nm @ s"
      and "\<exists>nd st'. element_parse (Suc n) True enc (Some (CHR ''<'' # nm @ s)) st = Inr (nd, Some r, st')
        \<and> same_node (TElement p nm as cs) nd \<and> undisturbed st'" for s
    using that hd[of s] identify_element[OF w(1), of enc s] m
    by (intro exI[of _ "indent d"] exI[of _ "nm @ s"] exI[of _ Is_Element] exI[of _ "[]"])
      (simp add: node_parse_def del: element_parse.simps)
  have with_children: ?case
    if pre: "\<And>c. list_all is_white (pre c)" and W: "list_all is_white W"
      and pr: "node_print d (TElement p nm as cs) @ r = indent d @ CHR ''<'' # nm @ ?A @ ''>'' @
        children_text (d + 1) pre cs @ W @ ''</'' @ nm @ ''>'' @ r" for pre W
  proof (rule done_if[OF pr])
    have "length cs \<le> length (children_text (d + 1) pre cs)"
    proof -
      have "0 < length (node_print e c)" if "c \<in> set cs" for c e
      proof (cases "plain_text c")
        case True
        then obtain q v where c: "c = TText q v False" by (cases c) auto
        with wf that have v: "plain_value v" "tight True v" by (auto simp: list_all_iff)
        then obtain x y where xy: "v = x # y" by (cases v) auto
        then have "xml_encode_string v = encode_char x @ xml_encode_string y" using plain_value_Cons v(1) by simp
        with c encode_char_hd(4)[of x] show ?thesis by simp
      next
        case False
        with print_starts[OF False, of e] show ?thesis by auto
      qed
      then show ?thesis
      proof (induction cs)
        case (Cons c cs)
        then have "1 \<le> length (node_print (d + 1) c)" "length cs \<le> length (children_text (d + 1) pre cs)"
          by (auto simp: Suc_le_eq)
        then show ?case by simp
      qed simp
    qed
    moreover have "length (children_text (d + 1) pre cs @ W @ ''</'' @ nm @ ''>'' @ r) \<le> n"
      using 1(3) unfolding pr m by simp
    ultimately have "length cs \<le> n" "length (children_text (d + 1) pre cs @ W @ ''</'' @ nm @ ''>'' @ r) \<le> n"
      by simp_all
    then show "\<exists>nd st'. element_parse (Suc n) True enc (Some (CHR ''<'' # nm @ ?A @ ''>'' @
          children_text (d + 1) pre cs @ W @ ''</'' @ nm @ ''>'' @ r)) st = Inr (nd, Some r, st')
        \<and> same_node (TElement p nm as cs) nd \<and> undisturbed st'"
      using element_children[where pre = pre, OF wf IH pre W 1(1)] by blast
  qed
  consider (none) "cs = []" | (one) "length cs = 1" "is_text_node (hd cs)"
    | (many) "cs \<noteq> []" "\<not> (length cs = 1 \<and> is_text_node (hd cs))" by auto
  then show ?case
  proof cases
    case none
    show ?thesis
    proof (rule done_if[of "?A @ '' />'' @ r"])
      show "node_print d (TElement p nm as cs) @ r = indent d @ CHR ''<'' # nm @ ?A @ '' />'' @ r"
        using none nm by simp
      show "\<exists>nd st'. element_parse (Suc n) True enc (Some (CHR ''<'' # nm @ ?A @ '' />'' @ r)) st = Inr (nd, Some r, st')
        \<and> same_node (TElement p nm as cs) nd \<and> undisturbed st'"
        using element_start[OF w 1(1), of "'' />'' @ r" _ enc] attr_loop_empty_tag[of enc r] none
        by fastforce
    qed
  next
    case one
    then have "cs \<noteq> []" by auto
    with one nm show ?thesis
      by (intro with_children[of "\<lambda>c. []" "[]"]) (simp_all add: children_text_def)
  next
    case many
    show ?thesis
      by (rule with_children[of "\<lambda>c. if is_text_node c then [] else [CHR 0x0A]" "[CHR 0x0A] @ indent d"])
        (use many nm in \<open>auto simp: children_text_def\<close>)
  qed
qed

lemma reads_back_node: "wf_node n \<Longrightarrow> \<not> plain_text n \<Longrightarrow> reads_back n"
proof (induction n)
  case (TElement p nm as cs)
  have "reads_back c" if "c \<in> set cs" "\<not> plain_text c" for c
    using TElement.IH[OF that(1)] that TElement.prems(1) by (auto simp: list_all_iff)
  with TElement.prems(1) show ?case by (rule reads_back_element)
next
  case (TText p v cd)
  then show ?case using reads_back_cdata by simp
qed (simp_all add: reads_back_comment reads_back_unknown reads_back_declaration)


section \<open>Documents\<close>

definition wf_document :: "xml_document \<Rightarrow> bool" where
  "wf_document doc \<longleftrightarrow> doc_children doc \<noteq> [] \<and> list_all (\<lambda>n. wf_node n \<and> \<not> plain_text n) (doc_children doc)"

definition nodes_text :: "xml_node list \<Rightarrow> string" where
  "nodes_text ns = concat (map (\<lambda>n. node_print 0 n @ [CHR 0x0A]) ns)"

lemma nodes_text_simps [simp]:
  "nodes_text [] = []" "nodes_text (n # ns) = node_print 0 n @ CHR 0x0A # nodes_text ns"
  by (simp_all add: nodes_text_def)

lemma document_loop_nodes:
  assumes "list_all (\<lambda>n. wf_node n \<and> \<not> plain_text n) ns" and "undisturbed st"
    and "length (nodes_text ns) < n" and "list_all is_white w"
  shows "\<exists>ds q enc' st'. document_loop n True enc (skip_white_space enc (Some (w @ nodes_text ns))) acc st
    = Inr (acc @ ds, q, enc', st') \<and> list_all2 same_node ns ds \<and> undisturbed st'"
  using assms
proof (induction ns arbitrary: n enc acc st w)
  case Nil
  then obtain k where n: "n = Suc k" by (cases n) auto
  have "skip_white_loop enc w = []" using skip_white_prefix[OF Nil(4), of enc "[]"] by simp
  then have "\<not> has_text (skip_white_space enc (Some w))"
    by (simp add: skip_white_space_def)
  with Nil(2) n show ?case by (intro exI[of _ "[]"]) simp
next
  case (Cons nd ns)
  then obtain k where n: "n = Suc k" by (cases n) auto
  have "reads_back nd" using reads_back_node[of nd] Cons.prems(1) by simp
  moreover have "CHR 0x0A # nodes_text ns \<noteq> []" by simp
  moreover have "length (node_print 0 nd @ CHR 0x0A # nodes_text ns) \<le> k" using Cons.prems(3) n by simp
  ultimately obtain ws s kd m w' st1 where c: "node_print 0 nd @ CHR 0x0A # nodes_text ns = ws @ CHR ''<'' # s"
    "list_all is_white ws" "s \<noteq> []" "identify enc (Some (CHR ''<'' # s)) = Some kd"
    "node_parse (element_parse k True enc) True enc kd (Some (CHR ''<'' # s)) st =
      Inr (m, Some (w' @ CHR 0x0A # nodes_text ns), st1)"
    "list_all is_white w'" "same_node nd m" "undisturbed st1"
    using Cons.prems(2) unfolding reads_back_def by metis
  have skip: "skip_white_space enc (Some (w @ nodes_text (nd # ns))) = Some (CHR ''<'' # s)"
    using skip_lt[of "w @ ws" enc s] Cons.prems(4) c(1,2) by simp
  define enc1 where "enc1 = next_encoding enc m"
  have "document_loop n True enc (skip_white_space enc (Some (w @ nodes_text (nd # ns)))) acc st
      = document_loop k True enc1 (skip_white_space enc1 (Some ((w' @ [CHR 0x0A]) @ nodes_text ns))) (acc @ [m]) st1"
    unfolding skip n document_loop.simps using c(4,5) by (simp add: enc1_def Let_def)
  moreover have "list_all (\<lambda>n. wf_node n \<and> \<not> plain_text n) ns" "length (nodes_text ns) < k"
    "list_all is_white (w' @ [CHR 0x0A])"
    using Cons.prems n c(6) by simp_all
  ultimately show ?case
    using Cons.IH[of st1 k "w' @ [CHR 0x0A]" enc1 "acc @ [m]"] c(7,8)
    by (metis append.assoc append_Cons append_Nil list_all2_Cons)
qed

lemma encode_string_ascii: "plain_value v \<Longrightarrow> ascii (xml_encode_string v)"
proof (induction v)
  case (Cons c v)
  note e = plain_value_Cons[OF Cons.prems]
  have d: "n < 16 \<Longrightarrow> code (xml_hex_digit n) < 128" for n by (simp add: xml_hex_digit_def)
  have "code c < 32 \<Longrightarrow> ascii (hex2 (code c))" by (simp add: hex2_def d)
  then have "ascii (encode_char c)" using e by (auto simp: encode_char_def)
  with e Cons.IH show ?case by simp
qed simp

lemma attribute_print_ascii: "wf_attr a \<Longrightarrow> ascii (attribute_print a)"
  by (auto simp: attribute_print_def Let_def wf_attr_def wf_name_def encode_name encode_string_ascii)

lemma ascii_concat: "ascii (concat xs) \<longleftrightarrow> (\<forall>x\<in>set xs. ascii x)"
  by (induction xs) auto

lemma indent_ascii: "ascii (indent d)"
  by (induction d) (auto simp: indent_def)

lemma node_print_ascii: "wf_node n \<Longrightarrow> ascii (node_print d n)"
proof (induction n arbitrary: d)
  case (TElement p nm as cs)
  have w: "ascii nm" "c_str nm = nm" "attr_walk as = as"
    using TElement.prems c_str_name attr_walk_wf by (auto simp: wf_name_def)
  have "ascii (node_print e c)" if "c \<in> set cs" for c e
    using TElement.IH[OF that] TElement.prems that by (auto simp: list_all_iff)
  moreover have "ascii (attribute_print a)" if "a \<in> set as" for a
    using TElement.prems that attribute_print_ascii by (auto simp: list_all_iff)
  ultimately show ?case
    using w by (auto simp: ascii_concat indent_ascii)
next
  case (TText p v cd)
  then show ?case
    by (auto simp: wf_literal_def c_str_id indent_ascii encode_string_ascii split: if_splits)
next
  case (TDeclaration p ver en sa)
  then show ?case
    by (auto simp: wf_decl_def c_str_id declaration_print_def Let_def)
qed (auto simp: wf_literal_def wf_unknown_def c_str_id indent_ascii)

lemma nodes_text_ascii: "list_all (\<lambda>n. wf_node n \<and> \<not> plain_text n) ns \<Longrightarrow> ascii (nodes_text ns)"
  by (induction ns) (auto simp: node_print_ascii)

lemma print_parse:
  assumes "wf_document doc"
  shows "\<exists>q d'. document_parse True enc (document_print doc) new_document = Inr (q, d') \<and>
    doc_error d' = None \<and> list_all2 same_node (doc_children doc) (doc_children d')"
proof -
  let ?ns = "doc_children doc"
  have ns: "list_all (\<lambda>n. wf_node n \<and> \<not> plain_text n) ?ns" "?ns \<noteq> []" using assms by (simp_all add: wf_document_def)
  have p: "document_print doc = nodes_text ?ns" by (simp add: document_print_def nodes_text_def)
  define st where "st = \<lparr>ps_stamp = nodes_text ?ns, ps_row = 0, ps_col = 0, ps_tab = 4, ps_error = None\<rparr>"
  have asc: "ascii (nodes_text ?ns)" by (rule nodes_text_ascii[OF ns(1)])
  have st: "undisturbed st" using asc by (simp add: undisturbed_def st_def)
  have ne: "nodes_text ?ns \<noteq> []" using ns(2) by (cases ?ns) auto
  have nb: "\<not> is_bom (nodes_text ?ns)"
    using asc by (cases "nodes_text ?ns" rule: is_bom.cases) auto
  obtain ds q enc' st' where d: "document_loop (Suc (length (nodes_text ?ns))) True enc
      (skip_white_space enc (Some (nodes_text ?ns))) [] st = Inr (ds, q, enc', st')"
    "list_all2 same_node ?ns ds" "undisturbed st'"
    using document_loop_nodes[OF ns(1) st, of "Suc (length (nodes_text ?ns))" "[]" enc "[]"] by auto
  have "ds \<noteq> []" using d(2) ns(2) by auto
  then have "document_parse True enc (document_print doc) new_document =
      Inr (q, new_document\<lparr>doc_children := ds, doc_error := ps_error st', doc_bom := False\<rparr>)"
    using d(1) ne nb
    by (simp add: document_parse_def p new_document_def st_def Let_def del: document_loop.simps)
  with d(2,3) show ?thesis by (simp add: undisturbed_def)
qed


text \<open>
  C15: What TinyXML writes it reads back. For a document of ASCII characters whose names and
  values the format can carry - no hexadecimal reference in a value, no white space in a text
  that would be condensed, no end tag inside a comment or a CDATA section, no two texts in a
  row - the file written by Print is parsed, whatever the encoding asked for, without an error
  into the same nodes, attributes and values in the same order, up to the positions.
\<close>

theorem xml_print_parse:
  assumes "wf_document doc"
  shows "\<exists>q d'. document_parse True enc (document_print doc) new_document = Inr (q, d') \<and>
    doc_error d' = None \<and> list_all2 same_node (doc_children doc) (doc_children d')"
  by (rule print_parse[OF assms])

definition sample_document :: xml_document where
  "sample_document = new_document\<lparr>doc_children :=
     [TDeclaration no_pos ''1.0'' ''utf-8'' [],
      TElement no_pos ''root'' [\<lparr>attr_pos = no_pos, attr_name = ''num'', attr_value = ''a<b''\<rparr>]
        [TComment no_pos '' x '', TElement no_pos ''user'' [] [TText no_pos ''R & D'' False],
         TText no_pos ''z'' True]]\<rparr>"

lemma xml_print_parse_witness:
  "wf_document sample_document \<and>
   (\<exists>q d'. document_parse True Enc_Unknown (document_print sample_document) new_document = Inr (q, d') \<and>
      doc_error d' = None \<and> list_all2 same_node (doc_children sample_document) (doc_children d'))"
proof -
  have "wf_document sample_document" by code_simp
  with xml_print_parse[OF this, of Enc_Unknown] show ?thesis by blast
qed




section \<open>Faults\<close>

declare stamp_loop_eq [code]

text \<open>
  A first byte of a mark at the end of a UTF-8 text makes \<open>Stamp\<close> loop for ever.
\<close>

lemma xml_parse_hangs:
  "document_parse True Enc_UTF8 [CHR ''<'', CHR 0xEF, CHR ''=''] new_document = Inl Hangs"
  by code_simp

text \<open>A character cut short by the end of the text is read past the end.\<close>

lemma xml_parse_past_end:
  "document_parse True Enc_UTF8 [CHR ''<'', CHR ''a'', CHR ''>'', CHR 0xC3] new_document = Inl Past_End"
  by code_simp

text \<open>A declaration cut short after white space fails an assertion.\<close>

lemma xml_parse_asserts:
  "document_parse True Enc_Unknown ''<?xml '' new_document = Inl Assert_Failed"
  by code_simp

text \<open>An ampersand that starts no entity is lost.\<close>

lemma xml_parse_drops_ampersand:
  "(case document_parse True Enc_Unknown ''<a>R&D </a>'' new_document of
      Inr (q, d) \<Rightarrow> doc_error d = None \<and> map elem_children (doc_children d) = [[TText (0, 3) ''RD'' False]]
    | _ \<Rightarrow> False)"
  by code_simp

text \<open>A comment or a declaration that does not end is no error.\<close>

lemma xml_parse_unterminated:
  "(case document_parse True Enc_Unknown ''<!-- <a/>'' new_document of
      Inr (q, d) \<Rightarrow> doc_error d = None \<and> doc_children d = [TComment (0, 0) '' <a/>''] | _ \<Rightarrow> False)"
  "(case document_parse True Enc_Unknown ''<?xml version=1'' new_document of
      Inr (q, d) \<Rightarrow> doc_error d = None \<and> length (doc_children d) = 1 | _ \<Rightarrow> False)"
  by code_simp+

text \<open>What follows the last node of a document is not looked at.\<close>

lemma xml_parse_trailing:
  "(case document_parse True Enc_Unknown ''<a/> junk <b/>'' new_document of
      Inr (q, d) \<Rightarrow> doc_error d = None \<and> q = Some ''junk <b/>'' \<and> length (doc_children d) = 1 | _ \<Rightarrow> False)"
  by code_simp

end
