(* ===== verification/Robot_Config_File.thy ===== *)
theory Robot_Config_File
  imports Robot_Config Tiny_Xml_Correct
begin

text \<open>
  The loaders of \<^verbatim>\<open>Include/robot_config/Header/config.h\<close> on the text of their files: TinyXML
  parses the file, and the loader goes through the document it made.
\<close>


section \<open>Documents as the loaders see them\<close>

text \<open>
  What \<open>Value\<close>, \<open>FirstChild\<close>, \<open>ToElement\<close> and \<open>ToText\<close> tell of a node: an unknown node has a
  value, a declaration the empty one.
\<close>

fun xml_view :: "xml_node \<Rightarrow> xml" where
  "xml_view (TElement p nm attrs cs) = XElem nm (map xml_view cs)"
| "xml_view (TText p v cd) = XText v"
| "xml_view (TComment p v) = XComment v"
| "xml_view (TUnknown p v) = XComment v"
| "xml_view (TDeclaration p ver en sa) = XComment []"

definition load_document :: "files \<Rightarrow> string \<Rightarrow> xml list option xml_run" where
  "load_document fs nm =
     xbind (tinyxml_load_file True Enc_Unknown
              (case fs nm of None \<Rightarrow> No_File | Some t \<Rightarrow> Contents t) new_document)
       (\<lambda>(ok, d). Inr (if ok then Some (map xml_view (doc_children d)) else None))"

text \<open>
  The service is modelled over a function from texts to documents; this is TinyXML's, on the
  texts it parses.
\<close>

definition tinyxml_text :: "string \<Rightarrow> xml list option" where
  "tinyxml_text t =
     (case tinyxml_load_file True Enc_Unknown (Contents t) new_document of
        Inl e \<Rightarrow> None
      | Inr (ok, d) \<Rightarrow> if ok then Some (map xml_view (doc_children d)) else None)"

lemma load_document_text: "load_document fs nm = Inr doc \<Longrightarrow> load_file tinyxml_text fs nm = doc"
  by (cases "fs nm"; cases "tinyxml_load_file True Enc_Unknown (Contents (the (fs nm))) new_document")
    (auto simp: load_document_def load_file_def tinyxml_text_def tinyxml_load_file_def)

definition load_mysql_file :: "files \<Rightarrow> config \<Rightarrow> (bool \<times> config) outcome xml_run" where
  "load_mysql_file fs c =
     xbind (load_document fs ''mysql_config.xml'') (\<lambda>doc. Inr (loadmysql_config doc c))"

definition load_photo_file :: "files \<Rightarrow> config \<Rightarrow> (bool \<times> config) outcome xml_run" where
  "load_photo_file fs c =
     xbind (load_document fs ''photo_config.xml'') (\<lambda>doc. Inr (loadphoto_config doc c))"

definition load_server_file :: "files \<Rightarrow> config \<Rightarrow> (bool \<times> config) outcome xml_run" where
  "load_server_file fs c =
     xbind (load_document fs ''server_config.xml'') (\<lambda>doc. Inr (loadserver_config doc c))"


section \<open>A file that was printed\<close>

lemma same_node_view: "same_node a b \<Longrightarrow> xml_view a = xml_view b"
proof (induction a arbitrary: b)
  case (TElement p nm attrs cs)
  then obtain q bs ds where b: "b = TElement q nm bs ds" "list_all2 same_node cs ds"
    by (cases b) auto
  from b(2) TElement.IH have "map xml_view cs = map xml_view ds"
  proof (induction cs ds rule: list_all2_induct)
    case (Cons c cs d ds)
    then show ?case by simp
  qed simp
  with b(1) show ?case by simp
qed (auto split: xml_node.splits)

lemma same_nodes_view: "list_all2 same_node as bs \<Longrightarrow> map xml_view as = map xml_view bs"
  by (induction as bs rule: list_all2_induct) (auto simp: same_node_view)

lemma normalize_eol_id: "CHR 0x0D \<notin> set s \<Longrightarrow> normalize_eol s = s"
  by (induction s rule: normalize_eol.induct) auto

definition printable :: "xml_document \<Rightarrow> bool" where
  "printable doc \<longleftrightarrow> CHR 0x00 \<notin> set (document_print doc) \<and> CHR 0x0D \<notin> set (document_print doc)"

lemma load_printed:
  assumes "wf_document doc" and "printable doc" and "fs nm = Some (document_print doc)"
  shows "load_document fs nm = Inr (Some (map xml_view (doc_children doc)))"
proof -
  obtain q d' where d: "document_parse True Enc_Unknown (document_print doc) new_document = Inr (q, d')"
    "doc_error d' = None" "list_all2 same_node (doc_children doc) (doc_children d')"
    using print_parse[OF assms(1), of Enc_Unknown] by blast
  have ne: "document_print doc \<noteq> []"
    using assms(1) by (cases "doc_children doc") (auto simp: wf_document_def document_print_def)
  have eol: "normalize_eol (c_str (document_print doc)) = document_print doc"
    using assms(2) by (simp add: printable_def c_str_id normalize_eol_id)
  have "new_document\<lparr>doc_children := []\<rparr> = new_document" by (simp add: new_document_def)
  with d ne eol same_nodes_view[OF d(3)] assms(3) show ?thesis
    by (simp add: load_document_def tinyxml_load_file_def)
qed


section \<open>The configuration files\<close>

text \<open>A value a file can hold, as it is loaded back.\<close>

definition clean :: "string \<Rightarrow> bool" where
  "clean v \<longleftrightarrow> plain_value v \<and> tight True v \<and> list_all (\<lambda>c. 32 \<le> code c) v"

definition item :: "string \<Rightarrow> string \<Rightarrow> xml_node" where
  "item nm v = TElement no_pos nm [] [TText no_pos v False]"

definition config_document :: "string \<Rightarrow> (string \<times> string) list \<Rightarrow> xml_document" where
  "config_document grp items = new_document\<lparr>doc_children :=
     [TDeclaration no_pos ''1.0'' ''utf-8'' [],
      TElement no_pos ''root'' [] [TElement no_pos grp [] (map (\<lambda>(nm, v). item nm v) items)]]\<rparr>"

definition mysql_document :: "mysql_config \<Rightarrow> xml_document" where
  "mysql_document s = config_document ''databases''
     [(''user'', sql_user s), (''password'', sql_passwd s), (''server_ip'', sql_ip s),
      (''port'', sql_port s), (''dbname'', sql_dbname s)]"

definition server_document :: "server_config \<Rightarrow> xml_document" where
  "server_document s = config_document ''server''
     [(''server_ip'', server_ip s), (''server_port'', show_int (uint (server_port s))),
      (''doc_root'', doc_root s), (''threads'', show_int (threads s)),
      (''robot_ip'', robot_ip s), (''ea_ip'', ea_ip s), (''ea_port'', ea_port s),
      (''robot_port'', robot_port s), (''timeout'', show_int (timeout s)),
      (''take_photo_times'', show_int (cn_photo s))]"


definition wf_item :: "string \<times> string \<Rightarrow> bool" where
  "wf_item i \<longleftrightarrow> wf_name (fst i) \<and> clean (snd i)"

lemma clean_not_blank: "clean v \<Longrightarrow> \<not> blank_text v"
proof -
  assume v: "clean v"
  then obtain c w where "v = c # w" "c \<noteq> CHR '' ''" "32 \<le> code c"
    by (cases v) (auto simp: clean_def split: if_splits)
  then show ?thesis by (auto simp: blank_text_def white_code)
qed

lemma clean_c_str: "clean v \<Longrightarrow> c_str v = v"
  by (rule c_str_id) (auto simp: clean_def list_all_iff)

lemma wf_items: "list_all wf_item items \<Longrightarrow>
    list_all wf_node (map (\<lambda>(nm, v). item nm v) items) \<and> separated (map (\<lambda>(nm, v). item nm v) items)"
proof (induction items rule: induct_list012)
  case (2 i)
  then show ?case by (cases i) (auto simp: wf_item_def item_def clean_def clean_not_blank)
next
  case (3 i j rest)
  then show ?case by (cases i; cases j) (auto simp: wf_item_def item_def clean_def clean_not_blank)
qed simp

lemma wf_config_document:
  assumes "wf_name grp" and "list_all wf_item items"
  shows "wf_document (config_document grp items)"
proof -
  have r: "wf_name ''root''"
    by (simp add: wf_name_def name_start_def name_char_def xml_is_alpha_def xml_is_alnum_def is_letter_def
        is_alnum_def is_lower_def)
  show ?thesis
    using assms wf_items[OF assms(2)] r
    by (simp add: wf_document_def config_document_def new_document_def wf_decl_def)
qed

text \<open>The characters of a printed configuration: none below 32 but the line feed.\<close>

definition visible :: "string \<Rightarrow> bool" where
  "visible s \<longleftrightarrow> list_all (\<lambda>c. 32 \<le> code c \<or> c = CHR 0x0A) s"

lemma visible_simps [simp]:
  "visible []" "visible (c # s) \<longleftrightarrow> (32 \<le> code c \<or> c = CHR 0x0A) \<and> visible s"
  "visible (s @ t) \<longleftrightarrow> visible s \<and> visible t"
  by (auto simp: visible_def)

lemma visible_concat: "(\<And>x. x \<in> set xs \<Longrightarrow> visible x) \<Longrightarrow> visible (concat xs)"
  by (induction xs) auto

lemma visible_indent [simp]: "visible (indent d)"
  by (induction d) (auto simp: indent_def)

lemma visible_name: "wf_name nm \<Longrightarrow> visible nm"
proof -
  assume "wf_name nm"
  then have "\<forall>c\<in>set nm. name_char c" by (simp add: wf_name_def list_all_iff)
  then have "\<forall>c\<in>set nm. 32 < code c" using name_char_code by blast
  then show ?thesis by (auto simp: visible_def list_all_iff)
qed

lemma visible_encode: "clean v \<Longrightarrow> visible (xml_encode_string v)"
proof -
  assume "clean v"
  then have "plain_value v" "list_all (\<lambda>c. 32 \<le> code c) v" by (simp_all add: clean_def)
  then show ?thesis
  proof (induction v)
    case (Cons c v)
    note e = plain_value_Cons[OF Cons.prems(1)]
    have "visible (encode_char c)" using Cons.prems(2) by (auto simp: encode_char_def)
    with e Cons show ?case by simp
  qed simp
qed

lemma visible_item: "wf_item (nm, v) \<Longrightarrow> visible (node_print d (item nm v))"
  using visible_name[of nm] visible_encode[of v] c_str_name[of nm]
  by (simp add: wf_item_def item_def wf_name_def attr_walk_def)

lemma visible_config:
  assumes "wf_name grp" and "list_all wf_item items"
  shows "visible (document_print (config_document grp items))"
proof -
  have g: "c_str grp = grp" "visible grp"
    using assms(1) c_str_name visible_name by (auto simp: wf_name_def)
  have lit: "c_str ''root'' = ''root''" "c_str ''1.0'' = ''1.0''" "c_str ''utf-8'' = ''utf-8''"
    by (simp_all add: c_str_def)
  have i: "visible (node_print d (case i of (nm, v) \<Rightarrow> item nm v))" if "i \<in> set items" for i d
    using assms(2) that visible_item[of "fst i" "snd i"] by (cases i) (auto simp: list_all_iff)
  have "visible (concat (map (\<lambda>c. (if is_text_node c then [] else [CHR 0x0A]) @ node_print (Suc (Suc 0)) c)
      (map (\<lambda>(nm, v). item nm v) items)))"
    by (rule visible_concat) (use i[of _ "Suc (Suc 0)"] in auto)
  moreover have "visible (concat (map (node_print (Suc (Suc 0))) (map (\<lambda>(nm, v). item nm v) items)))"
    by (rule visible_concat) (use i[of _ "Suc (Suc 0)"] in auto)
  ultimately show ?thesis
    using g lit by (simp add: document_print_def config_document_def new_document_def attr_walk_def
        declaration_print_def Let_def)
qed

lemma config_printable:
  assumes "wf_name grp" and "list_all wf_item items"
  shows "printable (config_document grp items)"
  using visible_config[OF assms] by (auto simp: printable_def visible_def list_all_iff)

lemma load_config_document:
  assumes "wf_name grp" and "list_all wf_item items"
    and "fs nm = Some (document_print (config_document grp items))"
  shows "load_document fs nm = Inr (Some [XComment [],
    XElem ''root'' [XElem grp (map (\<lambda>(nm, v). XElem nm [XText v]) items)]])"
proof -
  have "map xml_view (map (\<lambda>(nm, v). item nm v) items) = map (\<lambda>(nm, v). XElem nm [XText v]) items"
    by (simp add: item_def case_prod_beta)
  with load_printed[where fs = fs and nm = nm,
      OF wf_config_document[OF assms(1,2)] config_printable[OF assms(1,2)] assms(3)]
  show ?thesis by (simp add: config_document_def)
qed


section \<open>The fields of the files\<close>

lemma names_wf [simp]:
  "wf_name ''databases''" "wf_name ''server''" "wf_name ''user''" "wf_name ''password''"
  "wf_name ''server_ip''" "wf_name ''port''" "wf_name ''dbname''" "wf_name ''server_port''"
  "wf_name ''doc_root''" "wf_name ''threads''" "wf_name ''robot_ip''" "wf_name ''ea_ip''"
  "wf_name ''ea_port''" "wf_name ''robot_port''" "wf_name ''timeout''" "wf_name ''take_photo_times''"
  by (simp_all add: wf_name_def name_start_def name_char_def xml_is_alpha_def xml_is_alnum_def
      is_letter_def is_alnum_def is_lower_def)

lemma clean_digits: "list_all (\<lambda>c. is_digit c \<or> c = CHR ''-'') v \<Longrightarrow> v \<noteq> [] \<Longrightarrow> clean v"
proof -
  assume d: "list_all (\<lambda>c. is_digit c \<or> c = CHR ''-'') v" and "v \<noteq> []"
  have c: "code c < 128 \<and> 32 \<le> code c \<and> c \<noteq> CHR '' '' \<and> c \<noteq> CHR ''&''" if "is_digit c \<or> c = CHR ''-''" for c
    using that by (auto simp: is_digit_def)
  have "ascii v" "list_all (\<lambda>c. 32 \<le> code c) v" "no_ref v" "tight False v"
    using d by (induction v) (use c in auto)
  moreover have "tight True v" using calculation(4) \<open>v \<noteq> []\<close> d c by (cases v) auto
  ultimately show ?thesis by (simp add: clean_def plain_value_def)
qed

lemma clean_show_int: "clean (show_int i)"
  using show_nat_digits by (intro clean_digits) (auto simp: show_int_def list_all_iff)

definition int32 :: "int \<Rightarrow> bool" where
  "int32 i \<longleftrightarrow> - (2 ^ 31) \<le> i \<and> i < 2 ^ 31"

lemma number_of_item:
  assumes "int32 i"
  shows "number_of (Some (XElem nm [XText (show_int i)])) = Done i"
  using assms clean_c_str[OF clean_show_int, of i] atoi_show_int[of i]
  by (simp add: number_of_def text_of_def get_text_def int32_def)

lemma text_of_item: "clean v \<Longrightarrow> text_of (Some (XElem nm [XText v])) = Done v"
  by (simp add: text_of_def get_text_def clean_c_str)

definition clean_mysql :: "mysql_config \<Rightarrow> bool" where
  "clean_mysql s \<longleftrightarrow> list_all clean [sql_user s, sql_passwd s, sql_ip s, sql_port s, sql_dbname s]"

definition clean_server :: "server_config \<Rightarrow> bool" where
  "clean_server s \<longleftrightarrow>
     list_all clean [server_ip s, doc_root s, robot_ip s, ea_ip s, ea_port s, robot_port s] \<and>
     list_all int32 [threads s, timeout s, cn_photo s]"

text \<open>The entry of a group with the given name, in the document of a configuration.\<close>

lemma entry_at_config:
  "entry_at [XComment [], XElem ''root'' [XElem grp es]] grp nm =
     to_element (find (\<lambda>c. xml_value c = nm) es)"
  by (simp add: entry_at_def root_element_def first_child_named_def)

lemma uint16_int32: "int32 (uint (w :: u16))"
proof -
  have "uint w < 2 ^ 16" using uint_lt2p[of w] by simp
  moreover have "- (2 ^ 31) \<le> uint w" by (rule order_trans[OF _ uint_ge_0]) simp
  ultimately show ?thesis unfolding int32_def by simp
qed

lemma load_mysql_printed:
  assumes "clean_mysql s" and "fs ''mysql_config.xml'' = Some (document_print (mysql_document s))"
  shows "load_mysql_file fs c = Inr (Done (True, c\<lparr>sql_config := s\<rparr>))"
proof -
  let ?items = "[(''user'', sql_user s), (''password'', sql_passwd s), (''server_ip'', sql_ip s),
      (''port'', sql_port s), (''dbname'', sql_dbname s)]"
  have w: "list_all wf_item ?items" using assms(1) by (simp add: wf_item_def clean_mysql_def)
  have l: "load_document fs ''mysql_config.xml'' = Inr (Some [XComment [],
      XElem ''root'' [XElem ''databases'' (map (\<lambda>(nm, v). XElem nm [XText v]) ?items)]])"
    by (rule load_config_document[OF names_wf(1) w]) (use assms(2) in \<open>simp add: mysql_document_def\<close>)
  show ?thesis
    using assms(1) unfolding load_mysql_file_def l
    by (simp add: loadmysql_config_def entry_at_config to_element_def text_of_item clean_mysql_def Let_def)
qed

lemma load_server_printed:
  assumes "clean_server s" and "fs ''server_config.xml'' = Some (document_print (server_document s))"
  shows "load_server_file fs c = Inr (Done (True, c\<lparr>ser_config := s\<rparr>))"
proof -
  let ?items = "[(''server_ip'', server_ip s), (''server_port'', show_int (uint (server_port s))),
      (''doc_root'', doc_root s), (''threads'', show_int (threads s)),
      (''robot_ip'', robot_ip s), (''ea_ip'', ea_ip s), (''ea_port'', ea_port s),
      (''robot_port'', robot_port s), (''timeout'', show_int (timeout s)),
      (''take_photo_times'', show_int (cn_photo s))]"
  have w: "list_all wf_item ?items" using assms(1) by (simp add: wf_item_def clean_server_def clean_show_int)
  have l: "load_document fs ''server_config.xml'' = Inr (Some [XComment [],
      XElem ''root'' [XElem ''server'' (map (\<lambda>(nm, v). XElem nm [XText v]) ?items)]])"
    by (rule load_config_document[OF names_wf(2) w]) (use assms(2) in \<open>simp add: server_document_def\<close>)
  show ?thesis
    using assms(1) unfolding load_server_file_def l
    by (simp add: loadserver_config_def entry_at_config to_element_def text_of_item number_of_item
        uint16_int32 clean_server_def Let_def)
qed


text \<open>
  C14: From the file to the configuration. When the two files are the documents TinyXML writes
  for a database configuration and a server configuration - texts the format can carry and
  numbers of 32 bits - the loaders read the files without an error and set every field to the
  value it had, the numbers through their decimal text; nothing else of the configuration
  changes.
\<close>

theorem config_files_load:
  assumes "clean_mysql s" and "fs ''mysql_config.xml'' = Some (document_print (mysql_document s))"
    and "clean_server t" and "fs ''server_config.xml'' = Some (document_print (server_document t))"
  shows "load_mysql_file fs c = Inr (Done (True, c\<lparr>sql_config := s\<rparr>)) \<and>
    load_server_file fs c = Inr (Done (True, c\<lparr>ser_config := t\<rparr>))"
  using load_mysql_printed[where fs = fs, OF assms(1,2)] load_server_printed[where fs = fs, OF assms(3,4)]
  by blast

definition sample_mysql :: mysql_config where
  "sample_mysql = \<lparr>sql_ip = ''10.0.0.1'', sql_port = ''3306'', sql_user = ''robot'',
     sql_passwd = ''a<b & c'', sql_dbname = ''HZRobot''\<rparr>"

definition sample_server :: server_config where
  "sample_server = \<lparr>server_ip = ''0.0.0.0'', server_port = 10088, doc_root = ''.'', threads = 4,
     robot_ip = ''192.168.1.235'', robot_port = ''8080'', ea_ip = ''192.168.65.54'', ea_port = ''9989'',
     timeout = 9000, cn_photo = 3\<rparr>"

definition sample_files :: files where
  "sample_files nm =
     (if nm = ''mysql_config.xml'' then Some (document_print (mysql_document sample_mysql))
      else if nm = ''server_config.xml'' then Some (document_print (server_document sample_server))
      else None)"

lemma config_files_load_witness:
  "\<forall>c. load_mysql_file sample_files c = Inr (Done (True, c\<lparr>sql_config := sample_mysql\<rparr>)) \<and>
     load_server_file sample_files c = Inr (Done (True, c\<lparr>ser_config := sample_server\<rparr>))"
proof -
  have "clean_mysql sample_mysql" "clean_server sample_server"
    by code_simp+
  moreover have "sample_files ''mysql_config.xml'' = Some (document_print (mysql_document sample_mysql))"
    "sample_files ''server_config.xml'' = Some (document_print (server_document sample_server))"
    by (simp_all add: sample_files_def)
  ultimately show ?thesis using config_files_load by blast
qed


section \<open>What a missing or damaged file does\<close>

text \<open>A file that is missing, empty or not read leaves the configuration as it is.\<close>

lemma load_missing:
  assumes "fs ''mysql_config.xml'' = None \<or> fs ''mysql_config.xml'' = Some []"
  shows "load_mysql_file fs c = Inr (Done (False, c))"
  using assms
  by (auto simp: load_mysql_file_def load_document_def tinyxml_load_file_def new_document_def
      doc_set_error_def loadmysql_config_def)

text \<open>
  A file of a declaration alone is loaded without an error; the loader then goes through null
  pointers. The text of the file decides whether the process survives.
\<close>

lemma load_declaration_only:
  "load_mysql_file (\<lambda>nm. Some ''<?xml version=1'') c = Inr Undef"
proof -
  have "load_document (\<lambda>nm. Some ''<?xml version=1'') nm = Inr (Some [XComment []])" for nm
  proof -
    have "load_document (\<lambda>nm. Some ''<?xml version=1'') [] = Inr (Some [XComment []])" by code_simp
    then show ?thesis by (simp add: load_document_def)
  qed
  then show ?thesis
    by (simp add: load_mysql_file_def loadmysql_config_def entry_at_def root_element_def
        first_child_named_def to_element_def text_of_def get_text_def Let_def)
qed

end
